(* ===== verification/Arion_Prelude.thy ===== *)
theory Arion_Prelude
  imports Complex_Main "HOL-Library.Word" "HOL-Library.Monad_Syntax"
begin

text \<open>
  Shared vocabulary of the development: machine integers, the byte-addressed memory a C
  pointer walks over, and the lemmas that let \<open>simp\<close> carry reads over writes.

  A block of memory (a packet between \<open>data\<close> and \<open>data_end\<close>, or a header kept in a struct) is
  a list of bytes; a pointer into it is an offset. A load or store is a partial function: it
  is \<open>None\<close> when any byte of the access lies outside the block, which in C is an out-of-bounds
  access (for an XDP program, one the verifier has to exclude). Multi-byte accesses are
  little-endian, as on the x86 hosts the constants of the source are written for
  (\<open>VXL_DSTPORT\<close> is \<open>0xb512\<close> for port 4789 = \<open>0x12b5\<close>).
\<close>

unbundle bit_operations_syntax

type_synonym u8 = "8 word"
type_synonym u16 = "16 word"
type_synonym u32 = "32 word"
type_synonym u64 = "64 word"
type_synonym bytes = "u8 list"

named_theorems mem_simps "reads, writes and lengths of byte memory"
named_theorems step_simps "one call of a data-path step on an in-bounds packet"

declare add_2_eq_Suc [simp del] add_2_eq_Suc' [simp del]

section \<open>Little-endian composition\<close>

definition le16 :: "u8 \<Rightarrow> u8 \<Rightarrow> u16" where
  "le16 a b = ucast a OR push_bit 8 (ucast b)"

definition lo8 :: "u16 \<Rightarrow> u8" where "lo8 w = ucast w"
definition hi8 :: "u16 \<Rightarrow> u8" where "hi8 w = ucast (drop_bit 8 w)"

definition le32 :: "u16 \<Rightarrow> u16 \<Rightarrow> u32" where
  "le32 a b = ucast a OR push_bit 16 (ucast b)"

definition lo16 :: "u32 \<Rightarrow> u16" where "lo16 w = ucast w"
definition hi16 :: "u32 \<Rightarrow> u16" where "hi16 w = ucast (drop_bit 16 w)"

lemma le16_lo_hi [simp]: "le16 (lo8 w) (hi8 w) = w"
  by (rule bit_eqI) (auto simp: le16_def lo8_def hi8_def bit_simps)

lemma lo8_le16 [simp]: "lo8 (le16 a b) = a"
  by (rule bit_eqI) (auto simp: le16_def lo8_def bit_simps)

lemma hi8_le16 [simp]: "hi8 (le16 a b) = b"
  by (rule bit_eqI) (auto simp: le16_def hi8_def bit_simps dest: bit_imp_le_length)

lemma le32_lo_hi [simp]: "le32 (lo16 w) (hi16 w) = w"
  by (rule bit_eqI) (auto simp: le32_def lo16_def hi16_def bit_simps)

lemma lo16_le32 [simp]: "lo16 (le32 a b) = a"
  by (rule bit_eqI) (auto simp: le32_def lo16_def bit_simps)

lemma hi16_le32 [simp]: "hi16 (le32 a b) = b"
  by (rule bit_eqI) (auto simp: le32_def hi16_def bit_simps dest: bit_imp_le_length)

lemma le16_inject [simp]: "le16 a b = le16 c d \<longleftrightarrow> a = c \<and> b = d"
  by (metis lo8_le16 hi8_le16)

lemma le32_inject [simp]: "le32 a b = le32 c d \<longleftrightarrow> a = c \<and> b = d"
  by (metis lo16_le32 hi16_le32)

lemma unat_le16: "unat (le16 a b) = unat a + 256 * unat b"
proof -
  have "ucast a AND push_bit 8 (ucast b :: u16) = 0"
    by (rule bit_eqI) (auto simp: bit_simps dest: bit_imp_le_length)
  then have "le16 a b = ucast a + push_bit 8 (ucast b)"
    unfolding le16_def by (metis disjunctive_add bit_and_iff bit_0_eq bot_apply bot_bool_def)
  moreover have "unat a < 256" "unat b < 256"
    using unsigned_less [of a] unsigned_less [of b] by simp_all
  ultimately show ?thesis
    by (simp add: unat_word_ariths push_bit_eq_mult unsigned_ucast_eq take_bit_eq_mod)
qed

lemma unat_lt:
  "unat (a :: u8) < 256" "unat (b :: u16) < 65536" "unat (c :: u32) < 4294967296"
  using unsigned_less [where 'a = nat, of a] unsigned_less [where 'a = nat, of b]
    unsigned_less [where 'a = nat, of c] by simp_all

lemma unat_le: "unat (a :: u8) \<le> 255" "unat (b :: u16) \<le> 65535"
  using unat_lt(1) [of a] unat_lt(2) [of b] by linarith+

lemma unat_ucast_up [simp]:
  "unat (ucast (b :: u16) :: u64) = unat b" "unat (ucast (c :: u32) :: u64) = unat c"
  "unat (ucast (b :: u16) :: u32) = unat b" "unat (ucast (a :: u8) :: u32) = unat a"
  by (simp_all add: unsigned_ucast_eq take_bit_eq_mod less_trans [OF unat_lt(1)]
      less_trans [OF unat_lt(2)] less_trans [OF unat_lt(3)])

lemma ucast_ucast_16_64 [simp]: "ucast (ucast (w :: u16) :: u64) = w"
  by (rule bit_eqI) (auto simp: bit_simps)

lemma unat_NOT: "unat (NOT (w :: 'a::len word)) = 2 ^ LENGTH('a) - 1 - unat w"
proof -
  have "NOT w = - 1 - w" by (simp add: not_eq_complement)
  moreover have "unat (- 1 - w) = unat (- 1 :: 'a word) - unat w"
    by (rule unat_sub) simp
  ultimately show ?thesis by (simp add: unsigned_minus_1_eq_mask mask_eq_exp_minus_1)
qed

section \<open>Total reads and writes\<close>

definition get8 :: "bytes \<Rightarrow> nat \<Rightarrow> u8" where "get8 b i = b ! i"
definition get16 :: "bytes \<Rightarrow> nat \<Rightarrow> u16" where "get16 b i = le16 (b ! i) (b ! Suc i)"
definition get32 :: "bytes \<Rightarrow> nat \<Rightarrow> u32" where
  "get32 b i = le32 (get16 b i) (get16 b (i + 2))"

definition put8 :: "bytes \<Rightarrow> nat \<Rightarrow> u8 \<Rightarrow> bytes" where "put8 b i v = b[i := v]"
definition put16 :: "bytes \<Rightarrow> nat \<Rightarrow> u16 \<Rightarrow> bytes" where
  "put16 b i v = b[i := lo8 v, Suc i := hi8 v]"
definition put32 :: "bytes \<Rightarrow> nat \<Rightarrow> u32 \<Rightarrow> bytes" where
  "put32 b i v = put16 (put16 b i (lo16 v)) (i + 2) (hi16 v)"

lemma length_put [simp]:
  "length (put8 b i x) = length b" "length (put16 b i y) = length b"
  "length (put32 b i z) = length b"
  by (simp_all add: put8_def put16_def put32_def)

lemma nth_put8: "k < length b \<Longrightarrow> put8 b i v ! k = (if k = i then v else b ! k)"
  by (simp add: put8_def nth_list_update)

lemma nth_put16: "k < length b \<Longrightarrow>
    put16 b i v ! k = (if k = i then lo8 v else if k = Suc i then hi8 v else b ! k)"
  by (simp add: put16_def nth_list_update)

lemma nth_put32: "k < length b \<Longrightarrow>
    put32 b i v ! k = (if i \<le> k \<and> k < i + 4
      then [lo8 (lo16 v), hi8 (lo16 v), lo8 (hi16 v), hi8 (hi16 v)] ! (k - i) else b ! k)"
  by (auto simp: put32_def nth_put16 nth_Cons')

section \<open>Bounds-checked loads and stores\<close>

definition rd8 :: "bytes \<Rightarrow> nat \<Rightarrow> u8 option" where
  "rd8 b i = (if i + 1 \<le> length b then Some (get8 b i) else None)"
definition rd16 :: "bytes \<Rightarrow> nat \<Rightarrow> u16 option" where
  "rd16 b i = (if i + 2 \<le> length b then Some (get16 b i) else None)"
definition rd32 :: "bytes \<Rightarrow> nat \<Rightarrow> u32 option" where
  "rd32 b i = (if i + 4 \<le> length b then Some (get32 b i) else None)"
definition wr8 :: "bytes \<Rightarrow> nat \<Rightarrow> u8 \<Rightarrow> bytes option" where
  "wr8 b i v = (if i + 1 \<le> length b then Some (put8 b i v) else None)"
definition wr16 :: "bytes \<Rightarrow> nat \<Rightarrow> u16 \<Rightarrow> bytes option" where
  "wr16 b i v = (if i + 2 \<le> length b then Some (put16 b i v) else None)"
definition wr32 :: "bytes \<Rightarrow> nat \<Rightarrow> u32 \<Rightarrow> bytes option" where
  "wr32 b i v = (if i + 4 \<le> length b then Some (put32 b i v) else None)"

lemma rd_in_bounds [mem_simps]:
  "i + 1 \<le> length b \<Longrightarrow> rd8 b i = Some (get8 b i)"
  "i + 2 \<le> length b \<Longrightarrow> rd16 b i = Some (get16 b i)"
  "i + 4 \<le> length b \<Longrightarrow> rd32 b i = Some (get32 b i)"
  by (simp_all add: rd8_def rd16_def rd32_def)

lemma wr_in_bounds [mem_simps]:
  "i + 1 \<le> length b \<Longrightarrow> wr8 b i x = Some (put8 b i x)"
  "i + 2 \<le> length b \<Longrightarrow> wr16 b i y = Some (put16 b i y)"
  "i + 4 \<le> length b \<Longrightarrow> wr32 b i z = Some (put32 b i z)"
  by (simp_all add: wr8_def wr16_def wr32_def)

text \<open>Reads over writes: the same place, or places that do not overlap.\<close>

lemma get_put_same [mem_simps]:
  "i + 1 \<le> length b \<Longrightarrow> get8 (put8 b i x) i = x"
  "i + 2 \<le> length b \<Longrightarrow> get16 (put16 b i y) i = y"
  "i + 4 \<le> length b \<Longrightarrow> get32 (put32 b i z) i = z"
  by (simp_all add: get8_def get16_def get32_def nth_put8 nth_put16 put32_def)

lemma get8_put_other [mem_simps]:
  "j \<noteq> i \<Longrightarrow> get8 (put8 b i x) j = get8 b j"
  "j < i \<or> i + 2 \<le> j \<Longrightarrow> get8 (put16 b i y) j = get8 b j"
  "j < i \<or> i + 4 \<le> j \<Longrightarrow> get8 (put32 b i z) j = get8 b j"
  by (auto simp: get8_def put8_def put16_def put32_def)

lemma get16_put_other [mem_simps]:
  "j + 2 \<le> i \<or> i < j \<Longrightarrow> get16 (put8 b i x) j = get16 b j"
  "j + 2 \<le> i \<or> i + 2 \<le> j \<Longrightarrow> get16 (put16 b i y) j = get16 b j"
  "j + 2 \<le> i \<or> i + 4 \<le> j \<Longrightarrow> get16 (put32 b i z) j = get16 b j"
  by (auto simp: get16_def put8_def put16_def put32_def)

lemma get32_put_other [mem_simps]:
  "j + 4 \<le> i \<or> i < j \<Longrightarrow> get32 (put8 b i x) j = get32 b j"
  "j + 4 \<le> i \<or> i + 2 \<le> j \<Longrightarrow> get32 (put16 b i y) j = get32 b j"
  "j + 4 \<le> i \<or> i + 4 \<le> j \<Longrightarrow> get32 (put32 b i z) j = get32 b j"
  by (auto simp: get32_def get16_def put8_def put16_def put32_def)

lemma get16_put32_halves [mem_simps]:
  "i + 4 \<le> length b \<Longrightarrow> get16 (put32 b i z) i = lo16 z"
  "i + 4 \<le> length b \<Longrightarrow> j = i + 2 \<Longrightarrow> get16 (put32 b i z) j = hi16 z"
  by (simp_all add: put32_def mem_simps)

section \<open>Byte order\<close>

text \<open>\<open>bpf_htons\<close> and \<open>bpf_ntohs\<close> of \<open>extern/bpf_endian.h\<close> on a little-endian host.\<close>

definition bpf_htons :: "u16 \<Rightarrow> u16" where "bpf_htons w = le16 (hi8 w) (lo8 w)"
definition bpf_ntohs :: "u16 \<Rightarrow> u16" where "bpf_ntohs w = le16 (hi8 w) (lo8 w)"
definition bpf_htonl :: "u32 \<Rightarrow> u32" where
  "bpf_htonl w = le32 (bpf_htons (hi16 w)) (bpf_htons (lo16 w))"

lemma bpf_ntohs_htons [simp]: "bpf_ntohs (bpf_htons w) = w"
  by (simp add: bpf_htons_def bpf_ntohs_def)

lemma bpf_htonl_htonl [simp]: "bpf_htonl (bpf_htonl w) = w"
  by (simp add: bpf_htonl_def bpf_htons_def)

end
