(* ===== verification/Arion_Datamodel.thy ===== *)
theory Arion_Datamodel
  imports Arion_Prelude
begin

text \<open>
  The data shared by the control plane, the daemon and the XDP programs
  (\<open>src/src/include/trn_datamodel.h\<close>, \<open>src/src/include/trn_rpc.h\<close>): limits, enumerations and
  the packed structs that are the keys and values of the BPF maps, each struct as a record
  with its fields in the order and at the width of the source. \<open>unsigned char mac[6]\<close> is the
  datatype \<open>mac6\<close>, so that its length is fixed as in C; addresses are the 32-bit values a
  little-endian load of the network-order bytes gives. The layouts that some code depends on
  byte for byte (the RPC union \<open>trn_ep_t\<close>, the data of a longest-prefix-match key) are
  written out as byte strings, with their round trips.
\<close>

section \<open>Limits and enumerations\<close>

definition TRAN_MAX_ZGC_ENTRANCES :: nat where "TRAN_MAX_ZGC_ENTRANCES = 128"
definition TRAN_MAX_EP_BATCH_SIZE :: nat where "TRAN_MAX_EP_BATCH_SIZE = 360"
definition TRAN_MAX_ITF_SIZE :: nat where "TRAN_MAX_ITF_SIZE = 20"
definition TRAN_MAX_PATH_SIZE :: nat where "TRAN_MAX_PATH_SIZE = 256"
definition TRAN_MAX_CLI_JSON_STR :: nat where "TRAN_MAX_CLI_JSON_STR = 10240"
definition TRAN_DP_FLOW_TIMEOUT :: u16 where "TRAN_DP_FLOW_TIMEOUT = 30"

text \<open>\<open>SG_PREFIX_LEN(32)\<close>: the prefix length every security-group lookup asks for.\<close>

definition SG_STATIC_PREFIX :: u32 where "SG_STATIC_PREFIX = 4 * 8"
definition SG_PREFIX_LEN :: "u32 \<Rightarrow> u32" where "SG_PREFIX_LEN p = SG_STATIC_PREFIX + p"
definition SG_IPV4_PREFIX :: u32 where "SG_IPV4_PREFIX = SG_PREFIX_LEN 32"

datatype trn_itf_ma_key_t = TRAN_ITF_MAP_TENANT | TRAN_ITF_MAP_ZGC | TRAN_ITF_MAP_MAX

primrec itf_map_key_code :: "trn_itf_ma_key_t \<Rightarrow> nat" where
  "itf_map_key_code TRAN_ITF_MAP_TENANT = 0"
| "itf_map_key_code TRAN_ITF_MAP_ZGC = 1"
| "itf_map_key_code TRAN_ITF_MAP_MAX = 2"

datatype trn_xdp_prog_id_t = TRAN_TRANSIT_PROG | TRAN_TX_PROG | TRAN_PASS_PROG
  | TRAN_REDIRECT_PROG | TRAN_DROP_PROG | TRAN_MAX_PROG

primrec prog_id_code :: "trn_xdp_prog_id_t \<Rightarrow> nat" where
  "prog_id_code TRAN_TRANSIT_PROG = 0"
| "prog_id_code TRAN_TX_PROG = 1"
| "prog_id_code TRAN_PASS_PROG = 2"
| "prog_id_code TRAN_REDIRECT_PROG = 3"
| "prog_id_code TRAN_DROP_PROG = 4"
| "prog_id_code TRAN_MAX_PROG = 5"

datatype trn_xdp_role_t = XDP_FWD | XDP_FTN | XDP_ROLE_MAX

primrec role_code :: "trn_xdp_role_t \<Rightarrow> u8" where
  "role_code XDP_FWD = 0"
| "role_code XDP_FTN = 1"
| "role_code XDP_ROLE_MAX = 2"

datatype trn_xdp_tunnel_protocol_t = XDP_TUNNEL_VXLAN | XDP_TUNNEL_GENEVE

primrec tunnel_protocol_code :: "trn_xdp_tunnel_protocol_t \<Rightarrow> u8" where
  "tunnel_protocol_code XDP_TUNNEL_VXLAN = 0"
| "tunnel_protocol_code XDP_TUNNEL_GENEVE = 1"

datatype trn_xdp_flow_op_t = XDP_FLOW_OP_ENCAP | XDP_FLOW_OP_DELETE | XDP_FLOW_OP_DROP
  | XDP_FLOW_OP_MAX

primrec flow_op_code :: "trn_xdp_flow_op_t \<Rightarrow> u32" where
  "flow_op_code XDP_FLOW_OP_ENCAP = 0"
| "flow_op_code XDP_FLOW_OP_DELETE = 1"
| "flow_op_code XDP_FLOW_OP_DROP = 2"
| "flow_op_code XDP_FLOW_OP_MAX = 3"

section \<open>MAC addresses\<close>

datatype mac6 = MAC u8 u8 u8 u8 u8 u8

primrec mac_bytes :: "mac6 \<Rightarrow> bytes" where
  "mac_bytes (MAC a b c d e f) = [a, b, c, d, e, f]"

text \<open>The view of a MAC as \<open>unsigned short[3]\<close> that the helpers of \<open>trn_kern.h\<close> use.\<close>

definition mac16 :: "mac6 \<Rightarrow> nat \<Rightarrow> u16" where
  "mac16 m k = get16 (mac_bytes m) (2 * k)"

definition get_mac :: "bytes \<Rightarrow> nat \<Rightarrow> mac6" where
  "get_mac b i = MAC (b ! i) (b ! (i + 1)) (b ! (i + 2)) (b ! (i + 3)) (b ! (i + 4)) (b ! (i + 5))"

definition put_mac :: "bytes \<Rightarrow> nat \<Rightarrow> mac6 \<Rightarrow> bytes" where
  "put_mac b i m = put16 (put16 (put16 b i (mac16 m 0)) (i + 2) (mac16 m 1)) (i + 4) (mac16 m 2)"

lemma length_mac_bytes [simp]: "length (mac_bytes m) = 6"
  by (cases m) simp

lemma length_put_mac [simp]: "length (put_mac b i m) = length b"
  by (simp add: put_mac_def)

lemma mac16_eq_iff: "m = n \<longleftrightarrow> mac16 m 0 = mac16 n 0 \<and> mac16 m (Suc 0) = mac16 n (Suc 0) \<and> mac16 m 2 = mac16 n 2"
  by (cases m; cases n) (auto simp: mac16_def get16_def)

lemma mac16_get_mac [simp]:
  "mac16 (get_mac b i) 0 = get16 b i"
  "mac16 (get_mac b i) (Suc 0) = get16 b (i + 2)"
  "mac16 (get_mac b i) 2 = get16 b (i + 4)"
  by (simp_all add: mac16_def get_mac_def get16_def eval_nat_numeral)

lemma get_put_mac [mem_simps]:
  "i + 6 \<le> length b \<Longrightarrow> get_mac (put_mac b i m) i = m"
  by (simp add: mac16_eq_iff put_mac_def mem_simps)

lemma get_mac_put_other [mem_simps]:
  "j + 6 \<le> i \<or> i < j \<Longrightarrow> get_mac (put8 b i x) j = get_mac b j"
  "j + 6 \<le> i \<or> i + 2 \<le> j \<Longrightarrow> get_mac (put16 b i y) j = get_mac b j"
  "j + 6 \<le> i \<or> i + 4 \<le> j \<Longrightarrow> get_mac (put32 b i z) j = get_mac b j"
  "j + 6 \<le> i \<or> i + 6 \<le> j \<Longrightarrow> get_mac (put_mac b i m) j = get_mac b j"
  by (auto simp: mac16_eq_iff put_mac_def mem_simps)

lemma get_put_mac_other [mem_simps]:
  "j < i \<or> i + 6 \<le> j \<Longrightarrow> get8 (put_mac b i m) j = get8 b j"
  "j + 2 \<le> i \<or> i + 6 \<le> j \<Longrightarrow> get16 (put_mac b i m) j = get16 b j"
  "j + 4 \<le> i \<or> i + 6 \<le> j \<Longrightarrow> get32 (put_mac b i m) j = get32 b j"
  by (auto simp: put_mac_def mem_simps)

section \<open>Keys and values of the maps\<close>

record endpoint_key_t =
  ek_vni :: u32
  ek_ip :: u32

record endpoint_t =
  ep_hip :: u32
  ep_mac :: mac6
  ep_hmac :: mac6

record sg_cidr_key_t =
  sgk_prefixlen :: u32
  sgk_vni :: u32
  sgk_port :: u16
  sgk_direction :: u8
  sgk_protocol :: u8
  sgk_src_ip :: u32
  sgk_dst_ip :: u32

record sg_cidr_t =
  sgc_sg_id :: u32
  sgc_action :: u8

record security_group_key_t =
  sg_vni :: u32
  sg_ip :: u32
  sg_direction :: u8

record security_group_t =
  sg_id :: u32
  sg_action :: u8

record port_range_key_t =
  prk_vni :: u32
  prk_ip :: u32
  prk_direction :: u8

record port_range_t =
  port_min1 :: u16
  port_max1 :: u16
  port_min2 :: u16
  port_max2 :: u16

record zgc_entrance_t =
  ze_ip :: u32
  ze_announced :: u16
  ze_mac :: mac6

text \<open>\<open>entrances\<close> is a C array of \<open>TRAN_MAX_ZGC_ENTRANCES\<close> elements; the invariant says so.\<close>

record tunnel_iface_t =
  iface_index :: u32
  ibo_port :: u16
  ti_protocol :: u8
  ti_role :: u8
  num_entrances :: u32
  entrances :: "zgc_entrance_t list"

definition tunnel_iface_ok :: "tunnel_iface_t \<Rightarrow> bool" where
  "tunnel_iface_ok itf \<longleftrightarrow> length (entrances itf) = TRAN_MAX_ZGC_ENTRANCES"

record ipv4_flow_t =
  fl_saddr :: u32
  fl_daddr :: u32
  fl_sport :: u16
  fl_dport :: u16
  fl_protocol :: u8
  fl_vni :: "u8 \<times> u8 \<times> u8"

record dp_encap_opdata_t =
  od_dip :: u32
  od_dhip :: u32
  od_dmac :: mac6
  od_dhmac :: mac6
  od_timeout :: u16
  od_rsvd :: u16

text \<open>
  \<open>flow_ctx_t\<close>: the Ethernet, IP and UDP headers are kept as the bytes they are on the wire
  (14, 20 and 8 of them), because the header helpers run over them.
\<close>

record flow_ctx_t =
  fc_len :: u16
  fc_eth :: bytes
  fc_ip :: bytes
  fc_udp :: bytes
  fc_opcode :: u32
  fc_flow :: ipv4_flow_t
  fc_encap :: dp_encap_opdata_t

definition mac_zero :: mac6 where "mac_zero = MAC 0 0 0 0 0 0"

definition flow_zero :: ipv4_flow_t where
  "flow_zero = \<lparr>fl_saddr = 0, fl_daddr = 0, fl_sport = 0, fl_dport = 0, fl_protocol = 0,
     fl_vni = (0, 0, 0)\<rparr>"

text \<open>The result of \<open>memset(&pkt->fctx, 0, sizeof(flow_ctx_t))\<close>.\<close>

definition flow_ctx_zero :: flow_ctx_t where
  "flow_ctx_zero = \<lparr>fc_len = 0, fc_eth = replicate 14 0, fc_ip = replicate 20 0,
     fc_udp = replicate 8 0, fc_opcode = 0, fc_flow = flow_zero,
     fc_encap = \<lparr>od_dip = 0, od_dhip = 0, od_dmac = mac_zero, od_dhmac = mac_zero,
       od_timeout = 0, od_rsvd = 0\<rparr>\<rparr>"

section \<open>Byte layouts\<close>

definition bytes16 :: "u16 \<Rightarrow> bytes" where "bytes16 w = [lo8 w, hi8 w]"
definition bytes32 :: "u32 \<Rightarrow> bytes" where "bytes32 w = bytes16 (lo16 w) @ bytes16 (hi16 w)"

lemma length_bytes [simp]: "length (bytes16 w) = 2" "length (bytes32 v) = 4"
  by (simp_all add: bytes16_def bytes32_def)

text \<open>
  The part of a longest-prefix-match key that takes part in matching: everything after
  \<open>prefixlen\<close>, in memory order (\<open>sg_cidr_key_t\<close>, packed).
\<close>

definition sg_cidr_key_data :: "sg_cidr_key_t \<Rightarrow> bytes" where
  "sg_cidr_key_data k = bytes32 (sgk_vni k) @ bytes16 (sgk_port k)
     @ [sgk_direction k, sgk_protocol k] @ bytes32 (sgk_src_ip k) @ bytes32 (sgk_dst_ip k)"

lemma length_sg_cidr_key_data: "length (sg_cidr_key_data k) = 16"
  by (simp add: sg_cidr_key_data_def)

text \<open>
  \<open>trn_ep_t\<close> (\<open>trn_rpc.h\<close>): a union of the RPC payload \<open>uint64_t buf64[3]\<close> and the endpoint key
  followed by its value, 24 bytes either way.
\<close>

datatype rpc_trn_endpoint_t = RpcEp u64 u64 u64

definition le64 :: "u32 \<Rightarrow> u32 \<Rightarrow> u64" where "le64 a b = ucast a OR push_bit 32 (ucast b)"
definition lo32 :: "u64 \<Rightarrow> u32" where "lo32 w = ucast w"
definition hi32 :: "u64 \<Rightarrow> u32" where "hi32 w = ucast (drop_bit 32 w)"

lemma le64_lo_hi [simp]: "le64 (lo32 w) (hi32 w) = w"
  by (rule bit_eqI) (auto simp: le64_def lo32_def hi32_def bit_simps)

lemma lo32_le64 [simp]: "lo32 (le64 a b) = a"
  by (rule bit_eqI) (auto simp: le64_def lo32_def bit_simps)

lemma hi32_le64 [simp]: "hi32 (le64 a b) = b"
  by (rule bit_eqI) (auto simp: le64_def hi32_def bit_simps dest: bit_imp_le_length)

fun xdp_ep_of_rpc :: "rpc_trn_endpoint_t \<Rightarrow> endpoint_key_t \<times> endpoint_t" where
  "xdp_ep_of_rpc (RpcEp w0 w1 w2) =
     (let m = bytes32 (hi32 w1) @ bytes32 (lo32 w2) @ bytes32 (hi32 w2)
      in (\<lparr>ek_vni = lo32 w0, ek_ip = hi32 w0\<rparr>,
          \<lparr>ep_hip = lo32 w1, ep_mac = get_mac m 0, ep_hmac = get_mac m 6\<rparr>))"

definition rpc_of_xdp_ep :: "endpoint_key_t \<Rightarrow> endpoint_t \<Rightarrow> rpc_trn_endpoint_t" where
  "rpc_of_xdp_ep k e =
     (let m = mac_bytes (ep_mac e) @ mac_bytes (ep_hmac e)
      in RpcEp (le64 (ek_vni k) (ek_ip k)) (le64 (ep_hip e) (get32 m 0))
           (le64 (get32 m 4) (get32 m 8)))"

lemma xdp_ep_of_rpc_of_xdp_ep [simp]: "xdp_ep_of_rpc (rpc_of_xdp_ep k e) = (k, e)"
  by (cases "ep_mac e"; cases "ep_hmac e")
    (simp add: rpc_of_xdp_ep_def get32_def get16_def bytes32_def bytes16_def get_mac_def
      eval_nat_numeral)

lemma rpc_of_xdp_ep_of_rpc [simp]:
  "xdp_ep_of_rpc r = (k, e) \<Longrightarrow> rpc_of_xdp_ep k e = r"
  by (cases r)
    (auto simp: rpc_of_xdp_ep_def get32_def get16_def bytes32_def bytes16_def get_mac_def
      eval_nat_numeral Let_def)

end
