(* ===== verification/Arion_Csum.thy ===== *)
theory Arion_Csum
  imports Arion_Datamodel
begin

text \<open>
  The Internet checksum code of \<open>src/src/xdp/trn_kern.h\<close>: folding a 64-bit sum, summing an
  IPv4 header, and the incremental updates for a changed address or port. The mathematical
  reference is \<open>ones_fold\<close>, the representative of a sum modulo 65535 that a one's-complement
  adder keeps (0 only for the sum 0). The lemmas show that four unrolled folding rounds
  suffice for every 64-bit value, what a freshly written IPv4 checksum makes the receiver
  compute, and which congruence the incremental updates keep.
\<close>

section \<open>The code\<close>

definition csum_fold_step :: "u64 \<Rightarrow> u64" where
  "csum_fold_step csum =
     (if drop_bit 16 csum \<noteq> 0 then (csum AND 0xffff) + drop_bit 16 csum else csum)"

definition trn_csum_fold_helper :: "u64 \<Rightarrow> u16" where
  "trn_csum_fold_helper csum = ucast (NOT ((csum_fold_step ^^ 4) csum))"

primrec csum_words :: "bytes \<Rightarrow> nat \<Rightarrow> nat \<Rightarrow> u64 \<Rightarrow> u64 option" where
  "csum_words b p 0 csum = Some csum"
| "csum_words b p (Suc n) csum = do {
     w \<leftarrow> rd16 b p;
     csum_words b (p + 2) n (csum + ucast w)
   }"

definition trn_ipv4_csum_inline :: "bytes \<Rightarrow> nat \<Rightarrow> u64 \<Rightarrow> u64 option" where
  "trn_ipv4_csum_inline b iph csum = do {
     c \<leftarrow> csum_words b iph (20 div 2) csum;
     Some (ucast (trn_csum_fold_helper c))
   }"

definition trn_update_l4_csum :: "u64 \<Rightarrow> u32 \<Rightarrow> u32 \<Rightarrow> u64" where
  "trn_update_l4_csum csum old_addr new_addr =
     ucast (trn_csum_fold_helper
       ((NOT csum AND 0xffff) + ucast (NOT old_addr) + ucast new_addr))"

text \<open>
  The port variant: \<open>old_port\<close> is promoted to \<open>int\<close> before \<open>~\<close>, so its complement is negative
  and reaches the 64-bit addition sign-extended.
\<close>

definition trn_update_l4_csum_port :: "u64 \<Rightarrow> u16 \<Rightarrow> u16 \<Rightarrow> u64" where
  "trn_update_l4_csum_port csum old_port new_port =
     ucast (trn_csum_fold_helper
       ((NOT csum AND 0xffff) + NOT (ucast old_port) + ucast new_port))"

section \<open>Folding\<close>

definition ones_fold :: "nat \<Rightarrow> nat" where
  "ones_fold n = (if n = 0 then 0 else (n - 1) mod 65535 + 1)"

definition fold_nat :: "nat \<Rightarrow> nat" where
  "fold_nat n = n mod 65536 + n div 65536"

lemma ones_fold_le: "ones_fold n \<le> 65535"
proof (cases "n = 0")
  case False
  then have "ones_fold n = (n - 1) mod 65535 + 1" by (simp add: ones_fold_def)
  moreover have "(n - 1) mod 65535 < 65535" by (rule mod_less_divisor) simp
  ultimately show ?thesis by linarith
qed (simp add: ones_fold_def)

lemma ones_fold_cong: "ones_fold n mod 65535 = n mod 65535"
  by (cases n) (simp_all add: ones_fold_def mod_Suc_eq)

lemma ones_fold_unique:
  assumes "v \<le> 65535" "v mod 65535 = n mod 65535" "v = 0 \<longleftrightarrow> n = 0"
  shows "v = ones_fold n"
proof (cases "n = 0")
  case False
  then have "ones_fold n \<le> 65535" "ones_fold n mod 65535 = v mod 65535" "ones_fold n > 0" "v > 0"
    using assms by (auto simp: ones_fold_le ones_fold_cong) (simp add: ones_fold_def)
  then show ?thesis using assms(1)
    by (cases "v = 65535"; cases "ones_fold n = 65535") auto
qed (use assms in \<open>simp add: ones_fold_def\<close>)

lemma ones_fold_65535: "0 < n \<Longrightarrow> n mod 65535 = 0 \<Longrightarrow> ones_fold n = 65535"
  using ones_fold_unique [of 65535 n] by simp

lemma fold_nat_cong: "fold_nat n mod 65535 = n mod 65535"
proof -
  have "n = fold_nat n + 65535 * (n div 65536)" by (simp add: fold_nat_def)
  then have "n mod 65535 = (fold_nat n + 65535 * (n div 65536)) mod 65535" by (rule arg_cong)
  also have "\<dots> = fold_nat n mod 65535" by (rule mod_mult_self2)
  finally show ?thesis ..
qed

lemma fold_nat_pos: "0 < fold_nat n \<longleftrightarrow> 0 < n"
  by (auto simp: fold_nat_def)

text \<open>Each round cuts the excess over 65534 by a factor of 65536.\<close>

lemma fold_nat_shrink:
  assumes "n \<le> 65536 * K + 65534"
  shows "fold_nat n \<le> K + 65534"
proof -
  have "n = 65536 * (n div 65536) + n mod 65536" "n mod 65536 < 65536" by simp_all
  then show ?thesis using assms unfolding fold_nat_def by linarith
qed

lemma fold_nat_4: "n < 2 ^ 64 \<Longrightarrow> (fold_nat ^^ 4) n \<le> 65535"
proof -
  assume n: "n < 2 ^ 64"
  have "fold_nat n \<le> 2 ^ 48 + 65534"
    using n by (intro fold_nat_shrink [where K = "2 ^ 48"]) simp
  then have "fold_nat (fold_nat n) \<le> 2 ^ 32 + 65534"
    by (intro fold_nat_shrink [where K = "2 ^ 32"]) simp
  then have "fold_nat (fold_nat (fold_nat n)) \<le> 2 ^ 16 + 65534"
    by (intro fold_nat_shrink [where K = "2 ^ 16"]) simp
  then have "fold_nat (fold_nat (fold_nat (fold_nat n))) \<le> 1 + 65534"
    by (intro fold_nat_shrink [where K = 1]) simp
  moreover have "4 = Suc (Suc (Suc (Suc 0)))" by simp
  ultimately show ?thesis by (simp only: funpow.simps o_apply id_apply)
qed

lemma funpow_fold_nat_cong: "(fold_nat ^^ k) n mod 65535 = n mod 65535"
  by (induction k) (simp_all add: fold_nat_cong)

lemma funpow_fold_nat_pos: "0 < (fold_nat ^^ k) n \<longleftrightarrow> 0 < n"
  by (induction k) (simp_all add: fold_nat_pos)

lemma fold_nat_4_eq:
  assumes "n < 2 ^ 64"
  shows "(fold_nat ^^ 4) n = ones_fold n"
proof (rule ones_fold_unique)
  show "(fold_nat ^^ 4) n \<le> 65535" using assms by (rule fold_nat_4)
  show "(fold_nat ^^ 4) n mod 65535 = n mod 65535" by (rule funpow_fold_nat_cong)
  show "(fold_nat ^^ 4) n = 0 \<longleftrightarrow> n = 0" using funpow_fold_nat_pos [of 4 n] by linarith
qed

lemma and_mask16: "(x :: u64) AND 0xffff = take_bit 16 x"
  by (simp add: take_bit_eq_mask mask_eq_exp_minus_1)

lemma unat_mask16: "unat ((x :: u64) AND 0xffff) = unat x mod 65536"
proof -
  have "unat (x AND 0xffff) = take_bit 16 (unat x)"
    by (simp only: and_mask16 unsigned_take_bit_eq)
  then show ?thesis by (simp add: take_bit_eq_mod)
qed

lemma unat_drop16: "unat (drop_bit 16 (x :: u64)) = unat x div 65536"
proof -
  have "drop_bit 16 x = x div 65536" by (simp add: drop_bit_eq_div)
  then show ?thesis by (simp add: unat_div)
qed

lemma unat_csum_fold_step: "unat (csum_fold_step c) = fold_nat (unat c)"
proof (cases "drop_bit 16 c = 0")
  case True
  then have "unat c div 65536 = 0" by (metis unat_0 unat_drop16)
  with True show ?thesis by (simp add: csum_fold_step_def fold_nat_def)
next
  case False
  have "unat c < 2 ^ 64" using unsigned_less [of c] by simp
  then have "unat (c AND 0xffff) + unat (drop_bit 16 c) < 2 ^ LENGTH(64)"
    unfolding unat_mask16 unat_drop16 by simp
  then have "unat ((c AND 0xffff) + drop_bit 16 c) = unat (c AND 0xffff) + unat (drop_bit 16 c)"
    by (rule unat_add_lem [THEN iffD1])
  with False show ?thesis by (simp add: csum_fold_step_def fold_nat_def unat_mask16 unat_drop16)
qed

lemma unat_funpow_fold: "unat ((csum_fold_step ^^ k) c) = (fold_nat ^^ k) (unat c)"
  by (induction k) (simp_all add: unat_csum_fold_step)

lemma unat_fold_helper: "unat (trn_csum_fold_helper c) = 65535 - ones_fold (unat c)"
proof -
  define v where "v = (csum_fold_step ^^ 4) c"
  have "unat c < 2 ^ 64" using unsigned_less [of c] by simp
  then have v: "unat v = ones_fold (unat c)"
    by (simp add: v_def unat_funpow_fold fold_nat_4_eq)
  have "ucast (NOT v) = NOT (ucast v :: u16)"
    by (rule bit_eqI) (auto simp: bit_simps)
  moreover have "unat (ucast v :: u16) = unat v"
    using ones_fold_le [of "unat c"] v by (simp add: unsigned_ucast_eq take_bit_eq_mod)
  ultimately show ?thesis by (simp add: trn_csum_fold_helper_def v_def [symmetric] v unat_NOT)
qed

section \<open>The IPv4 header checksum\<close>

text \<open>The sum of the ten 16-bit words of the header at \<open>p\<close>, and of the ones but the checksum.\<close>

definition ip_hdr_sum :: "bytes \<Rightarrow> nat \<Rightarrow> nat" where
  "ip_hdr_sum b p = (\<Sum>k<10. unat (get16 b (p + 2 * k)))"

lemma csum_words_eq:
  "p + 2 * n \<le> length b \<Longrightarrow>
   csum_words b p n c = Some (c + (\<Sum>k<n. ucast (get16 b (p + 2 * k))))"
proof (induction n arbitrary: p c)
  case (Suc n)
  have shift: "(\<Sum>k<n. ucast (get16 b (p + 2 + 2 * k)) :: u64) =
      (\<Sum>k<n. ucast (get16 b (p + 2 * Suc k)))"
    by (simp add: algebra_simps)
  show ?case
    using Suc by (simp add: mem_simps shift sum.lessThan_Suc_shift algebra_simps del: sum.lessThan_Suc)
qed simp

lemma unat_sum16: "n \<le> 65536 \<Longrightarrow>
   unat (\<Sum>k<n. ucast (f k :: u16) :: u64) = (\<Sum>k<n. unat (f k)) \<and> (\<Sum>k<n. unat (f k)) \<le> n * 65535"
proof (induction n)
  case (Suc n)
  let ?s = "\<Sum>k<n. ucast (f k) :: u64" and ?t = "\<Sum>k<n. unat (f k)"
  have IH: "unat ?s = ?t" "?t \<le> n * 65535" and f: "unat (f n) \<le> 65535"
    using Suc by (simp_all add: unat_le)
  have "?t + unat (f n) \<le> Suc n * 65535" using add_mono [OF IH(2) f] by simp
  moreover have "Suc n * 65535 < 2 ^ 64" using Suc.prems by simp
  ultimately have "unat (?s + ucast (f n)) = ?t + unat (f n)"
    using IH(1) by (subst unat_add_lem [THEN iffD1]) simp_all
  then show ?case using \<open>?t + unat (f n) \<le> Suc n * 65535\<close> by simp
qed simp

text \<open>The value the code stores in the checksum field.\<close>

definition hdr_check :: "bytes \<Rightarrow> nat \<Rightarrow> u16" where
  "hdr_check b p = trn_csum_fold_helper (\<Sum>k<10. ucast (get16 b (p + 2 * k)))"

lemma unat_hdr_check: "unat (hdr_check b p) = 65535 - ones_fold (ip_hdr_sum b p)"
  using unat_sum16 [of 10 "\<lambda>k. get16 b (p + 2 * k)"]
  by (simp add: hdr_check_def ip_hdr_sum_def unat_fold_helper)

lemma trn_ipv4_csum_inline_eq:
  "p + 20 \<le> length b \<Longrightarrow> trn_ipv4_csum_inline b p 0 = Some (ucast (hdr_check b p))"
  using csum_words_eq [of p 10 b 0] by (simp add: trn_ipv4_csum_inline_def hdr_check_def)

text \<open>
  What a header has to satisfy, independently of the code: the receiver adds its ten words, as
  they stand on the wire, with the end-around carry of one's-complement arithmetic, and gets all
  ones. The code sums host-order words and folds at the end; the lemmas below show that this is
  the same test.
\<close>

definition ones_add :: "nat \<Rightarrow> nat \<Rightarrow> nat" where
  "ones_add a b = (if a + b < 65536 then a + b else a + b - 65535)"

definition wire_word :: "bytes \<Rightarrow> nat \<Rightarrow> nat" where
  "wire_word b i = 256 * unat (b ! i) + unat (b ! Suc i)"

definition ipv4_csum_ok :: "bytes \<Rightarrow> nat \<Rightarrow> bool" where
  "ipv4_csum_ok b p \<longleftrightarrow> p + 20 \<le> length b \<and> foldr ones_add (map (\<lambda>k. wire_word b (p + 2 * k)) [0..<10]) 0 = 65535"

lemma foldr_ones_add: "\<forall>w \<in> set ws. w \<le> 65535 \<Longrightarrow> foldr ones_add ws 0 = ones_fold (sum_list ws)"
proof (induction ws)
  case (Cons w ws)
  let ?v = "ones_fold (sum_list ws)"
  have v: "?v \<le> 65535" "w \<le> 65535" "?v mod 65535 = sum_list ws mod 65535" "?v = 0 \<longleftrightarrow> sum_list ws = 0"
    using Cons.prems by (simp_all add: ones_fold_le ones_fold_cong) (simp add: ones_fold_def)
  have "ones_add w ?v = ones_fold (w + sum_list ws)"
  proof (rule ones_fold_unique)
    show "ones_add w ?v \<le> 65535" using v(1,2) by (cases "w + ?v < 65536") (simp_all add: ones_add_def)
    have "ones_add w ?v mod 65535 = (w + ?v) mod 65535" by (simp add: ones_add_def le_mod_geq)
    also have "\<dots> = (w + sum_list ws) mod 65535" using v(3) by (metis mod_add_right_eq)
    finally show "ones_add w ?v mod 65535 = (w + sum_list ws) mod 65535" .
    show "ones_add w ?v = 0 \<longleftrightarrow> w + sum_list ws = 0" using v by (auto simp: ones_add_def)
  qed
  with Cons show ?case by simp
qed (simp add: ones_fold_def)

lemma wire_word_le: "wire_word b i \<le> 65535"
  using unsigned_less [of "b ! i", where 'a = nat] unsigned_less [of "b ! Suc i", where 'a = nat] by (simp add: wire_word_def)

text \<open>Swapping the bytes of every word multiplies the sum by 256, modulo 65535.\<close>

lemma unat_get16: "unat (get16 b i) = unat (b ! i) + 256 * unat (b ! Suc i)"
  by (simp add: get16_def unat_le16)

lemma wire_word_swap: "wire_word b i + 65535 * unat (b ! Suc i) = 256 * unat (get16 b i)"
  by (simp add: wire_word_def unat_get16)

lemma wire_sum_swap:
  fixes n :: nat
  shows "(\<Sum>k<n. wire_word b (f k)) + 65535 * (\<Sum>k<n. unat (b ! Suc (f k))) = 256 * (\<Sum>k<n. unat (get16 b (f k)))"
  by (simp only: sum_distrib_left wire_word_swap flip: sum.distrib)

lemma mult_256_mod: "256 * n mod 65535 = 0 \<longleftrightarrow> n mod 65535 = (0 :: nat)"
proof -
  have "65535 dvd n" if "65535 dvd 256 * n"
  proof -
    have "65535 dvd 256 * (256 * n)" using that by (rule dvd_mult)
    also have "256 * (256 * n) = 65535 * n + n" by simp
    finally show ?thesis by (simp only: dvd_add_right_iff dvd_triv_left)
  qed
  moreover have "65535 dvd 256 * n" if "65535 dvd n" using that by (rule dvd_mult)
  ultimately show ?thesis unfolding mod_eq_0_iff_dvd by blast
qed

lemma ipv4_csum_ok_sum:
  assumes "p + 20 \<le> length b"
  shows "ipv4_csum_ok b p \<longleftrightarrow> ones_fold (ip_hdr_sum b p) = 65535"
proof -
  let ?w = "\<lambda>k. wire_word b (p + 2 * k)" and ?W = "\<Sum>k<10. wire_word b (p + 2 * k)"
  have full: "ones_fold n = 65535 \<longleftrightarrow> 0 < n \<and> n mod 65535 = 0" for n
    using ones_fold_65535 [of n] ones_fold_cong [of n] by (cases "n = 0") (auto simp: ones_fold_def)
  have "sum_list (map ?w [0..<10]) = ?W" by (simp only: interv_sum_list_conv_sum_set_nat set_upt atLeast0LessThan)
  then have "foldr ones_add (map ?w [0..<10]) 0 = ones_fold ?W"
    using foldr_ones_add [of "map ?w [0..<10]"] by (simp add: wire_word_le del: upt_conv_Cons)
  moreover have swap: "?W + 65535 * (\<Sum>k<10. unat (b ! Suc (p + 2 * k))) = 256 * ip_hdr_sum b p"
    unfolding ip_hdr_sum_def by (rule wire_sum_swap)
  then have "?W mod 65535 = 256 * ip_hdr_sum b p mod 65535" by (metis mod_mult_self2)
  moreover have "0 < ?W \<longleftrightarrow> 0 < ip_hdr_sum b p"
  proof -
    have "wire_word b i = 0 \<longleftrightarrow> unat (get16 b i) = 0" for i by (auto simp: wire_word_def unat_get16)
    then show ?thesis by (simp only: ip_hdr_sum_def zero_less_iff_neq_zero sum_eq_0_iff [OF finite_lessThan] simp_thms)
  qed
  ultimately show ?thesis using assms by (simp only: ipv4_csum_ok_def full mult_256_mod simp_thms)
qed

text \<open>The code's own test of a header, \<open>trn_ipv4_csum_inline\<close> with nothing added, decides it.\<close>

lemma ipv4_csum_ok_code:
  assumes "p + 20 \<le> length b"
  shows "ipv4_csum_ok b p \<longleftrightarrow> trn_ipv4_csum_inline b p 0 = Some 0"
proof -
  have "hdr_check b p = 0 \<longleftrightarrow> unat (hdr_check b p) = 0" by (simp add: unat_eq_0)
  then have "hdr_check b p = 0 \<longleftrightarrow> ones_fold (ip_hdr_sum b p) = 65535"
    using ones_fold_le [of "ip_hdr_sum b p"] by (auto simp: unat_hdr_check)
  moreover have "(ucast (hdr_check b p) :: u64) = 0 \<longleftrightarrow> hdr_check b p = 0" by (simp flip: unat_eq_0)
  ultimately show ?thesis using assms by (simp add: ipv4_csum_ok_sum trn_ipv4_csum_inline_eq)
qed

lemma ip_hdr_sum_put_check:
  assumes "p + 20 \<le> length b" "get16 b (p + 10) = 0"
  shows "ip_hdr_sum (put16 b (p + 10) c) p = ip_hdr_sum b p + unat c"
proof -
  let ?g = "\<lambda>b k. unat (get16 b (p + 2 * k))"
  have split: "(\<Sum>k<10. f k) = f 5 + (\<Sum>k\<in>{..<10} - {5}. f k)" for f :: "nat \<Rightarrow> nat"
    by (rule sum.remove) auto
  have "(\<Sum>k\<in>{..<10} - {5}. ?g (put16 b (p + 10) c) k) = (\<Sum>k\<in>{..<10} - {5}. ?g b k)"
  proof (rule sum.cong [OF refl])
    fix k :: nat assume "k \<in> {..<10} - {5}"
    then have "p + 2 * k + 2 \<le> p + 10 \<or> p + 10 + 2 \<le> p + 2 * k" by auto
    then show "?g (put16 b (p + 10) c) k = ?g b k" by (simp only: get16_put_other)
  qed
  moreover have "?g (put16 b (p + 10) c) 5 = unat c" "?g b 5 = 0"
    using assms by (simp_all add: mem_simps)
  ultimately show ?thesis
    unfolding ip_hdr_sum_def split [of "?g b"] split [of "?g (put16 b (p + 10) c)"] by simp
qed

lemma ipv4_csum_written:
  assumes "p + 20 \<le> length b" "get16 b (p + 10) = 0"
  shows "ipv4_csum_ok (put16 b (p + 10) (hdr_check b p)) p"
proof -
  let ?S = "ip_hdr_sum b p" and ?b = "put16 b (p + 10) (hdr_check b p)"
  have sum: "ip_hdr_sum ?b p = ?S + (65535 - ones_fold ?S)"
    using assms by (simp add: ip_hdr_sum_put_check unat_hdr_check)
  have "(?S + (65535 - ones_fold ?S)) mod 65535
      = (ones_fold ?S + (65535 - ones_fold ?S)) mod 65535"
    by (metis mod_add_left_eq ones_fold_cong)
  also have "\<dots> = 0" using ones_fold_le [of ?S] by simp
  finally have "ip_hdr_sum ?b p mod 65535 = 0" by (simp only: sum)
  moreover have "0 < ip_hdr_sum ?b p"
    unfolding sum by (cases "?S = 0") (simp_all add: ones_fold_def)
  ultimately have "ones_fold (ip_hdr_sum ?b p) = 65535" by (intro ones_fold_65535)
  then show ?thesis using assms(1) by (simp add: ipv4_csum_ok_sum)
qed

section \<open>Incremental updates\<close>

lemma unat_trn_update_l4_csum:
  "unat (trn_update_l4_csum c old new) =
   65535 - ones_fold (65535 - unat c mod 65536 + (4294967295 - unat old) + unat new)"
proof -
  let ?x = "NOT c AND 0xffff" and ?o = "ucast (NOT old) :: u64" and ?n = "ucast new :: u64"
  have x: "unat ?x = 65535 - unat c mod 65536"
  proof -
    have "?x = ucast (NOT (ucast c :: u16))"
      unfolding and_mask16 by (rule bit_eqI) (auto simp: bit_simps)
    then show ?thesis by (simp add: unat_NOT unsigned_ucast_eq take_bit_eq_mod)
  qed
  have o: "unat ?o = 4294967295 - unat old" by (simp add: unat_NOT)
  have n: "unat ?n = unat new" by simp
  have b: "unat ?x \<le> 65535" "unat ?o \<le> 4294967295" "unat ?n < 4294967296"
    by (simp_all only: x o n diff_le_self unat_lt)
  have xo: "unat (?x + ?o) = unat ?x + unat ?o"
    by (rule unat_add_lem [THEN iffD1]) (use b in simp)
  have "unat (?x + ?o + ?n) = unat (?x + ?o) + unat ?n"
    by (rule unat_add_lem [THEN iffD1]) (use b in \<open>simp add: xo\<close>)
  then have "unat (?x + ?o + ?n) = 65535 - unat c mod 65536 + (4294967295 - unat old) + unat new"
    by (simp only: xo x o n)
  then show ?thesis by (simp add: trn_update_l4_csum_def unat_fold_helper)
qed

text \<open>
  A checksum update is right when it keeps the sum of the checksum and the words it covers,
  modulo 65535.
\<close>

lemma ones_complement_add:
  "(65535 - ones_fold n + n) mod 65535 = 0"
proof -
  have "(65535 - ones_fold n + n) mod 65535 = (65535 - ones_fold n + ones_fold n) mod 65535"
    by (metis mod_add_right_eq ones_fold_cong)
  then show ?thesis using ones_fold_le [of n] by simp
qed

lemma trn_update_l4_csum_cong:
  "(unat (trn_update_l4_csum c old new) + unat new) mod 65535
   = (unat c mod 65536 + unat old) mod 65535"
proof -
  define u where "u = unat (trn_update_l4_csum c old new)"
  define N where "N = 65535 - unat c mod 65536 + (4294967295 - unat old) + unat new"
  have "unat c mod 65536 \<le> 65535" "unat old \<le> 4294967295"
    using unat_lt(3) [of old] by (simp_all add: less_Suc_eq_le [symmetric])
  then have N: "N + (unat c mod 65536 + unat old) = unat new + 65538 * 65535"
    by (simp add: N_def)
  have "u = 65535 - ones_fold N" by (simp add: u_def N_def unat_trn_update_l4_csum)
  then have "(u + N) mod 65535 = 0" by (simp only: ones_complement_add)
  then have "(u + N + (unat c mod 65536 + unat old)) mod 65535
      = (unat c mod 65536 + unat old) mod 65535"
    by (metis add_0 mod_add_left_eq)
  moreover have "u + N + (unat c mod 65536 + unat old) = u + unat new + 65538 * 65535"
    using N by simp
  then have "(u + N + (unat c mod 65536 + unat old)) mod 65535 = (u + unat new) mod 65535"
    by (simp only: mod_mult_self1)
  ultimately show ?thesis by (simp add: u_def)
qed

text \<open>
  The port update: the borrow of the sign extension is lost exactly when the 64-bit sum
  overflows, so the result is one too large in the first case and exact in the second.
\<close>

lemma unat_trn_update_l4_csum_port:
  "unat (trn_update_l4_csum_port c old new) = 65535 - ones_fold
     (if unat old < 65535 - unat c mod 65536 + unat new
      then 65535 - unat c mod 65536 + unat new - 1 - unat old
      else 65535 - unat c mod 65536 + (18446744073709551615 - unat old) + unat new)"
proof -
  let ?x = "NOT c AND 0xffff" and ?o = "NOT (ucast old) :: u64" and ?n = "ucast new :: u64"
  have x: "unat ?x = 65535 - unat c mod 65536"
  proof -
    have "?x = ucast (NOT (ucast c :: u16))"
      unfolding and_mask16 by (rule bit_eqI) (auto simp: bit_simps)
    then show ?thesis by (simp add: unat_NOT unsigned_ucast_eq take_bit_eq_mod)
  qed
  have b: "unat ?x \<le> 65535" "unat new \<le> 65535" "unat old \<le> 65535"
    by (simp_all only: x diff_le_self unat_le)
  have xn: "unat (?x + ?n) = unat ?x + unat new"
    by (subst unat_add_lem [THEN iffD1]) (use b in simp_all)
  have o: "?o = - 1 - ucast old" by (simp add: not_eq_complement)
  have eq: "?x + ?o + ?n = (?x + ?n) - 1 - ucast old" unfolding o by simp
  show ?thesis
  proof (cases "unat old < unat ?x + unat new")
    case True
    then have "1 \<le> ?x + ?n" using xn by (metis gr_zeroI less_nat_zero_code linorder_not_le unat_eq_0 word_le_nat_alt word_less_1)
    then have "unat (?x + ?n - 1) = unat ?x + unat new - 1"
      by (simp add: unat_sub xn)
    then have "unat (?x + ?o + ?n) = unat ?x + unat new - 1 - unat old"
      unfolding eq using True by (subst unat_sub) (simp_all add: word_le_nat_alt)
    with True show ?thesis by (simp add: trn_update_l4_csum_port_def unat_fold_helper x)
  next
    case False
    have so: "unat ?o = 18446744073709551615 - unat old" by (simp add: unat_NOT)
    have "unat (?x + ?n) + unat ?o < 2 ^ LENGTH(64)" using False b unfolding so xn by simp
    then have "unat (?x + ?n + ?o) = unat ?x + unat new + (18446744073709551615 - unat old)"
      by (subst unat_add_lem [THEN iffD1]) (simp_all add: xn so)
    moreover have "?x + ?o + ?n = ?x + ?n + ?o" by (simp add: add.commute add.left_commute)
    ultimately show ?thesis using False
      by (simp add: trn_update_l4_csum_port_def unat_fold_helper x algebra_simps)
  qed
qed

end
