(* ===== verification/Arion_Kern.thy ===== *)
theory Arion_Kern
  imports Arion_Csum
begin

text \<open>
  The helpers of \<open>src/src/xdp/trn_kern.h\<close>: the packet descriptor \<open>struct transit_packet\<close>, the
  overlay headers, and the functions that read and rewrite MAC addresses, IP addresses,
  lengths, ports and their checksums. Pointers are offsets into the packet's bytes
  (\<open>None\<close> for a pointer that is null or was never set); a helper that takes \<open>data_end\<close> takes it
  as an offset too, and keeps the guard the source writes. The lemmas describe each helper on
  an in-bounds access by a total rewriting function, and say which fields that function
  changes.
\<close>

section \<open>Header layouts\<close>

definition sizeof_ethhdr :: nat where [simp]: "sizeof_ethhdr = 14"
definition sizeof_iphdr :: nat where [simp]: "sizeof_iphdr = 20"
definition sizeof_udphdr :: nat where [simp]: "sizeof_udphdr = 8"
definition sizeof_tcphdr :: nat where [simp]: "sizeof_tcphdr = 20"
definition sizeof_arphdr :: nat where [simp]: "sizeof_arphdr = 8"
definition ETH_ALEN :: nat where [simp]: "ETH_ALEN = 6"
definition ETH_P_IP :: u16 where [simp]: "ETH_P_IP = 0x0800"
definition ETH_P_ARP :: u16 where [simp]: "ETH_P_ARP = 0x0806"
definition ETH_P_TEB :: u16 where [simp]: "ETH_P_TEB = 0x6558"
definition ARPHRD_ETHER :: u16 where [simp]: "ARPHRD_ETHER = 1"
definition ARPOP_REQUEST :: u16 where [simp]: "ARPOP_REQUEST = 1"
definition ARPOP_REPLY :: u16 where [simp]: "ARPOP_REPLY = 2"
definition IPPROTO_ICMP :: u8 where [simp]: "IPPROTO_ICMP = 1"
definition IPPROTO_TCP :: u8 where [simp]: "IPPROTO_TCP = 6"
definition IPPROTO_UDP :: u8 where [simp]: "IPPROTO_UDP = 17"

text \<open>Port constants as the source writes them: the little-endian load of the wire bytes.\<close>

definition GEN_DSTPORT :: u16 where "GEN_DSTPORT = 0xc117"
definition VXL_DSTPORT :: u16 where "VXL_DSTPORT = 0xb512"
definition TRN_GNV_OPT_CLASS :: u16 where "TRN_GNV_OPT_CLASS = 0x0111"

text \<open>
  Sizes of the packed overlay structs: \<open>trn_gnv_rts_data\<close> is 11 bytes rounded up to 12 by its
  alignment, \<open>trn_gnv_scaled_ep_data\<close> 25 rounded up to 28; each option has a 4-byte header.
\<close>

definition sizeof_vxlanhdr :: nat where [simp]: "sizeof_vxlanhdr = 8"
definition sizeof_genevehdr :: nat where [simp]: "sizeof_genevehdr = 8"
definition sizeof_rts_opt :: nat where [simp]: "sizeof_rts_opt = 4 + 12"
definition sizeof_scaled_ep_opt :: nat where [simp]: "sizeof_scaled_ep_opt = 4 + 28"
definition sizeof_xdp_hints_src :: nat where [simp]: "sizeof_xdp_hints_src = 16"

text \<open>The bit field \<open>opt_len : 6\<close> is the low six bits of the first Geneve byte.\<close>

definition genevehdr_opt_len :: "bytes \<Rightarrow> nat \<Rightarrow> u8 option" where
  "genevehdr_opt_len b hdr = do { w \<leftarrow> rd8 b hdr; Some (w AND 63) }"

record transit_packet =
  tp_data :: bytes
  tp_itf :: "tunnel_iface_t option"
  tp_itf_idx :: u32
  tp_itf_ipv4 :: u32
  tp_ent_idx :: u16
  tp_itf_mac :: mac6
  tp_eth :: "nat option"
  tp_ip :: "nat option"
  tp_udp :: "nat option"
  tp_gnv_hdr :: "nat option"
  tp_rts_opt :: "nat option"
  tp_scaled_ep_opt :: "nat option"
  tp_gnv_hdr_len :: u32
  tp_gnv_opt_len :: u32
  tp_vxlan :: "nat option"
  tp_vni :: u32
  tp_inner_eth :: "nat option"
  tp_inner_arp :: "nat option"
  tp_inner_ip :: "nat option"
  tp_inner_udp :: "nat option"
  tp_inner_tcp :: "nat option"
  tp_fctx :: flow_ctx_t

abbreviation tp_data_end :: "transit_packet \<Rightarrow> nat" where
  "tp_data_end pkt \<equiv> length (tp_data pkt)"

section \<open>Network identifiers\<close>

definition trn_get_vni :: "u8 \<times> u8 \<times> u8 \<Rightarrow> u32" where
  "trn_get_vni vni = (case vni of (v0, v1, v2) \<Rightarrow>
     push_bit 16 (ucast v0) OR push_bit 8 (ucast v1) OR ucast v2)"

definition trn_set_vni :: "u32 \<Rightarrow> u8 \<times> u8 \<times> u8" where
  "trn_set_vni src = (ucast (drop_bit 16 src), ucast (drop_bit 8 src), ucast src)"

definition rd_vni :: "bytes \<Rightarrow> nat \<Rightarrow> (u8 \<times> u8 \<times> u8) option" where
  "rd_vni b p = do { v0 \<leftarrow> rd8 b p; v1 \<leftarrow> rd8 b (p + 1); v2 \<leftarrow> rd8 b (p + 2); Some (v0, v1, v2) }"

lemma trn_set_get_vni [simp]: "trn_set_vni (trn_get_vni v) = v"
proof -
  obtain a b c where v: "v = (a, b, c)" by (cases v)
  have "ucast (drop_bit 16 (trn_get_vni v)) = a" "ucast (drop_bit 8 (trn_get_vni v)) = b"
    "ucast (trn_get_vni v) = c"
    unfolding v by (rule bit_eqI; auto simp: trn_get_vni_def bit_simps dest: bit_imp_le_length)+
  then show ?thesis by (simp add: trn_set_vni_def v)
qed

lemma trn_get_set_vni: "trn_get_vni (trn_set_vni w) = take_bit 24 w"
proof (rule bit_eqI)
  fix n
  show "bit (trn_get_vni (trn_set_vni w)) n = bit (take_bit 24 w) n"
    by (cases "n < 16"; cases "n < 8")
      (auto simp: trn_get_vni_def trn_set_vni_def bit_simps)
qed

section \<open>MAC addresses\<close>

text \<open>\<open>s\<close> points into a packet, \<open>d\<close> to a MAC kept in a map value.\<close>

definition trn_is_mac_equal :: "bytes \<Rightarrow> nat \<Rightarrow> mac6 \<Rightarrow> bool option" where
  "trn_is_mac_equal b s d = do {
     s0 \<leftarrow> rd16 b s;
     s1 \<leftarrow> rd16 b (s + 2);
     s2 \<leftarrow> rd16 b (s + 4);
     Some (mac16 d 0 = s0 \<and> mac16 d 1 = s1 \<and> mac16 d 2 = s2)
   }"

text \<open>
  \<open>trn_set_mac\<close> from a MAC outside the written block, and within one block, where the source
  loads and stores alternate.
\<close>

definition trn_set_mac :: "bytes \<Rightarrow> nat \<Rightarrow> mac6 \<Rightarrow> bytes option" where
  "trn_set_mac b dst mac = do {
     b \<leftarrow> wr16 b dst (mac16 mac 0);
     b \<leftarrow> wr16 b (dst + 2) (mac16 mac 1);
     wr16 b (dst + 4) (mac16 mac 2)
   }"

definition trn_set_mac_mem :: "bytes \<Rightarrow> nat \<Rightarrow> nat \<Rightarrow> bytes option" where
  "trn_set_mac_mem b dst mac = do {
     s0 \<leftarrow> rd16 b mac;
     b \<leftarrow> wr16 b dst s0;
     s1 \<leftarrow> rd16 b (mac + 2);
     b \<leftarrow> wr16 b (dst + 2) s1;
     s2 \<leftarrow> rd16 b (mac + 4);
     wr16 b (dst + 4) s2
   }"

definition trn_set_dst_mac :: "bytes \<Rightarrow> nat \<Rightarrow> mac6 \<Rightarrow> bytes option" where
  "trn_set_dst_mac b data dst_mac = trn_set_mac b data dst_mac"
definition trn_set_dst_mac_mem :: "bytes \<Rightarrow> nat \<Rightarrow> nat \<Rightarrow> bytes option" where
  "trn_set_dst_mac_mem b data dst_mac = trn_set_mac_mem b data dst_mac"
definition trn_set_src_mac :: "bytes \<Rightarrow> nat \<Rightarrow> mac6 \<Rightarrow> bytes option" where
  "trn_set_src_mac b data src_mac = trn_set_mac b (data + 6) src_mac"
definition trn_set_src_mac_mem :: "bytes \<Rightarrow> nat \<Rightarrow> nat \<Rightarrow> bytes option" where
  "trn_set_src_mac_mem b data src_mac = trn_set_mac_mem b (data + 6) src_mac"

definition trn_swap_src_dst_mac :: "bytes \<Rightarrow> nat \<Rightarrow> bytes option" where
  "trn_swap_src_dst_mac b p = do {
     tmp0 \<leftarrow> rd16 b p;
     tmp1 \<leftarrow> rd16 b (p + 2);
     tmp2 \<leftarrow> rd16 b (p + 4);
     p3 \<leftarrow> rd16 b (p + 6);
     b \<leftarrow> wr16 b p p3;
     p4 \<leftarrow> rd16 b (p + 8);
     b \<leftarrow> wr16 b (p + 2) p4;
     p5 \<leftarrow> rd16 b (p + 10);
     b \<leftarrow> wr16 b (p + 4) p5;
     b \<leftarrow> wr16 b (p + 6) tmp0;
     b \<leftarrow> wr16 b (p + 8) tmp1;
     wr16 b (p + 10) tmp2
   }"

lemma trn_is_mac_equal_eq [step_simps]:
  "s + 6 \<le> length b \<Longrightarrow> trn_is_mac_equal b s m = Some (get_mac b s = m)"
  by (auto simp: trn_is_mac_equal_def mac16_eq_iff mem_simps)

lemma trn_set_mac_eq [step_simps]:
  "dst + 6 \<le> length b \<Longrightarrow> trn_set_mac b dst m = Some (put_mac b dst m)"
  by (simp add: trn_set_mac_def put_mac_def mem_simps)

lemma trn_set_mac_mem_eq [step_simps]:
  "dst + 6 \<le> length b \<Longrightarrow> src + 6 \<le> length b \<Longrightarrow> src + 6 \<le> dst \<or> dst + 6 \<le> src \<Longrightarrow>
   trn_set_mac_mem b dst src = Some (put_mac b dst (get_mac b src))"
  by (auto simp: trn_set_mac_mem_def put_mac_def mem_simps)

lemma trn_set_eth_mac_eq [step_simps]:
  "data + 6 \<le> length b \<Longrightarrow> trn_set_dst_mac b data m = Some (put_mac b data m)"
  "data + 12 \<le> length b \<Longrightarrow> trn_set_src_mac b data m = Some (put_mac b (data + 6) m)"
  by (simp_all add: trn_set_dst_mac_def trn_set_src_mac_def step_simps)

lemma trn_swap_src_dst_mac_eq [step_simps]:
  assumes "p + 12 \<le> length b"
  shows "trn_swap_src_dst_mac b p =
    Some (put_mac (put_mac b p (get_mac b (p + 6))) (p + 6) (get_mac b p))"
  using assms by (simp add: trn_swap_src_dst_mac_def put_mac_def mem_simps add.commute)

section \<open>Lengths, IP addresses, ports\<close>

definition trn_set_ip_len :: "bytes \<Rightarrow> nat \<Rightarrow> nat \<Rightarrow> u16 \<Rightarrow> bytes option" where
  "trn_set_ip_len b data data_end len =
     (if data + 2 + 2 > data_end then Some b else wr16 b (data + 2) (bpf_htons len))"

definition trn_set_udp_len :: "bytes \<Rightarrow> nat \<Rightarrow> nat \<Rightarrow> u16 \<Rightarrow> bytes option" where
  "trn_set_udp_len b data data_end len =
     (if data + 4 + 2 > data_end then Some b else wr16 b (data + 4) (bpf_htons len))"

definition trn_set_len_csum :: "bytes \<Rightarrow> nat \<Rightarrow> u16 \<Rightarrow> nat \<Rightarrow> bytes option" where
  "trn_set_len_csum b ip len data_end = do {
     t \<leftarrow> rd16 b (ip + 2);
     let ip_tot_len = bpf_ntohs t;
     b \<leftarrow> trn_set_ip_len b ip data_end (ip_tot_len + len);
     check \<leftarrow> rd16 b (ip + 10);
     let cs = trn_update_l4_csum_port (ucast check) ip_tot_len (ip_tot_len + len);
     wr16 b (ip + 10) (ucast cs)
   }"

definition trn_set_udp_len_csum :: "bytes \<Rightarrow> nat \<Rightarrow> u16 \<Rightarrow> nat \<Rightarrow> bytes option" where
  "trn_set_udp_len_csum b udp len data_end = do {
     t \<leftarrow> rd16 b (udp + 4);
     trn_set_udp_len b udp data_end (bpf_ntohs t + len)
   }"

text \<open>
  The guards of these two compare the address of the field, not its end, with \<open>data_end\<close>.
\<close>

definition trn_set_src_ip :: "bytes \<Rightarrow> nat \<Rightarrow> nat \<Rightarrow> u32 \<Rightarrow> bytes option" where
  "trn_set_src_ip b data data_end saddr =
     (if data + 12 > data_end then Some b else wr32 b (data + 12) saddr)"

definition trn_set_dst_ip :: "bytes \<Rightarrow> nat \<Rightarrow> nat \<Rightarrow> u32 \<Rightarrow> bytes option" where
  "trn_set_dst_ip b data data_end daddr =
     (if data + 16 > data_end then Some b else wr32 b (data + 16) daddr)"

definition trn_swap_src_dst_ip :: "bytes \<Rightarrow> nat \<Rightarrow> nat \<Rightarrow> bytes option" where
  "trn_swap_src_dst_ip b ip data_end = do {
     tmp \<leftarrow> rd32 b (ip + 12);
     d \<leftarrow> rd32 b (ip + 16);
     b \<leftarrow> trn_set_src_ip b ip data_end d;
     trn_set_dst_ip b ip data_end tmp
   }"

definition trn_set_sport_udp :: "bytes \<Rightarrow> nat \<Rightarrow> nat \<Rightarrow> u16 \<Rightarrow> bytes option" where
  "trn_set_sport_udp b data data_end sport =
     (if data + 0 + 2 > data_end then Some b else wr16 b (data + 0) sport)"

definition trn_set_dport_udp :: "bytes \<Rightarrow> nat \<Rightarrow> nat \<Rightarrow> u16 \<Rightarrow> bytes option" where
  "trn_set_dport_udp b data data_end dport =
     (if data + 2 + 2 > data_end then Some b else wr16 b (data + 2) dport)"

definition trn_swap_sport_dport_udp :: "bytes \<Rightarrow> nat \<Rightarrow> nat \<Rightarrow> bytes option" where
  "trn_swap_sport_dport_udp b udp data_end = do {
     tmp \<leftarrow> rd16 b (udp + 0);
     d \<leftarrow> rd16 b (udp + 2);
     b \<leftarrow> trn_set_sport_udp b udp data_end d;
     trn_set_dport_udp b udp data_end tmp
   }"

definition trn_set_src_dst_ip_csum ::
  "bytes \<Rightarrow> nat \<Rightarrow> u32 \<Rightarrow> u32 \<Rightarrow> nat \<Rightarrow> bytes option" where
  "trn_set_src_dst_ip_csum b ip saddr daddr data_end = do {
     ttl \<leftarrow> rd8 b (ip + 8);
     b \<leftarrow> wr8 b (ip + 8) (ttl - 1);
     b \<leftarrow> trn_set_src_ip b ip data_end saddr;
     b \<leftarrow> trn_set_dst_ip b ip data_end daddr;
     b \<leftarrow> wr16 b (ip + 10) 0;
     csum \<leftarrow> trn_ipv4_csum_inline b ip 0;
     wr16 b (ip + 10) (ucast csum)
   }"

definition trn_inner_l4_csum_update ::
  "transit_packet \<Rightarrow> u32 \<Rightarrow> u32 \<Rightarrow> transit_packet option" where
  "trn_inner_l4_csum_update pkt old_addr new_addr =
     (if new_addr = old_addr then Some pkt
      else do {
        iip \<leftarrow> tp_inner_ip pkt;
        proto \<leftarrow> rd8 (tp_data pkt) (iip + 9);
        let upd = (\<lambda>l4 sz off pkt. case l4 of
            None \<Rightarrow> Some pkt
          | Some l \<Rightarrow>
              if l + sz > tp_data_end pkt then Some pkt
              else do {
                cs \<leftarrow> rd16 (tp_data pkt) (l + off);
                d \<leftarrow> wr16 (tp_data pkt) (l + off)
                      (ucast (trn_update_l4_csum (ucast cs) old_addr new_addr));
                Some (pkt\<lparr>tp_data := d\<rparr>)
              });
        if proto = IPPROTO_UDP then upd (tp_inner_udp pkt) sizeof_udphdr 6 pkt
        else if proto = IPPROTO_TCP then upd (tp_inner_tcp pkt) sizeof_tcphdr 16 pkt
        else Some pkt
      })"

definition trn_set_src_dst_inner_ip_csum ::
  "transit_packet \<Rightarrow> u32 \<Rightarrow> u32 \<Rightarrow> transit_packet option" where
  "trn_set_src_dst_inner_ip_csum pkt saddr daddr = do {
     iip \<leftarrow> tp_inner_ip pkt;
     if iip + sizeof_iphdr > tp_data_end pkt then Some pkt
     else do {
       old_saddr \<leftarrow> rd32 (tp_data pkt) (iip + 12);
       old_daddr \<leftarrow> rd32 (tp_data pkt) (iip + 16);
       d \<leftarrow> trn_set_src_ip (tp_data pkt) iip (tp_data_end pkt) saddr;
       pkt \<leftarrow> trn_inner_l4_csum_update (pkt\<lparr>tp_data := d\<rparr>) old_saddr saddr;
       d \<leftarrow> trn_set_dst_ip (tp_data pkt) iip (tp_data_end pkt) daddr;
       pkt \<leftarrow> trn_inner_l4_csum_update (pkt\<lparr>tp_data := d\<rparr>) old_daddr daddr;
       d \<leftarrow> wr16 (tp_data pkt) (iip + 10) 0;
       csum \<leftarrow> trn_ipv4_csum_inline d iip 0;
       d \<leftarrow> wr16 d (iip + 10) (ucast csum);
       Some (pkt\<lparr>tp_data := d\<rparr>)
     }
   }"

text \<open>One changed port: \<open>check = cs - bpf_htons(256)\<close> after the incremental update.\<close>

definition port_csum_fixup :: "bytes \<Rightarrow> nat \<Rightarrow> u16 \<Rightarrow> u16 \<Rightarrow> bytes option" where
  "port_csum_fixup b check old_port new_port =
     (if old_port \<noteq> new_port then do {
        c \<leftarrow> rd16 b check;
        let cs = trn_update_l4_csum_port (ucast c) old_port new_port;
        wr16 b check (ucast (cs - ucast (bpf_htons 256)))
      }
      else Some b)"

definition trn_set_src_dst_port :: "transit_packet \<Rightarrow> u16 \<Rightarrow> u16 \<Rightarrow> transit_packet option" where
  "trn_set_src_dst_port pkt sport dport =
     (let set_ports = (\<lambda>l4 sz off. do {
        l \<leftarrow> l4;
        if l + sz > tp_data_end pkt then Some pkt
        else do {
          old_dport \<leftarrow> rd16 (tp_data pkt) (l + 2);
          old_sport \<leftarrow> rd16 (tp_data pkt) (l + 0);
          d \<leftarrow> wr16 (tp_data pkt) (l + 0) sport;
          d \<leftarrow> wr16 d (l + 2) dport;
          d \<leftarrow> port_csum_fixup d (l + off) old_dport dport;
          d \<leftarrow> port_csum_fixup d (l + off) old_sport sport;
          Some (pkt\<lparr>tp_data := d\<rparr>)
        }
      })
      in if fl_protocol (fc_flow (tp_fctx pkt)) = IPPROTO_TCP
         then set_ports (tp_inner_tcp pkt) sizeof_tcphdr 16
         else if fl_protocol (fc_flow (tp_fctx pkt)) = IPPROTO_UDP
         then set_ports (tp_inner_udp pkt) sizeof_udphdr 6
         else Some pkt)"

definition trn_reverse_ipv4_tuple :: "ipv4_flow_t \<Rightarrow> ipv4_flow_t" where
  "trn_reverse_ipv4_tuple tuple =
     (let tmp_addr = fl_saddr tuple; tmp_port = fl_sport tuple;
          tuple = tuple\<lparr>fl_saddr := fl_daddr tuple\<rparr>;
          tuple = tuple\<lparr>fl_sport := fl_dport tuple\<rparr>;
          tuple = tuple\<lparr>fl_daddr := tmp_addr\<rparr>
      in tuple\<lparr>fl_dport := tmp_port\<rparr>)"

text \<open>
  Clearing an option: \<open>type\<close> and the \<open>length : 5\<close> bit field (the low five bits of the fourth
  byte) become 0, then the option's data is zeroed; the class and the reserved bits stay.
\<close>

primrec mem_zero :: "bytes \<Rightarrow> nat \<Rightarrow> nat \<Rightarrow> bytes option" where
  "mem_zero b p 0 = Some b"
| "mem_zero b p (Suc n) = do { b \<leftarrow> wr8 b p 0; mem_zero b (p + 1) n }"

definition reset_gnv_opt :: "bytes \<Rightarrow> nat \<Rightarrow> nat \<Rightarrow> bytes option" where
  "reset_gnv_opt b opt data_len = do {
     b \<leftarrow> wr8 b (opt + 2) 0;
     len \<leftarrow> rd8 b (opt + 3);
     b \<leftarrow> wr8 b (opt + 3) (len AND NOT 31);
     mem_zero b (opt + 4) data_len
   }"

definition trn_reset_rts_opt :: "transit_packet \<Rightarrow> transit_packet option" where
  "trn_reset_rts_opt pkt = do {
     p \<leftarrow> tp_rts_opt pkt;
     d \<leftarrow> reset_gnv_opt (tp_data pkt) p 12;
     Some (pkt\<lparr>tp_data := d\<rparr>)
   }"

definition trn_reset_scaled_ep_opt :: "transit_packet \<Rightarrow> transit_packet option" where
  "trn_reset_scaled_ep_opt pkt = do {
     p \<leftarrow> tp_scaled_ep_opt pkt;
     d \<leftarrow> reset_gnv_opt (tp_data pkt) p 28;
     Some (pkt\<lparr>tp_data := d\<rparr>)
   }"

text \<open>
  \<open>trn_append_src\<close> stores a VNI after the packet's payload. Its result type is \<open>__u8\<close>, so the
  \<open>return -1\<close> of its guards reaches the caller as 255.
\<close>

definition trn_append_src :: "bytes \<Rightarrow> nat \<Rightarrow> nat \<Rightarrow> u16 \<Rightarrow> u32 \<Rightarrow> (u8 \<times> bytes) option" where
  "trn_append_src b data data_end len vni =
     (let addon = data + unat len
      in if data + 1 > data_end then Some (- 1, b)
         else if addon + 4 > data_end then Some (- 1, b)
         else if addon < data then Some (- 1, b)
         else do { b \<leftarrow> wr32 b addon vni; Some (0, b) })"

section \<open>What the header rewrite does\<close>

text \<open>
  \<open>trn_set_src_dst_ip_csum\<close> on an in-bounds header, as a total function: TTL decremented,
  addresses replaced, checksum recomputed.
\<close>

definition ip_rewrite_fields :: "bytes \<Rightarrow> nat \<Rightarrow> u32 \<Rightarrow> u32 \<Rightarrow> bytes" where
  "ip_rewrite_fields b p s d =
     put16 (put32 (put32 (put8 b (p + 8) (get8 b (p + 8) - 1)) (p + 12) s) (p + 16) d) (p + 10) 0"

definition ip_rewrite :: "bytes \<Rightarrow> nat \<Rightarrow> u32 \<Rightarrow> u32 \<Rightarrow> bytes" where
  "ip_rewrite b p s d = put16 (ip_rewrite_fields b p s d) (p + 10)
     (hdr_check (ip_rewrite_fields b p s d) p)"

lemma length_ip_rewrite [simp]:
  "length (ip_rewrite_fields b p s d) = length b" "length (ip_rewrite b p s d) = length b"
  by (simp_all add: ip_rewrite_fields_def ip_rewrite_def)

lemma trn_set_src_dst_ip_csum_eq [step_simps]:
  "p + 20 \<le> de \<Longrightarrow> de \<le> length b \<Longrightarrow>
   trn_set_src_dst_ip_csum b p s d de = Some (ip_rewrite b p s d)"
  by (simp add: trn_set_src_dst_ip_csum_def trn_set_src_ip_def trn_set_dst_ip_def mem_simps
      ip_rewrite_def trn_ipv4_csum_inline_eq flip: ip_rewrite_fields_def)

lemma ip_rewrite_fields [mem_simps]:
  assumes "p + 20 \<le> length b"
  shows "get32 (ip_rewrite b p s d) (p + 12) = s"
    "get32 (ip_rewrite b p s d) (p + 16) = d"
    "get8 (ip_rewrite b p s d) (p + 8) = get8 b (p + 8) - 1"
    "get8 (ip_rewrite b p s d) (p + 9) = get8 b (p + 9)"
    "k < 4 \<Longrightarrow> get16 (ip_rewrite b p s d) (p + 2 * k) = get16 b (p + 2 * k)"
  using assms by (simp_all add: ip_rewrite_def ip_rewrite_fields_def mem_simps)

lemma ip_rewrite_other [mem_simps]:
  "j < p \<or> p + 20 \<le> j \<Longrightarrow> get8 (ip_rewrite b p s d) j = get8 b j"
  "j + 2 \<le> p \<or> p + 20 \<le> j \<Longrightarrow> get16 (ip_rewrite b p s d) j = get16 b j"
  "j + 4 \<le> p \<or> p + 20 \<le> j \<Longrightarrow> get32 (ip_rewrite b p s d) j = get32 b j"
  "j + 6 \<le> p \<or> p + 20 \<le> j \<Longrightarrow> get_mac (ip_rewrite b p s d) j = get_mac b j"
  by (auto simp: ip_rewrite_def ip_rewrite_fields_def mem_simps)

lemma ip_rewrite_csum_ok:
  "p + 20 \<le> length b \<Longrightarrow> ipv4_csum_ok (ip_rewrite b p s d) p"
  unfolding ip_rewrite_def
  by (rule ipv4_csum_written) (simp_all add: ip_rewrite_fields_def mem_simps)

lemma ipv4_csum_ok_cong:
  assumes "\<And>k. k < 10 \<Longrightarrow> get16 b (p + 2 * k) = get16 b' (p + 2 * k)"
    "p + 20 \<le> length b" "p + 20 \<le> length b'"
  shows "ipv4_csum_ok b p = ipv4_csum_ok b' p"
proof -
  have "hdr_check b p = hdr_check b' p" using assms(1) by (simp add: hdr_check_def)
  then show ?thesis using assms(2,3) by (simp add: ipv4_csum_ok_code trn_ipv4_csum_inline_eq)
qed

text \<open>A MAC written outside the header leaves its checksum valid.\<close>

lemma ipv4_csum_ok_put_mac:
  assumes "j + 6 \<le> p \<or> p + 20 \<le> j" "p + 20 \<le> length b"
  shows "ipv4_csum_ok (put_mac b j m) p = ipv4_csum_ok b p"
proof (rule ipv4_csum_ok_cong)
  fix k :: nat assume "k < 10"
  then have "p + 2 * k + 2 \<le> j \<or> j + 6 \<le> p + 2 * k" using assms(1) by auto
  then show "get16 (put_mac b j m) (p + 2 * k) = get16 b (p + 2 * k)"
    by (rule get_put_mac_other(2))
qed (use assms in simp_all)

end
