(* ===== verification/Arion_Transit.thy ===== *)
theory Arion_Transit
  imports Arion_Kern
begin

text \<open>
  The gateway's XDP program (\<open>src/src/xdp/trn_transit_xdp.c\<close>) and the stage programs it
  tail-calls (\<open>trn_transit_{tx,pass,redirect,drop}_proc_xdp.c\<close>), one definition per function.
  The verdicts are the integers of \<open>enum xdp_action\<close> and the extra \<open>EP_NOT_FOUND\<close>. Each step
  takes the packet descriptor and returns the verdict with the updated descriptor; it is
  \<open>None\<close> when the C code would touch memory outside the packet or follow an unset pointer.

  What the kernel provides is the record \<open>xdp_env\<close>: the lookup functions of the BPF maps as
  one run of the program sees them, the jump table, the helpers that resize a packet or
  redirect it, and the program an operator may have hooked in with xdpcap.
\<close>

section \<open>Verdicts, environment, stage programs\<close>

definition XDP_ABORTED :: int where [simp]: "XDP_ABORTED = 0"
definition XDP_DROP :: int where [simp]: "XDP_DROP = 1"
definition XDP_PASS :: int where [simp]: "XDP_PASS = 2"
definition XDP_TX :: int where [simp]: "XDP_TX = 3"
definition XDP_REDIRECT :: int where [simp]: "XDP_REDIRECT = 4"
definition EP_NOT_FOUND :: int where [simp]: "EP_NOT_FOUND = 5"

text \<open>The compile-time switch of \<open>trn_kern.h\<close> for the notification trailer.\<close>

definition appendTail :: int where [simp]: "appendTail = 0"

datatype stage_prog = Transit_tx_proc | Transit_pass_proc | Transit_redirect_proc | Transit_drop_proc

definition transit_tx_proc :: int where "transit_tx_proc = XDP_TX"
definition transit_pass_proc :: int where "transit_pass_proc = XDP_PASS"
definition transit_redirect_proc :: int where "transit_redirect_proc = XDP_REDIRECT"
definition transit_drop_proc :: int where "transit_drop_proc = XDP_DROP"

primrec run_stage :: "stage_prog \<Rightarrow> int" where
  "run_stage Transit_tx_proc = transit_tx_proc"
| "run_stage Transit_pass_proc = transit_pass_proc"
| "run_stage Transit_redirect_proc = transit_redirect_proc"
| "run_stage Transit_drop_proc = transit_drop_proc"

record xdp_env =
  endpoints_map :: "endpoint_key_t \<Rightarrow> endpoint_t option"
  if_config_map :: "u32 \<Rightarrow> tunnel_iface_t option"
  sg_cidr_map :: "sg_cidr_key_t \<Rightarrow> security_group_t option"
  xsks_map :: "u32 \<Rightarrow> bool"
  redirect_xsk :: "u32 \<Rightarrow> int"
  redirect_itf :: "int \<Rightarrow> int"
  jmp_table :: "nat \<Rightarrow> stage_prog option"
  xdpcap_prog :: "int \<Rightarrow> int option"
  adjust_tail :: "bytes \<Rightarrow> nat \<Rightarrow> int \<times> bytes"
  adjust_head :: "bytes \<Rightarrow> nat \<Rightarrow> int \<times> bytes"

record xdp_md =
  ctx_data :: bytes
  ingress_ifindex :: u32
  rx_queue_index :: u32

text \<open>\<open>xdpcap_exit\<close>: tail-call the hooked program, if any, else return the verdict.\<close>

definition xdpcap_exit :: "xdp_env \<Rightarrow> int \<Rightarrow> int" where
  "xdpcap_exit E action = (case xdpcap_prog E action of Some r \<Rightarrow> r | None \<Rightarrow> action)"

section \<open>Functions the program defines and does not call\<close>

definition trn_rewrite_remote_mac :: "xdp_env \<Rightarrow> transit_packet \<Rightarrow> (int \<times> transit_packet) option" where
  "trn_rewrite_remote_mac E pkt = do {
     ip \<leftarrow> tp_ip pkt;
     ttl \<leftarrow> rd8 (tp_data pkt) (ip + 8);
     if ttl = 0 then Some (XDP_DROP, pkt)
     else do {
       daddr \<leftarrow> rd32 (tp_data pkt) (ip + 16);
       case endpoints_map E \<lparr>ek_vni = 0, ek_ip = daddr\<rparr> of
         None \<Rightarrow> Some (XDP_DROP, pkt)
       | Some remote_ep \<Rightarrow> do {
           eth \<leftarrow> tp_eth pkt;
           d \<leftarrow> trn_set_src_mac_mem (tp_data pkt) 0 eth;
           d \<leftarrow> trn_set_dst_mac d 0 (ep_mac remote_ep);
           Some (XDP_TX, pkt\<lparr>tp_data := d\<rparr>)
         }
     }
   }"

definition trn_decapsulate_and_redirect ::
  "xdp_env \<Rightarrow> transit_packet \<Rightarrow> int \<Rightarrow> int \<times> transit_packet" where
  "trn_decapsulate_and_redirect E pkt ifindex =
     (let outer_header_size = sizeof_genevehdr + unat (tp_gnv_hdr_len pkt) + sizeof_udphdr
            + sizeof_iphdr + sizeof_ethhdr;
          (err, d) = adjust_head E (tp_data pkt) outer_header_size
      in if err \<noteq> 0 then (XDP_DROP, pkt)
         else (redirect_itf E ifindex, pkt\<lparr>tp_data := d\<rparr>))"

section \<open>Security groups\<close>

definition trn_sg_check :: "xdp_env \<Rightarrow> transit_packet \<Rightarrow> (int \<times> transit_packet) option" where
  "trn_sg_check E pkt = do {
     iip \<leftarrow> tp_inner_ip pkt;
     saddr \<leftarrow> rd32 (tp_data pkt) (iip + 12);
     daddr \<leftarrow> rd32 (tp_data pkt) (iip + 16);
     protocol \<leftarrow> rd8 (tp_data pkt) (iip + 9);
     let sgkey = \<lparr>sgk_prefixlen = SG_IPV4_PREFIX, sgk_vni = tp_vni pkt, sgk_port = 30011,
                  sgk_direction = 0, sgk_protocol = protocol, sgk_src_ip = saddr,
                  sgk_dst_ip = daddr\<rparr>;
     if sg_cidr_map E sgkey = None then Some (XDP_DROP, pkt)
     else do {
       let sgkey = sgkey\<lparr>sgk_direction := 1, sgk_src_ip := sgk_dst_ip sgkey\<rparr>;
       let sgkey = sgkey\<lparr>sgk_dst_ip := saddr\<rparr>;
       let ingress = (\<lambda>sgkey pkt.
         if sg_cidr_map E sgkey = None then Some (XDP_DROP, pkt) else Some (XDP_PASS, pkt));
       if sgk_protocol sgkey = IPPROTO_TCP then do {
         let l4 = iip + sizeof_iphdr;
         let pkt = pkt\<lparr>tp_inner_tcp := Some l4\<rparr>;
         if l4 + sizeof_tcphdr > tp_data_end pkt then Some (XDP_ABORTED, pkt)
         else do {
           dest \<leftarrow> rd16 (tp_data pkt) (l4 + 2);
           ingress (sgkey\<lparr>sgk_port := dest\<rparr>) pkt
         }
       }
       else if sgk_protocol sgkey = IPPROTO_UDP then do {
         let l4 = iip + sizeof_iphdr;
         let pkt = pkt\<lparr>tp_inner_udp := Some l4\<rparr>;
         if l4 + sizeof_udphdr > tp_data_end pkt then Some (XDP_ABORTED, pkt)
         else do {
           dest \<leftarrow> rd16 (tp_data pkt) (l4 + 2);
           ingress (sgkey\<lparr>sgk_port := dest\<rparr>) pkt
         }
       }
       else Some (XDP_PASS, pkt)
     }
   }"

section \<open>Inner IP forwarding\<close>

text \<open>
  The flow matcher of an inner packet: the ports are read for TCP and UDP; a verdict comes
  back when the transport header does not fit.
\<close>

definition flow_ports :: "transit_packet \<Rightarrow> nat \<Rightarrow> ipv4_flow_t \<Rightarrow>
    (int option \<times> transit_packet) option" where
  "flow_ports pkt iip flow =
     (let l4 = iip + sizeof_iphdr;
          store = (\<lambda>pkt. do {
            sport \<leftarrow> rd16 (tp_data pkt) (l4 + 0);
            dport \<leftarrow> rd16 (tp_data pkt) (l4 + 2);
            let flow = flow\<lparr>fl_sport := sport, fl_dport := dport\<rparr>;
            Some (None, pkt\<lparr>tp_fctx := (tp_fctx pkt)\<lparr>fc_flow := flow\<rparr>\<rparr>)
          })
      in if fl_protocol flow = IPPROTO_TCP then do {
           let pkt = pkt\<lparr>tp_inner_tcp := Some l4\<rparr>;
           if l4 + sizeof_tcphdr > tp_data_end pkt then Some (Some XDP_ABORTED, pkt) else store pkt
         }
         else if fl_protocol flow = IPPROTO_UDP then do {
           let pkt = pkt\<lparr>tp_inner_udp := Some l4\<rparr>;
           if l4 + sizeof_udphdr > tp_data_end pkt then Some (Some XDP_ABORTED, pkt) else store pkt
         }
         else Some (None, pkt))"

text \<open>The trailer for the compute node, written after the IP packet when \<open>appendTail\<close> is on.\<close>

definition trn_append_hints :: "transit_packet \<Rightarrow> u32 \<Rightarrow> (int option \<times> transit_packet) option" where
  "trn_append_hints pkt tip = do {
     ip \<leftarrow> tp_ip pkt;
     eth \<leftarrow> tp_eth pkt;
     t \<leftarrow> rd16 (tp_data pkt) (ip + 2);
     let ip_tot_len = bpf_ntohs t;
     if ip_tot_len < 2 then Some (Some XDP_DROP, pkt)
     else do {
       let ip_tot_len = unat (ip_tot_len AND 0xFFF);
       if 0 + ip_tot_len + sizeof_xdp_hints_src + sizeof_ethhdr > tp_data_end pkt
       then Some (Some XDP_ABORTED, pkt)
       else do {
         let h_src = 0 + ip_tot_len + sizeof_ethhdr;
         d \<leftarrow> wr32 (tp_data pkt) (h_src + 2) (tp_vni pkt);
         d \<leftarrow> wr32 d (h_src + 6) tip;
         d \<leftarrow> wr16 d (h_src + 0) 0x5354;
         m0 \<leftarrow> rd8 d (eth + 6);
         d \<leftarrow> wr8 d (h_src + 10) m0;
         m1 \<leftarrow> rd8 d (eth + 7);
         d \<leftarrow> wr8 d (h_src + 11) m1;
         m2 \<leftarrow> rd8 d (eth + 8);
         d \<leftarrow> wr8 d (h_src + 12) m2;
         m3 \<leftarrow> rd8 d (eth + 9);
         d \<leftarrow> wr8 d (h_src + 13) m3;
         m4 \<leftarrow> rd8 d (eth + 10);
         d \<leftarrow> wr8 d (h_src + 14) m4;
         m5 \<leftarrow> rd8 d (eth + 11);
         d \<leftarrow> wr8 d (h_src + 15) m5;
         Some (None, pkt\<lparr>tp_data := d\<rparr>)
       }
     }
   }"

text \<open>The rewriting half of \<open>trn_process_inner_ip\<close>, once the endpoint is known.\<close>

definition trn_forward_inner ::
  "int \<Rightarrow> transit_packet \<Rightarrow> endpoint_t \<Rightarrow> (int \<times> transit_packet) option" where
  "trn_forward_inner pkt_not_add_tail pkt ep = do {
     ie \<leftarrow> tp_inner_eth pkt;
     ip \<leftarrow> tp_ip pkt;
     eth \<leftarrow> tp_eth pkt;
     let protocol = fl_protocol (fc_flow (tp_fctx pkt));
     let append = (appendTail \<noteq> 0 \<and> protocol \<noteq> IPPROTO_ICMP \<and> pkt_not_add_tail = 0);
     d \<leftarrow> trn_set_dst_mac (tp_data pkt) ie (ep_mac ep);
     saddr \<leftarrow> rd32 d (ip + 12);
     let tip = (if append then saddr else 0);
     daddr \<leftarrow> rd32 d (ip + 16);
     d \<leftarrow> trn_set_src_dst_ip_csum d ip daddr (ep_hip ep) (length d);
     d \<leftarrow> trn_set_src_mac_mem d eth eth;
     d \<leftarrow> trn_set_dst_mac d eth (ep_hmac ep);
     let pkt = pkt\<lparr>tp_data := d\<rparr>;
     if append then do {
       (early, pkt) \<leftarrow> trn_append_hints pkt tip;
       Some (case early of Some action \<Rightarrow> (action, pkt) | None \<Rightarrow> (XDP_TX, pkt))
     }
     else Some (XDP_TX, pkt)
   }"

definition trn_process_inner_ip ::
  "xdp_env \<Rightarrow> int \<Rightarrow> transit_packet \<Rightarrow> (int \<times> transit_packet) option" where
  "trn_process_inner_ip E pkt_not_add_tail pkt = do {
     ie \<leftarrow> tp_inner_eth pkt;
     let iip = ie + sizeof_ethhdr;
     let pkt = pkt\<lparr>tp_inner_ip := Some iip\<rparr>;
     if iip + sizeof_iphdr > tp_data_end pkt then Some (XDP_ABORTED, pkt)
     else do {
       (action, pkt) \<leftarrow> trn_sg_check E pkt;
       if action \<noteq> XDP_PASS then Some (action, pkt)
       else do {
         daddr \<leftarrow> rd32 (tp_data pkt) (iip + 16);
         case endpoints_map E \<lparr>ek_vni = tp_vni pkt, ek_ip = daddr\<rparr> of
           None \<Rightarrow> Some (EP_NOT_FOUND, pkt)
         | Some ep \<Rightarrow> do {
             saddr \<leftarrow> rd32 (tp_data pkt) (iip + 12);
             protocol \<leftarrow> rd8 (tp_data pkt) (iip + 9);
             let flow = flow_zero\<lparr>fl_vni := trn_set_vni (tp_vni pkt), fl_saddr := saddr,
                          fl_daddr := daddr, fl_protocol := protocol\<rparr>;
             let pkt = pkt\<lparr>tp_fctx := flow_ctx_zero\<lparr>fc_flow := flow\<rparr>\<rparr>;
             (early, pkt) \<leftarrow> flow_ports pkt iip flow;
             case early of
               Some action \<Rightarrow> Some (action, pkt)
             | None \<Rightarrow> trn_forward_inner pkt_not_add_tail pkt ep
           }
       }
     }
   }"

section \<open>Inner ARP\<close>

definition trn_process_inner_arp ::
  "xdp_env \<Rightarrow> transit_packet \<Rightarrow> (int \<times> transit_packet) option" where
  "trn_process_inner_arp E pkt = do {
     ie \<leftarrow> tp_inner_eth pkt;
     let arp = ie + sizeof_ethhdr;
     let pkt = pkt\<lparr>tp_inner_arp := Some arp\<rparr>;
     if arp + sizeof_arphdr > tp_data_end pkt then Some (XDP_ABORTED, pkt)
     else do {
       ar_pro \<leftarrow> rd16 (tp_data pkt) (arp + 2);
       ar_hrd \<leftarrow> rd16 (tp_data pkt) (arp + 0);
       if ar_pro \<noteq> bpf_htons ETH_P_IP \<or> ar_hrd \<noteq> bpf_htons ARPHRD_ETHER then Some (XDP_DROP, pkt)
       else do {
         ar_op \<leftarrow> rd16 (tp_data pkt) (arp + 6);
         if ar_op \<noteq> bpf_htons ARPOP_REQUEST then Some (XDP_DROP, pkt)
         else do {
           let sha = arp + sizeof_arphdr;
           let sip = sha + ETH_ALEN;
           let tha = sip + 4;
           let tip = tha + ETH_ALEN;
           if sha + ETH_ALEN > tp_data_end pkt then Some (XDP_ABORTED, pkt)
           else if sip + 4 > tp_data_end pkt then Some (XDP_ABORTED, pkt)
           else if tha + ETH_ALEN > tp_data_end pkt then Some (XDP_ABORTED, pkt)
           else if tip + 4 > tp_data_end pkt then Some (XDP_ABORTED, pkt)
           else do {
             target \<leftarrow> rd32 (tp_data pkt) tip;
             case endpoints_map E \<lparr>ek_vni = tp_vni pkt, ek_ip = target\<rparr> of
               None \<Rightarrow> Some (EP_NOT_FOUND, pkt)
             | Some ep \<Rightarrow> do {
                 d \<leftarrow> wr16 (tp_data pkt) (arp + 6) (bpf_htons ARPOP_REPLY);
                 d \<leftarrow> trn_set_mac_mem d tha sha;
                 d \<leftarrow> trn_set_mac d sha (ep_mac ep);
                 tmp_ip \<leftarrow> rd32 d sip;
                 t \<leftarrow> rd32 d tip;
                 d \<leftarrow> wr32 d sip t;
                 d \<leftarrow> wr32 d tip tmp_ip;
                 d \<leftarrow> trn_set_dst_mac_mem d ie (ie + 6);
                 d \<leftarrow> trn_set_src_mac d ie (ep_mac ep);
                 ip \<leftarrow> tp_ip pkt;
                 daddr \<leftarrow> rd32 d (ip + 16);
                 saddr \<leftarrow> rd32 d (ip + 12);
                 d \<leftarrow> trn_set_src_dst_ip_csum d ip daddr saddr (length d);
                 d \<leftarrow> trn_swap_src_dst_mac d 0;
                 Some (XDP_TX, pkt\<lparr>tp_data := d\<rparr>)
               }
           }
         }
       }
     }
   }"

section \<open>Overlay headers\<close>

definition trn_process_inner_eth ::
  "xdp_env \<Rightarrow> int \<Rightarrow> transit_packet \<Rightarrow> (int \<times> transit_packet) option" where
  "trn_process_inner_eth E pkt_not_add_tail pkt = do {
     ie \<leftarrow> tp_inner_eth pkt;
     if ie + sizeof_ethhdr > tp_data_end pkt then Some (XDP_ABORTED, pkt)
     else do {
       itf \<leftarrow> tp_itf pkt;
       h_proto \<leftarrow> rd16 (tp_data pkt) (ie + 12);
       if ti_role itf = role_code XDP_FWD \<and> h_proto = bpf_htons ETH_P_ARP
       then trn_process_inner_arp E pkt
       else if h_proto \<noteq> bpf_htons ETH_P_IP then Some (XDP_DROP, pkt)
       else trn_process_inner_ip E pkt_not_add_tail pkt
     }
   }"

definition trn_process_geneve ::
  "xdp_env \<Rightarrow> int \<Rightarrow> transit_packet \<Rightarrow> (int \<times> transit_packet) option" where
  "trn_process_geneve E pkt_not_add_tail pkt = do {
     udp \<leftarrow> tp_udp pkt;
     let hdr = udp + sizeof_udphdr;
     let pkt = pkt\<lparr>tp_gnv_hdr := Some hdr\<rparr>;
     if hdr + sizeof_genevehdr > tp_data_end pkt then Some (XDP_ABORTED, pkt)
     else do {
       proto_type \<leftarrow> rd16 (tp_data pkt) (hdr + 2);
       if proto_type \<noteq> bpf_htons ETH_P_TEB then Some (XDP_ABORTED, pkt)
       else do {
         opt_len \<leftarrow> genevehdr_opt_len (tp_data pkt) hdr;
         let rts = hdr + sizeof_genevehdr;
         let pkt = pkt\<lparr>tp_gnv_opt_len := ucast opt_len * 4, tp_rts_opt := Some rts\<rparr>;
         if rts + sizeof_rts_opt > tp_data_end pkt then Some (XDP_ABORTED, pkt)
         else do {
           opt_class \<leftarrow> rd16 (tp_data pkt) (rts + 0);
           if opt_class \<noteq> TRN_GNV_OPT_CLASS then Some (XDP_ABORTED, pkt)
           else do {
             let pkt = pkt\<lparr>tp_gnv_hdr_len := of_nat sizeof_rts_opt\<rparr>;
             let sep = rts + sizeof_rts_opt;
             let pkt = pkt\<lparr>tp_scaled_ep_opt := Some sep\<rparr>;
             if sep + sizeof_scaled_ep_opt > tp_data_end pkt then Some (XDP_ABORTED, pkt)
             else do {
               opt_class \<leftarrow> rd16 (tp_data pkt) (sep + 0);
               if opt_class \<noteq> TRN_GNV_OPT_CLASS then Some (XDP_ABORTED, pkt)
               else do {
                 let pkt = pkt\<lparr>tp_gnv_hdr_len := tp_gnv_hdr_len pkt + of_nat sizeof_scaled_ep_opt\<rparr>;
                 if tp_gnv_hdr_len pkt \<noteq> tp_gnv_opt_len pkt then Some (XDP_ABORTED, pkt)
                 else do {
                   let pkt = pkt\<lparr>tp_gnv_hdr_len := tp_gnv_hdr_len pkt + of_nat sizeof_genevehdr\<rparr>;
                   vni \<leftarrow> rd_vni (tp_data pkt) (hdr + 4);
                   trn_process_inner_eth E pkt_not_add_tail
                     (pkt\<lparr>tp_vni := trn_get_vni vni,
                          tp_inner_eth := Some (hdr + unat (tp_gnv_hdr_len pkt))\<rparr>)
                 }
               }
             }
           }
         }
       }
     }
   }"

definition trn_process_vxlan ::
  "xdp_env \<Rightarrow> int \<Rightarrow> transit_packet \<Rightarrow> (int \<times> transit_packet) option" where
  "trn_process_vxlan E pkt_not_add_tail pkt = do {
     udp \<leftarrow> tp_udp pkt;
     let vxlan = udp + sizeof_udphdr;
     let pkt = pkt\<lparr>tp_vxlan := Some vxlan\<rparr>;
     if vxlan + sizeof_vxlanhdr > tp_data_end pkt then Some (XDP_ABORTED, pkt)
     else do {
       vni \<leftarrow> rd_vni (tp_data pkt) (vxlan + 4);
       trn_process_inner_eth E pkt_not_add_tail
         (pkt\<lparr>tp_vni := trn_get_vni vni, tp_inner_eth := Some (vxlan + sizeof_vxlanhdr)\<rparr>)
     }
   }"

section \<open>Outer headers\<close>

definition trn_process_udp ::
  "xdp_env \<Rightarrow> int \<Rightarrow> transit_packet \<Rightarrow> (int \<times> transit_packet) option" where
  "trn_process_udp E pkt_not_add_tail pkt = do {
     ip \<leftarrow> tp_ip pkt;
     let udp = ip + sizeof_iphdr;
     let pkt = pkt\<lparr>tp_udp := Some udp\<rparr>;
     if udp + sizeof_udphdr > tp_data_end pkt then Some (XDP_ABORTED, pkt)
     else do {
       dest \<leftarrow> rd16 (tp_data pkt) (udp + 2);
       itf \<leftarrow> tp_itf pkt;
       if dest = GEN_DSTPORT \<and> ti_role itf = role_code XDP_FTN
       then trn_process_geneve E pkt_not_add_tail pkt
       else if dest = VXL_DSTPORT \<and> ti_role itf = role_code XDP_FWD
       then trn_process_vxlan E pkt_not_add_tail pkt
       else Some (XDP_PASS, pkt)
     }
   }"

text \<open>\<open>itf->entrances[i]\<close>: an index at or past the end of the array is out of bounds.\<close>

definition itf_entrance :: "tunnel_iface_t \<Rightarrow> nat \<Rightarrow> zgc_entrance_t option" where
  "itf_entrance itf i = (if i < length (entrances itf) then Some (entrances itf ! i) else None)"

definition trn_process_ip ::
  "xdp_env \<Rightarrow> int \<Rightarrow> transit_packet \<Rightarrow> (int \<times> transit_packet) option" where
  "trn_process_ip E pkt_not_add_tail pkt = do {
     eth \<leftarrow> tp_eth pkt;
     let ip = eth + sizeof_ethhdr;
     let pkt = pkt\<lparr>tp_ip := Some ip\<rparr>;
     if ip + sizeof_iphdr > tp_data_end pkt then Some (XDP_ABORTED, pkt)
     else do {
       daddr \<leftarrow> rd32 (tp_data pkt) (ip + 16);
       itf \<leftarrow> tp_itf pkt;
       ent \<leftarrow> itf_entrance itf (unat (tp_ent_idx pkt));
       if daddr \<noteq> ze_ip ent then Some (XDP_ABORTED, pkt)
       else do {
         ttl \<leftarrow> rd8 (tp_data pkt) (ip + 8);
         if ttl = 0 then Some (XDP_DROP, pkt)
         else do {
           protocol \<leftarrow> rd8 (tp_data pkt) (ip + 9);
           if protocol \<noteq> IPPROTO_UDP then Some (XDP_PASS, pkt)
           else trn_process_udp E pkt_not_add_tail (pkt\<lparr>tp_itf_ipv4 := daddr\<rparr>)
         }
       }
     }
   }"

text \<open>
  The loop over the entrances: the index (a \<open>__u16\<close>) runs while it is below the configured
  number and below the array size. \<open>Some None\<close>: the loop ends without a match.
\<close>

function find_entrance :: "bytes \<Rightarrow> nat \<Rightarrow> tunnel_iface_t \<Rightarrow> nat \<Rightarrow> nat option option" where
  "find_entrance b h_dest itf i =
     (if i < unat (num_entrances itf) \<and> i < TRAN_MAX_ZGC_ENTRANCES
      then do {
        ent \<leftarrow> itf_entrance itf i;
        eq \<leftarrow> trn_is_mac_equal b h_dest (ze_mac ent);
        if eq then Some (Some i) else find_entrance b h_dest itf (i + 1)
      }
      else Some None)"
  by pat_completeness auto
termination
  by (relation "measure (\<lambda>(b, h, itf, i). TRAN_MAX_ZGC_ENTRANCES - i)") auto

declare find_entrance.simps [simp del]

definition trn_process_eth ::
  "xdp_env \<Rightarrow> int \<Rightarrow> transit_packet \<Rightarrow> (int \<times> transit_packet) option" where
  "trn_process_eth E pkt_not_add_tail pkt =
     (let eth = 0; pkt = pkt\<lparr>tp_eth := Some eth\<rparr>
      in if eth + sizeof_ethhdr > tp_data_end pkt then Some (XDP_ABORTED, pkt)
         else do {
           h_proto \<leftarrow> rd16 (tp_data pkt) (eth + 12);
           if h_proto \<noteq> bpf_htons ETH_P_IP then Some (XDP_PASS, pkt)
           else do {
             itf \<leftarrow> tp_itf pkt;
             found \<leftarrow> find_entrance (tp_data pkt) eth itf 0;
             case found of
               None \<Rightarrow> Some (XDP_ABORTED, pkt)
             | Some i \<Rightarrow>
                 trn_process_ip E pkt_not_add_tail
                   (pkt\<lparr>tp_ent_idx := of_nat i, tp_itf_mac := get_mac (tp_data pkt) eth\<rparr>)
           }
         })"

section \<open>The program\<close>

text \<open>The descriptor on the stack before any function has filled it in.\<close>

definition fresh_packet :: "bytes \<Rightarrow> u32 \<Rightarrow> tunnel_iface_t option \<Rightarrow> transit_packet" where
  "fresh_packet d idx itf = \<lparr>tp_data = d, tp_itf = itf, tp_itf_idx = idx, tp_itf_ipv4 = 0,
     tp_ent_idx = 0, tp_itf_mac = mac_zero, tp_eth = None, tp_ip = None, tp_udp = None,
     tp_gnv_hdr = None, tp_rts_opt = None, tp_scaled_ep_opt = None, tp_gnv_hdr_len = 0,
     tp_gnv_opt_len = 0, tp_vxlan = None, tp_vni = 0, tp_inner_eth = None, tp_inner_arp = None,
     tp_inner_ip = None, tp_inner_udp = None, tp_inner_tcp = None, tp_fctx = flow_ctx_zero\<rparr>"

definition tail_call_or_exit :: "xdp_env \<Rightarrow> trn_xdp_prog_id_t \<Rightarrow> int \<Rightarrow> int" where
  "tail_call_or_exit E key action =
     (case jmp_table E (prog_id_code key) of
        Some prog \<Rightarrow> run_stage prog
      | None \<Rightarrow> xdpcap_exit E action)"

text \<open>The end of \<open>_transit\<close>: from the packet's verdict to the program's return value.\<close>

definition transit_exit :: "xdp_env \<Rightarrow> u32 \<Rightarrow> int \<Rightarrow> int" where
  "transit_exit E rx_q_index action =
     (if action = XDP_PASS then tail_call_or_exit E TRAN_PASS_PROG XDP_PASS
      else if action = EP_NOT_FOUND \<and> xsks_map E rx_q_index then redirect_xsk E rx_q_index
      else let action = (if action = EP_NOT_FOUND then XDP_DROP else action)
        in if action = XDP_DROP then tail_call_or_exit E TRAN_DROP_PROG XDP_DROP
           else if action = XDP_TX then tail_call_or_exit E TRAN_TX_PROG XDP_TX
           else if action = XDP_ABORTED then xdpcap_exit E XDP_ABORTED
           else if action = XDP_REDIRECT then tail_call_or_exit E TRAN_REDIRECT_PROG XDP_REDIRECT
           else xdpcap_exit E XDP_PASS)"

text \<open>
  \<open>_transit\<close>: the result is the return value with the packet's final bytes.
  \<open>pkt_not_add_tail\<close> is a global of the program, 1 when it is loaded.
\<close>

definition transit :: "xdp_env \<Rightarrow> int \<Rightarrow> xdp_md \<Rightarrow> (int \<times> bytes) option" where
  "transit E pkt_not_add_tail ctx =
     (let (pkt_not_add_tail, d) =
            (if appendTail \<noteq> 0 then adjust_tail E (ctx_data ctx) sizeof_xdp_hints_src
             else (pkt_not_add_tail, ctx_data ctx));
          idx = ingress_ifindex ctx
      in case if_config_map E idx of
           None \<Rightarrow> Some (XDP_ABORTED, d)
         | Some itf \<Rightarrow> do {
             (action, pkt) \<leftarrow> trn_process_eth E pkt_not_add_tail (fresh_packet d idx (Some itf));
             Some (transit_exit E (rx_queue_index ctx) action, tp_data pkt)
           })"

end
