(* ===== verification/Arion_Transit_Props.thy ===== *)
theory Arion_Transit_Props
  imports Arion_Transit
begin

text \<open>
  Properties of the gateway data path. Every function of the program is a \<open>packet_step\<close>: on
  its precondition it never leaves the packet's memory, never changes the packet's length,
  and changes bytes only when its verdict is \<open>XDP_TX\<close>. The contract is stated once, as a
  locale, and interpreted for the functions bottom-up. The rewriting done on a transmitted
  packet is given exactly, by \<open>fwd_bytes\<close> and \<open>arp_reply_bytes\<close>.
\<close>

section \<open>The contract of a step\<close>

definition verdict_ok :: "transit_packet \<Rightarrow> int \<times> transit_packet \<Rightarrow> bool" where
  "verdict_ok pkt r \<longleftrightarrow> (case r of (a, pkt') \<Rightarrow>
     length (tp_data pkt') = length (tp_data pkt) \<and>
     (a \<noteq> XDP_TX \<longrightarrow> tp_data pkt' = tp_data pkt) \<and>
     a \<in> {XDP_ABORTED, XDP_DROP, XDP_PASS, XDP_TX, EP_NOT_FOUND})"

locale packet_step =
  fixes step :: "transit_packet \<Rightarrow> (int \<times> transit_packet) option"
    and pre :: "transit_packet \<Rightarrow> bool"
  assumes contract: "pre pkt \<Longrightarrow> \<exists>r. step pkt = Some r \<and> verdict_ok pkt r"
begin

lemma no_fault: "pre pkt \<Longrightarrow> step pkt \<noteq> None"
  using contract by fastforce

lemma length_kept: "pre pkt \<Longrightarrow> step pkt = Some (a, pkt') \<Longrightarrow> length (tp_data pkt') = length (tp_data pkt)"
  using contract [of pkt] by (auto simp: verdict_ok_def)

lemma data_kept: "pre pkt \<Longrightarrow> step pkt = Some (a, pkt') \<Longrightarrow> a \<noteq> XDP_TX \<Longrightarrow> tp_data pkt' = tp_data pkt"
  using contract [of pkt] by (auto simp: verdict_ok_def)

lemma verdicts: "pre pkt \<Longrightarrow> step pkt = Some (a, pkt') \<Longrightarrow>
    a \<in> {XDP_ABORTED, XDP_DROP, XDP_PASS, XDP_TX, EP_NOT_FOUND}"
  using contract [of pkt] by (auto simp: verdict_ok_def)

end

section \<open>Security groups\<close>

definition sg_egress_key :: "u32 \<Rightarrow> bytes \<Rightarrow> nat \<Rightarrow> sg_cidr_key_t" where
  "sg_egress_key vni b iip = \<lparr>sgk_prefixlen = SG_IPV4_PREFIX, sgk_vni = vni, sgk_port = 30011,
     sgk_direction = 0, sgk_protocol = get8 b (iip + 9), sgk_src_ip = get32 b (iip + 12),
     sgk_dst_ip = get32 b (iip + 16)\<rparr>"

definition sg_ingress_key :: "u32 \<Rightarrow> bytes \<Rightarrow> nat \<Rightarrow> sg_cidr_key_t" where
  "sg_ingress_key vni b iip = \<lparr>sgk_prefixlen = SG_IPV4_PREFIX, sgk_vni = vni,
     sgk_port = get16 b (iip + 22), sgk_direction = 1, sgk_protocol = get8 b (iip + 9),
     sgk_src_ip = get32 b (iip + 16), sgk_dst_ip = get32 b (iip + 12)\<rparr>"

text \<open>
  The smallest transport header the protocol needs after the IP header (0 where the program
  does not look at the transport layer).
\<close>

definition l4_size :: "u8 \<Rightarrow> nat" where
  "l4_size proto = (if proto = IPPROTO_TCP then sizeof_tcphdr
     else if proto = IPPROTO_UDP then sizeof_udphdr else 0)"

definition sg_passes :: "xdp_env \<Rightarrow> u32 \<Rightarrow> bytes \<Rightarrow> nat \<Rightarrow> bool" where
  "sg_passes E vni b iip \<longleftrightarrow>
     sg_cidr_map E (sg_egress_key vni b iip) \<noteq> None \<and>
     iip + sizeof_iphdr + l4_size (get8 b (iip + 9)) \<le> length b \<and>
     (get8 b (iip + 9) \<in> {IPPROTO_TCP, IPPROTO_UDP} \<longrightarrow>
       sg_cidr_map E (sg_ingress_key vni b iip) \<noteq> None)"

lemma trn_sg_check_result:
  assumes "tp_inner_ip pkt = Some iip" "iip + 20 \<le> tp_data_end pkt"
  shows "\<exists>a t u. trn_sg_check E pkt = Some (a, pkt\<lparr>tp_inner_tcp := t, tp_inner_udp := u\<rparr>) \<and>
     a \<in> {XDP_ABORTED, XDP_DROP, XDP_PASS} \<and>
     (a = XDP_PASS \<longleftrightarrow> sg_passes E (tp_vni pkt) (tp_data pkt) iip)"
proof -
  have keep: "pkt = pkt\<lparr>tp_inner_tcp := tp_inner_tcp pkt, tp_inner_udp := tp_inner_udp pkt\<rparr>"
    "pkt\<lparr>tp_inner_tcp := t\<rparr> = pkt\<lparr>tp_inner_tcp := t, tp_inner_udp := tp_inner_udp pkt\<rparr>"
    "pkt\<lparr>tp_inner_udp := t\<rparr> = pkt\<lparr>tp_inner_tcp := tp_inner_tcp pkt, tp_inner_udp := t\<rparr>" for t
    by simp_all
  show ?thesis
    using assms
    by (cases "get8 (tp_data pkt) (iip + 9) = 6"; cases "get8 (tp_data pkt) (iip + 9) = 17")
      (auto simp: trn_sg_check_def Let_def mem_simps sg_passes_def sg_egress_key_def
        sg_ingress_key_def l4_size_def add.assoc split: if_splits intro: keep)
qed

section \<open>Forwarding an inner IP packet\<close>

text \<open>
  The bytes the program transmits for an inner IP packet: inner destination MAC replaced by
  the endpoint's, outer header re-addressed from this entrance to the endpoint's host, outer
  MACs likewise.
\<close>

definition fwd_bytes :: "bytes \<Rightarrow> nat \<Rightarrow> nat \<Rightarrow> nat \<Rightarrow> endpoint_t \<Rightarrow> bytes" where
  "fwd_bytes b eth ip ie ep =
     put_mac
       (put_mac
         (ip_rewrite (put_mac b ie (ep_mac ep)) ip (get32 b (ip + 16)) (ep_hip ep))
         (eth + 6) (get_mac b eth))
       eth (ep_hmac ep)"

lemma length_fwd_bytes [simp]: "length (fwd_bytes b eth ip ie ep) = length b"
  by (simp add: fwd_bytes_def)

lemma trn_forward_inner_eq:
  assumes "tp_inner_eth pkt = Some ie" "tp_ip pkt = Some ip" "tp_eth pkt = Some eth"
    "eth + 14 \<le> ip" "ip + 20 \<le> ie" "ie + 6 \<le> tp_data_end pkt"
  shows "trn_forward_inner n pkt ep =
    Some (XDP_TX, pkt\<lparr>tp_data := fwd_bytes (tp_data pkt) eth ip ie ep\<rparr>)"
  using assms
  by (simp add: trn_forward_inner_def fwd_bytes_def step_simps mem_simps
      trn_set_src_mac_mem_def)

lemma flow_ports_result:
  assumes fit: "iip + sizeof_iphdr + l4_size (fl_protocol flow) \<le> tp_data_end pkt"
  obtains pkt' where "flow_ports pkt iip flow = Some (None, pkt')"
    "tp_data pkt' = tp_data pkt" "tp_inner_eth pkt' = tp_inner_eth pkt" "tp_ip pkt' = tp_ip pkt"
    "tp_eth pkt' = tp_eth pkt"
proof (cases "fl_protocol flow = 6")
  case True
  with fit that show ?thesis by (simp add: flow_ports_def l4_size_def mem_simps Let_def)
next
  case False
  with fit that show ?thesis
    by (cases "fl_protocol flow = 17") (simp_all add: flow_ports_def l4_size_def mem_simps Let_def)
qed

text \<open>What the inner packet at \<open>ie\<close> must look like to be forwarded to \<open>ep\<close>.\<close>

definition inner_ip_to :: "xdp_env \<Rightarrow> u32 \<Rightarrow> bytes \<Rightarrow> nat \<Rightarrow> endpoint_t \<Rightarrow> bool" where
  "inner_ip_to E vni b ie ep \<longleftrightarrow>
     ie + sizeof_ethhdr + sizeof_iphdr \<le> length b \<and>
     sg_passes E vni b (ie + sizeof_ethhdr) \<and>
     endpoints_map E \<lparr>ek_vni = vni, ek_ip = get32 b (ie + sizeof_ethhdr + 16)\<rparr> = Some ep"

lemma trn_process_inner_ip_result:
  assumes "tp_inner_eth pkt = Some ie" "tp_ip pkt = Some ip" "tp_eth pkt = Some eth"
    "eth + 14 \<le> ip" "ip + 20 \<le> ie"
  shows "\<exists>a pkt'. trn_process_inner_ip E n pkt = Some (a, pkt') \<and>
     a \<in> {XDP_ABORTED, XDP_DROP, XDP_TX, EP_NOT_FOUND} \<and>
     (a \<noteq> XDP_TX \<longrightarrow> tp_data pkt' = tp_data pkt \<and>
        (\<forall>ep. \<not> inner_ip_to E (tp_vni pkt) (tp_data pkt) ie ep)) \<and>
     (a = XDP_TX \<longrightarrow> (\<exists>ep. inner_ip_to E (tp_vni pkt) (tp_data pkt) ie ep \<and>
        tp_data pkt' = fwd_bytes (tp_data pkt) eth ip ie ep))"
proof (cases "ie + 14 + 20 > tp_data_end pkt")
  case True
  then show ?thesis
    using assms by (auto simp: trn_process_inner_ip_def Let_def inner_ip_to_def)
next
  case False
  let ?b = "tp_data pkt" and ?p = "pkt\<lparr>tp_inner_ip := Some (ie + 14)\<rparr>"
  obtain a t u where sg: "trn_sg_check E ?p = Some (a, ?p\<lparr>tp_inner_tcp := t, tp_inner_udp := u\<rparr>)"
    "a \<in> {XDP_ABORTED, XDP_DROP, XDP_PASS}" "a = XDP_PASS \<longleftrightarrow> sg_passes E (tp_vni pkt) ?b (ie + 14)"
    using trn_sg_check_result [of ?p "ie + 14" E] False by auto
  show ?thesis
  proof (cases "a = XDP_PASS")
    case False
    then show ?thesis
      using sg assms \<open>\<not> ie + 14 + 20 > tp_data_end pkt\<close>
      by (auto simp: trn_process_inner_ip_def Let_def inner_ip_to_def)
  next
    case True
    let ?k = "\<lparr>ek_vni = tp_vni pkt, ek_ip = get32 ?b (ie + 14 + 16)\<rparr>"
    have sgp: "sg_passes E (tp_vni pkt) ?b (ie + 14)" using sg True by simp
    show ?thesis
    proof (cases "endpoints_map E ?k")
      case None
      then show ?thesis
        using sg True assms False
        by (auto simp: trn_process_inner_ip_def Let_def inner_ip_to_def mem_simps add.assoc)
    next
      case (Some ep)
      define flow where "flow = flow_zero\<lparr>fl_vni := trn_set_vni (tp_vni pkt),
        fl_saddr := get32 ?b (ie + 14 + 12), fl_daddr := get32 ?b (ie + 14 + 16),
        fl_protocol := get8 ?b (ie + 14 + 9)\<rparr>"
      let ?q = "?p\<lparr>tp_inner_tcp := t, tp_inner_udp := u, tp_fctx := flow_ctx_zero\<lparr>fc_flow := flow\<rparr>\<rparr>"
      have "ie + 14 + sizeof_iphdr + l4_size (fl_protocol flow) \<le> tp_data_end ?q"
        using sgp by (simp add: sg_passes_def flow_def)
      then obtain r where fp: "flow_ports ?q (ie + 14) flow = Some (None, r)"
        "tp_data r = ?b" "tp_inner_eth r = Some ie" "tp_ip r = Some ip" "tp_eth r = Some eth"
        by (rule flow_ports_result) (use assms in simp)
      have "trn_process_inner_ip E n pkt = trn_forward_inner n r ep"
        using fp(1) sg(1) True Some assms(1) False
        by (simp add: trn_process_inner_ip_def Let_def mem_simps add.assoc flow_def)
      then show ?thesis
        using trn_forward_inner_eq [OF fp(3,4,5) assms(4,5), of n ep] fp(2) False sgp Some
        by (auto simp: inner_ip_to_def add.assoc)
    qed
  qed
qed

section \<open>Answering an inner ARP request\<close>

text \<open>
  The ARP body at \<open>ie\<close>: hardware type 14, protocol type 16, operation 20, sender hardware
  address 22, sender IP 28, target hardware address 32, target IP 38.
\<close>

definition arp_request_for :: "xdp_env \<Rightarrow> u32 \<Rightarrow> bytes \<Rightarrow> nat \<Rightarrow> endpoint_t \<Rightarrow> bool" where
  "arp_request_for E vni b ie ep \<longleftrightarrow>
     ie + 42 \<le> length b \<and>
     get16 b (ie + 14) = bpf_htons ARPHRD_ETHER \<and> get16 b (ie + 16) = bpf_htons ETH_P_IP \<and>
     get16 b (ie + 20) = bpf_htons ARPOP_REQUEST \<and>
     endpoints_map E \<lparr>ek_vni = vni, ek_ip = get32 b (ie + 38)\<rparr> = Some ep"

definition arp_reply_body :: "bytes \<Rightarrow> nat \<Rightarrow> endpoint_t \<Rightarrow> bytes" where
  "arp_reply_body b ie ep =
     (let b1 = put_mac (put16 b (ie + 20) (bpf_htons ARPOP_REPLY)) (ie + 32) (get_mac b (ie + 22));
          b2 = put32 (put_mac b1 (ie + 22) (ep_mac ep)) (ie + 28) (get32 b (ie + 38));
          b3 = put32 b2 (ie + 38) (get32 b (ie + 28))
      in put_mac (put_mac b3 ie (get_mac b (ie + 6))) (ie + 6) (ep_mac ep))"

definition arp_reply_bytes :: "bytes \<Rightarrow> nat \<Rightarrow> nat \<Rightarrow> endpoint_t \<Rightarrow> bytes" where
  "arp_reply_bytes b ip ie ep =
     put_mac
       (put_mac
         (ip_rewrite (arp_reply_body b ie ep) ip (get32 b (ip + 16)) (get32 b (ip + 12)))
         0 (get_mac b 6))
       6 (get_mac b 0)"

lemma length_arp_reply [simp]:
  "length (arp_reply_body b ie ep) = length b" "length (arp_reply_bytes b ip ie ep) = length b"
  by (simp_all add: arp_reply_body_def arp_reply_bytes_def Let_def)

lemma arp_reply_body_other [mem_simps]:
  "j < ie \<Longrightarrow> get8 (arp_reply_body b ie ep) j = get8 b j"
  "j + 2 \<le> ie \<Longrightarrow> get16 (arp_reply_body b ie ep) j = get16 b j"
  "j + 4 \<le> ie \<Longrightarrow> get32 (arp_reply_body b ie ep) j = get32 b j"
  "j + 6 \<le> ie \<Longrightarrow> get_mac (arp_reply_body b ie ep) j = get_mac b j"
  by (simp_all add: arp_reply_body_def Let_def mem_simps)

lemma trn_process_inner_arp_reply:
  assumes "tp_inner_eth pkt = Some ie" "tp_ip pkt = Some ip" "14 \<le> ip" "ip + 20 \<le> ie"
    and req: "arp_request_for E (tp_vni pkt) (tp_data pkt) ie ep"
  shows "trn_process_inner_arp E pkt = Some (XDP_TX, pkt\<lparr>tp_inner_arp := Some (ie + 14),
    tp_data := arp_reply_bytes (tp_data pkt) ip ie ep\<rparr>)"
proof -
  let ?b = "tp_data pkt"
  have len: "ie + 42 \<le> length ?b" using req by (simp add: arp_request_for_def)
  show ?thesis
    using assms len
    by (simp add: trn_process_inner_arp_def arp_request_for_def Let_def mem_simps step_simps
        trn_set_dst_mac_mem_def arp_reply_bytes_def arp_reply_body_def add.assoc)
qed

lemma trn_process_inner_arp_result:
  assumes "tp_inner_eth pkt = Some ie" "tp_ip pkt = Some ip" "14 \<le> ip" "ip + 20 \<le> ie"
  shows "\<exists>a pkt'. trn_process_inner_arp E pkt = Some (a, pkt') \<and>
     a \<in> {XDP_ABORTED, XDP_DROP, XDP_TX, EP_NOT_FOUND} \<and>
     (a \<noteq> XDP_TX \<longrightarrow> tp_data pkt' = tp_data pkt \<and>
        (\<forall>ep. \<not> arp_request_for E (tp_vni pkt) (tp_data pkt) ie ep)) \<and>
     (a = XDP_TX \<longrightarrow> (\<exists>ep. arp_request_for E (tp_vni pkt) (tp_data pkt) ie ep \<and>
        tp_data pkt' = arp_reply_bytes (tp_data pkt) ip ie ep))"
proof (cases "\<exists>ep. arp_request_for E (tp_vni pkt) (tp_data pkt) ie ep")
  case True
  then show ?thesis using trn_process_inner_arp_reply [OF assms] by fastforce
next
  case False
  have "\<exists>a. trn_process_inner_arp E pkt = Some (a, pkt\<lparr>tp_inner_arp := Some (ie + 14)\<rparr>) \<and>
     a \<in> {XDP_ABORTED, XDP_DROP, EP_NOT_FOUND}"
    using False assms(1)
    by (cases "ie + 42 \<le> tp_data_end pkt"; cases "ie + 22 \<le> tp_data_end pkt";
        cases "endpoints_map E \<lparr>ek_vni = tp_vni pkt, ek_ip = get32 (tp_data pkt) (ie + 38)\<rparr>")
      (auto simp: trn_process_inner_arp_def arp_request_for_def Let_def mem_simps add.assoc)
  then show ?thesis using False by fastforce
qed

section \<open>What a transmitted packet is\<close>

text \<open>
  \<open>inner_tx E role vni b ie b'\<close>: the inner frame at \<open>ie\<close> is one the gateway transmits, as \<open>b'\<close>;
  \<open>gateway_tx E itf b b'\<close>: the same for a whole packet received on \<open>itf\<close>.
\<close>

inductive inner_tx :: "xdp_env \<Rightarrow> u8 \<Rightarrow> u32 \<Rightarrow> bytes \<Rightarrow> nat \<Rightarrow> bytes \<Rightarrow> bool" where
  tx_arp: "role = role_code XDP_FWD \<Longrightarrow> get16 b (ie + 12) = bpf_htons ETH_P_ARP \<Longrightarrow>
     arp_request_for E vni b ie ep \<Longrightarrow> inner_tx E role vni b ie (arp_reply_bytes b 14 ie ep)"
| tx_ip: "get16 b (ie + 12) = bpf_htons ETH_P_IP \<Longrightarrow> inner_ip_to E vni b ie ep \<Longrightarrow>
     inner_tx E role vni b ie (fwd_bytes b 0 14 ie ep)"

inductive_simps inner_tx_iff: "inner_tx E role vni b ie b'"

lemma inner_tx_fits: "inner_tx E role vni b ie b' \<Longrightarrow> ie + 14 \<le> length b"
  by (auto simp: inner_tx_iff arp_request_for_def inner_ip_to_def)

lemma inner_tx_length: "inner_tx E role vni b ie b' \<Longrightarrow> length b' = length b"
  by (auto simp: inner_tx_iff)

text \<open>
  The result of a step that ends in the inner frame at \<open>ie\<close>: it transmits exactly when the
  relation holds, and leaves the packet alone otherwise.
\<close>

definition step_result ::
  "transit_packet \<Rightarrow> (bytes \<Rightarrow> bool) \<Rightarrow> (int \<times> transit_packet) option \<Rightarrow> bool" where
  "step_result pkt tx r \<longleftrightarrow> (\<exists>a pkt'. r = Some (a, pkt') \<and>
     a \<in> {XDP_ABORTED, XDP_DROP, XDP_PASS, XDP_TX, EP_NOT_FOUND} \<and>
     (a = XDP_TX \<longrightarrow> tx (tp_data pkt')) \<and>
     (a \<noteq> XDP_TX \<longrightarrow> tp_data pkt' = tp_data pkt \<and> (\<forall>b'. \<not> tx b')))"

lemma step_resultI:
  "\<forall>b'. \<not> tx b' \<Longrightarrow> tp_data pkt' = tp_data pkt \<Longrightarrow> a \<in> {0, 1, 2, 5} \<Longrightarrow>
   step_result pkt tx (Some (a, pkt'))"
  by (auto simp: step_result_def)

lemma step_result_data:
  "tp_data q = tp_data pkt \<Longrightarrow> step_result q tx r = step_result pkt tx r"
  by (simp add: step_result_def)

lemma trn_process_inner_eth_result:
  assumes "tp_inner_eth pkt = Some ie" "tp_ip pkt = Some 14" "tp_eth pkt = Some 0"
    "tp_itf pkt = Some itf" "34 \<le> ie"
  shows "step_result pkt (inner_tx E (ti_role itf) (tp_vni pkt) (tp_data pkt) ie)
    (trn_process_inner_eth E n pkt)"
proof -
  let ?b = "tp_data pkt"
  consider (short) "\<not> ie + 14 \<le> length ?b"
    | (arp) "ie + 14 \<le> length ?b" "get16 ?b (ie + 12) = bpf_htons ETH_P_ARP"
        "ti_role itf = role_code XDP_FWD"
    | (ip) "ie + 14 \<le> length ?b" "get16 ?b (ie + 12) = bpf_htons ETH_P_IP"
    | (other) "ie + 14 \<le> length ?b" "get16 ?b (ie + 12) \<noteq> bpf_htons ETH_P_IP"
        "\<not> (get16 ?b (ie + 12) = bpf_htons ETH_P_ARP \<and> ti_role itf = role_code XDP_FWD)"
    by blast
  then show ?thesis
  proof cases
    case short
    then show ?thesis
      using assms
      by (auto simp: trn_process_inner_eth_def step_result_def dest: inner_tx_fits)
  next
    case arp
    then have "trn_process_inner_eth E n pkt = trn_process_inner_arp E pkt"
      using assms by (simp add: trn_process_inner_eth_def mem_simps)
    then show ?thesis
      using trn_process_inner_arp_result [OF assms(1,2), of E] arp assms(5)
      by (auto simp: step_result_def inner_tx_iff bpf_htons_def lo8_def hi8_def)
  next
    case ip
    then have "trn_process_inner_eth E n pkt = trn_process_inner_ip E n pkt"
      using assms by (simp add: trn_process_inner_eth_def mem_simps bpf_htons_def lo8_def hi8_def)
    then show ?thesis
      using trn_process_inner_ip_result [OF assms(1,2,3), of E n] ip assms(5)
      by (auto simp: step_result_def inner_tx_iff bpf_htons_def lo8_def hi8_def)
  next
    case other
    then show ?thesis
      using assms
      by (auto simp: trn_process_inner_eth_def mem_simps step_result_def inner_tx_iff)
  qed
qed

section \<open>The overlay and outer headers\<close>

definition vni_at :: "bytes \<Rightarrow> nat \<Rightarrow> u32" where
  "vni_at b p = trn_get_vni (get8 b p, get8 b (p + 1), get8 b (p + 2))"

lemma rd_vni_eq [mem_simps]:
  "p + 3 \<le> length b \<Longrightarrow> rd_vni b p = Some (get8 b p, get8 b (p + 1), get8 b (p + 2))"
  by (simp add: rd_vni_def mem_simps)

text \<open>The entrance a destination MAC selects: the first of the configured ones that has it.\<close>

definition first_entrance :: "tunnel_iface_t \<Rightarrow> mac6 \<Rightarrow> nat option" where
  "first_entrance itf m = find (\<lambda>i. ze_mac (entrances itf ! i) = m)
     [0..<min (unat (num_entrances itf)) TRAN_MAX_ZGC_ENTRANCES]"

lemma find_entrance_from:
  "tunnel_iface_ok itf \<Longrightarrow> h + 6 \<le> length b \<Longrightarrow>
   find_entrance b h itf i = Some (find (\<lambda>i. ze_mac (entrances itf ! i) = get_mac b h)
     [i..<min (unat (num_entrances itf)) TRAN_MAX_ZGC_ENTRANCES])"
proof (induction b h itf i rule: find_entrance.induct)
  case (1 b h itf i)
  show ?case
  proof (cases "i < unat (num_entrances itf) \<and> i < TRAN_MAX_ZGC_ENTRANCES")
    case True
    then have ent: "itf_entrance itf i = Some (entrances itf ! i)"
      using "1.prems"(1) by (simp add: itf_entrance_def tunnel_iface_ok_def)
    have "[i..<min (unat (num_entrances itf)) TRAN_MAX_ZGC_ENTRANCES] =
        i # [i + 1..<min (unat (num_entrances itf)) TRAN_MAX_ZGC_ENTRANCES]"
      using True by (simp add: upt_conv_Cons)
    then show ?thesis
      using True ent "1.prems" "1.IH" [OF True ent trn_is_mac_equal_eq [OF "1.prems"(2)]]
      by (subst find_entrance.simps) (auto simp: step_simps)
  next
    case False
    then show ?thesis by (subst find_entrance.simps) auto
  qed
qed

lemma find_entrance_eq:
  "tunnel_iface_ok itf \<Longrightarrow> h + 6 \<le> length b \<Longrightarrow>
   find_entrance b h itf 0 = Some (first_entrance itf (get_mac b h))"
  by (simp add: find_entrance_from first_entrance_def)

lemma first_entrance_range:
  "first_entrance itf m = Some i \<Longrightarrow>
   i < unat (num_entrances itf) \<and> i < TRAN_MAX_ZGC_ENTRANCES \<and> ze_mac (entrances itf ! i) = m"
  by (auto simp: first_entrance_def find_Some_iff)

text \<open>The frames behind the two overlays: where the inner frame starts, and its VNI.\<close>

inductive overlay_tx :: "xdp_env \<Rightarrow> u8 \<Rightarrow> bytes \<Rightarrow> bytes \<Rightarrow> bool" where
  tx_vxlan: "role = role_code XDP_FWD \<Longrightarrow> get16 b 36 = VXL_DSTPORT \<Longrightarrow>
     inner_tx E role (vni_at b 46) b 50 b' \<Longrightarrow> overlay_tx E role b b'"
| tx_geneve: "role = role_code XDP_FTN \<Longrightarrow> get16 b 36 = GEN_DSTPORT \<Longrightarrow>
     get16 b 44 = bpf_htons ETH_P_TEB \<Longrightarrow> get8 b 42 AND 63 = 12 \<Longrightarrow>
     get16 b 50 = TRN_GNV_OPT_CLASS \<Longrightarrow> get16 b 66 = TRN_GNV_OPT_CLASS \<Longrightarrow>
     inner_tx E role (vni_at b 46) b 98 b' \<Longrightarrow> overlay_tx E role b b'"

inductive_simps overlay_tx_iff: "overlay_tx E role b b'"

text \<open>The outer header is one this entrance accepts.\<close>

definition outer_accepted :: "tunnel_iface_t \<Rightarrow> bytes \<Rightarrow> bool" where
  "outer_accepted itf b \<longleftrightarrow>
     42 \<le> length b \<and> get16 b 12 = bpf_htons ETH_P_IP \<and>
     (\<exists>i. first_entrance itf (get_mac b 0) = Some i \<and> ze_ip (entrances itf ! i) = get32 b 30) \<and>
     get8 b 22 \<noteq> 0 \<and> get8 b 23 = IPPROTO_UDP"

inductive gateway_tx :: "xdp_env \<Rightarrow> tunnel_iface_t \<Rightarrow> bytes \<Rightarrow> bytes \<Rightarrow> bool" where
  tx_outer: "outer_accepted itf b \<Longrightarrow> overlay_tx E (ti_role itf) b b' \<Longrightarrow> gateway_tx E itf b b'"

inductive_simps gateway_tx_iff: "gateway_tx E itf b b'"

lemma trn_process_vxlan_result:
  assumes "tp_udp pkt = Some 34" "tp_ip pkt = Some 14" "tp_eth pkt = Some 0"
    "tp_itf pkt = Some itf"
  shows "step_result pkt (inner_tx E (ti_role itf) (vni_at (tp_data pkt) 46) (tp_data pkt) 50)
    (trn_process_vxlan E n pkt)"
proof (cases "50 \<le> tp_data_end pkt")
  case True
  let ?q = "pkt\<lparr>tp_vxlan := Some 42, tp_vni := vni_at (tp_data pkt) 46, tp_inner_eth := Some 50\<rparr>"
  have "trn_process_vxlan E n pkt = trn_process_inner_eth E n ?q"
    using True assms by (simp add: trn_process_vxlan_def Let_def mem_simps vni_at_def)
  then show ?thesis
    using trn_process_inner_eth_result [of ?q 50 itf E n] assms
    by (simp add: step_result_data [of ?q pkt])
next
  case False
  then have "\<forall>b'. \<not> inner_tx E (ti_role itf) v (tp_data pkt) 50 b'" for v
    using inner_tx_fits by fastforce
  then show ?thesis using False assms
    by (simp add: trn_process_vxlan_def Let_def step_resultI)
qed

lemma opt_len_12: "(ucast (w :: u8) :: u32) * 4 = 48 \<longleftrightarrow> w = 12"
proof
  assume "(ucast w :: u32) * 4 = 48"
  then have "unat ((ucast w :: u32) * 4) = 48" by simp
  then have "unat w = unat (12 :: u8)" using unat_lt(1) [of w] by (simp add: unat_word_ariths)
  then show "w = 12" by (simp only: word_unat_eq_iff)
qed simp

lemma opt_len_12': "48 = (ucast (w :: u8) :: u32) * 4 \<longleftrightarrow> w = 12"
  using opt_len_12 [of w] by (simp add: eq_commute [of 48])

definition geneve_ok :: "bytes \<Rightarrow> bool" where
  "geneve_ok b \<longleftrightarrow> 98 \<le> length b \<and> get16 b 44 = bpf_htons ETH_P_TEB \<and>
     get8 b 42 AND 63 = 12 \<and> get16 b 50 = TRN_GNV_OPT_CLASS \<and> get16 b 66 = TRN_GNV_OPT_CLASS"

lemma trn_process_geneve_result:
  assumes "tp_udp pkt = Some 34" "tp_ip pkt = Some 14" "tp_eth pkt = Some 0"
    "tp_itf pkt = Some itf"
  shows "step_result pkt (\<lambda>b'. geneve_ok (tp_data pkt) \<and>
      inner_tx E (ti_role itf) (vni_at (tp_data pkt) 46) (tp_data pkt) 98 b')
    (trn_process_geneve E n pkt)"
proof (cases "geneve_ok (tp_data pkt)")
  case True
  let ?q = "pkt\<lparr>tp_gnv_hdr := Some 42, tp_gnv_opt_len := ucast (get8 (tp_data pkt) 42 AND 63) * 4,
     tp_rts_opt := Some 50, tp_scaled_ep_opt := Some 66, tp_gnv_hdr_len := 56,
     tp_vni := vni_at (tp_data pkt) 46, tp_inner_eth := Some 98\<rparr>"
  have "trn_process_geneve E n pkt = trn_process_inner_eth E n ?q"
    using True assms
    by (simp add: trn_process_geneve_def Let_def mem_simps vni_at_def geneve_ok_def
        genevehdr_opt_len_def)
  then show ?thesis
    using trn_process_inner_eth_result [of ?q 98 itf E n] assms True
    by (simp add: step_result_data [of ?q pkt])
next
  case False
  then have "\<exists>q. trn_process_geneve E n pkt = Some (XDP_ABORTED, q) \<and> tp_data q = tp_data pkt"
    using assms
    by (cases "50 \<le> tp_data_end pkt"; cases "66 \<le> tp_data_end pkt"; cases "98 \<le> tp_data_end pkt")
      (simp_all add: trn_process_geneve_def Let_def mem_simps geneve_ok_def
        genevehdr_opt_len_def opt_len_12', blast?)
  then show ?thesis using False by (auto simp: step_resultI)
qed

lemma port_neq: "GEN_DSTPORT \<noteq> VXL_DSTPORT" by (simp add: GEN_DSTPORT_def VXL_DSTPORT_def)
lemma role_neq: "role_code XDP_FWD \<noteq> role_code XDP_FTN" by simp

lemma overlay_tx_short: "overlay_tx E role b b' \<Longrightarrow> 42 \<le> length b"
  by (auto simp: overlay_tx_iff dest: inner_tx_fits)

lemma trn_process_udp_result:
  assumes "tp_ip pkt = Some 14" "tp_eth pkt = Some 0" "tp_itf pkt = Some itf"
  shows "step_result pkt (overlay_tx E (ti_role itf) (tp_data pkt)) (trn_process_udp E n pkt)"
proof -
  let ?b = "tp_data pkt" and ?q = "pkt\<lparr>tp_udp := Some 34\<rparr>"
  let ?gnv = "get16 ?b 36 = GEN_DSTPORT \<and> ti_role itf = role_code XDP_FTN"
  let ?vxl = "get16 ?b 36 = VXL_DSTPORT \<and> ti_role itf = role_code XDP_FWD"
  consider (short) "\<not> 42 \<le> tp_data_end pkt"
    | (gnv) "42 \<le> tp_data_end pkt" ?gnv
    | (vxl) "42 \<le> tp_data_end pkt" ?vxl
    | (other) "42 \<le> tp_data_end pkt" "\<not> ?gnv" "\<not> ?vxl" by blast
  then show ?thesis
  proof cases
    case short
    then have "\<forall>b'. \<not> overlay_tx E (ti_role itf) ?b b'" using overlay_tx_short by fastforce
    then show ?thesis using short assms
      by (simp add: trn_process_udp_def Let_def step_resultI)
  next
    case gnv
    then have "trn_process_udp E n pkt = trn_process_geneve E n ?q"
      using assms by (simp add: trn_process_udp_def Let_def mem_simps)
    moreover have "overlay_tx E (ti_role itf) ?b =
        (\<lambda>b'. geneve_ok ?b \<and> inner_tx E (ti_role itf) (vni_at ?b 46) ?b 98 b')"
      using gnv port_neq by (fastforce simp: overlay_tx_iff geneve_ok_def dest: inner_tx_fits)
    ultimately show ?thesis
      using trn_process_geneve_result [of ?q itf E n] assms by (simp add: step_result_data [of ?q pkt])
  next
    case vxl
    then have "trn_process_udp E n pkt = trn_process_vxlan E n ?q"
      using assms by (simp add: trn_process_udp_def Let_def mem_simps)
    moreover have "overlay_tx E (ti_role itf) ?b = inner_tx E (ti_role itf) (vni_at ?b 46) ?b 50"
      using vxl port_neq by (fastforce simp: overlay_tx_iff)
    ultimately show ?thesis
      using trn_process_vxlan_result [of ?q itf E n] assms by (simp add: step_result_data [of ?q pkt])
  next
    case other
    then have "\<forall>b'. \<not> overlay_tx E (ti_role itf) ?b b'" by (auto simp: overlay_tx_iff)
    then show ?thesis using other assms
      by (auto simp: trn_process_udp_def Let_def mem_simps intro: step_resultI)
  qed
qed

lemma trn_process_ip_result:
  assumes "tp_eth pkt = Some 0" "tp_itf pkt = Some itf" "tunnel_iface_ok itf"
    "unat (tp_ent_idx pkt) < TRAN_MAX_ZGC_ENTRANCES"
  shows "step_result pkt (\<lambda>b'. 34 \<le> tp_data_end pkt \<and>
      ze_ip (entrances itf ! unat (tp_ent_idx pkt)) = get32 (tp_data pkt) 30 \<and>
      get8 (tp_data pkt) 22 \<noteq> 0 \<and> get8 (tp_data pkt) 23 = IPPROTO_UDP \<and>
      overlay_tx E (ti_role itf) (tp_data pkt) b')
    (trn_process_ip E n pkt)" (is "step_result pkt ?tx _")
proof -
  let ?b = "tp_data pkt" and ?e = "entrances itf ! unat (tp_ent_idx pkt)"
  have ent: "itf_entrance itf (unat (tp_ent_idx pkt)) = Some ?e"
    using assms(3,4) by (simp add: itf_entrance_def tunnel_iface_ok_def)
  show ?thesis
  proof (cases "34 \<le> tp_data_end pkt \<and> ze_ip ?e = get32 ?b 30 \<and> get8 ?b 22 \<noteq> 0 \<and> get8 ?b 23 = 17")
    case True
    let ?q = "pkt\<lparr>tp_ip := Some 14, tp_itf_ipv4 := get32 ?b 30\<rparr>"
    have "trn_process_ip E n pkt = trn_process_udp E n ?q"
      using True assms(1,2) ent by (simp add: trn_process_ip_def Let_def mem_simps)
    moreover have "?tx = overlay_tx E (ti_role itf) ?b" using True by simp
    ultimately show ?thesis
      using trn_process_udp_result [of ?q itf E n] assms by (simp add: step_result_data [of ?q pkt])
  next
    case False
    then show ?thesis using assms(1,2) ent
      by (cases "34 \<le> tp_data_end pkt")
        (auto simp: trn_process_ip_def Let_def mem_simps intro!: step_resultI)
  qed
qed

lemma trn_process_eth_result:
  assumes "tp_itf pkt = Some itf" "tunnel_iface_ok itf"
  shows "step_result pkt (gateway_tx E itf (tp_data pkt)) (trn_process_eth E n pkt)"
proof -
  let ?b = "tp_data pkt" and ?fe = "first_entrance itf (get_mac (tp_data pkt) 0)"
  consider (short) "\<not> 14 \<le> tp_data_end pkt"
    | (proto) "14 \<le> tp_data_end pkt" "get16 ?b 12 \<noteq> bpf_htons ETH_P_IP"
    | (unknown) "14 \<le> tp_data_end pkt" "get16 ?b 12 = bpf_htons ETH_P_IP" "?fe = None"
    | (ours) i where "14 \<le> tp_data_end pkt" "get16 ?b 12 = bpf_htons ETH_P_IP" "?fe = Some i"
    by blast
  then show ?thesis
  proof cases
    case short
    then show ?thesis
      by (simp add: trn_process_eth_def Let_def step_resultI gateway_tx_iff outer_accepted_def)
  next
    case proto
    then show ?thesis
      by (auto simp: trn_process_eth_def Let_def mem_simps gateway_tx_iff outer_accepted_def
          intro!: step_resultI)
  next
    case unknown
    then show ?thesis using assms
      by (simp add: trn_process_eth_def Let_def mem_simps find_entrance_eq step_resultI
          gateway_tx_iff outer_accepted_def)
  next
    case ours
    let ?q = "pkt\<lparr>tp_eth := Some 0, tp_ent_idx := of_nat i, tp_itf_mac := get_mac ?b 0\<rparr>"
    have i: "i < TRAN_MAX_ZGC_ENTRANCES" using first_entrance_range ours(3) by blast
    then have idx: "unat (of_nat i :: u16) = i"
      by (simp add: TRAN_MAX_ZGC_ENTRANCES_def unsigned_of_nat take_bit_eq_mod)
    have "trn_process_eth E n pkt = trn_process_ip E n ?q"
      using ours assms by (simp add: trn_process_eth_def Let_def mem_simps find_entrance_eq)
    moreover have "gateway_tx E itf ?b = (\<lambda>b'. 34 \<le> length ?b \<and> ze_ip (entrances itf ! i) = get32 ?b 30 \<and>
      get8 ?b 22 \<noteq> 0 \<and> get8 ?b 23 = IPPROTO_UDP \<and> overlay_tx E (ti_role itf) ?b b')"
      using ours overlay_tx_short by (fastforce simp: gateway_tx_iff outer_accepted_def)
    ultimately show ?thesis
      using trn_process_ip_result [of ?q itf E n] assms i idx
      by (simp add: step_result_data [of ?q pkt])
  qed
qed

end
