(* ===== verification/Arion_Gateway.thy ===== *)
theory Arion_Gateway
  imports Arion_Transit_Props
begin

text \<open>
  The gateway as a whole: the contract \<open>packet_step\<close> discharged for the functions of the data
  path, the abstract view of an overlay packet and the refinement of the rewriting to it, and
  the properties of the program \<open>_transit\<close>.
\<close>

section \<open>The contract holds for the functions of the program\<close>

lemma gateway_tx_length: "gateway_tx E itf b b' \<Longrightarrow> length b' = length b"
  by (auto simp: gateway_tx_iff overlay_tx_iff dest: inner_tx_length)

lemma overlay_tx_length: "overlay_tx E role b b' \<Longrightarrow> length b' = length b"
  by (auto simp: overlay_tx_iff dest: inner_tx_length)

lemma step_result_contract:
  assumes "step_result pkt tx r" "\<And>b'. tx b' \<Longrightarrow> length b' = length (tp_data pkt)"
  shows "\<exists>x. r = Some x \<and> verdict_ok pkt x"
  using assms by (force simp: step_result_def verdict_ok_def)

interpretation eth: packet_step "trn_process_eth E n"
    "\<lambda>pkt. \<exists>itf. tp_itf pkt = Some itf \<and> tunnel_iface_ok itf" for E n
  by unfold_locales
    (blast intro: step_result_contract trn_process_eth_result gateway_tx_length)

interpretation udp: packet_step "trn_process_udp E n"
    "\<lambda>pkt. tp_ip pkt = Some 14 \<and> tp_eth pkt = Some 0 \<and> tp_itf pkt \<noteq> None" for E n
  by unfold_locales
    (blast intro: step_result_contract trn_process_udp_result overlay_tx_length)

interpretation inner_eth: packet_step "trn_process_inner_eth E n"
    "\<lambda>pkt. (\<exists>ie\<ge>34. tp_inner_eth pkt = Some ie) \<and> tp_ip pkt = Some 14 \<and> tp_eth pkt = Some 0 \<and>
       tp_itf pkt \<noteq> None" for E n
  by unfold_locales
    (blast intro: step_result_contract trn_process_inner_eth_result inner_tx_length)

lemma trn_sg_check_contract:
  assumes "tp_inner_ip pkt = Some iip" "iip + 20 \<le> tp_data_end pkt"
  shows "\<exists>r. trn_sg_check E pkt = Some r \<and> verdict_ok pkt r"
  using trn_sg_check_result [OF assms, of E] by (auto simp: verdict_ok_def)

interpretation sg: packet_step "trn_sg_check E"
    "\<lambda>pkt. \<exists>iip. tp_inner_ip pkt = Some iip \<and> iip + 20 \<le> tp_data_end pkt" for E
  by unfold_locales (blast intro: trn_sg_check_contract)

section \<open>The whole program\<close>

definition env_ok :: "xdp_env \<Rightarrow> bool" where
  "env_ok E \<longleftrightarrow> (\<forall>idx itf. if_config_map E idx = Some itf \<longrightarrow> tunnel_iface_ok itf)"

lemma transit_steps:
  assumes "if_config_map E (ingress_ifindex ctx) = Some itf" "tunnel_iface_ok itf"
  obtains a d where "transit E n ctx = Some (transit_exit E (rx_queue_index ctx) a, d)"
    "a \<in> {XDP_ABORTED, XDP_DROP, XDP_PASS, XDP_TX, EP_NOT_FOUND}"
    "a = XDP_TX \<longrightarrow> gateway_tx E itf (ctx_data ctx) d"
    "a \<noteq> XDP_TX \<longrightarrow> d = ctx_data ctx \<and> (\<forall>b'. \<not> gateway_tx E itf (ctx_data ctx) b')"
proof -
  let ?p = "fresh_packet (ctx_data ctx) (ingress_ifindex ctx) (Some itf)"
  have "step_result ?p (gateway_tx E itf (ctx_data ctx)) (trn_process_eth E n ?p)"
    using trn_process_eth_result [of ?p itf E n] assms(2) by (simp add: fresh_packet_def)
  moreover have "tp_data ?p = ctx_data ctx" by (simp add: fresh_packet_def)
  ultimately obtain a q where "trn_process_eth E n ?p = Some (a, q)"
    "a \<in> {XDP_ABORTED, XDP_DROP, XDP_PASS, XDP_TX, EP_NOT_FOUND}"
    "a = XDP_TX \<longrightarrow> gateway_tx E itf (ctx_data ctx) (tp_data q)"
    "a \<noteq> XDP_TX \<longrightarrow> tp_data q = ctx_data ctx \<and> (\<forall>b'. \<not> gateway_tx E itf (ctx_data ctx) b')"
    by (auto simp: step_result_def)
  then show ?thesis
    using that [of a "tp_data q"] assms(1) by (simp add: transit_def Let_def)
qed

lemma gateway_tx_unique: "gateway_tx E itf b b1 \<Longrightarrow> gateway_tx E itf b b2 \<Longrightarrow> b1 = b2"
  by (auto simp: gateway_tx_iff overlay_tx_iff inner_tx_iff arp_request_for_def inner_ip_to_def
      GEN_DSTPORT_def VXL_DSTPORT_def bpf_htons_def lo8_def hi8_def)

text \<open>
  What the kernel and the operator's hooks are assumed to do with a verdict: a stage program
  sits only at its own index of the jump table, an xdpcap program hands the verdict on, and
  redirecting to an AF\_XDP socket never transmits.
\<close>

definition stages_ok :: "xdp_env \<Rightarrow> bool" where
  "stages_ok E \<longleftrightarrow>
     (\<forall>p. jmp_table E (prog_id_code TRAN_TX_PROG) = Some p \<longrightarrow> p = Transit_tx_proc) \<and>
     (\<forall>p. jmp_table E (prog_id_code TRAN_PASS_PROG) = Some p \<longrightarrow> p = Transit_pass_proc) \<and>
     (\<forall>p. jmp_table E (prog_id_code TRAN_DROP_PROG) = Some p \<longrightarrow> p = Transit_drop_proc) \<and>
     (\<forall>p. jmp_table E (prog_id_code TRAN_REDIRECT_PROG) = Some p \<longrightarrow> p = Transit_redirect_proc)"

definition xdpcap_transparent :: "xdp_env \<Rightarrow> bool" where
  "xdpcap_transparent E \<longleftrightarrow> (\<forall>a r. xdpcap_prog E a = Some r \<longrightarrow> r = a)"

definition redirect_ok :: "xdp_env \<Rightarrow> bool" where
  "redirect_ok E \<longleftrightarrow> (\<forall>q. redirect_xsk E q \<in> {XDP_REDIRECT, XDP_ABORTED})"

lemma xdpcap_exit_id: "xdpcap_transparent E \<Longrightarrow> xdpcap_exit E a = a"
  by (auto simp: xdpcap_exit_def xdpcap_transparent_def split: option.splits)

lemma run_stage_code:
  "run_stage Transit_tx_proc = XDP_TX" "run_stage Transit_pass_proc = XDP_PASS"
  "run_stage Transit_drop_proc = XDP_DROP" "run_stage Transit_redirect_proc = XDP_REDIRECT"
  by (simp_all add: transit_tx_proc_def transit_pass_proc_def transit_drop_proc_def
      transit_redirect_proc_def)

lemma transit_exit_value:
  assumes "stages_ok E" "xdpcap_transparent E" "a \<in> {XDP_ABORTED, XDP_DROP, XDP_PASS, XDP_TX, EP_NOT_FOUND}"
  shows "transit_exit E q a =
    (if a = EP_NOT_FOUND then if xsks_map E q then redirect_xsk E q else XDP_DROP else a)"
proof -
  have "tail_call_or_exit E TRAN_PASS_PROG XDP_PASS = XDP_PASS"
    "tail_call_or_exit E TRAN_DROP_PROG XDP_DROP = XDP_DROP"
    "tail_call_or_exit E TRAN_TX_PROG XDP_TX = XDP_TX"
    using assms(1)
    by (auto simp: tail_call_or_exit_def stages_ok_def run_stage_code xdpcap_exit_id [OF assms(2)]
        split: option.splits simp del: run_stage.simps)
  then show ?thesis
    using assms(3) by (auto simp: transit_exit_def xdpcap_exit_id [OF assms(2)])
qed

section \<open>The abstract gateway\<close>

text \<open>
  An overlay packet as the network sees it: the outer addresses, the header bytes the gateway
  may not touch, and the inner frame. \<open>vp_ip_rest\<close> holds version, length, identification,
  fragmentation and protocol; \<open>vp_overlay\<close> the UDP and overlay headers (VNI included). Together
  the fields are all bytes of the packet but the checksum of the outer header.
\<close>

record vpacket =
  vp_dst_mac :: mac6
  vp_src_mac :: mac6
  vp_eth_type :: u16
  vp_ip_rest :: "u16 list \<times> u8"
  vp_ttl :: u8
  vp_src_ip :: u32
  vp_dst_ip :: u32
  vp_overlay :: bytes
  vp_inner_dst :: mac6
  vp_inner_src :: mac6
  vp_inner_rest :: bytes

definition vpacket_of :: "bytes \<Rightarrow> nat \<Rightarrow> vpacket" where
  "vpacket_of b ie = \<lparr>vp_dst_mac = get_mac b 0, vp_src_mac = get_mac b 6, vp_eth_type = get16 b 12,
     vp_ip_rest = ([get16 b 14, get16 b 16, get16 b 18, get16 b 20], get8 b 23),
     vp_ttl = get8 b 22, vp_src_ip = get32 b 26, vp_dst_ip = get32 b 30,
     vp_overlay = take (ie - 34) (drop 34 b),
     vp_inner_dst = get_mac b ie, vp_inner_src = get_mac b (ie + 6),
     vp_inner_rest = drop (ie + 12) b\<rparr>"

text \<open>
  The specification of a hop: the packet leaves this entrance for the endpoint's host, with
  the inner frame addressed to the endpoint and everything else as it was.
\<close>

definition forward_to :: "endpoint_t \<Rightarrow> vpacket \<Rightarrow> vpacket" where
  "forward_to ep v = v\<lparr>vp_dst_mac := ep_hmac ep, vp_src_mac := vp_dst_mac v,
     vp_ttl := vp_ttl v - 1, vp_src_ip := vp_dst_ip v, vp_dst_ip := ep_hip ep,
     vp_inner_dst := ep_mac ep\<rparr>"

lemma drop_put [mem_simps]:
  "i < n \<Longrightarrow> drop n (put8 b i x) = drop n b"
  "i + 1 < n \<Longrightarrow> drop n (put16 b i y) = drop n b"
  "i + 3 < n \<Longrightarrow> drop n (put32 b i z) = drop n b"
  "i + 5 < n \<Longrightarrow> drop n (put_mac b i m) = drop n b"
  by (simp_all add: put8_def put16_def put32_def put_mac_def)

lemma take_put [mem_simps]:
  "n \<le> i \<Longrightarrow> take n (put8 b i x) = take n b"
  "n \<le> i \<Longrightarrow> take n (put16 b i y) = take n b"
  "n \<le> i \<Longrightarrow> take n (put32 b i z) = take n b"
  "n \<le> i \<Longrightarrow> take n (put_mac b i m) = take n b"
  by (simp_all add: put8_def put16_def put32_def put_mac_def)

lemma drop_ip_rewrite [mem_simps]: "p + 20 \<le> n \<Longrightarrow> drop n (ip_rewrite b p s d) = drop n b"
  by (simp add: ip_rewrite_def ip_rewrite_fields_def mem_simps)

lemma take_ip_rewrite: "n \<le> p + 8 \<Longrightarrow> take n (ip_rewrite b p s d) = take n b"
  by (simp add: ip_rewrite_def ip_rewrite_fields_def mem_simps)

lemma fwd_bytes_fields:
  assumes "34 \<le> ie" "ie + 12 \<le> length b"
  shows "get_mac (fwd_bytes b 0 14 ie ep) 0 = ep_hmac ep"
    "get_mac (fwd_bytes b 0 14 ie ep) 6 = get_mac b 0"
    "get16 (fwd_bytes b 0 14 ie ep) 12 = get16 b 12"
    "get32 (fwd_bytes b 0 14 ie ep) 26 = get32 b 30"
    "get32 (fwd_bytes b 0 14 ie ep) 30 = ep_hip ep"
    "get8 (fwd_bytes b 0 14 ie ep) 22 = get8 b 22 - 1"
    "get8 (fwd_bytes b 0 14 ie ep) 23 = get8 b 23"
    "get_mac (fwd_bytes b 0 14 ie ep) ie = ep_mac ep"
    "get_mac (fwd_bytes b 0 14 ie ep) (ie + 6) = get_mac b (ie + 6)"
    "drop (ie + 12) (fwd_bytes b 0 14 ie ep) = drop (ie + 12) b"
  using assms ip_rewrite_fields(1,2,3,4) [where p = 14] by (simp_all add: fwd_bytes_def mem_simps)

lemma fwd_bytes_ip_words:
  assumes "34 \<le> ie" "ie + 12 \<le> length b" "k < 4"
  shows "get16 (fwd_bytes b 0 14 ie ep) (14 + 2 * k) = get16 b (14 + 2 * k)"
  using assms ip_rewrite_fields(5) [of 14 "put_mac b ie (ep_mac ep)" k]
  by (simp add: fwd_bytes_def mem_simps)

lemma fwd_bytes_overlay:
  assumes "34 \<le> ie" "ie + 12 \<le> length b"
  shows "take (ie - 34) (drop 34 (fwd_bytes b 0 14 ie ep)) = take (ie - 34) (drop 34 b)"
proof -
  have "drop 34 (fwd_bytes b 0 14 ie ep) = drop 34 (put_mac b ie (ep_mac ep))"
    by (simp add: fwd_bytes_def mem_simps)
  then show ?thesis using assms by (simp add: take_drop mem_simps)
qed

lemma fwd_bytes_refines:
  assumes "34 \<le> ie" "ie + 12 \<le> length b"
  shows "vpacket_of (fwd_bytes b 0 14 ie ep) ie = forward_to ep (vpacket_of b ie)"
  using fwd_bytes_fields [OF assms, of ep] fwd_bytes_ip_words [OF assms, of _ ep] fwd_bytes_overlay [OF assms, of ep]
    fwd_bytes_ip_words [OF assms, of 0 ep] fwd_bytes_ip_words [OF assms, of 1 ep]
    fwd_bytes_ip_words [OF assms, of 2 ep] fwd_bytes_ip_words [OF assms, of 3 ep]
  by (simp add: vpacket_of_def forward_to_def)

lemma fwd_bytes_csum_ok:
  assumes "34 \<le> ie" "ie + 12 \<le> length b"
  shows "ipv4_csum_ok (fwd_bytes b 0 14 ie ep) 14"
  using assms by (simp add: fwd_bytes_def ipv4_csum_ok_put_mac ip_rewrite_csum_ok)

text \<open>The view of an inner ARP frame, and the answer the gateway has to give.\<close>

record varp =
  va_dst :: mac6
  va_src :: mac6
  va_op :: u16
  va_sha :: mac6
  va_sip :: u32
  va_tha :: mac6
  va_tip :: u32

definition varp_of :: "bytes \<Rightarrow> nat \<Rightarrow> varp" where
  "varp_of b ie = \<lparr>va_dst = get_mac b ie, va_src = get_mac b (ie + 6),
     va_op = bpf_ntohs (get16 b (ie + 20)), va_sha = get_mac b (ie + 22),
     va_sip = get32 b (ie + 28), va_tha = get_mac b (ie + 32), va_tip = get32 b (ie + 38)\<rparr>"

definition arp_answer :: "mac6 \<Rightarrow> varp \<Rightarrow> varp" where
  "arp_answer m a = \<lparr>va_dst = va_src a, va_src = m, va_op = ARPOP_REPLY, va_sha = m,
     va_sip = va_tip a, va_tha = va_sha a, va_tip = va_sip a\<rparr>"

lemma arp_reply_refines:
  assumes "34 \<le> ie" "ie + 42 \<le> length b"
  shows "varp_of (arp_reply_bytes b 14 ie ep) ie = arp_answer (ep_mac ep) (varp_of b ie)"
  using assms
  by (simp add: varp_of_def arp_answer_def arp_reply_bytes_def arp_reply_body_def mem_simps Let_def)

lemma arp_reply_outer:
  assumes "34 \<le> ie" "ie + 42 \<le> length b"
  shows "get32 (arp_reply_bytes b 14 ie ep) 26 = get32 b 30"
    "get32 (arp_reply_bytes b 14 ie ep) 30 = get32 b 26"
    "get_mac (arp_reply_bytes b 14 ie ep) 0 = get_mac b 6"
    "get_mac (arp_reply_bytes b 14 ie ep) 6 = get_mac b 0"
    "ipv4_csum_ok (arp_reply_bytes b 14 ie ep) 14"
  using assms ip_rewrite_fields(1,2) [where p = 14]
  by (simp_all add: arp_reply_bytes_def mem_simps ipv4_csum_ok_put_mac ip_rewrite_csum_ok)

section \<open>The path to the inner frame\<close>

text \<open>Where the inner frame of an accepted packet starts.\<close>

definition inner_offset :: "tunnel_iface_t \<Rightarrow> bytes \<Rightarrow> nat option" where
  "inner_offset itf b =
     (if get16 b 36 = VXL_DSTPORT \<and> ti_role itf = role_code XDP_FWD \<and> 50 \<le> length b then Some 50
      else if get16 b 36 = GEN_DSTPORT \<and> ti_role itf = role_code XDP_FTN \<and> geneve_ok b then Some 98
      else None)"

lemma inner_offset_cases:
  assumes "inner_offset itf b = Some ie"
  obtains (vxlan) "ie = 50" "get16 b 36 = VXL_DSTPORT" "ti_role itf = role_code XDP_FWD" "50 \<le> length b"
    | (geneve) "ie = 98" "get16 b 36 = GEN_DSTPORT" "ti_role itf = role_code XDP_FTN" "geneve_ok b"
  using assms by (auto simp: inner_offset_def split: if_splits)

lemma inner_offset_34: "inner_offset itf b = Some ie \<Longrightarrow> 34 \<le> ie"
  by (auto simp: inner_offset_def split: if_splits)

lemma gateway_tx_inner:
  assumes "outer_accepted itf b" "inner_offset itf b = Some ie"
    "inner_tx E (ti_role itf) (vni_at b 46) b ie b'"
  shows "gateway_tx E itf b b'"
proof (rule gateway_tx.intros [OF assms(1)])
  show "overlay_tx E (ti_role itf) b b'"
    using assms(3) by (rule_tac inner_offset_cases [OF assms(2)])
      (auto simp: overlay_tx_iff geneve_ok_def)
qed

lemma transit_tx:
  assumes "if_config_map E (ingress_ifindex ctx) = Some itf" "tunnel_iface_ok itf"
    "stages_ok E" "xdpcap_transparent E" "gateway_tx E itf (ctx_data ctx) b'"
  shows "transit E n ctx = Some (XDP_TX, b')"
proof -
  obtain a d where t: "transit E n ctx = Some (transit_exit E (rx_queue_index ctx) a, d)"
    "a = XDP_TX \<longrightarrow> gateway_tx E itf (ctx_data ctx) d"
    "a \<noteq> XDP_TX \<longrightarrow> d = ctx_data ctx \<and> (\<forall>b'. \<not> gateway_tx E itf (ctx_data ctx) b')"
    using transit_steps [OF assms(1,2), of n] by metis
  then have "a = XDP_TX" "d = b'" using assms(5) gateway_tx_unique by blast+
  then show ?thesis using t(1) transit_exit_value [OF assms(3,4), of XDP_TX] by simp
qed

lemma trn_process_eth_path:
  assumes "tp_itf pkt = Some itf" "tunnel_iface_ok itf" "outer_accepted itf (tp_data pkt)"
    "inner_offset itf (tp_data pkt) = Some ie"
  obtains q where "trn_process_eth E n pkt = trn_process_inner_eth E n q"
    "tp_data q = tp_data pkt" "tp_inner_eth q = Some ie" "tp_vni q = vni_at (tp_data pkt) 46"
    "tp_ip q = Some 14" "tp_eth q = Some 0" "tp_itf q = Some itf"
proof -
  let ?b = "tp_data pkt"
  obtain i where i: "first_entrance itf (get_mac ?b 0) = Some i" "ze_ip (entrances itf ! i) = get32 ?b 30"
    and acc: "42 \<le> length ?b" "get16 ?b 12 = bpf_htons ETH_P_IP" "get8 ?b 22 \<noteq> 0" "get8 ?b 23 = 17"
    using assms(3) by (auto simp: outer_accepted_def)
  have "i < TRAN_MAX_ZGC_ENTRANCES" using first_entrance_range i(1) by blast
  then have ent: "itf_entrance itf (unat (of_nat i :: u16)) = Some (entrances itf ! i)"
    using assms(2) by (simp add: itf_entrance_def tunnel_iface_ok_def TRAN_MAX_ZGC_ENTRANCES_def
        unsigned_of_nat take_bit_eq_mod)
  let ?q = "pkt\<lparr>tp_eth := Some 0, tp_ent_idx := of_nat i, tp_itf_mac := get_mac ?b 0,
    tp_ip := Some 14, tp_itf_ipv4 := get32 ?b 30, tp_udp := Some 34\<rparr>"
  have step: "trn_process_eth E n pkt =
      (if get16 ?b 36 = GEN_DSTPORT \<and> ti_role itf = role_code XDP_FTN then trn_process_geneve E n ?q
       else if get16 ?b 36 = VXL_DSTPORT \<and> ti_role itf = role_code XDP_FWD then trn_process_vxlan E n ?q
       else Some (XDP_PASS, ?q))"
    using assms(1,2) i acc ent
    by (simp add: trn_process_eth_def trn_process_ip_def trn_process_udp_def Let_def mem_simps
        find_entrance_eq)
  from assms(4) show ?thesis
  proof (cases rule: inner_offset_cases)
    case vxlan
    then show ?thesis using step assms(1) port_neq
      by (intro that [of "?q\<lparr>tp_vxlan := Some 42, tp_vni := vni_at ?b 46, tp_inner_eth := Some 50\<rparr>"])
        (simp_all add: trn_process_vxlan_def Let_def mem_simps vni_at_def)
  next
    case geneve
    then show ?thesis using step assms(1) port_neq
      by (intro that [of "?q\<lparr>tp_gnv_hdr := Some 42,
            tp_gnv_opt_len := ucast (get8 (tp_data pkt) 42 AND 63) * 4, tp_rts_opt := Some 50,
            tp_scaled_ep_opt := Some 66, tp_gnv_hdr_len := 56, tp_vni := vni_at ?b 46,
            tp_inner_eth := Some 98\<rparr>"])
        (simp_all add: trn_process_geneve_def Let_def mem_simps vni_at_def geneve_ok_def
          genevehdr_opt_len_def)
  qed
qed

section \<open>Tenants\<close>

text \<open>
  Two environments that differ at most in the endpoints and security groups of other VNIs.
\<close>

definition same_tenant :: "u32 \<Rightarrow> xdp_env \<Rightarrow> xdp_env \<Rightarrow> bool" where
  "same_tenant v E E' \<longleftrightarrow>
     E' = E\<lparr>endpoints_map := endpoints_map E', sg_cidr_map := sg_cidr_map E'\<rparr> \<and>
     (\<forall>ip. endpoints_map E \<lparr>ek_vni = v, ek_ip = ip\<rparr> = endpoints_map E' \<lparr>ek_vni = v, ek_ip = ip\<rparr>) \<and>
     (\<forall>k. sgk_vni k = v \<longrightarrow> sg_cidr_map E k = sg_cidr_map E' k)"

lemma same_tenantD:
  assumes "same_tenant v E E'"
  shows "endpoints_map E' \<lparr>ek_vni = v, ek_ip = ip\<rparr> = endpoints_map E \<lparr>ek_vni = v, ek_ip = ip\<rparr>"
    "sgk_vni k = v \<Longrightarrow> sg_cidr_map E' k = sg_cidr_map E k"
    "if_config_map E' = if_config_map E" "transit_exit E' = transit_exit E"
    "adjust_tail E' = adjust_tail E"
proof -
  have E': "E' = E\<lparr>endpoints_map := endpoints_map E', sg_cidr_map := sg_cidr_map E'\<rparr>"
    using assms unfolding same_tenant_def by blast
  show "if_config_map E' = if_config_map E" "adjust_tail E' = adjust_tail E"
    by (subst E'; simp)+
  have eqs: "jmp_table E' = jmp_table E" "xdpcap_prog E' = xdpcap_prog E" "xsks_map E' = xsks_map E"
    "redirect_xsk E' = redirect_xsk E"
    by (subst E'; simp)+
  have cap: "xdpcap_exit E' = xdpcap_exit E" by (rule ext) (simp add: xdpcap_exit_def eqs)
  have tail: "tail_call_or_exit E' = tail_call_or_exit E"
    by (intro ext) (simp add: tail_call_or_exit_def eqs cap cong: option.case_cong)
  show "transit_exit E' = transit_exit E"
    by (intro ext) (simp add: transit_exit_def eqs cap tail)
qed (use assms in \<open>simp_all add: same_tenant_def\<close>)

lemma trn_sg_check_tenant:
  "same_tenant (tp_vni pkt) E E' \<Longrightarrow> trn_sg_check E' pkt = trn_sg_check E pkt"
  by (simp add: trn_sg_check_def Let_def same_tenantD cong: option.case_cong if_cong)

lemma trn_sg_check_vni:
  assumes "trn_sg_check E pkt = Some (a, q)" shows "tp_vni q = tp_vni pkt"
  using assms
  by (auto simp: trn_sg_check_def Let_def bind_eq_Some_conv split: if_splits)

lemma trn_process_inner_ip_tenant:
  assumes t: "same_tenant (tp_vni pkt) E E'"
  shows "trn_process_inner_ip E' n pkt = trn_process_inner_ip E n pkt"
proof (cases "tp_inner_eth pkt")
  case (Some ie)
  let ?p = "pkt\<lparr>tp_inner_ip := Some (ie + 14)\<rparr>"
  have sg: "trn_sg_check E' ?p = trn_sg_check E ?p" using t by (simp add: trn_sg_check_tenant)
  show ?thesis
  proof (cases "trn_sg_check E ?p")
    case None
    then show ?thesis using Some sg by (simp add: trn_process_inner_ip_def Let_def)
  next
    case (Some r)
    then obtain a q where q: "trn_sg_check E ?p = Some (a, q)" by (cases r) auto
    then have "same_tenant (tp_vni q) E E'" using trn_sg_check_vni [OF q] t by simp
    then show ?thesis
      using \<open>tp_inner_eth pkt = Some ie\<close> sg q same_tenantD(1) [of "tp_vni q" E E']
      by (simp add: trn_process_inner_ip_def Let_def)
  qed
qed (simp add: trn_process_inner_ip_def)

lemma trn_process_inner_eth_tenant:
  assumes "same_tenant (tp_vni pkt) E E'"
  shows "trn_process_inner_eth E' n pkt = trn_process_inner_eth E n pkt"
proof -
  have "trn_process_inner_arp E' pkt = trn_process_inner_arp E pkt"
    using same_tenantD(1) [OF assms]
    by (simp add: trn_process_inner_arp_def Let_def cong: option.case_cong if_cong)
  then show ?thesis
    using trn_process_inner_ip_tenant [OF assms]
    by (simp add: trn_process_inner_eth_def cong: option.case_cong if_cong)
qed

lemma trn_process_geneve_tenant:
  assumes "tp_udp pkt = Some 34" "same_tenant (vni_at (tp_data pkt) 46) E E'"
  shows "trn_process_geneve E' n pkt = trn_process_geneve E n pkt"
  using assms trn_process_inner_eth_tenant
  by (simp add: trn_process_geneve_def Let_def vni_at_def rd_vni_def mem_simps
      cong: option.case_cong if_cong)

lemma trn_process_vxlan_tenant:
  assumes "tp_udp pkt = Some 34" "same_tenant (vni_at (tp_data pkt) 46) E E'"
  shows "trn_process_vxlan E' n pkt = trn_process_vxlan E n pkt"
  using assms trn_process_inner_eth_tenant
  by (simp add: trn_process_vxlan_def Let_def vni_at_def mem_simps
      cong: option.case_cong if_cong)

lemma trn_process_udp_tenant:
  assumes "tp_ip pkt = Some 14" "same_tenant (vni_at (tp_data pkt) 46) E E'"
  shows "trn_process_udp E' n pkt = trn_process_udp E n pkt"
  using assms trn_process_geneve_tenant [of "pkt\<lparr>tp_udp := Some 34\<rparr>" E E' n]
    trn_process_vxlan_tenant [of "pkt\<lparr>tp_udp := Some 34\<rparr>" E E' n]
  by (simp add: trn_process_udp_def Let_def cong: option.case_cong if_cong)

lemma trn_process_eth_tenant:
  assumes "same_tenant (vni_at (tp_data pkt) 46) E E'"
  shows "trn_process_eth E' n pkt = trn_process_eth E n pkt"
  using assms trn_process_udp_tenant
  by (simp add: trn_process_eth_def trn_process_ip_def Let_def cong: option.case_cong if_cong)

section \<open>A concrete gateway\<close>

text \<open>
  One tenant (VNI 7) with one endpoint, 192.168.0.3 on host 10.0.0.9, behind the entrance
  10.0.0.1; a VXLAN packet with an ICMP message for it, and one with an ARP request.
\<close>

definition demo_gw_mac :: mac6 where "demo_gw_mac = MAC 2 0 0 0 0 1"
definition demo_gw_ip :: u32 where "demo_gw_ip = le32 (le16 10 0) (le16 0 1)"

definition demo_ep :: endpoint_t where
  "demo_ep = \<lparr>ep_hip = le32 (le16 10 0) (le16 0 9), ep_mac = MAC 2 0 0 0 0 3, ep_hmac = MAC 2 0 0 0 0 9\<rparr>"

definition demo_itf :: tunnel_iface_t where
  "demo_itf = \<lparr>iface_index = 3, ibo_port = 0, ti_protocol = 0, ti_role = 0, num_entrances = 1,
     entrances = replicate 128 \<lparr>ze_ip = demo_gw_ip, ze_announced = 0, ze_mac = demo_gw_mac\<rparr>\<rparr>"

definition demo_endpoints :: "endpoint_key_t \<Rightarrow> endpoint_t option" where
  "demo_endpoints k = (if ek_vni k = 7 \<and> ek_ip k = le32 (le16 192 168) (le16 0 3)
     then Some demo_ep else None)"

definition demo_env :: xdp_env where
  "demo_env = \<lparr>endpoints_map = demo_endpoints, if_config_map = (\<lambda>_. Some demo_itf),
     sg_cidr_map = (\<lambda>k. Some \<lparr>sg_id = 1, sg_action = 1\<rparr>), xsks_map = (\<lambda>_. False),
     redirect_xsk = (\<lambda>_. XDP_REDIRECT), redirect_itf = (\<lambda>_. XDP_REDIRECT),
     jmp_table = (\<lambda>_. None), xdpcap_prog = (\<lambda>_. None), adjust_tail = (\<lambda>b _. (0, b)),
     adjust_head = (\<lambda>b n. (0, drop n b))\<rparr>"

definition demo_outer :: bytes where
  "demo_outer = [2,0,0,0,0,1, 2,0,0,0,0,2, 8,0,
     0x45,0, 0,78, 0,0, 0,0, 64, 17, 0,0, 10,0,0,2, 10,0,0,1,
     0x30,0, 0x12,0xb5, 0,58, 0,0, 8,0,0,0, 0,0,7, 0]"

definition demo_packet :: bytes where
  "demo_packet = demo_outer @ [0,0,0,0,0,0, 2,0,0,0,0,4, 8,0,
     0x45,0, 0,28, 0,0, 0,0, 64, 1, 0,0, 192,168,0,2, 192,168,0,3, 8,0,0,0,0,0,0,0]"

definition demo_arp :: bytes where
  "demo_arp = demo_outer @ [255,255,255,255,255,255, 2,0,0,0,0,4, 8,6,
     0,1, 8,0, 6, 4, 0,1, 2,0,0,0,0,4, 192,168,0,2, 0,0,0,0,0,0, 192,168,0,3]"

definition demo_ctx :: "bytes \<Rightarrow> xdp_md" where
  "demo_ctx b = \<lparr>ctx_data = b, ingress_ifindex = 3, rx_queue_index = 0\<rparr>"

lemma demo_env_ok:
  "env_ok demo_env" "stages_ok demo_env" "xdpcap_transparent demo_env" "redirect_ok demo_env"
  "tunnel_iface_ok demo_itf" "if_config_map demo_env i = Some demo_itf"
  by (simp_all add: demo_env_def env_ok_def stages_ok_def xdpcap_transparent_def redirect_ok_def
      demo_itf_def tunnel_iface_ok_def TRAN_MAX_ZGC_ENTRANCES_def)

lemma demo_length: "length demo_packet = 92" "length demo_arp = 92"
  by (simp_all add: demo_packet_def demo_arp_def demo_outer_def)

lemma demo_entrance: "first_entrance demo_itf demo_gw_mac = Some 0"
  by (simp add: first_entrance_def demo_itf_def TRAN_MAX_ZGC_ENTRANCES_def)

lemma demo_outer_accepted:
  "outer_accepted demo_itf demo_packet" "outer_accepted demo_itf demo_arp"
proof -
  have "get_mac demo_packet 0 = demo_gw_mac" "get_mac demo_arp 0 = demo_gw_mac"
    "get32 demo_packet 30 = demo_gw_ip" "get32 demo_arp 30 = demo_gw_ip"
    by (simp_all add: get_mac_def get32_def get16_def demo_packet_def demo_arp_def demo_outer_def demo_gw_mac_def
        demo_gw_ip_def)
  moreover have "ze_ip (entrances demo_itf ! 0) = demo_gw_ip" by (simp add: demo_itf_def)
  ultimately show "outer_accepted demo_itf demo_packet" "outer_accepted demo_itf demo_arp"
    by (simp_all add: outer_accepted_def demo_length demo_entrance)
      (simp_all add: demo_packet_def demo_arp_def demo_outer_def get8_def get16_def bpf_htons_def
        lo8_def hi8_def)
qed

lemma demo_inner_offset:
  "inner_offset demo_itf demo_packet = Some 50" "inner_offset demo_itf demo_arp = Some 50"
  by (simp_all add: inner_offset_def demo_length)
    (simp_all add: demo_packet_def demo_arp_def demo_outer_def get16_def VXL_DSTPORT_def le16_def
      demo_itf_def)

lemma demo_fields:
  "vni_at demo_packet 46 = 7" "get16 demo_packet 62 = bpf_htons ETH_P_IP"
  "get8 demo_packet 73 = 1" "get32 demo_packet 80 = le32 (le16 192 168) (le16 0 3)"
  "vni_at demo_arp 46 = 7" "get16 demo_arp 62 = bpf_htons ETH_P_ARP"
  by (simp_all add: vni_at_def trn_get_vni_def get8_def get16_def get32_def demo_packet_def
      demo_arp_def demo_outer_def bpf_htons_def lo8_def hi8_def)

lemma demo_sg: "sg_passes demo_env 7 demo_packet 64"
  by (simp add: sg_passes_def demo_env_def demo_length l4_size_def demo_fields)

lemma demo_arp_request: "arp_request_for demo_env 7 demo_arp 50 demo_ep"
  by (simp add: arp_request_for_def demo_length)
    (simp add: demo_arp_def demo_outer_def get16_def get32_def bpf_htons_def lo8_def hi8_def
      demo_env_def demo_endpoints_def)

section \<open>Properties of the gateway\<close>

text \<open>
  C3: the program is memory safe and total: for every packet of every length, and maps holding
  well-formed interfaces, \<open>_transit\<close> returns a verdict without an access outside the packet,
  and the packet keeps its length.
\<close>

theorem transit_memory_safe:
  assumes "env_ok E"
  shows "\<exists>v d. transit E n ctx = Some (v, d) \<and> length d = length (ctx_data ctx)"
proof (cases "if_config_map E (ingress_ifindex ctx)")
  case None
  then show ?thesis by (simp add: transit_def)
next
  case (Some itf)
  with assms have "tunnel_iface_ok itf" by (simp add: env_ok_def)
  then obtain a d where t: "transit E n ctx = Some (transit_exit E (rx_queue_index ctx) a, d)"
    "a = XDP_TX \<longrightarrow> gateway_tx E itf (ctx_data ctx) d"
    "a \<noteq> XDP_TX \<longrightarrow> d = ctx_data ctx \<and> (\<forall>b'. \<not> gateway_tx E itf (ctx_data ctx) b')"
    using transit_steps [OF Some, of n] by metis
  then show ?thesis using gateway_tx_length by (cases "a = XDP_TX") auto
qed

theorem transit_memory_safe_witness:
  "\<exists>v d. transit demo_env 1 (demo_ctx [1, 2, 3]) = Some (v, d) \<and> length d = 3"
  using transit_memory_safe [OF demo_env_ok(1), of 1 "demo_ctx [1, 2, 3]"]
  by (simp add: demo_ctx_def eval_nat_numeral)

text \<open>
  C2: the program transmits a packet exactly when the declarative relation \<open>gateway_tx\<close>
  (accepted outer header, overlay of the interface's role, known endpoint, security group
  passed) gives an output for it, and then sends that output; every other packet leaves with
  its bytes untouched.
\<close>

theorem transit_transmits_iff:
  assumes "if_config_map E (ingress_ifindex ctx) = Some itf" "tunnel_iface_ok itf"
    "stages_ok E" "xdpcap_transparent E" "redirect_ok E"
  shows "\<exists>v d. transit E n ctx = Some (v, d) \<and>
    (v = XDP_TX \<longleftrightarrow> (\<exists>b'. gateway_tx E itf (ctx_data ctx) b')) \<and>
    (v = XDP_TX \<longrightarrow> gateway_tx E itf (ctx_data ctx) d) \<and> (v \<noteq> XDP_TX \<longrightarrow> d = ctx_data ctx)"
proof -
  obtain a d where t: "transit E n ctx = Some (transit_exit E (rx_queue_index ctx) a, d)"
    "a \<in> {XDP_ABORTED, XDP_DROP, XDP_PASS, XDP_TX, EP_NOT_FOUND}"
    "a = XDP_TX \<longrightarrow> gateway_tx E itf (ctx_data ctx) d"
    "a \<noteq> XDP_TX \<longrightarrow> d = ctx_data ctx \<and> (\<forall>b'. \<not> gateway_tx E itf (ctx_data ctx) b')"
    using transit_steps [OF assms(1,2), of n] by metis
  have "redirect_xsk E (rx_queue_index ctx) \<in> {XDP_REDIRECT, XDP_ABORTED}"
    using assms(5) by (simp add: redirect_ok_def)
  then have "transit_exit E (rx_queue_index ctx) a = XDP_TX \<longleftrightarrow> a = XDP_TX"
    using transit_exit_value [OF assms(3,4) t(2), of "rx_queue_index ctx"] by auto
  then show ?thesis using t by blast
qed

theorem transit_transmits_iff_witness:
  "\<exists>v d. transit demo_env 1 (demo_ctx demo_packet) = Some (v, d) \<and>
    (v = XDP_TX \<longleftrightarrow> (\<exists>b'. gateway_tx demo_env demo_itf demo_packet b')) \<and>
    (v = XDP_TX \<longrightarrow> gateway_tx demo_env demo_itf demo_packet d) \<and> (v \<noteq> XDP_TX \<longrightarrow> d = demo_packet)"
  using transit_transmits_iff [of demo_env "demo_ctx demo_packet" demo_itf 1] demo_env_ok
  by (simp add: demo_ctx_def)

lemma transit_hop:
  assumes "if_config_map E (ingress_ifindex ctx) = Some itf" "tunnel_iface_ok itf"
    "stages_ok E" "xdpcap_transparent E"
    "outer_accepted itf (ctx_data ctx)" "inner_offset itf (ctx_data ctx) = Some ie"
    "get16 (ctx_data ctx) (ie + 12) = bpf_htons ETH_P_IP" "ie + 34 \<le> length (ctx_data ctx)"
    "sg_passes E (vni_at (ctx_data ctx) 46) (ctx_data ctx) (ie + 14)"
    "endpoints_map E \<lparr>ek_vni = vni_at (ctx_data ctx) 46, ek_ip = get32 (ctx_data ctx) (ie + 30)\<rparr> = Some ep"
  shows "\<exists>d. transit E n ctx = Some (XDP_TX, d) \<and>
    vpacket_of d ie = forward_to ep (vpacket_of (ctx_data ctx) ie) \<and> ipv4_csum_ok d 14 \<and>
    length d = length (ctx_data ctx)"
proof -
  let ?b = "ctx_data ctx"
  have "inner_tx E (ti_role itf) (vni_at ?b 46) ?b ie (fwd_bytes ?b 0 14 ie ep)"
    by (rule tx_ip) (use assms(7-) in \<open>simp_all add: inner_ip_to_def add.assoc\<close>)
  then have "gateway_tx E itf ?b (fwd_bytes ?b 0 14 ie ep)"
    by (rule gateway_tx_inner [OF assms(5,6)])
  then have "transit E n ctx = Some (XDP_TX, fwd_bytes ?b 0 14 ie ep)"
    by (rule transit_tx [OF assms(1-4)])
  then show ?thesis
    using inner_offset_34 [OF assms(6)] assms(8) by (simp add: fwd_bytes_refines fwd_bytes_csum_ok)
qed

text \<open>
  C1: forwarding refines the abstract hop. An IP packet accepted by the gateway, allowed by
  the security groups, whose inner destination is an endpoint of the packet's VNI, is
  transmitted as \<open>forward_to\<close> of what came in: to the endpoint's host, with the inner frame
  addressed to the endpoint, TTL decremented, a valid IP checksum, and nothing else changed.
\<close>

theorem transit_forwards:
  assumes "if_config_map E (ingress_ifindex ctx) = Some itf" "tunnel_iface_ok itf"
    "stages_ok E" "xdpcap_transparent E"
    "outer_accepted itf (ctx_data ctx)" "inner_offset itf (ctx_data ctx) = Some ie"
    "get16 (ctx_data ctx) (ie + 12) = bpf_htons ETH_P_IP" "ie + 34 \<le> length (ctx_data ctx)"
    "sg_passes E (vni_at (ctx_data ctx) 46) (ctx_data ctx) (ie + 14)"
    "endpoints_map E \<lparr>ek_vni = vni_at (ctx_data ctx) 46, ek_ip = get32 (ctx_data ctx) (ie + 30)\<rparr> = Some ep"
  shows "\<exists>d. transit E n ctx = Some (XDP_TX, d) \<and>
    vpacket_of d ie = forward_to ep (vpacket_of (ctx_data ctx) ie) \<and> ipv4_csum_ok d 14 \<and>
    length d = length (ctx_data ctx)"
  by (rule transit_hop [OF assms])

theorem transit_forwards_witness:
  "\<exists>d. transit demo_env 1 (demo_ctx demo_packet) = Some (XDP_TX, d) \<and>
    vpacket_of d 50 = forward_to demo_ep (vpacket_of demo_packet 50) \<and> ipv4_csum_ok d 14 \<and>
    length d = 92"
proof -
  have "endpoints_map demo_env \<lparr>ek_vni = 7, ek_ip = get32 demo_packet 80\<rparr> = Some demo_ep"
    by (simp add: demo_env_def demo_endpoints_def demo_fields)
  then show ?thesis
    using transit_forwards [of demo_env "demo_ctx demo_packet" demo_itf 50 demo_ep 1] demo_env_ok
      demo_outer_accepted demo_inner_offset demo_fields demo_length demo_sg
    by (simp add: demo_ctx_def)
qed

text \<open>
  C27: a gateway in the forwarding role answers an inner ARP request for an endpoint of the
  packet's VNI: the reply carries the endpoint's MAC, goes back to the requester through the
  host it came from, with a valid outer IP checksum.
\<close>

theorem transit_answers_arp:
  assumes "if_config_map E (ingress_ifindex ctx) = Some itf" "tunnel_iface_ok itf"
    "stages_ok E" "xdpcap_transparent E" "ti_role itf = role_code XDP_FWD"
    "outer_accepted itf (ctx_data ctx)" "inner_offset itf (ctx_data ctx) = Some ie"
    "get16 (ctx_data ctx) (ie + 12) = bpf_htons ETH_P_ARP"
    "arp_request_for E (vni_at (ctx_data ctx) 46) (ctx_data ctx) ie ep"
  shows "\<exists>d. transit E n ctx = Some (XDP_TX, d) \<and>
    varp_of d ie = arp_answer (ep_mac ep) (varp_of (ctx_data ctx) ie) \<and>
    get32 d 26 = get32 (ctx_data ctx) 30 \<and> get32 d 30 = get32 (ctx_data ctx) 26 \<and>
    get_mac d 0 = get_mac (ctx_data ctx) 6 \<and> get_mac d 6 = get_mac (ctx_data ctx) 0 \<and>
    ipv4_csum_ok d 14"
proof -
  let ?b = "ctx_data ctx"
  have "inner_tx E (ti_role itf) (vni_at ?b 46) ?b ie (arp_reply_bytes ?b 14 ie ep)"
    by (rule tx_arp) (fact assms)+
  then have "gateway_tx E itf ?b (arp_reply_bytes ?b 14 ie ep)"
    by (rule gateway_tx_inner [OF assms(6,7)])
  then have "transit E n ctx = Some (XDP_TX, arp_reply_bytes ?b 14 ie ep)"
    by (rule transit_tx [OF assms(1-4)])
  moreover have "ie + 42 \<le> length ?b" using assms(9) by (simp add: arp_request_for_def)
  ultimately show ?thesis
    using inner_offset_34 [OF assms(7)] by (simp add: arp_reply_refines arp_reply_outer)
qed

theorem transit_answers_arp_witness:
  "\<exists>d. transit demo_env 1 (demo_ctx demo_arp) = Some (XDP_TX, d) \<and>
    varp_of d 50 = arp_answer (ep_mac demo_ep) (varp_of demo_arp 50) \<and>
    get32 d 26 = get32 demo_arp 30 \<and> get32 d 30 = get32 demo_arp 26 \<and>
    get_mac d 0 = get_mac demo_arp 6 \<and> get_mac d 6 = get_mac demo_arp 0 \<and> ipv4_csum_ok d 14"
  using transit_answers_arp [of demo_env "demo_ctx demo_arp" demo_itf 50 demo_ep 1] demo_env_ok
    demo_outer_accepted demo_inner_offset demo_fields demo_arp_request
  by (simp add: demo_ctx_def demo_itf_def)

lemma trn_process_inner_ip_unknown:
  assumes "tp_inner_eth pkt = Some ie" "ie + 34 \<le> tp_data_end pkt"
    "sg_passes E (tp_vni pkt) (tp_data pkt) (ie + 14)"
    "endpoints_map E \<lparr>ek_vni = tp_vni pkt, ek_ip = get32 (tp_data pkt) (ie + 30)\<rparr> = None"
  shows "\<exists>q. trn_process_inner_ip E n pkt = Some (EP_NOT_FOUND, q) \<and> tp_data q = tp_data pkt"
proof -
  let ?p = "pkt\<lparr>tp_inner_ip := Some (ie + 14)\<rparr>"
  obtain t u where "trn_sg_check E ?p = Some (XDP_PASS, ?p\<lparr>tp_inner_tcp := t, tp_inner_udp := u\<rparr>)"
    using trn_sg_check_result [of ?p "ie + 14" E] assms(2,3) by auto
  then show ?thesis
    using assms by (simp add: trn_process_inner_ip_def Let_def mem_simps add.assoc)
qed

lemma transit_unknown:
  assumes "if_config_map E (ingress_ifindex ctx) = Some itf" "tunnel_iface_ok itf"
    "stages_ok E" "xdpcap_transparent E"
    "outer_accepted itf (ctx_data ctx)" "inner_offset itf (ctx_data ctx) = Some ie"
    "get16 (ctx_data ctx) (ie + 12) = bpf_htons ETH_P_IP" "ie + 34 \<le> length (ctx_data ctx)"
    "sg_passes E (vni_at (ctx_data ctx) 46) (ctx_data ctx) (ie + 14)"
    "endpoints_map E \<lparr>ek_vni = vni_at (ctx_data ctx) 46, ek_ip = get32 (ctx_data ctx) (ie + 30)\<rparr> = None"
  shows "transit E n ctx =
    Some (if xsks_map E (rx_queue_index ctx) then redirect_xsk E (rx_queue_index ctx) else XDP_DROP,
      ctx_data ctx)"
proof -
  let ?p = "fresh_packet (ctx_data ctx) (ingress_ifindex ctx) (Some itf)"
  have p: "tp_itf ?p = Some itf" "tp_data ?p = ctx_data ctx" by (simp_all add: fresh_packet_def)
  obtain q where q: "trn_process_eth E n ?p = trn_process_inner_eth E n q"
    "tp_data q = ctx_data ctx" "tp_inner_eth q = Some ie" "tp_vni q = vni_at (ctx_data ctx) 46"
    "tp_itf q = Some itf"
    using trn_process_eth_path [of ?p itf ie E n] p assms(2,5,6) by metis
  have "trn_process_inner_eth E n q = trn_process_inner_ip E n q"
    using q assms(7,8) by (simp add: trn_process_inner_eth_def mem_simps bpf_htons_def lo8_def hi8_def)
  then obtain r where "trn_process_eth E n ?p = Some (EP_NOT_FOUND, r)" "tp_data r = ctx_data ctx"
    using trn_process_inner_ip_unknown [of q ie E n] q assms(8,9,10) by auto
  then show ?thesis
    using assms(1) transit_exit_value [OF assms(3,4), of EP_NOT_FOUND "rx_queue_index ctx"]
    by (simp add: transit_def Let_def)
qed

text \<open>
  A packet for an inner destination the gateway does not know is never transmitted and
  never changed: it goes to the AF\_XDP socket of its receive queue when one is bound (for the
  control agent to resolve), and is dropped otherwise.
\<close>

theorem transit_unknown_endpoint:
  assumes "if_config_map E (ingress_ifindex ctx) = Some itf" "tunnel_iface_ok itf"
    "stages_ok E" "xdpcap_transparent E"
    "outer_accepted itf (ctx_data ctx)" "inner_offset itf (ctx_data ctx) = Some ie"
    "get16 (ctx_data ctx) (ie + 12) = bpf_htons ETH_P_IP" "ie + 34 \<le> length (ctx_data ctx)"
    "sg_passes E (vni_at (ctx_data ctx) 46) (ctx_data ctx) (ie + 14)"
    "endpoints_map E \<lparr>ek_vni = vni_at (ctx_data ctx) 46, ek_ip = get32 (ctx_data ctx) (ie + 30)\<rparr> = None"
  shows "transit E n ctx =
    Some (if xsks_map E (rx_queue_index ctx) then redirect_xsk E (rx_queue_index ctx) else XDP_DROP,
      ctx_data ctx)"
  by (rule transit_unknown [OF assms])

theorem transit_unknown_endpoint_witness:
  "transit (demo_env\<lparr>endpoints_map := \<lambda>_. None\<rparr>) 1 (demo_ctx demo_packet) = Some (XDP_DROP, demo_packet)"
proof -
  let ?E = "demo_env\<lparr>endpoints_map := \<lambda>_. None\<rparr>"
  have "if_config_map ?E 3 = Some demo_itf" "stages_ok ?E" "xdpcap_transparent ?E"
    "sg_passes ?E 7 demo_packet 64" "\<not> xsks_map ?E 0"
    using demo_env_ok demo_sg
    by (simp_all add: stages_ok_def xdpcap_transparent_def sg_passes_def demo_env_def)
  then show ?thesis
    using transit_unknown_endpoint [of ?E "demo_ctx demo_packet" demo_itf 50 1] demo_env_ok
      demo_outer_accepted demo_inner_offset demo_fields demo_length
    by (simp add: demo_ctx_def)
qed

text \<open>
  C20: tenants are isolated. What the program does with a packet of VNI \<open>v\<close> (verdict, bytes) is
  a function of the endpoints and security groups of \<open>v\<close>: changing those of every other VNI
  changes nothing.
\<close>

theorem transit_tenant_isolation:
  assumes "same_tenant (vni_at (ctx_data ctx) 46) E E'"
  shows "transit E' n ctx = transit E n ctx"
proof -
  have "trn_process_eth E' n (fresh_packet (ctx_data ctx) i itf) =
      trn_process_eth E n (fresh_packet (ctx_data ctx) i itf)" for i itf
    by (rule trn_process_eth_tenant) (simp add: assms fresh_packet_def)
  then show ?thesis
    using same_tenantD(3-5) [OF assms] by (simp add: transit_def Let_def cong: option.case_cong)
qed

theorem transit_tenant_isolation_witness:
  "transit (demo_env\<lparr>endpoints_map := (\<lambda>k. if ek_vni k = 8 then Some demo_ep else endpoints_map demo_env k)\<rparr>) 1
     (demo_ctx demo_packet) = transit demo_env 1 (demo_ctx demo_packet)"
  by (rule transit_tenant_isolation) (simp add: same_tenant_def demo_ctx_def demo_fields)

end
