(* ===== verification/Arion_SecGroup.thy ===== *)
theory Arion_SecGroup
  imports Arion_Gateway
begin

text \<open>
  What the security-group check of the gateway decides. The map is a longest-prefix-match
  trie; the documented behaviour of a lookup is the hypothesis \<open>lpm_law\<close>: only the first
  \<open>prefixlen\<close> bits of the key's data matter. A list of rules with the longest match first is a
  trie of that kind (\<open>lpm_trie\<close>), used where a concrete one is needed.
\<close>

section \<open>Longest prefix match\<close>

definition byte_bits :: "u8 \<Rightarrow> bool list" where
  "byte_bits w = map (bit w) [7, 6, 5, 4, 3, 2, 1, 0]"

definition key_bits :: "sg_cidr_key_t \<Rightarrow> bool list" where
  "key_bits k = take (unat (sgk_prefixlen k)) (concat (map byte_bits (sg_cidr_key_data k)))"

definition lpm_law :: "(sg_cidr_key_t \<Rightarrow> 'v option) \<Rightarrow> bool" where
  "lpm_law f \<longleftrightarrow> (\<forall>k k'. sgk_prefixlen k = sgk_prefixlen k' \<longrightarrow> key_bits k = key_bits k' \<longrightarrow> f k = f k')"

text \<open>
  A trie as its rules: the stored keys, with the values; a rule matches when its own bits are
  a prefix of the bits of the key looked up, and the longest rule wins.
\<close>

definition rule_matches :: "sg_cidr_key_t \<Rightarrow> sg_cidr_key_t \<Rightarrow> bool" where
  "rule_matches k r \<longleftrightarrow> take (length (key_bits r)) (key_bits k) = key_bits r"

primrec lpm_trie :: "(sg_cidr_key_t \<times> 'v) list \<Rightarrow> sg_cidr_key_t \<Rightarrow> (sg_cidr_key_t \<times> 'v) option" where
  "lpm_trie [] k = None"
| "lpm_trie (r # rs) k =
     (if rule_matches k (fst r)
      then (case lpm_trie rs k of
              None \<Rightarrow> Some r
            | Some r' \<Rightarrow> Some (if length (key_bits (fst r)) < length (key_bits (fst r')) then r' else r))
      else lpm_trie rs k)"

lemma lpm_trie_law: "lpm_law (map_option snd \<circ> lpm_trie rs)"
proof -
  have "lpm_trie rs k = lpm_trie rs k'" if "key_bits k = key_bits k'" for k k'
    using that by (induction rs) (simp_all add: rule_matches_def)
  then show ?thesis unfolding lpm_law_def by (metis comp_apply)
qed

lemma length_byte_bits [simp]: "length (byte_bits w) = 8"
  by (simp add: byte_bits_def)

lemma length_concat_bits: "length (concat (map byte_bits bs)) = 8 * length bs"
  by (induction bs) simp_all

lemma key_bits_sg:
  assumes "sgk_prefixlen k = SG_IPV4_PREFIX"
  shows "key_bits k = concat (map byte_bits
    (bytes32 (sgk_vni k) @ bytes16 (sgk_port k) @ [sgk_direction k, sgk_protocol k]))"
  using assms
  by (simp add: key_bits_def sg_cidr_key_data_def SG_IPV4_PREFIX_def SG_PREFIX_LEN_def
      SG_STATIC_PREFIX_def length_concat_bits)

text \<open>A key of \<open>SG_IPV4_PREFIX\<close> bits ends before the addresses.\<close>

lemma lpm_law_addresses:
  assumes "lpm_law f"
  obtains g where "\<And>v p dir proto s d. f \<lparr>sgk_prefixlen = SG_IPV4_PREFIX, sgk_vni = v, sgk_port = p,
      sgk_direction = dir, sgk_protocol = proto, sgk_src_ip = s, sgk_dst_ip = d\<rparr> = g v p dir proto"
proof -
  let ?k = "\<lambda>v p dir proto s d. \<lparr>sgk_prefixlen = SG_IPV4_PREFIX, sgk_vni = v, sgk_port = p,
      sgk_direction = dir, sgk_protocol = proto, sgk_src_ip = s, sgk_dst_ip = d\<rparr>"
  have "key_bits (?k v p dir proto s d) = key_bits (?k v p dir proto 0 0)" for v p dir proto s d
    by (simp add: key_bits_sg)
  then have "f (?k v p dir proto s d) = f (?k v p dir proto 0 0)" for v p dir proto s d
    using assms unfolding lpm_law_def by (metis sg_cidr_key_t.select_convs(1))
  then show ?thesis using that [of "\<lambda>v p dir proto. f (?k v p dir proto 0 0)"] by blast
qed

section \<open>The decision\<close>

text \<open>
  C30: the security-group check reads nothing outside the inner headers, changes nothing, and
  passes a packet exactly when the egress rule is in the map, the transport header fits, and
  for TCP and UDP the ingress rule for the destination port is in the map too.
\<close>

theorem trn_sg_check_decides:
  assumes "tp_inner_ip pkt = Some iip" "iip + sizeof_iphdr \<le> tp_data_end pkt"
  shows "\<exists>a q. trn_sg_check E pkt = Some (a, q) \<and> tp_data q = tp_data pkt \<and>
    a \<in> {XDP_ABORTED, XDP_DROP, XDP_PASS} \<and>
    (a = XDP_PASS \<longleftrightarrow> sg_passes E (tp_vni pkt) (tp_data pkt) iip)"
  using trn_sg_check_result [of pkt iip E] assms by force

definition demo_sg_packet :: "u8 \<Rightarrow> transit_packet" where
  "demo_sg_packet proto = (fresh_packet (put8 (replicate 40 0) 9 proto) 3 None)\<lparr>tp_inner_ip := Some 0\<rparr>"

theorem trn_sg_check_decides_witness:
  "\<exists>a q. trn_sg_check demo_env (demo_sg_packet 6) = Some (a, q) \<and>
    tp_data q = put8 (replicate 40 0) 9 6 \<and> a \<in> {XDP_ABORTED, XDP_DROP, XDP_PASS} \<and>
    (a = XDP_PASS \<longleftrightarrow> sg_passes demo_env 0 (put8 (replicate 40 0) 9 6) 0)"
  using trn_sg_check_decides [of "demo_sg_packet 6" 0 demo_env]
  by (simp add: demo_sg_packet_def fresh_packet_def)

text \<open>
  The action stored with a security group is never consulted: two maps with the same keys
  give the same decision, whatever their entries say (\<open>TRAN_SG_STOP\<close> included).
\<close>

theorem trn_sg_check_ignores_action:
  assumes "\<And>k. sg_cidr_map E' k = None \<longleftrightarrow> sg_cidr_map E k = None"
  shows "trn_sg_check E' pkt = trn_sg_check E pkt"
  by (simp add: trn_sg_check_def Let_def assms cong: if_cong)

theorem trn_sg_check_ignores_action_witness:
  "trn_sg_check (demo_env\<lparr>sg_cidr_map := \<lambda>k. Some \<lparr>sg_id = 9, sg_action = 0\<rparr>\<rparr>) (demo_sg_packet 1)
   = trn_sg_check demo_env (demo_sg_packet 1)"
  by (rule trn_sg_check_ignores_action) (simp add: demo_env_def)

text \<open>
  C31: with the prefix length the program asks for, the addresses in the key take no part in
  the lookup: rewriting the inner source and destination addresses never changes the verdict
  of the security-group check, so a CIDR rule cannot tell addresses apart.
\<close>

theorem trn_sg_check_ignores_addresses:
  assumes "lpm_law (sg_cidr_map E)" "tp_inner_ip pkt = Some iip" "iip + sizeof_iphdr \<le> tp_data_end pkt"
  shows "map_option fst (trn_sg_check E
      (pkt\<lparr>tp_data := put32 (put32 (tp_data pkt) (iip + 12) s) (iip + 16) d\<rparr>))
    = map_option fst (trn_sg_check E pkt)"
proof -
  obtain g where "\<And>v p dir proto s d. sg_cidr_map E \<lparr>sgk_prefixlen = SG_IPV4_PREFIX, sgk_vni = v,
      sgk_port = p, sgk_direction = dir, sgk_protocol = proto, sgk_src_ip = s, sgk_dst_ip = d\<rparr> = g v p dir proto"
    using lpm_law_addresses [OF assms(1)] by metis
  then show ?thesis
    using assms(2,3)
    by (cases "get8 (tp_data pkt) (iip + 9) = 6"; cases "get8 (tp_data pkt) (iip + 9) = 17")
      (simp_all add: trn_sg_check_def Let_def mem_simps add.assoc)
qed

definition demo_sg_env :: xdp_env where
  "demo_sg_env = demo_env\<lparr>sg_cidr_map := map_option snd \<circ>
     lpm_trie [(sg_egress_key 0 (replicate 40 0) 0, \<lparr>sg_id = 1, sg_action = 1\<rparr>)]\<rparr>"

theorem trn_sg_check_ignores_addresses_witness:
  "map_option fst (trn_sg_check demo_sg_env
      ((demo_sg_packet 1)\<lparr>tp_data := put32 (put32 (tp_data (demo_sg_packet 1)) 12 5) 16 6\<rparr>))
    = map_option fst (trn_sg_check demo_sg_env (demo_sg_packet 1))"
proof -
  have "lpm_law (sg_cidr_map demo_sg_env)" by (simp add: demo_sg_env_def lpm_trie_law)
  moreover have "tp_inner_ip (demo_sg_packet 1) = Some 0"
    "0 + sizeof_iphdr \<le> tp_data_end (demo_sg_packet 1)"
    by (simp_all add: demo_sg_packet_def fresh_packet_def)
  ultimately show ?thesis
    using trn_sg_check_ignores_addresses [of demo_sg_env "demo_sg_packet 1" 0 5 6] by simp
qed

end
