(* ===== verification/Arion_Cn.thy ===== *)
theory Arion_Cn
  imports Arion_Gateway
begin

text \<open>
  The compute node's XDP program (\<open>src/cn/cn_dpnd/cn_dpnd_xdp.c\<close>): it watches VXLAN packets
  that arrive from a gateway, picks up the trailer the gateway appends to the IP packet
  (\<open>trn_append_hints\<close>), and queues a direct-path request for the user-space assistant
  (\<open>Arion_CnUsr\<close>). It never changes a packet. A step returns the verdict with the element
  handed to \<open>bpf_map_push_elem\<close>, if any; it is \<open>None\<close> on an access outside the packet. The
  program carries its own copies of some helpers of \<open>trn_kern.h\<close>; they are translated again,
  with the lemmas that they agree.
\<close>

type_synonym cn_result = "(int \<times> flow_ctx_t option) option"

section \<open>The program's copies of the header helpers\<close>

definition cn_trn_get_vni :: "u8 \<times> u8 \<times> u8 \<Rightarrow> u32" where
  "cn_trn_get_vni vni = (case vni of (v0, v1, v2) \<Rightarrow>
     push_bit 16 (ucast v0) OR push_bit 8 (ucast v1) OR ucast v2)"

definition cn_trn_set_vni :: "u32 \<Rightarrow> u8 \<times> u8 \<times> u8" where
  "cn_trn_set_vni src = (ucast (drop_bit 16 src), ucast (drop_bit 8 src), ucast src)"

definition cn_trn_set_src_ip :: "bytes \<Rightarrow> nat \<Rightarrow> nat \<Rightarrow> u32 \<Rightarrow> bytes option" where
  "cn_trn_set_src_ip b data data_end saddr =
     (if data + 12 > data_end then Some b else wr32 b (data + 12) saddr)"

definition cn_trn_set_dst_ip :: "bytes \<Rightarrow> nat \<Rightarrow> nat \<Rightarrow> u32 \<Rightarrow> bytes option" where
  "cn_trn_set_dst_ip b data data_end daddr =
     (if data + 16 > data_end then Some b else wr32 b (data + 16) daddr)"

definition cn_trn_csum_fold_helper :: "u64 \<Rightarrow> u16" where
  "cn_trn_csum_fold_helper csum = ucast (NOT ((csum_fold_step ^^ 4) csum))"

definition cn_trn_ipv4_csum_inline :: "bytes \<Rightarrow> nat \<Rightarrow> u64 \<Rightarrow> u64 option" where
  "cn_trn_ipv4_csum_inline b iph csum = do {
     c \<leftarrow> csum_words b iph (20 div 2) csum;
     Some (ucast (cn_trn_csum_fold_helper c))
   }"

definition cn_trn_set_src_dst_ip_csum ::
  "bytes \<Rightarrow> nat \<Rightarrow> u32 \<Rightarrow> u32 \<Rightarrow> nat \<Rightarrow> bytes option" where
  "cn_trn_set_src_dst_ip_csum b ip saddr daddr data_end = do {
     ttl \<leftarrow> rd8 b (ip + 8);
     b \<leftarrow> wr8 b (ip + 8) (ttl - 1);
     b \<leftarrow> cn_trn_set_src_ip b ip data_end saddr;
     b \<leftarrow> cn_trn_set_dst_ip b ip data_end daddr;
     b \<leftarrow> wr16 b (ip + 10) 0;
     csum \<leftarrow> cn_trn_ipv4_csum_inline b ip 0;
     wr16 b (ip + 10) (ucast csum)
   }"

definition cn_trn_set_mac :: "bytes \<Rightarrow> nat \<Rightarrow> mac6 \<Rightarrow> bytes option" where
  "cn_trn_set_mac b dst mac = do {
     b \<leftarrow> wr16 b dst (mac16 mac 0);
     b \<leftarrow> wr16 b (dst + 2) (mac16 mac 1);
     wr16 b (dst + 4) (mac16 mac 2)
   }"

definition cn_trn_set_dst_mac :: "bytes \<Rightarrow> nat \<Rightarrow> mac6 \<Rightarrow> bytes option" where
  "cn_trn_set_dst_mac b data dst_mac = cn_trn_set_mac b data dst_mac"
definition cn_trn_set_src_mac :: "bytes \<Rightarrow> nat \<Rightarrow> mac6 \<Rightarrow> bytes option" where
  "cn_trn_set_src_mac b data src_mac = cn_trn_set_mac b (data + 6) src_mac"

text \<open>Reading six bytes out of a packet, as \<open>trn_set_mac\<close> from it does.\<close>

definition rd_mac :: "bytes \<Rightarrow> nat \<Rightarrow> mac6 option" where
  "rd_mac b p = (if p + 6 \<le> length b then Some (get_mac b p) else None)"

lemma cn_helpers [step_simps]:
  "cn_trn_get_vni = trn_get_vni" "cn_trn_set_vni = trn_set_vni"
  "cn_trn_set_src_ip = trn_set_src_ip" "cn_trn_set_dst_ip = trn_set_dst_ip"
  "cn_trn_csum_fold_helper = trn_csum_fold_helper"
  "cn_trn_set_mac = trn_set_mac" "cn_trn_set_dst_mac = trn_set_dst_mac"
  "cn_trn_set_src_mac = trn_set_src_mac"
  by (simp_all add: fun_eq_iff cn_trn_get_vni_def trn_get_vni_def cn_trn_set_vni_def
      trn_set_vni_def cn_trn_set_src_ip_def trn_set_src_ip_def cn_trn_set_dst_ip_def
      trn_set_dst_ip_def cn_trn_csum_fold_helper_def trn_csum_fold_helper_def
      cn_trn_set_mac_def trn_set_mac_def cn_trn_set_dst_mac_def trn_set_dst_mac_def
      cn_trn_set_src_mac_def trn_set_src_mac_def)

lemma cn_csum_helpers [step_simps]:
  "cn_trn_ipv4_csum_inline = trn_ipv4_csum_inline"
  "cn_trn_set_src_dst_ip_csum = trn_set_src_dst_ip_csum"
proof -
  show "cn_trn_ipv4_csum_inline = trn_ipv4_csum_inline"
    by (simp add: fun_eq_iff cn_trn_ipv4_csum_inline_def trn_ipv4_csum_inline_def cn_helpers)
  then show "cn_trn_set_src_dst_ip_csum = trn_set_src_dst_ip_csum"
    by (simp add: fun_eq_iff cn_trn_set_src_dst_ip_csum_def trn_set_src_dst_ip_csum_def cn_helpers)
qed

section \<open>Sizes and constants\<close>

definition sizeof_ipv4_flow :: nat where [simp]: "sizeof_ipv4_flow = 16"
definition sizeof_dp_encap_opdata :: nat where [simp]: "sizeof_dp_encap_opdata = 24"
definition IPVERSION :: u8 where [simp]: "IPVERSION = 4"
definition IPDEFTTL :: u8 where [simp]: "IPDEFTTL = 64"
definition CN_LOCAL_QUEUE_LEN :: nat where "CN_LOCAL_QUEUE_LEN = 1024"
definition hints_signature :: u16 where "hints_signature = 0x5354"

section \<open>The steps\<close>

text \<open>
  The direct-path request, built field by field in \<open>pkt->fctx\<close>. The trailer is at \<open>h\<close>; the
  header templates are the byte blocks \<open>fc_eth\<close>, \<open>fc_ip\<close>, \<open>fc_udp\<close>, and the end of the block the
  address helpers are bounded by is \<open>&pkt->fctx.opcode\<close>, 28 bytes after the IP header.
\<close>

definition cn_direct_path :: "transit_packet \<Rightarrow> nat \<Rightarrow> flow_ctx_t \<Rightarrow> flow_ctx_t option" where
  "cn_direct_path pkt h fctx = do {
     let d = tp_data pkt;
     ip \<leftarrow> tp_ip pkt;
     eth \<leftarrow> tp_eth pkt;
     ie \<leftarrow> tp_inner_eth pkt;
     iip \<leftarrow> tp_inner_ip pkt;
     let fctx = fctx\<lparr>fc_opcode := bpf_htonl (flow_op_code XDP_FLOW_OP_ENCAP)\<rparr>;
     dip \<leftarrow> rd32 d (iip + 12);
     dhip \<leftarrow> rd32 d (h + 6);
     dmac \<leftarrow> rd_mac d (ie + 6);
     dhmac \<leftarrow> rd_mac d (h + 10);
     let fctx = fctx\<lparr>fc_encap := (fc_encap fctx)\<lparr>od_dip := dip, od_dhip := dhip,
           od_dmac := dmac, od_dhmac := dhmac, od_timeout := bpf_htons TRAN_DP_FLOW_TIMEOUT\<rparr>\<rparr>;
     let len = (of_nat (sizeof_udphdr + 4 + sizeof_ipv4_flow + sizeof_dp_encap_opdata) :: u16);
     udp \<leftarrow> wr16 (fc_udp fctx) 4 (bpf_htons len);
     w \<leftarrow> rd8 (fc_ip fctx) 0;
     i \<leftarrow> wr8 (fc_ip fctx) 0 ((w AND 0x0F) OR push_bit 4 IPVERSION);
     w \<leftarrow> rd8 i 0;
     i \<leftarrow> wr8 i 0 ((w AND 0xF0) OR of_nat (sizeof_iphdr div 4));
     let len = len + of_nat sizeof_iphdr;
     i \<leftarrow> wr16 i 2 (bpf_htons len);
     i \<leftarrow> wr16 i 4 (bpf_htons 54321);
     i \<leftarrow> wr8 i 8 IPDEFTTL;
     i \<leftarrow> wr8 i 9 IPPROTO_UDP;
     daddr \<leftarrow> rd32 d (ip + 16);
     saddr \<leftarrow> rd32 d (ip + 12);
     i \<leftarrow> cn_trn_set_src_dst_ip_csum i 0 daddr saddr 28;
     h_source \<leftarrow> rd_mac d (eth + 6);
     e \<leftarrow> cn_trn_set_dst_mac (fc_eth fctx) 0 h_source;
     h_dest \<leftarrow> rd_mac d eth;
     e \<leftarrow> cn_trn_set_src_mac e 0 h_dest;
     e \<leftarrow> wr16 e 12 (bpf_htons ETH_P_IP);
     Some (fctx\<lparr>fc_udp := udp, fc_ip := i, fc_eth := e, fc_len := of_nat sizeof_ethhdr + len\<rparr>)
   }"

definition cn_trn_process_inner_ip :: "transit_packet \<Rightarrow> cn_result" where
  "cn_trn_process_inner_ip pkt = do {
     let d = tp_data pkt;
     ie \<leftarrow> tp_inner_eth pkt;
     let iip = ie + sizeof_ethhdr;
     let pkt = pkt\<lparr>tp_inner_ip := Some iip\<rparr>;
     if iip + sizeof_iphdr > tp_data_end pkt then Some (XDP_ABORTED, None)
     else do {
       daddr \<leftarrow> rd32 d (iip + 16);
       saddr \<leftarrow> rd32 d (iip + 12);
       protocol \<leftarrow> rd8 d (iip + 9);
       let flow = flow_zero\<lparr>fl_vni := cn_trn_set_vni (tp_vni pkt), fl_saddr := daddr,
                    fl_daddr := saddr, fl_protocol := protocol\<rparr>;
       let l4 = iip + sizeof_iphdr;
       if protocol = IPPROTO_TCP \<and> l4 + sizeof_tcphdr > tp_data_end pkt \<or>
          protocol = IPPROTO_UDP \<and> l4 + sizeof_udphdr > tp_data_end pkt
       then Some (XDP_ABORTED, None)
       else do {
         flow \<leftarrow> (if protocol = IPPROTO_TCP \<or> protocol = IPPROTO_UDP then do {
                    sport \<leftarrow> rd16 d (l4 + 0);
                    dport \<leftarrow> rd16 d (l4 + 2);
                    Some (flow\<lparr>fl_sport := sport, fl_dport := dport\<rparr>)
                  } else Some flow);
         let flow = flow\<lparr>fl_sport := 0\<rparr>;
         let flow = flow\<lparr>fl_dport := 0\<rparr>;
         if protocol \<noteq> IPPROTO_ICMP then do {
           ip \<leftarrow> tp_ip pkt;
           t \<leftarrow> rd16 d (ip + 2);
           let ip_tot_len = bpf_ntohs t;
           if ip_tot_len < 2 then Some (XDP_DROP, None)
           else do {
             let ip_tot_len = unat (ip_tot_len AND 0xFFF);
             if ip_tot_len + sizeof_xdp_hints_src + sizeof_ethhdr > tp_data_end pkt
             then Some (XDP_PASS, None)
             else do {
               let h_src = ip_tot_len + sizeof_ethhdr;
               flags \<leftarrow> rd16 d (h_src + 0);
               vni \<leftarrow> rd32 d (h_src + 2);
               if flags \<noteq> hints_signature \<or> vni \<noteq> tp_vni pkt then Some (XDP_PASS, None)
               else do {
                 fctx \<leftarrow> cn_direct_path pkt h_src (flow_ctx_zero\<lparr>fc_flow := flow\<rparr>);
                 Some (XDP_PASS, Some fctx)
               }
             }
           }
         }
         else Some (XDP_PASS, None)
       }
     }
   }"

definition cn_trn_process_inner_eth :: "transit_packet \<Rightarrow> cn_result" where
  "cn_trn_process_inner_eth pkt = do {
     ie \<leftarrow> tp_inner_eth pkt;
     if ie + sizeof_ethhdr > tp_data_end pkt then Some (XDP_ABORTED, None)
     else do {
       h_proto \<leftarrow> rd16 (tp_data pkt) (ie + 12);
       if h_proto \<noteq> bpf_htons ETH_P_IP then Some (XDP_PASS, None)
       else cn_trn_process_inner_ip pkt
     }
   }"

definition cn_trn_process_vxlan :: "transit_packet \<Rightarrow> cn_result" where
  "cn_trn_process_vxlan pkt = do {
     udp \<leftarrow> tp_udp pkt;
     let vxlan = udp + sizeof_udphdr;
     let pkt = pkt\<lparr>tp_vxlan := Some vxlan\<rparr>;
     if vxlan + sizeof_vxlanhdr > tp_data_end pkt then Some (XDP_ABORTED, None)
     else do {
       vni \<leftarrow> rd_vni (tp_data pkt) (vxlan + 4);
       cn_trn_process_inner_eth
         (pkt\<lparr>tp_vni := cn_trn_get_vni vni, tp_inner_eth := Some (vxlan + sizeof_vxlanhdr)\<rparr>)
     }
   }"

definition cn_trn_process_udp :: "transit_packet \<Rightarrow> cn_result" where
  "cn_trn_process_udp pkt = do {
     ip \<leftarrow> tp_ip pkt;
     let udp = ip + sizeof_iphdr;
     let pkt = pkt\<lparr>tp_udp := Some udp\<rparr>;
     if udp + sizeof_udphdr > tp_data_end pkt then Some (XDP_ABORTED, None)
     else do {
       dest \<leftarrow> rd16 (tp_data pkt) (udp + 2);
       if dest = VXL_DSTPORT then cn_trn_process_vxlan pkt else Some (XDP_PASS, None)
     }
   }"

definition cn_trn_process_ip :: "transit_packet \<Rightarrow> cn_result" where
  "cn_trn_process_ip pkt = do {
     eth \<leftarrow> tp_eth pkt;
     let ip = eth + sizeof_ethhdr;
     let pkt = pkt\<lparr>tp_ip := Some ip\<rparr>;
     if ip + sizeof_iphdr > tp_data_end pkt then Some (XDP_ABORTED, None)
     else do {
       ttl \<leftarrow> rd8 (tp_data pkt) (ip + 8);
       if ttl = 0 then Some (XDP_DROP, None)
       else do {
         protocol \<leftarrow> rd8 (tp_data pkt) (ip + 9);
         if protocol \<noteq> IPPROTO_UDP then Some (XDP_PASS, None) else cn_trn_process_udp pkt
       }
     }
   }"

definition cn_trn_process_eth :: "transit_packet \<Rightarrow> cn_result" where
  "cn_trn_process_eth pkt =
     (let eth = 0; pkt = pkt\<lparr>tp_eth := Some eth\<rparr>
      in if eth + sizeof_ethhdr > tp_data_end pkt then Some (XDP_ABORTED, None)
         else do {
           h_proto \<leftarrow> rd16 (tp_data pkt) (eth + 12);
           if h_proto \<noteq> bpf_htons ETH_P_IP then Some (XDP_PASS, None)
           else cn_trn_process_ip pkt
         })"

definition cn_transit :: "xdp_md \<Rightarrow> cn_result" where
  "cn_transit ctx =
     (let pkt = fresh_packet (ctx_data ctx) (ingress_ifindex ctx) None
      in if 0 + sizeof_ethhdr > tp_data_end pkt then Some (0, None) else cn_trn_process_eth pkt)"

section \<open>The request it builds\<close>

text \<open>
  The specification of a request: the flow reversed, the endpoint behind the trailer's host,
  a UDP/IP frame from this host to the gateway's entrance it came through.
\<close>

definition dp_ip_fields :: "bytes \<Rightarrow> bytes" where
  "dp_ip_fields i = put8 (put8 (put16 (put16 (put8 (put8 i 0 0x40) 0 0x45) 2 (bpf_htons 72)) 4
     (bpf_htons 54321)) 8 64) 9 17"

definition direct_path_request :: "bytes \<Rightarrow> u32 \<Rightarrow> nat \<Rightarrow> flow_ctx_t" where
  "direct_path_request b vni h = \<lparr>fc_len = 86,
     fc_eth = put16 (put_mac (put_mac (replicate 14 0) 0 (get_mac b 6)) 6 (get_mac b 0)) 12 (bpf_htons ETH_P_IP),
     fc_ip = ip_rewrite (dp_ip_fields (replicate 20 0)) 0 (get32 b 30) (get32 b 26),
     fc_udp = put16 (replicate 8 0) 4 (bpf_htons 52),
     fc_opcode = 0,
     fc_flow = \<lparr>fl_saddr = get32 b 80, fl_daddr = get32 b 76, fl_sport = 0, fl_dport = 0,
       fl_protocol = get8 b 73, fl_vni = trn_set_vni vni\<rparr>,
     fc_encap = \<lparr>od_dip = get32 b 76, od_dhip = get32 b (h + 6), od_dmac = get_mac b 56,
       od_dhmac = get_mac b (h + 10), od_timeout = bpf_htons TRAN_DP_FLOW_TIMEOUT, od_rsvd = 0\<rparr>\<rparr>"

lemma cn_ip_nibbles:
  "((0 :: u8) AND 0x0F) OR push_bit 4 IPVERSION = 0x40"
  "((0x40 :: u8) AND 0xF0) OR of_nat (sizeof_iphdr div 4) = 0x45"
  by simp_all

lemma bpf_htonl_0: "bpf_htonl 0 = 0"
  by (simp add: bpf_htonl_def bpf_htons_def lo8_def hi8_def lo16_def hi16_def le16_def le32_def)

lemma rd_mac_eq [mem_simps]: "p + 6 \<le> length b \<Longrightarrow> rd_mac b p = Some (get_mac b p)"
  by (simp add: rd_mac_def)

lemma cn_direct_path_eq:
  assumes "tp_ip pkt = Some 14" "tp_eth pkt = Some 0" "tp_inner_eth pkt = Some 50"
    "tp_inner_ip pkt = Some 64" "84 \<le> tp_data_end pkt" "h + 16 \<le> tp_data_end pkt"
  shows "cn_direct_path pkt h (flow_ctx_zero\<lparr>fc_flow := \<lparr>fl_saddr = get32 (tp_data pkt) 80,
      fl_daddr = get32 (tp_data pkt) 76, fl_sport = 0, fl_dport = 0,
      fl_protocol = get8 (tp_data pkt) 73, fl_vni = trn_set_vni vni\<rparr>\<rparr>)
    = Some (direct_path_request (tp_data pkt) vni h)"
proof -
  let ?d = "tp_data pkt"
  have i: "get8 (replicate 20 0) 0 = 0" "get8 (put8 (replicate 20 0) 0 0x40) 0 = (0x40 :: u8)"
    by (simp_all add: get8_def put8_def)
  have r: "rd32 ?d 76 = Some (get32 ?d 76)" "rd32 ?d (h + 6) = Some (get32 ?d (h + 6))"
    "rd_mac ?d 56 = Some (get_mac ?d 56)" "rd_mac ?d (h + 10) = Some (get_mac ?d (h + 10))"
    "rd32 ?d 30 = Some (get32 ?d 30)" "rd32 ?d 26 = Some (get32 ?d 26)"
    "rd_mac ?d 6 = Some (get_mac ?d 6)" "rd_mac ?d 0 = Some (get_mac ?d 0)"
    using assms(5,6) by (simp_all add: mem_simps)
  have csum: "trn_set_src_dst_ip_csum (dp_ip_fields (replicate 20 0)) 0 s d' 28 =
      Some (ip_rewrite (dp_ip_fields (replicate 20 0)) 0 s d')" for s d'
  proof -
    have "length (dp_ip_fields (replicate 20 0)) = 20" by (simp add: dp_ip_fields_def)
    then show ?thesis
      by (simp add: trn_set_src_dst_ip_csum_def trn_set_src_ip_def trn_set_dst_ip_def mem_simps
          ip_rewrite_def ip_rewrite_fields_def trn_ipv4_csum_inline_eq)
  qed
  have ipf: "put8 (put8 (put16 (put16 (put8 (put8 (replicate 20 0) 0 0x40) 0 0x45) 2 (bpf_htons 72)) 4
     (bpf_htons 54321)) 8 64) 9 17 = dp_ip_fields (replicate 20 0)" by (simp add: dp_ip_fields_def)
  show ?thesis
    using assms(1-4)
    by (simp add: cn_direct_path_def Let_def r step_simps mem_simps i flow_ctx_zero_def flow_zero_def
        ipf csum direct_path_request_def bpf_htonl_0)
qed

text \<open>
  When a request is queued: an unfragmented view of the packet as VXLAN over UDP with an inner
  IP packet that is not ICMP, followed, where the outer IP header says the packet ends, by a
  trailer with the signature and the packet's VNI.
\<close>

definition hints_offset :: "bytes \<Rightarrow> nat" where
  "hints_offset b = unat (bpf_ntohs (get16 b 16) AND 0xFFF) + 14"

definition hints_present :: "bytes \<Rightarrow> bool" where
  "hints_present b \<longleftrightarrow> 2 \<le> bpf_ntohs (get16 b 16) \<and> hints_offset b + 16 \<le> length b \<and>
     get16 b (hints_offset b) = hints_signature \<and> get32 b (hints_offset b + 2) = vni_at b 46"

definition dp_inner :: "bytes \<Rightarrow> bool" where
  "dp_inner b \<longleftrightarrow> 84 \<le> length b \<and> 84 + l4_size (get8 b 73) \<le> length b \<and>
     get8 b 73 \<noteq> IPPROTO_ICMP \<and> hints_present b"

definition dp_trigger :: "bytes \<Rightarrow> bool" where
  "dp_trigger b \<longleftrightarrow> get16 b 12 = bpf_htons ETH_P_IP \<and> get8 b 22 \<noteq> 0 \<and> get8 b 23 = IPPROTO_UDP \<and>
     get16 b 36 = VXL_DSTPORT \<and> get16 b 62 = bpf_htons ETH_P_IP \<and> dp_inner b"

definition dp_outcome :: "bytes \<Rightarrow> bool \<Rightarrow> cn_result \<Rightarrow> bool" where
  "dp_outcome b c r \<longleftrightarrow> (\<exists>a. a \<in> {XDP_ABORTED, XDP_DROP, XDP_PASS} \<and>
     r = Some (a, if c then Some (direct_path_request b (vni_at b 46) (hints_offset b)) else None))"

lemma dp_outcome_None: "\<not> c \<Longrightarrow> a \<in> {0, 1, 2} \<Longrightarrow> dp_outcome b c (Some (a, None))"
  by (auto simp: dp_outcome_def)

lemma cn_trn_process_inner_ip_result:
  assumes "tp_ip pkt = Some 14" "tp_eth pkt = Some 0" "tp_inner_eth pkt = Some 50"
    "tp_vni pkt = vni_at (tp_data pkt) 46"
  shows "dp_outcome (tp_data pkt) (dp_inner (tp_data pkt)) (cn_trn_process_inner_ip pkt)"
proof (cases "dp_inner (tp_data pkt)")
  case True
  let ?d = "tp_data pkt" and ?q = "pkt\<lparr>tp_inner_ip := Some 64\<rparr>"
  have "cn_direct_path ?q (hints_offset ?d) (flow_ctx_zero\<lparr>fc_flow := \<lparr>fl_saddr = get32 ?d 80,
      fl_daddr = get32 ?d 76, fl_sport = 0, fl_dport = 0, fl_protocol = get8 ?d 73,
      fl_vni = trn_set_vni (vni_at ?d 46)\<rparr>\<rparr>) = Some (direct_path_request ?d (vni_at ?d 46) (hints_offset ?d))"
    using cn_direct_path_eq [of ?q "hints_offset ?d" "vni_at ?d 46"] assms True
    by (simp add: dp_inner_def hints_present_def)
  moreover have "30 + unat (bpf_ntohs (get16 ?d 16) AND 4095) \<le> tp_data_end pkt"
    using True by (simp add: dp_inner_def hints_present_def hints_offset_def)
  ultimately have "cn_trn_process_inner_ip pkt =
      Some (XDP_PASS, Some (direct_path_request ?d (vni_at ?d 46) (hints_offset ?d)))"
    using assms True
    by (cases "get8 ?d 73 = 6"; cases "get8 ?d 73 = 17")
      (simp_all add: cn_trn_process_inner_ip_def Let_def mem_simps dp_inner_def hints_present_def
        l4_size_def flow_zero_def step_simps not_less flip: hints_offset_def)
  then show ?thesis using True by (simp add: dp_outcome_def)
next
  case False
  let ?d = "tp_data pkt"
  have "\<exists>a\<in>{0, 1, 2}. cn_trn_process_inner_ip pkt = Some (a, None)"
  proof (cases "84 \<le> tp_data_end pkt \<and> 84 + l4_size (get8 ?d 73) \<le> tp_data_end pkt")
    case True
    then show ?thesis
      using assms False
      by (cases "get8 ?d 73 = 6"; cases "get8 ?d 73 = 17")
        (auto simp: cn_trn_process_inner_ip_def Let_def mem_simps dp_inner_def hints_present_def
          l4_size_def hints_offset_def not_less)
  next
    case False
    then show ?thesis
      using assms
      by (cases "84 \<le> tp_data_end pkt")
        (auto simp: cn_trn_process_inner_ip_def Let_def mem_simps l4_size_def split: if_splits)
  qed
  then show ?thesis using False by (auto simp: dp_outcome_def)
qed

lemma cn_trn_process_vxlan_result:
  assumes "tp_ip pkt = Some 14" "tp_eth pkt = Some 0" "tp_udp pkt = Some 34"
  shows "dp_outcome (tp_data pkt) (get16 (tp_data pkt) 62 = bpf_htons ETH_P_IP \<and> dp_inner (tp_data pkt))
    (cn_trn_process_vxlan pkt)"
proof -
  let ?d = "tp_data pkt"
  let ?q = "pkt\<lparr>tp_vxlan := Some 42, tp_vni := vni_at ?d 46, tp_inner_eth := Some 50\<rparr>"
  show ?thesis
  proof (cases "64 \<le> tp_data_end pkt \<and> get16 ?d 62 = bpf_htons ETH_P_IP")
    case True
    then have "cn_trn_process_vxlan pkt = cn_trn_process_inner_ip ?q"
      using assms by (simp add: cn_trn_process_vxlan_def cn_trn_process_inner_eth_def Let_def
          mem_simps step_simps vni_at_def)
    then show ?thesis
      using cn_trn_process_inner_ip_result [of ?q] assms True by simp
  next
    case False
    then have "\<not> (get16 ?d 62 = bpf_htons ETH_P_IP \<and> dp_inner ?d)" by (auto simp: dp_inner_def)
    then show ?thesis using False assms
      by (cases "50 \<le> tp_data_end pkt")
        (auto simp: cn_trn_process_vxlan_def cn_trn_process_inner_eth_def Let_def mem_simps
          step_simps intro!: dp_outcome_None)
  qed
qed

lemma cn_transit_result:
  "dp_outcome (ctx_data ctx) (dp_trigger (ctx_data ctx)) (cn_transit ctx)"
proof -
  let ?d = "ctx_data ctx"
  let ?q = "(fresh_packet ?d (ingress_ifindex ctx) None)\<lparr>tp_eth := Some 0, tp_ip := Some 14, tp_udp := Some 34\<rparr>"
  let ?outer = "get16 ?d 12 = bpf_htons ETH_P_IP \<and> get8 ?d 22 \<noteq> 0 \<and> get8 ?d 23 = IPPROTO_UDP \<and>
     get16 ?d 36 = VXL_DSTPORT"
  show ?thesis
  proof (cases "42 \<le> length ?d \<and> ?outer")
    case True
    then have "cn_transit ctx = cn_trn_process_vxlan ?q"
      by (simp add: cn_transit_def cn_trn_process_eth_def cn_trn_process_ip_def
          cn_trn_process_udp_def Let_def mem_simps fresh_packet_def)
    moreover have "tp_data ?q = ?d" by (simp add: fresh_packet_def)
    ultimately show ?thesis
      using cn_trn_process_vxlan_result [of ?q] True by (simp add: dp_trigger_def)
  next
    case False
    then have "\<not> dp_trigger ?d" by (auto simp: dp_trigger_def dp_inner_def)
    then show ?thesis using False
      by (cases "14 \<le> length ?d"; cases "34 \<le> length ?d"; cases "42 \<le> length ?d")
        (auto simp: cn_transit_def cn_trn_process_eth_def cn_trn_process_ip_def
          cn_trn_process_udp_def Let_def mem_simps fresh_packet_def intro!: dp_outcome_None)
  qed
qed

end
