(* ===== verification/Arion_CnUsr.thy ===== *)
theory Arion_CnUsr
  imports Arion_Cn
begin

text \<open>
  The user-space half of the compute node (\<open>src/cn/cn_dpnd/cn_dpnd_usr.c\<close>): loading the XDP
  program, checking the queue map it brings, and the assistant loop that takes queued
  direct-path requests off the map and sends them. libbpf, the command-line parser of
  \<open>../common\<close> (not part of the repository) and the kernel are the record \<open>cn_sys\<close>. The
  endless loop of the assistant is a step function; a run is a fold over what the map gave.
\<close>

section \<open>Finding and checking the queue map\<close>

record bpf_map_info =
  mi_type :: nat
  mi_key_size :: nat
  mi_value_size :: nat
  mi_max_entries :: nat

datatype exit_code = Exit_ok | Exit_fail | Exit_fail_option | Exit_fail_bpf | Exit_with int

record cn_config =
  cfg_ifindex :: int
  cfg_do_unload :: bool

record 'obj cn_sys =
  sys_args :: cn_config
  sys_link_detach :: "int \<Rightarrow> int"
  sys_load_attach :: "cn_config \<Rightarrow> 'obj option"
  sys_map_fd_by_name :: "'obj \<Rightarrow> string \<Rightarrow> int option"
  sys_map_info :: "int \<Rightarrow> bpf_map_info option"

definition find_map_fd :: "'obj cn_sys \<Rightarrow> 'obj \<Rightarrow> string \<Rightarrow> int" where
  "find_map_fd S bpf_obj mapname =
     (case sys_map_fd_by_name S bpf_obj mapname of None \<Rightarrow> - 1 | Some fd \<Rightarrow> fd)"

text \<open>A zero in the expectation means that the field is not checked.\<close>

definition check_map_fd_info :: "'obj cn_sys \<Rightarrow> int \<Rightarrow> bpf_map_info \<Rightarrow> exit_code" where
  "check_map_fd_info S map_fd expected =
     (if map_fd < 0 then Exit_fail
      else case sys_map_info S map_fd of
             None \<Rightarrow> Exit_fail_bpf
           | Some info \<Rightarrow>
               if mi_key_size expected \<noteq> 0 \<and> mi_key_size expected \<noteq> mi_key_size info then Exit_fail
               else if mi_value_size expected \<noteq> 0 \<and> mi_value_size expected \<noteq> mi_value_size info then Exit_fail
               else if mi_max_entries expected \<noteq> 0 \<and> mi_max_entries expected \<noteq> mi_max_entries info then Exit_fail
               else if mi_type expected \<noteq> 0 \<and> mi_type expected \<noteq> mi_type info then Exit_fail
               else Exit_ok)"

section \<open>The assistant\<close>

text \<open>The memory of a \<open>flow_ctx_t\<close>: packed, 88 bytes, the opcode at offset 44.\<close>

definition ipv4_flow_bytes :: "ipv4_flow_t \<Rightarrow> bytes" where
  "ipv4_flow_bytes f = bytes32 (fl_saddr f) @ bytes32 (fl_daddr f) @ bytes16 (fl_sport f)
     @ bytes16 (fl_dport f) @ [fl_protocol f] @ (case fl_vni f of (a, b, c) \<Rightarrow> [a, b, c])"

definition dp_encap_bytes :: "dp_encap_opdata_t \<Rightarrow> bytes" where
  "dp_encap_bytes e = bytes32 (od_dip e) @ bytes32 (od_dhip e) @ mac_bytes (od_dmac e)
     @ mac_bytes (od_dhmac e) @ bytes16 (od_timeout e) @ bytes16 (od_rsvd e)"

definition flow_ctx_bytes :: "flow_ctx_t \<Rightarrow> bytes" where
  "flow_ctx_bytes c = bytes16 (fc_len c) @ fc_eth c @ fc_ip c @ fc_udp c @ bytes32 (fc_opcode c)
     @ ipv4_flow_bytes (fc_flow c) @ dp_encap_bytes (fc_encap c)"

definition flow_ctx_ok :: "flow_ctx_t \<Rightarrow> bool" where
  "flow_ctx_ok c \<longleftrightarrow> length (fc_eth c) = 14 \<and> length (fc_ip c) = 20 \<and> length (fc_udp c) = 8"

lemma length_flow_ctx_bytes: "flow_ctx_ok c \<Longrightarrow> length (flow_ctx_bytes c) = 88"
  by (cases "fl_vni (fc_flow c)")
    (simp add: flow_ctx_ok_def flow_ctx_bytes_def ipv4_flow_bytes_def dp_encap_bytes_def)

definition mem_read :: "bytes \<Rightarrow> nat \<Rightarrow> nat \<Rightarrow> bytes option" where
  "mem_read b p n = (if p + n \<le> length b then Some (take n (drop p b)) else None)"

text \<open>\<open>inet_addr\<close> of a dotted quad.\<close>

definition inet_quad :: "u8 \<Rightarrow> u8 \<Rightarrow> u8 \<Rightarrow> u8 \<Rightarrow> u32" where
  "inet_quad a b c d = le32 (le16 a b) (le16 c d)"

text \<open>
  What an iteration writes to \<open>sendbuf\<close> before it asks the map: the test message. \<open>memcpy\<close>
  takes the first six characters of the strings.
\<close>

definition assistant_template :: "flow_ctx_t \<Rightarrow> dp_encap_opdata_t \<Rightarrow> flow_ctx_t option" where
  "assistant_template sendbuf opdata = do {
     let src_mac = MAC 108 221 238 0 0 44;
     let dst_mac = MAC 108 221 238 0 0 45;
     e \<leftarrow> trn_set_mac (fc_eth sendbuf) 0 (MAC 48 48 58 48 48 58);
     e \<leftarrow> trn_set_mac e 6 (MAC 48 48 58 48 48 58);
     e \<leftarrow> wr16 e 12 (bpf_htons ETH_P_IP);
     let opdata = opdata\<lparr>od_dhip := inet_quad 172 16 17 74, od_dhmac := src_mac,
           od_dip := inet_quad 123 0 0 45, od_dmac := dst_mac\<rparr>;
     let flow = \<lparr>fl_saddr = inet_quad 123 0 0 44, fl_daddr = inet_quad 123 0 0 45, fl_sport = 0,
           fl_dport = 0, fl_protocol = IPPROTO_TCP,
           fl_vni = (ucast (drop_bit 16 (888 :: u32)), ucast (drop_bit 8 (888 :: u32)), ucast (888 :: u32))\<rparr>;
     Some (sendbuf\<lparr>fc_eth := e, fc_opcode := 0,
       fc_len := of_nat (4 + sizeof_ipv4_flow + sizeof_dp_encap_opdata),
       fc_encap := opdata, fc_flow := flow\<rparr>)
   }"

text \<open>
  One iteration: \<open>taken\<close> is what \<open>bpf_map_lookup_and_delete_elem\<close> stored (\<open>None\<close>: it failed, the
  queue is empty). The result is the buffer and the datagram sent, if one is; it is \<open>None\<close> when
  \<open>sendto\<close> is given memory outside \<open>sendbuf\<close>.
\<close>

definition assistant_step ::
  "bool \<Rightarrow> dp_encap_opdata_t \<Rightarrow> flow_ctx_t option \<Rightarrow> flow_ctx_t \<Rightarrow> (flow_ctx_t \<times> bytes option) option" where
  "assistant_step ckmap opdata taken sendbuf = do {
     sendbuf \<leftarrow> assistant_template sendbuf opdata;
     let rc = (if ckmap \<and> taken = None then - 1 else (0 :: int));
     let sendbuf = (if ckmap then (case taken of Some c \<Rightarrow> c | None \<Rightarrow> sendbuf) else sendbuf);
     if rc \<noteq> 0 then Some (sendbuf, None)
     else do {
       payload \<leftarrow> mem_read (flow_ctx_bytes sendbuf) 44 (unat (fc_len sendbuf));
       Some (sendbuf, Some payload)
     }
   }"

primrec assistant_run ::
  "bool \<Rightarrow> dp_encap_opdata_t \<Rightarrow> flow_ctx_t option list \<Rightarrow> flow_ctx_t \<Rightarrow> bytes list option" where
  "assistant_run ckmap opdata [] sendbuf = Some []"
| "assistant_run ckmap opdata (t # ts) sendbuf = do {
     (sendbuf, out) \<leftarrow> assistant_step ckmap opdata t sendbuf;
     rest \<leftarrow> assistant_run ckmap opdata ts sendbuf;
     Some ((case out of Some p \<Rightarrow> p # rest | None \<Rightarrow> rest))
   }"

text \<open>\<open>cn_dp_assistant\<close> up to its loop: \<open>None\<close> says that the loop is entered.\<close>

definition cn_dp_assistant :: "int \<Rightarrow> int \<Rightarrow> exit_code option" where
  "cn_dp_assistant handle sockfd =
     (if handle < 0 then Some (Exit_with (- 1))
      else if sockfd < 0 then Some (Exit_with 1)
      else None)"

section \<open>The main program\<close>

definition map_expect :: bpf_map_info where
  "map_expect = \<lparr>mi_type = 0, mi_key_size = 0, mi_value_size = 88, mi_max_entries = CN_LOCAL_QUEUE_LEN\<rparr>"

text \<open>
  The exit code, \<open>Inr\<close> for the map handle the assistant loop runs on, and the interfaces the
  program was detached from on the way.
\<close>

definition cn_main :: "'obj cn_sys \<Rightarrow> int \<Rightarrow> (exit_code + int) \<times> int list" where
  "cn_main S sockfd =
     (let cfg = sys_args S
      in if cfg_ifindex cfg = - 1 then (Inl Exit_fail_option, [])
         else if cfg_do_unload cfg
         then (Inl (Exit_with (sys_link_detach S (cfg_ifindex cfg))), [cfg_ifindex cfg])
         else case sys_load_attach S cfg of
                None \<Rightarrow> (Inl Exit_fail_bpf, [])
              | Some bpf_obj \<Rightarrow>
                  let oam_map_fd = find_map_fd S bpf_obj ''local_queue_map''
                  in if oam_map_fd < 0 then (Inl Exit_fail_bpf, [cfg_ifindex cfg])
                     else let err = check_map_fd_info S oam_map_fd map_expect
                       in if err \<noteq> Exit_ok then (Inl err, [])
                          else case cn_dp_assistant oam_map_fd sockfd of
                                 Some _ \<Rightarrow> (Inl (Exit_with 1), [])
                               | None \<Rightarrow> (Inr oam_map_fd, []))"

section \<open>Properties of the compute node\<close>

definition demo_dp_packet :: bytes where
  "demo_dp_packet = demo_outer @ [0,0,0,0,0,0, 2,0,0,0,0,4, 8,0,
     0x45,0, 0,28, 0,0, 0,0, 64, 17, 0,0, 192,168,0,2, 192,168,0,3, 0,7,0,8,0,0,0,0,
     0x54, 0x53, 7,0,0,0, 10,0,0,2, 2,0,0,0,0,2]"

lemma demo_dp_trigger: "dp_trigger demo_dp_packet" and demo_dp_offset: "hints_offset demo_dp_packet = 92"
proof -
  have len: "length demo_dp_packet = 108"
    by (simp add: demo_dp_packet_def demo_outer_def)
  show off: "hints_offset demo_dp_packet = 92"
    by (simp add: hints_offset_def demo_dp_packet_def demo_outer_def get16_def bpf_ntohs_def lo8_def
        hi8_def le16_def)
  have "get16 demo_dp_packet 92 = hints_signature" "get32 demo_dp_packet 94 = vni_at demo_dp_packet 46"
    "2 \<le> bpf_ntohs (get16 demo_dp_packet 16)"
    by (simp_all add: demo_dp_packet_def demo_outer_def get16_def get32_def get8_def hints_signature_def
        bpf_ntohs_def lo8_def hi8_def le16_def le32_def vni_at_def trn_get_vni_def)
  then have "hints_present demo_dp_packet" by (simp add: hints_present_def off len)
  moreover have "get8 demo_dp_packet 73 = 17" "get16 demo_dp_packet 12 = bpf_htons ETH_P_IP"
    "get8 demo_dp_packet 22 = 64" "get8 demo_dp_packet 23 = 17" "get16 demo_dp_packet 36 = VXL_DSTPORT"
    "get16 demo_dp_packet 62 = bpf_htons ETH_P_IP"
    by (simp_all add: demo_dp_packet_def demo_outer_def get16_def get8_def VXL_DSTPORT_def
        bpf_htons_def lo8_def hi8_def le16_def)
  ultimately show "dp_trigger demo_dp_packet"
    by (simp add: dp_trigger_def dp_inner_def l4_size_def len)
qed

text \<open>
  C28: the compute node's program is memory safe on every packet, never asks for a packet to be
  transmitted, and queues a direct-path request exactly for the packets that carry a valid
  trailer; the request is the one the specification \<open>direct_path_request\<close> describes.
\<close>

theorem cn_transit_queues_request:
  "\<exists>a \<in> {XDP_ABORTED, XDP_DROP, XDP_PASS}. cn_transit ctx =
     Some (a, if dp_trigger (ctx_data ctx)
       then Some (direct_path_request (ctx_data ctx) (vni_at (ctx_data ctx) 46) (hints_offset (ctx_data ctx)))
       else None)"
  using cn_transit_result [of ctx] by (auto simp: dp_outcome_def)

text \<open>
  The frame template of a queued request is well formed: the IP checksum verifies, TTL 63,
  addressed from the gateway entrance's packet back to its sender, with lengths that add up.
\<close>

theorem direct_path_request_frame:
  "ipv4_csum_ok (fc_ip (direct_path_request b vni h)) 0 \<and>
   get8 (fc_ip (direct_path_request b vni h)) 8 = 63 \<and>
   get32 (fc_ip (direct_path_request b vni h)) 12 = get32 b 30 \<and>
   get32 (fc_ip (direct_path_request b vni h)) 16 = get32 b 26 \<and>
   get_mac (fc_eth (direct_path_request b vni h)) 0 = get_mac b 6 \<and>
   get_mac (fc_eth (direct_path_request b vni h)) 6 = get_mac b 0 \<and>
   unat (bpf_ntohs (get16 (fc_ip (direct_path_request b vni h)) 2)) = 20 + 52 \<and>
   bpf_ntohs (get16 (fc_udp (direct_path_request b vni h)) 4) = 52 \<and>
   fc_len (direct_path_request b vni h) = 14 + 20 + 52"
proof -
  let ?i = "dp_ip_fields (replicate 20 0)"
  have len: "length ?i = 20" by (simp add: dp_ip_fields_def)
  have f: "get8 ?i 8 = 64" "get16 ?i 2 = bpf_htons 72" by (simp_all add: dp_ip_fields_def mem_simps)
  show ?thesis
    using ip_rewrite_csum_ok [of 0 ?i] ip_rewrite_fields(1,2,3) [of 0 ?i] ip_rewrite_fields(5) [of 0 ?i 1] len f
    by (simp add: direct_path_request_def mem_simps)
qed

lemma flow_ctx_ok_request: "flow_ctx_ok (direct_path_request b vni h)"
  by (simp add: flow_ctx_ok_def direct_path_request_def dp_ip_fields_def)

text \<open>A packet in whose trailer a compute node is interested: VXLAN, with an inner packet that is not ICMP.\<close>

definition dp_overlay :: "bytes \<Rightarrow> bool" where
  "dp_overlay b \<longleftrightarrow> get16 b 12 = bpf_htons ETH_P_IP \<and> get8 b 22 \<noteq> 0 \<and> get8 b 23 = IPPROTO_UDP \<and>
     get16 b 36 = VXL_DSTPORT \<and> get16 b 62 = bpf_htons ETH_P_IP \<and> get8 b 73 \<noteq> IPPROTO_ICMP \<and>
     84 + l4_size (get8 b 73) \<le> hints_offset b"

lemma append_hints_bytes:
  assumes "trn_append_hints pkt tip = Some (None, pkt')"
    "tp_ip pkt = Some 14" "tp_eth pkt = Some 0" "84 \<le> hints_offset (tp_data pkt)"
  shows "tp_data pkt' = (let d = tp_data pkt; h = hints_offset d in
      put8 (put8 (put8 (put8 (put8 (put8 (put16 (put32 (put32 d (h + 2) (tp_vni pkt))
      (h + 6) tip) h 0x5354) (h + 10) (get8 d 6)) (h + 11) (get8 d 7)) (h + 12) (get8 d 8))
      (h + 13) (get8 d 9)) (h + 14) (get8 d 10)) (h + 15) (get8 d 11))"
    "hints_offset (tp_data pkt) + 16 \<le> length (tp_data pkt)" "2 \<le> bpf_ntohs (get16 (tp_data pkt) 16)"
proof -
  let ?d = "tp_data pkt" and ?h = "hints_offset (tp_data pkt)"
  have l18: "18 \<le> length ?d"
    using assms(1-3) by (auto simp: trn_append_hints_def rd16_def bind_eq_Some_conv split: if_splits)
  have big: "\<not> bpf_ntohs (get16 ?d 16) < 2"
    using assms(1-3) l18 by (auto simp: trn_append_hints_def mem_simps)
  have fit: "?h + 16 \<le> length ?d"
    using assms(1-3) l18 big
    by (auto simp: trn_append_hints_def mem_simps hints_offset_def Let_def split: if_splits)
  show "tp_data pkt' = (let d = tp_data pkt; h = hints_offset d in
      put8 (put8 (put8 (put8 (put8 (put8 (put16 (put32 (put32 d (h + 2) (tp_vni pkt))
      (h + 6) tip) h 0x5354) (h + 10) (get8 d 6)) (h + 11) (get8 d 7)) (h + 12) (get8 d 8))
      (h + 13) (get8 d 9)) (h + 14) (get8 d 10)) (h + 15) (get8 d 11))"
    using assms l18 big fit
    by (auto simp: trn_append_hints_def mem_simps hints_offset_def Let_def add.commute split: if_splits)
  show "?h + 16 \<le> length ?d" "2 \<le> bpf_ntohs (get16 ?d 16)" using fit big by (simp_all add: not_less)
qed

lemma append_hints_keeps:
  assumes "trn_append_hints pkt tip = Some (None, pkt')"
    "tp_ip pkt = Some 14" "tp_eth pkt = Some 0" "84 \<le> hints_offset (tp_data pkt)" and j: "j < 84"
  shows "get8 (tp_data pkt') j = get8 (tp_data pkt) j" "j + 2 \<le> 84 \<Longrightarrow> get16 (tp_data pkt') j = get16 (tp_data pkt) j"
    "j + 4 \<le> 84 \<Longrightarrow> get32 (tp_data pkt') j = get32 (tp_data pkt) j"
    "j + 6 \<le> 84 \<Longrightarrow> get_mac (tp_data pkt') j = get_mac (tp_data pkt) j"
    "length (tp_data pkt') = length (tp_data pkt)"
  using append_hints_bytes(1) [OF assms(1-4)] assms(4) j by (simp_all add: Let_def mem_simps)


definition demo_hints_packet :: transit_packet where
  "demo_hints_packet = (fresh_packet demo_dp_packet 3 None)\<lparr>tp_ip := Some 14, tp_eth := Some 0, tp_vni := 7\<rparr>"

lemma demo_dp_fields: "vni_at demo_dp_packet 46 = 7" "length demo_dp_packet = 108"
  "get16 demo_dp_packet 16 = bpf_htons 78"
  by (simp_all add: demo_dp_packet_def demo_outer_def vni_at_def trn_get_vni_def get8_def get16_def
      bpf_htons_def lo8_def hi8_def)

lemma demo_append: "\<exists>q. trn_append_hints demo_hints_packet 9 = Some (None, q)"
  by (simp add: trn_append_hints_def demo_hints_packet_def fresh_packet_def mem_simps demo_dp_fields)

lemma demo_dp_overlay: "dp_overlay demo_dp_packet"
proof -
  have "get8 demo_dp_packet 73 = 17" by (simp add: demo_dp_packet_def demo_outer_def get8_def)
  then show ?thesis
    using demo_dp_trigger demo_dp_offset by (simp add: dp_trigger_def dp_inner_def dp_overlay_def l4_size_def)
qed


text \<open>
  C40: the assistant can never send a queued request in bounds. The program stores the whole
  frame's length (86) in the request, and the assistant sends that many bytes starting at the
  opcode, where only 44 remain: \<open>sendto\<close> is handed memory past the end of the buffer.
\<close>

theorem assistant_overreads_queued_request:
  assumes "cn_transit ctx = Some (a, Some r)" "flow_ctx_ok sendbuf"
  shows "assistant_step True opdata (Some r) sendbuf = None"
proof -
  have r: "r = direct_path_request (ctx_data ctx) (vni_at (ctx_data ctx) 46) (hints_offset (ctx_data ctx))"
    using cn_transit_result [of ctx] assms(1) by (auto simp: dp_outcome_def split: if_splits)
  have "fc_len r = 86" "length (flow_ctx_bytes r) = 88"
    unfolding r using length_flow_ctx_bytes [OF flow_ctx_ok_request]
    by (simp_all add: direct_path_request_def)
  then have "mem_read (flow_ctx_bytes r) 44 (unat (fc_len r)) = None" by (simp add: mem_read_def)
  then show ?thesis by (cases "assistant_template sendbuf opdata") (simp_all add: assistant_step_def Let_def)
qed

theorem assistant_overreads_queued_request_witness:
  "\<exists>a r. cn_transit (demo_ctx demo_dp_packet) = Some (a, Some r) \<and>
     assistant_step True (fc_encap flow_ctx_zero) (Some r) flow_ctx_zero = None"
proof -
  obtain a r where t: "cn_transit (demo_ctx demo_dp_packet) = Some (a, Some r)"
    using cn_transit_result [of "demo_ctx demo_dp_packet"] demo_dp_trigger
    by (auto simp: dp_outcome_def demo_ctx_def)
  have "flow_ctx_ok flow_ctx_zero" by (simp add: flow_ctx_ok_def flow_ctx_zero_def)
  from assistant_overreads_queued_request [OF t this] t show ?thesis by blast
qed

lemma assistant_template_eq:
  assumes "flow_ctx_ok sendbuf"
  obtains c where "assistant_template sendbuf opdata = Some c" "flow_ctx_ok c" "fc_len c = 44"
  using assms that by (simp add: assistant_template_def flow_ctx_ok_def step_simps mem_simps)

text \<open>
  Without the map check the assistant sends, in every iteration, its 44-byte test message
  (opcode, flow and encapsulation data), in bounds, forever.
\<close>

theorem assistant_test_mode_sends:
  assumes "flow_ctx_ok sendbuf"
  shows "\<exists>ps. assistant_run False opdata ts sendbuf = Some ps \<and> length ps = length ts \<and> (\<forall>p\<in>set ps. length p = 44)"
  using assms
proof (induction ts arbitrary: sendbuf)
  case (Cons t ts)
  obtain c where c: "assistant_template sendbuf opdata = Some c" "flow_ctx_ok c" "fc_len c = 44"
    using assistant_template_eq [OF Cons.prems] by blast
  have "length (flow_ctx_bytes c) = 88" using length_flow_ctx_bytes c(2) .
  then have "\<exists>p. assistant_step False opdata t sendbuf = Some (c, Some p) \<and> length p = 44"
    using c by (simp add: assistant_step_def mem_read_def)
  then obtain p where "assistant_step False opdata t sendbuf = Some (c, Some p)" "length p = 44" by blast
  with Cons.IH [OF c(2)] show ?case by auto
qed simp

theorem assistant_test_mode_sends_witness:
  "\<exists>ps. assistant_run False (fc_encap flow_ctx_zero) [None, None] flow_ctx_zero = Some ps \<and>
     length ps = 2 \<and> (\<forall>p\<in>set ps. length p = 44)"
  using assistant_test_mode_sends [of flow_ctx_zero "fc_encap flow_ctx_zero" "[None, None]"]
  by (simp add: flow_ctx_ok_def flow_ctx_zero_def eval_nat_numeral)

text \<open>
  The assistant loop is entered only on a usable queue: the program was loaded on the
  configured interface, its object holds \<open>local_queue_map\<close>, and the kernel reports for it the
  value size of a request and the 1024 entries the program declares.
\<close>

theorem cn_main_enters_loop:
  assumes "cn_main S sockfd = (Inr fd, dets)"
  shows "\<exists>obj info. sys_load_attach S (sys_args S) = Some obj \<and>
    sys_map_fd_by_name S obj ''local_queue_map'' = Some fd \<and> 0 \<le> fd \<and> 0 \<le> sockfd \<and>
    sys_map_info S fd = Some info \<and> mi_value_size info = 88 \<and> mi_max_entries info = 1024 \<and> dets = []"
  using assms
  by (auto simp: cn_main_def find_map_fd_def check_map_fd_info_def cn_dp_assistant_def map_expect_def
      CN_LOCAL_QUEUE_LEN_def Let_def split: if_splits option.splits)

definition demo_sys :: "unit cn_sys" where
  "demo_sys = \<lparr>sys_args = \<lparr>cfg_ifindex = 3, cfg_do_unload = False\<rparr>, sys_link_detach = (\<lambda>_. 0),
     sys_load_attach = (\<lambda>_. Some ()), sys_map_fd_by_name = (\<lambda>_ _. Some 5),
     sys_map_info = (\<lambda>_. Some \<lparr>mi_type = 22, mi_key_size = 0, mi_value_size = 88, mi_max_entries = 1024\<rparr>)\<rparr>"

theorem cn_main_enters_loop_witness:
  "cn_main demo_sys 4 = (Inr 5, []) \<and> (\<exists>info. sys_map_info demo_sys 5 = Some info \<and> mi_value_size info = 88)"
proof -
  have "cn_main demo_sys 4 = (Inr 5, [])"
    by (simp add: cn_main_def demo_sys_def find_map_fd_def check_map_fd_info_def cn_dp_assistant_def
        map_expect_def CN_LOCAL_QUEUE_LEN_def)
  with cn_main_enters_loop [OF this] show ?thesis by blast
qed

end
