(* ===== verification/Arion_Csum_Props.thy ===== *)
theory Arion_Csum_Props
  imports Arion_Kern
begin

text \<open>
  What the checksum and header helpers of \<open>trn_kern.h\<close> guarantee on their own: folding, the
  recomputed IP checksum, the incremental updates of transport checksums, and the overlay
  network identifier.
\<close>

section \<open>Folding and the IP header\<close>

text \<open>
  Folding is exact for every 64-bit sum: the four unrolled rounds give the complement of
  the one's-complement residue, so no carry is ever left.
\<close>

theorem trn_csum_fold_helper_exact:
  "unat (trn_csum_fold_helper c) = 65535 - ones_fold (unat c) \<and> ones_fold (unat c) \<le> 65535 \<and>
   ones_fold (unat c) mod 65535 = unat c mod 65535 \<and> (ones_fold (unat c) = 0 \<longleftrightarrow> c = 0)"
proof -
  have "ones_fold (unat c) = 0 \<longleftrightarrow> unat c = 0" by (simp add: ones_fold_def)
  then show ?thesis by (simp add: unat_fold_helper ones_fold_le ones_fold_cong unat_eq_0)
qed

text \<open>
  C39: re-addressing an IP header that lies inside the packet stays inside it, replaces exactly
  the two addresses, decrements the TTL, keeps the packet's length, and leaves a header whose
  checksum the receiver accepts, whatever the old checksum was.
\<close>

theorem trn_set_src_dst_ip_csum_correct:
  assumes "ip + sizeof_iphdr \<le> length b"
  shows "\<exists>b'. trn_set_src_dst_ip_csum b ip saddr daddr (length b) = Some b' \<and>
    ipv4_csum_ok b' ip \<and> length b' = length b \<and>
    get32 b' (ip + 12) = saddr \<and> get32 b' (ip + 16) = daddr \<and>
    get8 b' (ip + 8) = get8 b (ip + 8) - 1 \<and> get8 b' (ip + 9) = get8 b (ip + 9) \<and>
    (\<forall>k<4. get16 b' (ip + 2 * k) = get16 b (ip + 2 * k)) \<and>
    (\<forall>j. j < ip \<or> ip + 20 \<le> j \<longrightarrow> get8 b' j = get8 b j)"
  using assms
  by (intro exI [of _ "ip_rewrite b ip saddr daddr"])
    (simp add: step_simps ip_rewrite_csum_ok ip_rewrite_fields ip_rewrite_other)

theorem trn_set_src_dst_ip_csum_correct_witness:
  "\<exists>b'. trn_set_src_dst_ip_csum (replicate 20 7) 0 1 2 20 = Some b' \<and> ipv4_csum_ok b' 0 \<and> get32 b' 16 = 2"
proof -
  from trn_set_src_dst_ip_csum_correct [of 0 "replicate 20 7" 1 2]
  obtain b' where "trn_set_src_dst_ip_csum (replicate 20 7) 0 1 2 (length (replicate 20 (7 :: u8))) = Some b'"
    "ipv4_csum_ok b' 0" "get32 b' (0 + 16) = 2" by auto
  then show ?thesis by (intro exI [of _ b']) simp
qed

text \<open>
  The guard of the address setters is too weak. It compares the start of the field with
  the end of the packet, so it lets a four-byte store through that ends up to four bytes
  outside.
\<close>

theorem trn_set_src_ip_guard_gap:
  assumes "length b < data + 16" "data + 12 \<le> length b"
  shows "trn_set_src_ip b data (length b) saddr = None"
  using assms by (simp add: trn_set_src_ip_def wr32_def)

theorem trn_set_src_ip_guard_gap_witness: "trn_set_src_ip (replicate 12 0) 0 12 5 = None"
  using trn_set_src_ip_guard_gap [of "replicate 12 0" 0 5] by simp

section \<open>Transport checksums\<close>

text \<open>
  The incremental update for a changed address keeps the checked sum: new checksum plus
  new address is congruent to old checksum plus old address, for every 16-bit checksum.
\<close>

theorem trn_update_l4_csum_preserves_sum:
  "(unat (trn_update_l4_csum (ucast (check :: u16)) old_addr new_addr) + unat new_addr) mod 65535
   = (unat check + unat old_addr) mod 65535"
proof -
  have "unat (ucast check :: u64) mod 65536 = unat check" using unat_lt(2) [of check] by simp
  then show ?thesis using trn_update_l4_csum_cong [of "ucast check" old_addr new_addr] by simp
qed

text \<open>The stored value after a port change, \<open>cs - bpf_htons(256)\<close>: one less than the update's.\<close>

lemma bpf_htons_256: "bpf_htons 256 = 1"
  by (simp add: bpf_htons_def hi8_def lo8_def le16_def)

lemma unat_ucast_pred:
  assumes "cs \<noteq> 0" "unat (cs :: u64) \<le> 65535"
  shows "unat (ucast (cs - 1) :: u16) = unat cs - 1"
proof -
  have "1 \<le> cs" using assms(1) by (metis word_le_nat_alt unat_1 unat_eq_0 less_one not_le)
  then have "unat (cs - 1) = unat cs - 1" by (simp add: unat_sub)
  then show ?thesis using assms(2) by (simp add: unsigned_ucast_eq take_bit_eq_mod)
qed

lemma ones_complement_cong:
  assumes "(N + m) mod 65535 = k mod 65535"
  shows "(65535 - ones_fold N + k) mod 65535 = m mod 65535"
proof -
  have "(65535 - ones_fold N + (N + m)) mod 65535 = ((65535 - ones_fold N + N) mod 65535 + m) mod 65535"
    by (simp add: mod_add_left_eq add.assoc)
  then have "(65535 - ones_fold N + (N + m)) mod 65535 = m mod 65535" by (simp add: ones_complement_add)
  then show ?thesis using assms by (metis mod_add_right_eq)
qed

text \<open>
  The checksum fix-up for a changed port. The constant subtracted after the update
  compensates a borrow that is there only when the 64-bit sum does not wrap: the stored
  checksum keeps the checked sum in the first case and is one too small in the other.
\<close>

theorem port_csum_fixup_result:
  assumes "check + 2 \<le> length b" "old_port \<noteq> new_port"
    "trn_update_l4_csum_port (ucast (get16 b check)) old_port new_port \<noteq> 0"
  shows "\<exists>b'. port_csum_fixup b check old_port new_port = Some b' \<and>
    (unat (get16 b' check) + unat new_port
       + (if unat old_port < 65535 - unat (get16 b check) + unat new_port then 0 else 1)) mod 65535
    = (unat (get16 b check) + unat old_port) mod 65535"
proof -
  let ?c = "get16 b check"
  define cs where "cs = trn_update_l4_csum_port (ucast ?c) old_port new_port"
  define low where "low \<longleftrightarrow> unat old_port < 65535 - unat ?c + unat new_port"
  define N where "N = (if low then 65535 - unat ?c + unat new_port - 1 - unat old_port
      else 65535 - unat ?c + (18446744073709551615 - unat old_port) + unat new_port)"
  have c: "unat (ucast ?c :: u64) mod 65536 = unat ?c" "unat ?c \<le> 65535" "unat old_port \<le> 65535"
    using unat_lt(2) [of ?c] by (simp_all add: unat_le)
  have cs: "unat cs = 65535 - ones_fold N"
    by (simp only: cs_def N_def low_def unat_trn_update_l4_csum_port c(1))
  have "unat cs \<le> 65535" "cs \<noteq> 0" using cs assms(3) by (simp_all add: cs_def)
  then have pred: "unat (ucast (cs - 1) :: u16) = unat cs - 1" "1 \<le> unat cs"
    using unat_ucast_pred by (auto simp: Suc_le_eq unat_gt_0)
  have sum: "(unat cs + (unat new_port + (if low then 0 else 1) + 65534)) mod 65535 = (unat ?c + unat old_port) mod 65535"
  proof -
    have "(N + (unat ?c + unat old_port)) mod 65535 = (unat new_port + (if low then 0 else 1) + 65534) mod 65535"
    proof (cases low)
      case True
      then have "N + (unat ?c + unat old_port) = unat new_port + 65534"
        using c by (simp add: N_def low_def)
      then show ?thesis using True by simp
    next
      case False
      then have "N + (unat ?c + unat old_port) = unat new_port + 65535 * 281479271743490"
        using c by (simp add: N_def)
      then have "(N + (unat ?c + unat old_port)) mod 65535 = unat new_port mod 65535"
        by (simp only: mod_mult_self2)
      then show ?thesis using False by simp
    qed
    then show ?thesis unfolding cs by (rule ones_complement_cong)
  qed
  let ?b' = "put16 b check (ucast (cs - 1))"
  have "port_csum_fixup b check old_port new_port = Some ?b'"
    using assms(1,2) by (simp add: port_csum_fixup_def mem_simps bpf_htons_256 cs_def Let_def)
  moreover have "(unat (get16 ?b' check) + unat new_port + (if low then 0 else 1)) mod 65535
      = (unat ?c + unat old_port) mod 65535"
  proof -
    have "unat (get16 ?b' check) = unat cs - 1" using assms(1) pred(1) by (simp add: mem_simps)
    moreover have "(unat cs - 1 + unat new_port + (if low then 0 else 1) + 65535) mod 65535
        = (unat cs + (unat new_port + (if low then 0 else 1) + 65534)) mod 65535"
      using pred(2) by (intro arg_cong [where f = "\<lambda>n. n mod 65535"]) simp
    ultimately show ?thesis using sum by (simp only: mod_add_self2)
  qed
  ultimately show ?thesis unfolding low_def by blast
qed

theorem port_csum_fixup_result_witness:
  "\<exists>b'. port_csum_fixup [1, 0] 0 1 2 = Some b' \<and> (unat (get16 b' 0) + unat (2 :: u16)) mod 65535 = unat (1 :: u16) + unat (1 :: u16)"
proof -
  have c: "get16 [1, 0] 0 = 1" by (simp add: get16_def le16_def)
  have "unat (trn_update_l4_csum_port (ucast (get16 [1, 0] 0)) 1 2) = 1"
    by (subst unat_trn_update_l4_csum_port) (simp add: c ones_fold_def)
  then have nz: "trn_update_l4_csum_port (ucast (get16 [1, 0] 0)) 1 2 \<noteq> 0" by auto
  show ?thesis using port_csum_fixup_result [of 0 "[1, 0]" 1 2, OF _ _ nz] by (simp add: c)
qed

section \<open>Network identifiers\<close>

text \<open>
  The 24-bit network identifier: reading what was written gives back the low 24 bits, and
  writing what was read gives back the three bytes.
\<close>

theorem vni_roundtrip:
  "trn_get_vni (trn_set_vni w) = take_bit 24 w \<and> trn_set_vni (trn_get_vni v) = v"
  by (simp add: trn_get_set_vni)

end
