(* ===== verification/Arion_Jhash.thy ===== *)
theory Arion_Jhash
  imports Arion_Kern
begin

text \<open>
  The Jenkins hash the XDP programs carry (\<open>src/src/extern/jhash.h\<close>) and its only client, the
  hash of an inner packet in \<open>trn_kern.h\<close>. All arithmetic is on 32-bit words and wraps.
\<close>

section \<open>Mixing\<close>

definition rol32 :: "u32 \<Rightarrow> nat \<Rightarrow> u32" where
  "rol32 word shift = push_bit shift word OR drop_bit (unat ((- of_nat shift) AND (31 :: u32))) word"

definition jhash_mix :: "u32 \<times> u32 \<times> u32 \<Rightarrow> u32 \<times> u32 \<times> u32" where
  "jhash_mix abc = (case abc of (a, b, c) \<Rightarrow>
     let a = a - c; a = a XOR rol32 c 4; c = c + b;
         b = b - a; b = b XOR rol32 a 6; a = a + c;
         c = c - b; c = c XOR rol32 b 8; b = b + a;
         a = a - c; a = a XOR rol32 c 16; c = c + b;
         b = b - a; b = b XOR rol32 a 19; a = a + c;
         c = c - b; c = c XOR rol32 b 4; b = b + a
     in (a, b, c))"

definition jhash_final :: "u32 \<times> u32 \<times> u32 \<Rightarrow> u32 \<times> u32 \<times> u32" where
  "jhash_final abc = (case abc of (a, b, c) \<Rightarrow>
     let c = c XOR b; c = c - rol32 b 14;
         a = a XOR c; a = a - rol32 c 11;
         b = b XOR a; b = b - rol32 a 25;
         c = c XOR b; c = c - rol32 b 16;
         a = a XOR c; a = a - rol32 c 4;
         b = b XOR a; b = b - rol32 a 14;
         c = c XOR b; c = c - rol32 b 24
     in (a, b, c))"

definition JHASH_INITVAL :: u32 where "JHASH_INITVAL = 0xdeadbeef"
definition INIT_JHASH_SEED :: u32 where "INIT_JHASH_SEED = 0xdeadbeef"

section \<open>Hashing a block of memory\<close>

text \<open>The loop over full 12-byte groups; the rest of the block comes back with the state.\<close>

function jhash_loop :: "bytes \<Rightarrow> nat \<Rightarrow> nat \<Rightarrow> u32 \<times> u32 \<times> u32 \<Rightarrow> (nat \<times> nat \<times> (u32 \<times> u32 \<times> u32)) option" where
  "jhash_loop key k len abc =
     (if len > 12 then do {
        x \<leftarrow> rd32 key k;
        y \<leftarrow> rd32 key (k + 4);
        z \<leftarrow> rd32 key (k + 8);
        jhash_loop key (k + 12) (len - 12)
          (jhash_mix (fst abc + x, fst (snd abc) + y, snd (snd abc) + z))
      }
      else Some (k, len, abc))"
  by pat_completeness auto
termination
  by (relation "measure (\<lambda>(key, k, len, abc). len)") auto

declare jhash_loop.simps [simp del]

text \<open>
  The \<open>switch\<close> with its fall-through: byte \<open>i\<close> of the tail is added to \<open>a\<close>, \<open>b\<close> or \<open>c\<close> at its
  place in the word, from the last byte down.
\<close>

definition jhash_add :: "nat \<Rightarrow> u8 \<Rightarrow> u32 \<times> u32 \<times> u32 \<Rightarrow> u32 \<times> u32 \<times> u32" where
  "jhash_add i w abc = (case abc of (a, b, c) \<Rightarrow>
     let v = push_bit (8 * (i mod 4)) (ucast w)
     in if i < 4 then (a + v, b, c) else if i < 8 then (a, b + v, c) else (a, b, c + v))"

primrec jhash_tail :: "bytes \<Rightarrow> nat \<Rightarrow> nat \<Rightarrow> u32 \<times> u32 \<times> u32 \<Rightarrow> (u32 \<times> u32 \<times> u32) option" where
  "jhash_tail key k 0 abc = Some abc"
| "jhash_tail key k (Suc i) abc = do { w \<leftarrow> rd8 key (k + i); jhash_tail key k i (jhash_add i w abc) }"

definition jhash :: "bytes \<Rightarrow> nat \<Rightarrow> u32 \<Rightarrow> u32 option" where
  "jhash key len initval = do {
     let v = JHASH_INITVAL + of_nat len + initval;
     (k, len, abc) \<leftarrow> jhash_loop key 0 len (v, v, v);
     abc \<leftarrow> jhash_tail key k len abc;
     let abc = (if len = 0 then abc else jhash_final abc);
     Some (snd (snd abc))
   }"

definition jhash_nwords :: "u32 \<Rightarrow> u32 \<Rightarrow> u32 \<Rightarrow> u32 \<Rightarrow> u32" where
  "jhash_nwords a b c initval =
     (let a = a + initval; b = b + initval; c = c + initval in snd (snd (jhash_final (a, b, c))))"

definition jhash_2words :: "u32 \<Rightarrow> u32 \<Rightarrow> u32 \<Rightarrow> u32" where
  "jhash_2words a b initval = jhash_nwords a b 0 (initval + JHASH_INITVAL + push_bit 2 2)"

definition trn_get_inner_packet_hash :: "transit_packet \<Rightarrow> u32 option" where
  "trn_get_inner_packet_hash pkt = do {
     iip \<leftarrow> tp_inner_ip pkt;
     saddr \<leftarrow> rd32 (tp_data pkt) (iip + 12);
     Some (jhash_2words saddr 0 INIT_JHASH_SEED)
   }"

section \<open>Properties\<close>

lemma jhash_loop_total:
  "k + n \<le> length key \<Longrightarrow>
   \<exists>k' n' abc'. jhash_loop key k n abc = Some (k', n', abc') \<and> n' \<le> 12 \<and> k' + n' = k + n"
proof (induction key k n abc rule: jhash_loop.induct)
  case (1 key k n abc)
  show ?case
  proof (cases "n > 12")
    case True
    then have r: "rd32 key k = Some (get32 key k)" "rd32 key (k + 4) = Some (get32 key (k + 4))"
      "rd32 key (k + 8) = Some (get32 key (k + 8))"
      using "1.prems" by (simp_all add: mem_simps)
    show ?thesis
      using "1.IH" [OF True r] "1.prems" True by (subst (1) jhash_loop.simps) (auto simp: r)
  next
    case False
    then show ?thesis by (cases abc) (simp add: jhash_loop.simps)
  qed
qed

lemma jhash_tail_total: "k + n \<le> length key \<Longrightarrow> \<exists>abc'. jhash_tail key k n abc = Some abc'"
proof (induction n arbitrary: abc)
  case 0
  then show ?case by (cases abc) simp
qed (simp add: mem_simps)

text \<open>
  The hash is total and reads its key in bounds: for every key of at least the given
  length, empty included, \<open>jhash\<close> returns a value and never reads past that length.
\<close>

theorem jhash_total:
  assumes "n \<le> length key"
  shows "\<exists>h. jhash key n initval = Some h"
proof -
  let ?v = "JHASH_INITVAL + of_nat n + initval"
  obtain k' n' abc where l: "jhash_loop key 0 n (?v, ?v, ?v) = Some (k', n', abc)" "k' + n' = n"
    using jhash_loop_total [of 0 n key "(?v, ?v, ?v)"] assms by auto
  obtain abc' where "jhash_tail key k' n' abc = Some abc'"
    using jhash_tail_total [of k' n' key abc] l(2) assms by auto
  with l show ?thesis by (simp add: jhash_def Let_def)
qed

theorem jhash_total_witness: "\<exists>h. jhash (replicate 30 1) 27 0 = Some h"
  using jhash_total [of 27 "replicate 30 1" 0] by simp

end
