(* ===== verification/Arion_Json.thy ===== *)
theory Arion_Json
  imports Arion_Prelude "HOL-Library.Log_Nat" "HOL-Library.Char_ord"
begin

text \<open>
  The part of \<open>src/src/extern/cJSON.c\<close> the command line client runs on: the parser and the
  accessors. The text is a C string: \<open>content\<close> includes the final NUL and a position is an
  offset into it. A parser returns the value it built (\<open>None\<close>: it reports failure) with the
  offset it leaves in the buffer; the outer option is \<open>None\<close> when the C code would read outside
  the text, write outside the memory it allocated, or when the fuel is used up. Allocation
  succeeds. \<open>parse_buffer.depth\<close> is a parameter: it counts up on entry and down on success, and
  a failure ends the whole parse.
\<close>

section \<open>Numbers\<close>

text \<open>
  A \<open>double\<close> as its value. \<open>round_double\<close> is the conversion of the C library: to nearest, ties
  to even, with the subnormal range and overflow to infinity.
\<close>

datatype double = Finite rat | Infinite bool

definition pow2 :: "int \<Rightarrow> rat" where
  "pow2 e = (if 0 \<le> e then 2 ^ nat e else 1 / 2 ^ nat (- e))"

definition binade :: "rat \<Rightarrow> int" where
  "binade x = (let (n, d) = quotient_of x; e = int (floorlog 2 (nat n)) - int (floorlog 2 (nat d))
     in if pow2 e \<le> x then e else e - 1)"

definition round_half_even :: "rat \<Rightarrow> int" where
  "round_half_even x = (let f = \<lfloor>x\<rfloor>; r = x - of_int f
     in if r < 1 / 2 then f else if 1 / 2 < r then f + 1 else if even f then f else f + 1)"

definition round_double :: "rat \<Rightarrow> double" where
  "round_double x =
     (if x = 0 then Finite 0
      else let u = max (binade \<bar>x\<bar> - 52) (- 1074); y = of_int (round_half_even (\<bar>x\<bar> / pow2 u)) * pow2 u
        in if pow2 1024 \<le> y then Infinite (x < 0) else Finite (if x < 0 then - y else y))"

text \<open>
  \<open>strtod\<close> on the characters \<open>parse_number\<close> hands it (digits, signs, point, exponent letter): the
  value and the number of characters used, 0 if there is no number.
\<close>

definition is_digit :: "char \<Rightarrow> bool" where
  "is_digit c \<longleftrightarrow> CHR ''0'' \<le> c \<and> c \<le> CHR ''9''"

definition digits_value :: "string \<Rightarrow> nat" where
  "digits_value s = foldl (\<lambda>n c. 10 * n + (of_char c - of_char CHR ''0'')) 0 s"

definition sign_of :: "string \<Rightarrow> bool \<times> nat" where
  "sign_of s = (case s of c # _ \<Rightarrow> if c = CHR ''-'' then (True, 1) else if c = CHR ''+'' then (False, 1) else (False, 0)
     | [] \<Rightarrow> (False, 0))"

definition strtod_exp :: "string \<Rightarrow> int \<times> nat" where
  "strtod_exp s = (case s of
     c # t \<Rightarrow> (let (neg, n) = sign_of t; ds = takeWhile is_digit (drop n t)
       in if (c = CHR ''e'' \<or> c = CHR ''E'') \<and> ds \<noteq> []
          then (if neg then - int (digits_value ds) else int (digits_value ds), 1 + n + length ds)
          else (0, 0))
   | [] \<Rightarrow> (0, 0))"

definition scale10 :: "int \<Rightarrow> rat" where
  "scale10 e = (if 0 \<le> e then 10 ^ nat e else 1 / 10 ^ nat (- e))"

definition strtod :: "string \<Rightarrow> double \<times> nat" where
  "strtod s =
     (let (neg, n) = sign_of s; s1 = drop n s;
          whole = takeWhile is_digit s1; s2 = drop (length whole) s1;
          point = (if s2 \<noteq> [] \<and> hd s2 = CHR ''.'' then 1 else 0);
          fraction = (if point = 1 then takeWhile is_digit (tl s2) else [])
      in if whole = [] \<and> fraction = [] then (Finite 0, 0)
         else let used = n + length whole + point + length fraction;
                  (e, k) = strtod_exp (drop used s);
                  v = of_nat (digits_value (whole @ fraction)) * scale10 (e - int (length fraction))
           in (round_double (if neg then - v else v), used + k))"

section \<open>Values\<close>

text \<open>
  A \<open>cJSON\<close> item is its type with the fields that belong to it; the list of children is a
  list, and the \<open>string\<close> of an object's child is paired with it. A \<open>valuestring\<close> is the C string
  its memory holds. Only the application builds \<open>cJSON_Raw\<close> items, the parser never does.
\<close>

datatype cJSON =
    cJSON_False
  | cJSON_True
  | cJSON_NULL
  | cJSON_Number double int
  | cJSON_String string
  | cJSON_Raw string
  | cJSON_Array "cJSON list"
  | cJSON_Object "(string \<times> cJSON) list"

definition c_string :: "string \<Rightarrow> string" where
  "c_string s = takeWhile (\<lambda>c. c \<noteq> CHR 0x00) s"

definition INT_MAX :: int where "INT_MAX = 2147483647"
definition INT_MIN :: int where "INT_MIN = - 2147483648"

text \<open>The \<open>valueint\<close> of a number saturates.\<close>

definition trunc_rat :: "rat \<Rightarrow> int" where
  "trunc_rat x = (if 0 \<le> x then \<lfloor>x\<rfloor> else - \<lfloor>- x\<rfloor>)"

definition valueint_of :: "double \<Rightarrow> int" where
  "valueint_of d = (case d of
     Infinite neg \<Rightarrow> if neg then INT_MIN else INT_MAX
   | Finite x \<Rightarrow> if of_int INT_MAX \<le> x then INT_MAX else if x \<le> of_int INT_MIN then INT_MIN else trunc_rat x)"

section \<open>Accessors\<close>

definition tolower :: "char \<Rightarrow> char" where
  "tolower c = (if CHR ''A'' \<le> c \<and> c \<le> CHR ''Z'' then char_of (of_char c + (32 :: nat)) else c)"

text \<open>The comparison of two C strings up to case: the difference at the first place they differ.\<close>

fun case_insensitive_strcmp :: "string \<Rightarrow> string \<Rightarrow> int" where
  "case_insensitive_strcmp [] [] = 0"
| "case_insensitive_strcmp (a # as) [] = of_char (tolower a)"
| "case_insensitive_strcmp [] (b # bs) = - of_char (tolower b)"
| "case_insensitive_strcmp (a # as) (b # bs) =
     (if tolower a = tolower b then case_insensitive_strcmp as bs
      else of_char (tolower a) - of_char (tolower b))"

definition cJSON_child :: "cJSON \<Rightarrow> (string option \<times> cJSON) list" where
  "cJSON_child item = (case item of
     cJSON_Array xs \<Rightarrow> map (Pair None) xs
   | cJSON_Object ms \<Rightarrow> map (\<lambda>(k, v). (Some k, v)) ms
   | _ \<Rightarrow> [])"

text \<open>The search of \<open>get_object_item\<close>; a child without a name never matches.\<close>

primrec find_item :: "(string \<Rightarrow> bool) \<Rightarrow> (string option \<times> cJSON) list \<Rightarrow> cJSON option" where
  "find_item matches [] = None"
| "find_item matches (e # es) = (case fst e of
     None \<Rightarrow> find_item matches es
   | Some k \<Rightarrow> if matches k then Some (snd e) else find_item matches es)"

definition cJSON_GetObjectItem :: "cJSON \<Rightarrow> string \<Rightarrow> cJSON option" where
  "cJSON_GetObjectItem object name = find_item (\<lambda>k. case_insensitive_strcmp name k = 0) (cJSON_child object)"

definition cJSON_IsNumber :: "cJSON \<Rightarrow> bool" where
  "cJSON_IsNumber item = (case item of cJSON_Number _ _ \<Rightarrow> True | _ \<Rightarrow> False)"

definition cJSON_IsString :: "cJSON \<Rightarrow> bool" where
  "cJSON_IsString item = (case item of cJSON_String _ \<Rightarrow> True | _ \<Rightarrow> False)"

definition cJSON_IsArray :: "cJSON \<Rightarrow> bool" where
  "cJSON_IsArray item = (case item of cJSON_Array _ \<Rightarrow> True | _ \<Rightarrow> False)"

text \<open>The number of children; the cast to \<open>int\<close> is exact below \<open>2\<^sup>3\<^sup>1\<close> children.\<close>

definition cJSON_GetArraySize :: "cJSON \<Rightarrow> int" where
  "cJSON_GetArraySize array = int (length (cJSON_child array))"

end
