(* ===== verification/Arion_Json_Parse.thy ===== *)
theory Arion_Json_Parse
  imports Arion_Json
begin

text \<open>
  The parser of \<open>src/src/extern/cJSON.c\<close>, one definition per function. \<open>L\<close> abbreviates
  \<open>buffer.length\<close>, which counts the final NUL.
\<close>

section \<open>Reading the text\<close>

type_synonym 'a parsed = "('a option \<times> nat) option"

definition rdc :: "string \<Rightarrow> nat \<Rightarrow> char option" where
  "rdc content i = (if i < length content then Some (content ! i) else None)"

definition quote_char :: char where "quote_char = CHR 0x22"
definition backslash :: char where "backslash = CHR 0x5C"

section \<open>White space\<close>

function skip_spaces :: "string \<Rightarrow> nat \<Rightarrow> nat" where
  "skip_spaces content offset =
     (if offset < length content \<and> of_char (content ! offset) \<le> (32 :: nat)
      then skip_spaces content (offset + 1) else offset)"
  by pat_completeness auto
termination by (relation "measure (\<lambda>(content, offset). length content - offset)") auto

declare skip_spaces.simps [simp del]

definition buffer_skip_whitespace :: "string \<Rightarrow> nat \<Rightarrow> nat" where
  "buffer_skip_whitespace content offset =
     (let offset = skip_spaces content offset in if offset = length content then offset - 1 else offset)"

definition utf8_bom :: string where "utf8_bom = [CHR 0xEF, CHR 0xBB, CHR 0xBF]"

definition skip_utf8_bom :: "string \<Rightarrow> nat \<Rightarrow> nat" where
  "skip_utf8_bom content offset =
     (if offset + 4 < length content \<and> take 3 (drop offset content) = utf8_bom then offset + 3 else offset)"

section \<open>Numbers\<close>

definition number_char :: "char \<Rightarrow> bool" where
  "number_char c \<longleftrightarrow> is_digit c \<or> c \<in> {CHR ''+'', CHR ''-'', CHR ''e'', CHR ''E'', CHR ''.''}"

text \<open>
  The local array \<open>number_c_string\<close> is memory of 64 characters of its own, \<open>None\<close> where nothing has
  been stored yet: a store or a read outside of it, and a read of a place that was never written, is
  \<open>None\<close>. The characters of the number are copied into it and ended with a NUL, and \<open>strtod\<close> reads
  the C string found there.
\<close>

definition store_char :: "char option list \<Rightarrow> nat \<Rightarrow> char \<Rightarrow> char option list option" where
  "store_char b i c = (if i < length b then Some (b[i := Some c]) else None)"

function copy_number :: "string \<Rightarrow> nat \<Rightarrow> nat \<Rightarrow> char option list \<Rightarrow> (char option list \<times> nat) option" where
  "copy_number content offset i number_c_string =
     (if i < 64 - 1 \<and> offset + i < length content \<and> number_char (content ! (offset + i))
      then do {
        number_c_string \<leftarrow> store_char number_c_string i (content ! (offset + i));
        copy_number content offset (i + 1) number_c_string
      }
      else Some (number_c_string, i))"
  by pat_completeness auto
termination by (relation "measure (\<lambda>(content, offset, i, _). length content - (offset + i))") auto

declare copy_number.simps [simp del]

primrec stored_string :: "char option list \<Rightarrow> string option" where
  "stored_string [] = None"
| "stored_string (x # xs) = do {
     c \<leftarrow> x;
     if c = CHR 0x00 then Some [] else map_option ((#) c) (stored_string xs)
   }"

definition parse_number :: "string \<Rightarrow> nat \<Rightarrow> cJSON parsed" where
  "parse_number content offset = do {
     (number_c_string, i) \<leftarrow> copy_number content offset 0 (replicate 64 None);
     number_c_string \<leftarrow> store_char number_c_string i (CHR 0x00);
     s \<leftarrow> stored_string number_c_string;
     let (number, used) = strtod s in
       Some (if used = 0 then (None, offset)
             else (Some (cJSON_Number number (valueint_of number)), offset + used))
   }"

section \<open>Strings\<close>

definition hex_value :: "char \<Rightarrow> nat option" where
  "hex_value c =
     (if is_digit c then Some (of_char c - of_char CHR ''0'')
      else if CHR ''A'' \<le> c \<and> c \<le> CHR ''F'' then Some (10 + of_char c - of_char CHR ''A'')
      else if CHR ''a'' \<le> c \<and> c \<le> CHR ''f'' then Some (10 + of_char c - of_char CHR ''a'')
      else None)"

text \<open>\<open>i\<close> digits are still to come; a character that is no digit makes the result 0.\<close>

primrec hex4_loop :: "string \<Rightarrow> nat \<Rightarrow> nat \<Rightarrow> u32 \<Rightarrow> u32 option" where
  "hex4_loop content p 0 h = Some h"
| "hex4_loop content p (Suc i) h = do {
     c \<leftarrow> rdc content p;
     case hex_value c of
       None \<Rightarrow> Some 0
     | Some v \<Rightarrow> hex4_loop content (p + 1) i
         (if 0 < i then push_bit 4 (h + of_nat v) else h + of_nat v)
   }"

definition parse_hex4 :: "string \<Rightarrow> nat \<Rightarrow> u32 option" where
  "parse_hex4 content p = hex4_loop content p 4 0"

text \<open>The continuation bytes from the last one down, and the code point that is left.\<close>

primrec utf8_tail :: "nat \<Rightarrow> u64 \<Rightarrow> string \<Rightarrow> u64 \<times> string" where
  "utf8_tail 0 codepoint acc = (codepoint, acc)"
| "utf8_tail (Suc n) codepoint acc =
     utf8_tail n (drop_bit 6 codepoint) (char_of (unat ((codepoint OR 0x80) AND 0xBF)) # acc)"

text \<open>The bytes of a code point; \<open>None\<close> for one that is out of range.\<close>

definition encode_utf8 :: "u64 \<Rightarrow> string option" where
  "encode_utf8 codepoint =
     (let enc = (\<lambda>n first_byte_mark. case utf8_tail n codepoint [] of
            (codepoint, acc) \<Rightarrow> Some (char_of (unat ((codepoint OR first_byte_mark) AND 0xFF)) # acc))
      in if codepoint < 0x80 then Some [char_of (unat (codepoint AND 0x7F))]
         else if codepoint < 0x800 then enc 1 0xC0
         else if codepoint < 0x10000 then enc 2 0xE0
         else if codepoint \<le> 0x10FFFF then enc 3 0xF0
         else None)"

text \<open>The length of the sequence and the bytes it stands for; length 0 is failure.\<close>

definition utf16_literal_to_utf8 :: "string \<Rightarrow> nat \<Rightarrow> nat \<Rightarrow> (nat \<times> string) option" where
  "utf16_literal_to_utf8 content p input_end =
     (let finish = (\<lambda>n codepoint. Some (case encode_utf8 codepoint of None \<Rightarrow> (0, []) | Some bs \<Rightarrow> (n, bs)))
      in if input_end < p + 6 then Some (0, [])
         else do {
           first_code \<leftarrow> parse_hex4 content (p + 2);
           if 0xDC00 \<le> first_code \<and> first_code \<le> 0xDFFF then Some (0, [])
           else if 0xD800 \<le> first_code \<and> first_code \<le> 0xDBFF then
             (let second = p + 6
              in if input_end < second + 6 then Some (0, [])
                 else do {
                   c0 \<leftarrow> rdc content second;
                   c1 \<leftarrow> rdc content (second + 1);
                   if c0 \<noteq> backslash \<or> c1 \<noteq> CHR ''u'' then Some (0, [])
                   else do {
                     second_code \<leftarrow> parse_hex4 content (second + 2);
                     if second_code < 0xDC00 \<or> 0xDFFF < second_code then Some (0, [])
                     else finish 12 (0x10000 + ucast (push_bit 10 (first_code AND 0x3FF) OR (second_code AND 0x3FF)))
                   }
                 })
           else finish 6 (ucast first_code)
         })"

text \<open>
  The search for the closing quote: its offset with the number of escapes passed, or \<open>None\<close> when
  the text ends first.
\<close>

function scan_string :: "string \<Rightarrow> nat \<Rightarrow> nat \<Rightarrow> (nat \<times> nat) option" where
  "scan_string content input_end skipped =
     (if input_end < length content \<and> content ! input_end \<noteq> quote_char
      then if content ! input_end = backslash
           then if length content \<le> input_end + 1 then None
                else scan_string content (input_end + 2) (skipped + 1)
           else scan_string content (input_end + 1) skipped
      else if length content \<le> input_end then None else Some (input_end, skipped))"
  by pat_completeness auto
termination by (relation "measure (\<lambda>(content, e, skipped). length content - e)") auto

declare scan_string.simps [simp del]

text \<open>Appending to the output, which has room for \<open>cap\<close> characters and the final NUL.\<close>

definition push_out :: "nat \<Rightarrow> string \<Rightarrow> string \<Rightarrow> string option" where
  "push_out cap output bs = (if length output + length bs \<le> cap then Some (output @ bs) else None)"

definition escape_char :: "char \<Rightarrow> char option" where
  "escape_char c =
     (if c = CHR ''b'' then Some (CHR 0x08) else if c = CHR ''f'' then Some (CHR 0x0C)
      else if c = CHR ''n'' then Some (CHR 0x0A) else if c = CHR ''r'' then Some (CHR 0x0D)
      else if c = CHR ''t'' then Some (CHR 0x09)
      else if c = quote_char \<or> c = backslash \<or> c = CHR ''/'' then Some c else None)"

text \<open>The loop over the literal: \<open>Inl p\<close> is failure with the input pointer at \<open>p\<close>.\<close>

function unescape :: "string \<Rightarrow> nat \<Rightarrow> nat \<Rightarrow> nat \<Rightarrow> string \<Rightarrow> (nat + string) option" where
  "unescape content input_end cap p output =
     (if p < input_end then do {
        c \<leftarrow> rdc content p;
        if c \<noteq> backslash then do {
          output \<leftarrow> push_out cap output [c];
          unescape content input_end cap (p + 1) output
        }
        else do {
          c1 \<leftarrow> rdc content (p + 1);
          if c1 = CHR ''u'' then do {
            (n, bs) \<leftarrow> utf16_literal_to_utf8 content p input_end;
            if n = 0 then Some (Inl p)
            else do {
              output \<leftarrow> push_out cap output bs;
              unescape content input_end cap (p + n) output
            }
          }
          else case escape_char c1 of
            None \<Rightarrow> Some (Inl p)
          | Some e \<Rightarrow> do {
              output \<leftarrow> push_out cap output [e];
              unescape content input_end cap (p + 2) output
            }
        }
      }
      else Some (Inr output))"
  by pat_completeness auto
termination by (relation "measure (\<lambda>(content, input_end, cap, p, output). input_end - p)") auto

declare unescape.simps [simp del]

definition parse_string :: "string \<Rightarrow> nat \<Rightarrow> string parsed" where
  "parse_string content offset = do {
     c \<leftarrow> rdc content offset;
     if c \<noteq> quote_char then Some (None, offset + 1)
     else case scan_string content (offset + 1) 0 of
       None \<Rightarrow> Some (None, offset + 1)
     | Some (input_end, skipped) \<Rightarrow> do {
         r \<leftarrow> unescape content input_end (input_end - offset - skipped) (offset + 1) [];
         Some (case r of Inl p \<Rightarrow> (None, p) | Inr output \<Rightarrow> (Some (c_string output), input_end + 1))
       }
   }"

section \<open>Values\<close>

definition CJSON_NESTING_LIMIT :: nat where "CJSON_NESTING_LIMIT = 1000"

definition starts :: "string \<Rightarrow> nat \<Rightarrow> string \<Rightarrow> bool" where
  "starts content offset word \<longleftrightarrow>
     offset + length word \<le> length content \<and> take (length word) (drop offset content) = word"

definition char_at :: "string \<Rightarrow> nat \<Rightarrow> char \<Rightarrow> bool" where
  "char_at content offset c \<longleftrightarrow> offset < length content \<and> content ! offset = c"

text \<open>
  The \<open>do\<close> loops of the two containers, from the offset in front of the next element, with the
  children built so far. \<open>value\<close> stands for the recursive call of \<open>parse_value\<close> at the depth of
  the elements. An iteration uses up a character of the text, so fuel for every position is
  enough.
\<close>

primrec array_loop :: "nat \<Rightarrow> (nat \<Rightarrow> cJSON parsed) \<Rightarrow> string \<Rightarrow> cJSON list \<Rightarrow> nat \<Rightarrow> cJSON parsed" where
  "array_loop 0 value content items offset = None"
| "array_loop (Suc fuel) value content items offset = do {
     (item, offset) \<leftarrow> value (buffer_skip_whitespace content (offset + 1));
     case item of
       None \<Rightarrow> Some (None, offset)
     | Some x \<Rightarrow>
         (let items = items @ [x]; offset = buffer_skip_whitespace content offset
          in if char_at content offset (CHR '','') then array_loop fuel value content items offset
             else if char_at content offset (CHR '']'') then Some (Some (cJSON_Array items), offset + 1)
             else Some (None, offset))
   }"

primrec object_loop :: "nat \<Rightarrow> (nat \<Rightarrow> cJSON parsed) \<Rightarrow> string \<Rightarrow> (string \<times> cJSON) list \<Rightarrow> nat \<Rightarrow> cJSON parsed" where
  "object_loop 0 value content items offset = None"
| "object_loop (Suc fuel) value content items offset = do {
     (name, offset) \<leftarrow> parse_string content (buffer_skip_whitespace content (offset + 1));
     case name of
       None \<Rightarrow> Some (None, offset)
     | Some k \<Rightarrow>
         (let offset = buffer_skip_whitespace content offset
          in if \<not> char_at content offset (CHR '':'') then Some (None, offset)
             else do {
               (item, offset) \<leftarrow> value (buffer_skip_whitespace content (offset + 1));
               case item of
                 None \<Rightarrow> Some (None, offset)
               | Some x \<Rightarrow>
                   (let items = items @ [(k, x)]; offset = buffer_skip_whitespace content offset
                    in if char_at content offset (CHR '','') then object_loop fuel value content items offset
                       else if char_at content offset (CHR ''}'') then Some (Some (cJSON_Object items), offset + 1)
                       else Some (None, offset))
             })
   }"

definition parse_array :: "(nat \<Rightarrow> nat \<Rightarrow> cJSON parsed) \<Rightarrow> string \<Rightarrow> nat \<Rightarrow> nat \<Rightarrow> cJSON parsed" where
  "parse_array value content depth offset =
     (if CJSON_NESTING_LIMIT \<le> depth then Some (None, offset)
      else do {
        c \<leftarrow> rdc content offset;
        if c \<noteq> CHR ''['' then Some (None, offset)
        else let offset = buffer_skip_whitespace content (offset + 1)
          in if char_at content offset (CHR '']'') then Some (Some (cJSON_Array []), offset + 1)
             else if length content \<le> offset then Some (None, offset - 1)
             else array_loop (length content) (value (depth + 1)) content [] (offset - 1)
      })"

definition parse_object :: "(nat \<Rightarrow> nat \<Rightarrow> cJSON parsed) \<Rightarrow> string \<Rightarrow> nat \<Rightarrow> nat \<Rightarrow> cJSON parsed" where
  "parse_object value content depth offset =
     (if CJSON_NESTING_LIMIT \<le> depth then Some (None, offset)
      else if \<not> char_at content offset (CHR ''{'') then Some (None, offset)
      else let offset = buffer_skip_whitespace content (offset + 1)
        in if char_at content offset (CHR ''}'') then Some (Some (cJSON_Object []), offset + 1)
           else if length content \<le> offset then Some (None, offset - 1)
           else object_loop (length content) (value (depth + 1)) content [] (offset - 1))"

text \<open>\<open>parse_value\<close>; the fuel is the depth of the recursion, which the nesting limit bounds.\<close>

primrec parse_value :: "nat \<Rightarrow> string \<Rightarrow> nat \<Rightarrow> nat \<Rightarrow> cJSON parsed" where
  "parse_value 0 content depth offset = None"
| "parse_value (Suc fuel) content depth offset =
     (if starts content offset ''null'' then Some (Some cJSON_NULL, offset + 4)
      else if starts content offset ''false'' then Some (Some cJSON_False, offset + 5)
      else if starts content offset ''true'' then Some (Some cJSON_True, offset + 4)
      else if char_at content offset quote_char
      then map_option (apfst (map_option cJSON_String)) (parse_string content offset)
      else if offset < length content \<and> (content ! offset = CHR ''-'' \<or> is_digit (content ! offset))
      then parse_number content offset
      else if char_at content offset (CHR ''['') then parse_array (parse_value fuel content) content depth offset
      else if char_at content offset (CHR ''{'') then parse_object (parse_value fuel content) content depth offset
      else Some (None, offset))"

text \<open>
  The whole text: the value, or the position \<open>cJSON_GetErrorPtr\<close> points to. \<open>cJSON_Parse\<close> does not
  look at what follows the value.
\<close>

definition cJSON_ParseWithOpts :: "string \<Rightarrow> bool \<Rightarrow> (nat + cJSON) option" where
  "cJSON_ParseWithOpts value require_null_terminated =
     (let content = c_string value @ [CHR 0x00];
          failed = (\<lambda>offset. Inl (if offset < length content then offset else length content - 1))
      in do {
        (item, offset) \<leftarrow> parse_value (CJSON_NESTING_LIMIT + 1) content 0
          (buffer_skip_whitespace content (skip_utf8_bom content 0));
        case item of
          None \<Rightarrow> Some (failed offset)
        | Some x \<Rightarrow>
            if require_null_terminated
            then let offset = buffer_skip_whitespace content offset
              in if length content \<le> offset \<or> content ! offset \<noteq> CHR 0x00 then Some (failed offset)
                 else Some (Inr x)
            else Some (Inr x)
      })"

definition cJSON_Parse :: "string \<Rightarrow> (nat + cJSON) option" where
  "cJSON_Parse value = cJSON_ParseWithOpts value False"

section \<open>The buffer of a number\<close>

text \<open>
  What is copied, without the buffer: the copy stays inside of the 64 characters, so does its NUL,
  and \<open>strtod\<close> reads only what was stored.
\<close>

definition number_read :: "string \<Rightarrow> nat \<Rightarrow> cJSON option \<times> nat" where
  "number_read content offset =
     (let (number, used) = strtod (takeWhile number_char (take 63 (drop offset content)))
      in if used = 0 then (None, offset)
         else (Some (cJSON_Number number (valueint_of number)), offset + used))"

lemma store_char_append:
  "store_char (map Some w @ replicate (Suc n) None) (length w) c = Some (map Some (w @ [c]) @ replicate n None)"
  by (simp add: store_char_def list_update_append)

lemma copy_number_copies:
  "length w + n = 63 \<Longrightarrow>
   copy_number content offset (length w) (map Some w @ replicate (Suc n) None) =
     (let s = takeWhile number_char (take n (drop (offset + length w) content))
      in Some (map Some (w @ s) @ replicate (Suc n - length s) None, length (w @ s)))"
proof (induction n arbitrary: w)
  case 0
  then show ?case by (subst copy_number.simps) simp
next
  case (Suc n)
  show ?case
  proof (cases "offset + length w < length content \<and> number_char (content ! (offset + length w))")
    case True
    let ?c = "content ! (offset + length w)"
    have d: "drop (offset + length w) content = ?c # drop (offset + length (w @ [?c])) content"
      using True by (simp add: Cons_nth_drop_Suc)
    have "copy_number content offset (length w) (map Some w @ replicate (Suc (Suc n)) None) =
        copy_number content offset (length (w @ [?c])) (map Some (w @ [?c]) @ replicate (Suc n) None)"
      using True Suc.prems by (subst copy_number.simps) (simp add: store_char_append del: replicate_Suc map_append)
    also have "\<dots> = (let s = takeWhile number_char (take n (drop (offset + length (w @ [?c])) content))
      in Some (map Some ((w @ [?c]) @ s) @ replicate (Suc n - length s) None, length ((w @ [?c]) @ s)))"
      by (rule Suc.IH) (use Suc.prems in simp)
    finally show ?thesis unfolding d using True by (simp add: Let_def)
  next
    case False
    then have "takeWhile number_char (take (Suc n) (drop (offset + length w) content)) = []"
      by (cases "drop (offset + length w) content") (auto dest: nth_via_drop)
    then show ?thesis using False by (subst copy_number.simps) auto
  qed
qed

lemma stored_string_stored: "CHR 0x00 \<notin> set s \<Longrightarrow> stored_string (map Some (s @ [CHR 0x00]) @ xs) = Some s"
  by (induction s) auto

lemma parse_number_reads: "parse_number content offset = Some (number_read content offset)"
proof -
  let ?s = "takeWhile number_char (take 63 (drop offset content))"
  have l: "length ?s \<le> 63" using length_takeWhile_le [of number_char "take 63 (drop offset content)"] by simp
  have z: "CHR 0x00 \<notin> set ?s" by (auto dest!: set_takeWhileD simp: number_char_def is_digit_def)
  have c: "copy_number content offset 0 (replicate 64 None) = Some (map Some ?s @ replicate (Suc (63 - length ?s)) None, length ?s)"
    using copy_number_copies [of "[]" 63 content offset] l by (simp add: Let_def Suc_diff_le del: replicate_Suc)
  show ?thesis
    using stored_string_stored [OF z]
    by (simp add: parse_number_def c store_char_append number_read_def split_beta Let_def del: replicate_Suc map_append)
qed

end
