(* ===== verification/Arion_Json_Props.thy ===== *)
theory Arion_Json_Props
  imports Arion_Json_Parse
begin

text \<open>
  What the JSON parser guarantees for every text. \<open>safe_parser\<close> is the contract of a parsing
  function: from a position inside the text it returns, stays inside the memory it may touch, and
  on success ends at a later position inside the text. Every parser of \<open>Arion_Json_Parse\<close> meets it.
\<close>

section \<open>The contract\<close>

definition c_text :: "string \<Rightarrow> bool" where
  "c_text content \<longleftrightarrow> content \<noteq> [] \<and> last content = CHR 0x00"

definition safe_parser :: "string \<Rightarrow> (nat \<Rightarrow> 'a parsed) \<Rightarrow> bool" where
  "safe_parser content p \<longleftrightarrow> (\<forall>i<length content. \<exists>r j. p i = Some (r, j) \<and> (r \<noteq> None \<longrightarrow> i < j \<and> j < length content))"

lemma safe_parserE:
  assumes "safe_parser content p" "i < length content"
  obtains j where "p i = Some (None, j)" | x j where "p i = Some (Some x, j)" "i < j" "j < length content"
  using assms unfolding safe_parser_def by (metis not_Some_eq option.distinct(1))

lemma c_textD:
  assumes "c_text content"
  shows "0 < length content" "content ! (length content - 1) = CHR 0x00"
  using assms by (auto simp: c_text_def last_conv_nth)

lemma c_text_not_last:
  assumes "c_text content" "i < length content" "content ! i \<noteq> CHR 0x00" shows "Suc i < length content"
  using c_textD [OF assms(1)] assms(2,3) by (cases "i = length content - 1") auto

lemma char_at_not_last:
  "c_text content \<Longrightarrow> char_at content i c \<Longrightarrow> c \<noteq> CHR 0x00 \<Longrightarrow> Suc i < length content"
  using c_text_not_last by (auto simp: char_at_def)

section \<open>White space and numbers\<close>

lemma skip_spaces_bounds: "i \<le> length content \<Longrightarrow> i \<le> skip_spaces content i \<and> skip_spaces content i \<le> length content"
proof (induction content i rule: skip_spaces.induct)
  case (1 content i)
  then show ?case by (subst (1 2) skip_spaces.simps) fastforce
qed

lemma skip_whitespace_bounds:
  assumes "i < length content"
  shows "i \<le> buffer_skip_whitespace content i" "buffer_skip_whitespace content i < length content"
  using skip_spaces_bounds [of i content] assms by (auto simp: buffer_skip_whitespace_def Let_def)

lemma takeWhile_le: "length (takeWhile P xs) \<le> length xs"
  by (rule length_takeWhile_le)

lemma sign_of_used: "snd (sign_of s) \<le> length s"
  by (auto simp: sign_of_def split: list.splits)

lemma strtod_exp_used: "snd (strtod_exp s) \<le> length s"
proof (cases s)
  case (Cons c t)
  obtain neg n where n: "sign_of t = (neg, n)" by fastforce
  have "n \<le> length t" using sign_of_used [of t] by (simp add: n)
  moreover have "length (takeWhile is_digit (drop n t)) \<le> length t - n"
    using takeWhile_le [of is_digit "drop n t"] by simp
  ultimately have "n + length (takeWhile is_digit (drop n t)) \<le> length t" by linarith
  then show ?thesis unfolding Cons strtod_exp_def by (simp add: n Let_def)
qed (simp add: strtod_exp_def)

lemma strtod_used: "snd (strtod s) \<le> length s"
proof -
  obtain neg n where n: "sign_of s = (neg, n)" by fastforce
  define s1 where "s1 = drop n s"
  define whole where "whole = takeWhile is_digit s1"
  define s2 where "s2 = drop (length whole) s1"
  define pt where "pt = (if s2 \<noteq> [] \<and> hd s2 = CHR ''.'' then 1 else 0 :: nat)"
  define fr where "fr = (if pt = 1 then takeWhile is_digit (tl s2) else [])"
  have "pt + length fr \<le> length s2"
    using takeWhile_le [of is_digit "tl s2"] by (cases s2) (auto simp: pt_def fr_def)
  moreover have "length whole \<le> length s1" unfolding whole_def by (rule takeWhile_le)
  moreover have "n \<le> length s" using sign_of_used [of s] by (simp add: n)
  ultimately have u: "n + length whole + pt + length fr \<le> length s" by (simp add: s2_def s1_def)
  obtain e k where e: "strtod_exp (drop (n + length whole + pt + length fr) s) = (e, k)" by fastforce
  have "k \<le> length s - (n + length whole + pt + length fr)"
    using strtod_exp_used [of "drop (n + length whole + pt + length fr) s"] by (simp add: e)
  moreover have "snd (strtod s) \<in> {0, n + length whole + pt + length fr + k}"
    unfolding strtod_def n Let_def prod.case
    unfolding s1_def [symmetric] unfolding whole_def [symmetric] unfolding s2_def [symmetric]
    unfolding pt_def [symmetric] unfolding fr_def [symmetric] unfolding e by simp
  ultimately show ?thesis using u by auto
qed

text \<open>A text ends in a NUL, so whatever stops at NUL stops inside.\<close>

lemma takeWhile_inside:
  assumes "c_text content" "i < length content" "\<not> P (CHR 0x00)"
  shows "i + length (takeWhile P (drop i content)) < length content"
proof -
  have "last content \<in> set (drop i content)" using assms(2) by (metis drop_eq_Nil last_drop last_in_set leD)
  then have "takeWhile P (drop i content) \<noteq> drop i content"
    using assms(1,3) by (metis c_text_def takeWhile_eq_all_conv)
  then have "length (takeWhile P (drop i content)) \<noteq> length (drop i content)"
    by (metis takeWhile_eq_take take_all order_refl)
  then show ?thesis using takeWhile_le [of P "drop i content"] assms(2) by simp
qed

lemma takeWhile_take_le: "length (takeWhile P (take n xs)) \<le> length (takeWhile P xs)"
  by (induction xs arbitrary: n) (auto simp: take_Cons split: nat.splits)

lemma parse_number_safe:
  assumes "c_text content" shows "safe_parser content (parse_number content)"
proof -
  have "i + snd (strtod (takeWhile number_char (take 63 (drop i content)))) < length content"
    if "i < length content" for i
    using strtod_used [of "takeWhile number_char (take 63 (drop i content))"]
      takeWhile_take_le [of number_char 63 "drop i content"] takeWhile_inside [OF assms that, of number_char]
    by (simp add: number_char_def is_digit_def)
  moreover have "parse_number content i = (let r = strtod (takeWhile number_char (take 63 (drop i content)))
      in Some (if snd r = 0 then (None, i) else (Some (cJSON_Number (fst r) (valueint_of (fst r))), i + snd r)))" for i
    by (simp add: parse_number_reads number_read_def split_beta Let_def)
  ultimately show ?thesis by (auto simp: safe_parser_def Let_def)
qed

section \<open>Strings\<close>

text \<open>
  The escapes the scan counts: \<open>k\<close> places before the closing quote, each with the place after it,
  no two adjacent. They pay for the characters that decoding makes disappear.
\<close>

definition escape_set :: "nat \<Rightarrow> nat \<Rightarrow> string \<Rightarrow> nat set \<Rightarrow> bool" where
  "escape_set a e content E \<longleftrightarrow> E \<subseteq> {a..<e} \<and> (\<forall>i\<in>E. content ! i = backslash \<and> Suc i < e \<and> Suc i \<notin> E)"

lemma scan_string_result:
  assumes "scan_string content a k = Some (e, k')"
  shows "a \<le> e \<and> char_at content e quote_char \<and> (\<exists>E. escape_set a e content E \<and> k' = k + card E)"
  using assms
proof (induction content a k rule: scan_string.induct)
  case (1 content a k)
  show ?case
  proof (cases "a < length content \<and> content ! a \<noteq> quote_char")
    case inside: True
    show ?thesis
    proof (cases "content ! a = backslash")
      case True
      then have l: "\<not> length content \<le> a + 1" and s: "scan_string content (a + 2) (k + 1) = Some (e, k')"
        using "1.prems" inside by (auto simp: scan_string.simps [of content a] split: if_splits)
      obtain E where E: "a + 2 \<le> e" "char_at content e quote_char" "escape_set (a + 2) e content E" "k' = k + 1 + card E"
        using "1.IH"(1) [OF inside True l s] by blast
      then have "finite E" "a \<notin> E" by (auto simp: escape_set_def intro: finite_subset)
      moreover have "escape_set a e content (insert a E)" using E True by (fastforce simp: escape_set_def)
      ultimately show ?thesis using E by (intro conjI exI [of _ "insert a E"]) auto
    next
      case False
      then have s: "scan_string content (a + 1) k = Some (e, k')"
        using "1.prems" inside by (simp add: scan_string.simps [of content a])
      obtain E where "a + 1 \<le> e" "char_at content e quote_char" "escape_set (a + 1) e content E" "k' = k + card E"
        using "1.IH"(2) [OF inside False s] by blast
      then show ?thesis by (intro conjI exI [of _ E]) (auto simp: escape_set_def)
    qed
  next
    case False
    then have "\<not> length content \<le> a" "e = a" "k' = k"
      using "1.prems" by (auto simp: scan_string.simps [of content a] split: if_splits)
    then show ?thesis
      using False by (intro conjI exI [of _ "{}"]) (auto simp: escape_set_def char_at_def)
  qed
qed

lemma escape_set_sparse:
  assumes "escape_set a e content E" shows "2 * card (E \<inter> {p..<p + n}) \<le> n + 1"
proof (induction n rule: less_induct)
  case (less n)
  have fin: "finite (E \<inter> A)" if "finite A" for A using that by simp
  consider "n = 0" | "n = 1" | m where "n = m + 2" by (metis One_nat_def Suc_1 add.commute add_Suc_right nat.exhaust add_0)
  then show ?case
  proof cases
    case 3
    have "E \<inter> {p + m..<p + n} \<subseteq> {p + m} \<or> E \<inter> {p + m..<p + n} \<subseteq> {Suc (p + m)}"
    proof -
      have "Suc (p + m) \<notin> E \<or> p + m \<notin> E" using assms by (auto simp: escape_set_def)
      moreover have "{p + m..<p + n} = {p + m, Suc (p + m)}" using 3 by auto
      ultimately show ?thesis by auto
    qed
    then have "card (E \<inter> {p + m..<p + n}) \<le> 1"
      by (metis card.empty card_insert_disjoint card_mono empty_iff finite.emptyI finite_insert One_nat_def)
    moreover have "E \<inter> {p..<p + n} = (E \<inter> {p..<p + m}) \<union> (E \<inter> {p + m..<p + n})" using 3 by auto
    ultimately have "card (E \<inter> {p..<p + n}) \<le> card (E \<inter> {p..<p + m}) + 1"
      using card_Un_le [of "E \<inter> {p..<p + m}" "E \<inter> {p + m..<p + n}"] by simp
    then show ?thesis using less.IH [of m] 3 by simp
  next
    case 2
    have "card (E \<inter> {p..<p + n}) \<le> card {p}" by (rule card_mono) (use 2 in auto)
    then show ?thesis using 2 by simp
  qed simp
qed

lemma rdc_Some [simp]: "i < length content \<Longrightarrow> rdc content i = Some (content ! i)"
  by (simp add: rdc_def)

lemma hex_value_less: "hex_value c = Some v \<Longrightarrow> v < 16"
  by (auto simp: hex_value_def is_digit_def less_eq_char_def split: if_splits)

lemma unat_push_bit_4: "unat (push_bit 4 (w :: u32)) = (16 * unat w) mod 2 ^ 32"
  by (simp add: push_bit_eq_mult unat_word_ariths mult.commute)

lemma hex4_loop_result:
  "p + i \<le> length content \<Longrightarrow> i \<le> 4 \<Longrightarrow> 0 < i \<Longrightarrow> unat h + 16 \<le> 16 ^ (5 - i) \<Longrightarrow>
   \<exists>r. hex4_loop content p i h = Some r \<and> unat r < 0x10000"
proof (induction i arbitrary: p h)
  case (Suc i)
  show ?case
  proof (cases "hex_value (content ! p)")
    case (Some v)
    have v: "v < 16" using hex_value_less Some by simp
    have p5: "(16 :: nat) ^ (5 - Suc i) \<le> 16 ^ 4" by (rule power_increasing) simp_all
    have sum: "unat h + v < 16 ^ (5 - Suc i)" using Suc.prems(4) v by simp
    then have "unat h + v < 65536" using p5 by simp
    then have u: "unat (h + of_nat v) = unat h + v"
      using v by (subst unat_add_lem [THEN iffD1]) (simp_all add: unat_of_nat)
    show ?thesis
    proof (cases "i = 0")
      case True
      then show ?thesis using Some Suc.prems(1) sum u by simp
    next
      case False
      have "(16 :: nat) ^ (5 - i) = 16 * 16 ^ (5 - Suc i)"
        using Suc.prems(2) by (simp flip: power_Suc add: Suc_diff_Suc)
      then have "16 * (unat h + v) + 16 \<le> 16 ^ (5 - i)" using sum by simp
      moreover have "unat (push_bit 4 (h + of_nat v)) = 16 * (unat h + v)"
        using u \<open>unat h + v < 65536\<close> by (simp add: unat_push_bit_4)
      ultimately show ?thesis
        using Some Suc.IH [of "p + 1" "push_bit 4 (h + of_nat v)"] Suc.prems(1,2) False by simp
    qed
  qed (use Suc.prems in simp)
qed simp

lemma parse_hex4_result:
  "p + 4 \<le> length content \<Longrightarrow> \<exists>r. parse_hex4 content p = Some r \<and> unat r < 0x10000"
  using hex4_loop_result [of p 4 content 0] by (simp add: parse_hex4_def)

lemma utf8_tail_length: "utf8_tail n codepoint acc = (c, bs) \<Longrightarrow> length bs = n + length acc"
  by (induction n arbitrary: codepoint acc) fastforce+

lemma encode_utf8_length:
  assumes "encode_utf8 codepoint = Some bs"
  shows "length bs \<le> 4" "codepoint < 0x10000 \<Longrightarrow> length bs \<le> 3"
  using assms
  by (auto simp: encode_utf8_def Let_def simp del: utf8_tail.simps dest!: utf8_tail_length
      split: if_splits prod.splits)

text \<open>A literal of six characters gives at most three bytes, one of twelve at most four.\<close>

lemma utf16_literal_result:
  assumes "input_end \<le> length content"
  shows "\<exists>n bs. utf16_literal_to_utf8 content p input_end = Some (n, bs) \<and>
    (n = 0 \<or> p + n \<le> input_end \<and> (n = 6 \<and> length bs \<le> 3 \<or> n = 12 \<and> length bs \<le> 4))"
proof (cases "input_end < p + 6")
  case False
  then have "p + 2 + 4 \<le> length content" using assms by simp
  then obtain h where h: "parse_hex4 content (p + 2) = Some h" "unat h < 0x10000"
    using parse_hex4_result by blast
  have small: "(ucast h :: u64) < 0x10000"
    using h(2) by (simp add: word_less_nat_alt unsigned_ucast_eq take_bit_nat_eq_self)
  have finish: "\<exists>n bs. (case encode_utf8 c of None \<Rightarrow> (0, []) | Some bs \<Rightarrow> (m, bs)) = (n, bs) \<and>
      (n = 0 \<or> p + n \<le> input_end \<and> (n = 6 \<and> length bs \<le> 3 \<or> n = 12 \<and> length bs \<le> 4))"
    if "p + m \<le> input_end" "m = 6 \<and> c < 0x10000 \<or> m = 12" for c m
    using that encode_utf8_length [of c] by (auto split: option.splits)
  show ?thesis
  proof (cases "0xD800 \<le> h \<and> h \<le> 0xDBFF")
    case surrogate: True
    show ?thesis
    proof (cases "input_end < p + 12")
      case True
      then show ?thesis using False h surrogate by (simp add: utf16_literal_to_utf8_def Let_def)
    next
      case long: False
      then have "p + 8 + 4 \<le> length content" using assms by simp
      then obtain h2 where "parse_hex4 content (p + 8) = Some h2"
        using parse_hex4_result by blast
      then have h2: "parse_hex4 content (8 + p) = Some h2" by (simp add: add.commute)
      show ?thesis
        using False h surrogate h2 long assms finish [of 12]
        by (simp add: utf16_literal_to_utf8_def Let_def)
    qed
  next
    case False
    then show ?thesis
      using \<open>\<not> input_end < p + 6\<close> h finish [of 6 "ucast h"] small
      by (auto simp: utf16_literal_to_utf8_def Let_def)
  qed
qed (simp add: utf16_literal_to_utf8_def)

text \<open>
  Decoding never runs out of the memory the scan's count gave it: what is left to read, less
  the escapes still to come, always fits into what is left to write.
\<close>

definition room :: "nat set \<Rightarrow> nat \<Rightarrow> nat \<Rightarrow> nat \<Rightarrow> string \<Rightarrow> bool" where
  "room E e cap p out \<longleftrightarrow> p \<le> e + 1 \<and> length out + (e + 1 - p) \<le> cap + card (E \<inter> {p..<e})"

lemma room_step:
  assumes "room E e cap p out" "p + n \<le> e + 1" "length bs + card (E \<inter> {p..<p + n}) \<le> n"
  shows "push_out cap out bs = Some (out @ bs)" "room E e cap (p + n) (out @ bs)"
proof -
  have "E \<inter> {p..<e} \<subseteq> (E \<inter> {p..<p + n}) \<union> (E \<inter> {p + n..<e})" by auto
  then have "card (E \<inter> {p..<e}) \<le> card ((E \<inter> {p..<p + n}) \<union> (E \<inter> {p + n..<e}))"
    by (intro card_mono) auto
  then have c: "card (E \<inter> {p..<e}) \<le> card (E \<inter> {p..<p + n}) + card (E \<inter> {p + n..<e})"
    using card_Un_le [of "E \<inter> {p..<p + n}" "E \<inter> {p + n..<e}"] by linarith
  have "card (E \<inter> {p + n..<e}) \<le> card {p + n..<e}" by (rule card_mono) auto
  then have "card (E \<inter> {p + n..<e}) \<le> e - (p + n)" by simp
  then show "push_out cap out bs = Some (out @ bs)" "room E e cap (p + n) (out @ bs)"
    using assms c by (auto simp: room_def push_out_def)
qed

lemma unescape_result:
  assumes "escape_set a e content E" "char_at content e quote_char" "Suc e < length content"
  shows "room E e cap p out \<Longrightarrow>
    \<exists>r. unescape content e cap p out = Some r \<and> (\<forall>q. r = Inl q \<longrightarrow> q < e)"
proof (induction "e + 1 - p" arbitrary: p out rule: less_induct)
  case less
  note step = room_step [OF less.prems]
  have next_ok: "\<exists>r. unescape content e cap (p + n) (out @ bs) = Some r \<and> (\<forall>q. r = Inl q \<longrightarrow> q < e)"
    if "p + n \<le> e + 1" "0 < n" "length bs + card (E \<inter> {p..<p + n}) \<le> n" for n bs
    using less.hyps [OF _ step(2) [OF that(1,3)]] that by simp
  show ?case
  proof (cases "p < e")
    case True
    then have rd: "rdc content p = Some (content ! p)" "rdc content (p + 1) = Some (content ! (p + 1))"
      using assms(3) by simp_all
    show ?thesis
    proof (cases "content ! p = backslash")
      case False
      then have "E \<inter> {p..<p + 1} = {}" using assms(1) by (auto simp: escape_set_def)
      then show ?thesis
        using False True rd step(1) [of 1 "[content ! p]"] next_ok [of 1 "[content ! p]"]
        by (simp add: unescape.simps [of content e cap p out])
    next
      case esc: True
      show ?thesis
      proof (cases "content ! (p + 1) = CHR ''u''")
        case u: True
        obtain n bs where lit: "utf16_literal_to_utf8 content p e = Some (n, bs)"
          "n = 0 \<or> p + n \<le> e \<and> (n = 6 \<and> length bs \<le> 3 \<or> n = 12 \<and> length bs \<le> 4)"
          using utf16_literal_result [of e content p] assms(3) by auto
        show ?thesis
        proof (cases "n = 0")
          case True
          then show ?thesis using \<open>p < e\<close> rd esc u lit by (simp add: unescape.simps [of content e cap p out])
        next
          case False
          then have "p + n \<le> e + 1" "length bs + card (E \<inter> {p..<p + n}) \<le> n"
            using lit(2) escape_set_sparse [OF assms(1), of p n] by auto
          then show ?thesis
            using \<open>p < e\<close> rd esc u lit(1) False step(1) next_ok
            by (simp add: unescape.simps [of content e cap p out])
        qed
      next
        case False
        have "length [c] + card (E \<inter> {p..<p + 2}) \<le> 2" for c :: char
          using escape_set_sparse [OF assms(1), of p 2] by simp
        then show ?thesis
          using True rd esc False step(1) [of 2] next_ok [of 2]
          by (cases "escape_char (content ! (p + 1))") (simp_all add: unescape.simps [of content e cap p out])
      qed
    qed
  qed (simp add: unescape.simps [of content e cap p out])
qed

lemma parse_string_safe:
  assumes "c_text content" shows "safe_parser content (parse_string content)"
  unfolding safe_parser_def
proof (intro allI impI)
  fix i assume i: "i < length content"
  show "\<exists>r j. parse_string content i = Some (r, j) \<and> (r \<noteq> None \<longrightarrow> i < j \<and> j < length content)"
  proof (cases "content ! i = quote_char \<and> scan_string content (i + 1) 0 \<noteq> None")
    case False
    then show ?thesis using i by (cases "scan_string content (i + 1) 0") (auto simp: parse_string_def)
  next
    case True
    then obtain e k where scan: "scan_string content (i + 1) 0 = Some (e, k)" by auto
    obtain E where E: "i + 1 \<le> e" "char_at content e quote_char" "escape_set (i + 1) e content E" "k = card E"
      using scan_string_result [OF scan] by auto
    have e: "Suc e < length content"
      by (rule char_at_not_last [OF assms E(2)]) (simp add: quote_char_def)
    have "E \<inter> {i + 1..<e} = E" using E(3) by (auto simp: escape_set_def)
    moreover have "card E \<le> e - (i + 1)"
      using E(3) card_mono [of "{i + 1..<e}" E] by (auto simp: escape_set_def)
    ultimately have "room E e (e - i - k) (i + 1) []" using E(1,4) by (simp add: room_def)
    then obtain r where "unescape content e (e - i - k) (i + 1) [] = Some r"
      using unescape_result [OF E(3,2) e] by blast
    then show ?thesis
      using True scan i e E(1) by (cases r) (simp_all add: parse_string_def)
  qed
qed

section \<open>Containers and values\<close>

lemma skip_whitespace_next:
  assumes "i < length content"
  shows "i \<le> buffer_skip_whitespace content (i + 1)" "buffer_skip_whitespace content (i + 1) < length content"
  using skip_spaces_bounds [of "i + 1" content] assms by (auto simp: buffer_skip_whitespace_def Let_def)

lemma array_loop_safe:
  assumes "c_text content" "safe_parser content value"
  shows "i < length content \<Longrightarrow> length content - i \<le> fuel \<Longrightarrow>
    \<exists>r j. array_loop fuel value content items i = Some (r, j) \<and> (r \<noteq> None \<longrightarrow> i < j \<and> j < length content)"
proof (induction fuel arbitrary: items i)
  case (Suc fuel)
  let ?o = "buffer_skip_whitespace content (i + 1)"
  note o = skip_whitespace_next [OF Suc.prems(1)]
  from assms(2) o(2) show ?case
  proof (cases rule: safe_parserE)
    case (2 x j)
    let ?k = "buffer_skip_whitespace content j"
    have k: "j \<le> ?k" "?k < length content" using skip_whitespace_bounds 2 by blast+
    then have "length content - ?k \<le> fuel" "i < ?k" using Suc.prems 2 o by linarith+
    then obtain r l where "array_loop fuel value content (items @ [x]) ?k = Some (r, l)"
      "r \<noteq> None \<longrightarrow> ?k < l \<and> l < length content"
      using Suc.IH [OF k(2)] by blast
    then show ?thesis
      using 2 \<open>i < ?k\<close> char_at_not_last [OF assms(1), of ?k "CHR '']''"] by (auto simp: Let_def)
  qed simp
qed simp

lemma object_loop_safe:
  assumes "c_text content" "safe_parser content value"
  shows "i < length content \<Longrightarrow> length content - i \<le> fuel \<Longrightarrow>
    \<exists>r j. object_loop fuel value content items i = Some (r, j) \<and> (r \<noteq> None \<longrightarrow> i < j \<and> j < length content)"
proof (induction fuel arbitrary: items i)
  case (Suc fuel)
  let ?o = "buffer_skip_whitespace content (i + 1)"
  note o = skip_whitespace_next [OF Suc.prems(1)]
  from parse_string_safe [OF assms(1)] o(2) show ?case
  proof (cases rule: safe_parserE)
    case (2 name j)
    let ?n = "buffer_skip_whitespace content j"
    let ?v = "buffer_skip_whitespace content (?n + 1)"
    have n: "j \<le> ?n" "?n < length content" using skip_whitespace_bounds 2 by blast+
    note v = skip_whitespace_next [OF n(2)]
    from assms(2) v(2) show ?thesis
    proof (cases rule: safe_parserE)
      case (1 l)
      then show ?thesis using 2 by (simp add: Let_def)
    next
      case val: (2 x l)
      let ?k = "buffer_skip_whitespace content l"
      have k: "l \<le> ?k" "?k < length content" using skip_whitespace_bounds val by blast+
      then have "length content - ?k \<le> fuel" "i < ?k" using Suc.prems 2 val o n v by linarith+
      then obtain r q where "object_loop fuel value content (items @ [(name, x)]) ?k = Some (r, q)"
        "r \<noteq> None \<longrightarrow> ?k < q \<and> q < length content"
        using Suc.IH [OF k(2)] by blast
      then show ?thesis
        using 2 val \<open>i < ?k\<close> char_at_not_last [OF assms(1), of ?k "CHR ''}''"] by (auto simp: Let_def)
    qed
  qed simp
qed simp

lemma container_start:
  assumes "c_text content" "i < length content" "char_at content i c" "c \<noteq> CHR 0x00"
  shows "i < buffer_skip_whitespace content (i + 1)" "buffer_skip_whitespace content (i + 1) < length content"
  using char_at_not_last [OF assms(1,3,4)] skip_whitespace_bounds [of "i + 1" content] by auto

lemma parse_array_safe:
  assumes "c_text content" "depth < CJSON_NESTING_LIMIT \<Longrightarrow> safe_parser content (value (depth + 1))"
  shows "safe_parser content (parse_array value content depth)"
  unfolding safe_parser_def
proof (intro allI impI)
  fix i assume i: "i < length content"
  show "\<exists>r j. parse_array value content depth i = Some (r, j) \<and> (r \<noteq> None \<longrightarrow> i < j \<and> j < length content)"
  proof (cases "depth < CJSON_NESTING_LIMIT \<and> content ! i = CHR ''[''")
    case True
    let ?o = "buffer_skip_whitespace content (i + 1)"
    have o: "i < ?o" "?o < length content"
      using container_start [OF assms(1) i, of "CHR ''[''"] True i by (simp_all add: char_at_def)
    then obtain r j where "array_loop (length content) (value (depth + 1)) content [] (?o - 1) = Some (r, j)"
      "r \<noteq> None \<longrightarrow> ?o - 1 < j \<and> j < length content"
      using array_loop_safe [OF assms(1) assms(2), of "?o - 1" "length content" "[]"] True by fastforce
    then show ?thesis
      using True i o char_at_not_last [OF assms(1), of ?o "CHR '']''"] by (auto simp: parse_array_def Let_def)
  qed (use i in \<open>auto simp: parse_array_def\<close>)
qed

lemma parse_object_safe:
  assumes "c_text content" "depth < CJSON_NESTING_LIMIT \<Longrightarrow> safe_parser content (value (depth + 1))"
  shows "safe_parser content (parse_object value content depth)"
  unfolding safe_parser_def
proof (intro allI impI)
  fix i assume i: "i < length content"
  show "\<exists>r j. parse_object value content depth i = Some (r, j) \<and> (r \<noteq> None \<longrightarrow> i < j \<and> j < length content)"
  proof (cases "depth < CJSON_NESTING_LIMIT \<and> char_at content i (CHR ''{'')")
    case True
    let ?o = "buffer_skip_whitespace content (i + 1)"
    have o: "i < ?o" "?o < length content"
      using container_start [OF assms(1) i, of "CHR ''{''"] True by simp_all
    then obtain r j where "object_loop (length content) (value (depth + 1)) content [] (?o - 1) = Some (r, j)"
      "r \<noteq> None \<longrightarrow> ?o - 1 < j \<and> j < length content"
      using object_loop_safe [OF assms(1) assms(2), of "?o - 1" "length content" "[]"] True by fastforce
    then show ?thesis
      using True i o char_at_not_last [OF assms(1), of ?o "CHR ''}''"] by (auto simp: parse_object_def Let_def)
  qed (auto simp: parse_object_def)
qed

lemma starts_inside:
  assumes "c_text content" "starts content i word" "word \<noteq> []" "CHR 0x00 \<notin> set word"
  shows "i + length word < length content"
proof (rule ccontr)
  assume "\<not> i + length word < length content"
  then have "drop i content = word" using assms(2) by (auto simp: starts_def)
  then have "last content \<in> set word" using assms(3) by (metis drop_eq_Nil last_drop last_in_set linorder_not_less)
  then show False using assms(1,4) by (simp add: c_text_def)
qed

text \<open>Fuel for the levels of nesting that are left is enough.\<close>

lemma parse_value_safe:
  assumes "c_text content"
  shows "CJSON_NESTING_LIMIT < fuel + depth \<Longrightarrow> 0 < fuel \<Longrightarrow> safe_parser content (parse_value fuel content depth)"
proof (induction fuel arbitrary: depth)
  case (Suc fuel)
  have sub: "depth < CJSON_NESTING_LIMIT \<Longrightarrow> safe_parser content (parse_value fuel content (depth + 1))"
    using Suc by simp
  have word: "starts content i w \<Longrightarrow> w \<in> {''null'', ''false'', ''true''} \<Longrightarrow> i + length w < length content" for i w
    using starts_inside [OF assms] by fastforce
  have parts: "safe_parser content (parse_array (parse_value fuel content) content depth)"
    "safe_parser content (parse_object (parse_value fuel content) content depth)"
    "safe_parser content (parse_string content)" "safe_parser content (parse_number content)"
    using parse_array_safe [of content depth "parse_value fuel content", OF assms sub]
      parse_object_safe [of content depth "parse_value fuel content", OF assms sub]
      parse_string_safe [OF assms] parse_number_safe [OF assms] by simp_all
  let ?ok = "\<lambda>i res. \<exists>r j. res = Some (r, j) \<and> (r \<noteq> None \<longrightarrow> i < j \<and> j < length content)"
  have lit: "starts content i ''null'' \<Longrightarrow> ?ok i (Some (Some (x :: cJSON), i + 4))"
    "starts content i ''false'' \<Longrightarrow> ?ok i (Some (Some x, i + 5))"
    "starts content i ''true'' \<Longrightarrow> ?ok i (Some (Some x, i + 4))" for i x
    using word [of i "''null''"] word [of i "''false''"] word [of i "''true''"] by (auto simp: eval_nat_numeral)
  have str: "?ok i (map_option (apfst (map_option cJSON_String)) (parse_string content i))" if "i < length content" for i
    using parts(3) that by (cases rule: safe_parserE) auto
  have "?ok i (parse_value (Suc fuel) content depth i)" if i: "i < length content" for i
    unfolding parse_value.simps
    using lit [of i] str [OF i] parts(1,2,4) [unfolded safe_parser_def, rule_format, OF i]
    by (simp split: if_split del: not_None_eq option.inject) simp
  then show ?case unfolding safe_parser_def by blast
qed simp

text \<open>
  C6: the JSON parser is total and memory safe. For every text it returns a value or an error
  position inside the text: no read outside the text, no write outside the memory a string was
  given by the first scan, no recursion beyond the nesting limit.
\<close>

theorem cJSON_ParseWithOpts_total:
  "\<exists>r. cJSON_ParseWithOpts value strict = Some r \<and> (case r of Inl e \<Rightarrow> e \<le> length (c_string value) | Inr _ \<Rightarrow> True)"
proof -
  let ?c = "c_string value @ [CHR 0x00]"
  have t: "c_text ?c" by (simp add: c_text_def)
  have "skip_utf8_bom ?c 0 < length ?c" by (auto simp: skip_utf8_bom_def)
  then have o: "buffer_skip_whitespace ?c (skip_utf8_bom ?c 0) < length ?c" by (rule skip_whitespace_bounds(2))
  have "safe_parser ?c (parse_value (CJSON_NESTING_LIMIT + 1) ?c 0)" by (rule parse_value_safe [OF t]) simp_all
  from this o show ?thesis
  proof (cases rule: safe_parserE)
    case (1 j)
    then show ?thesis by (simp add: cJSON_ParseWithOpts_def Let_def del: parse_value.simps)
  next
    case (2 x j)
    then show ?thesis
      using skip_whitespace_bounds [OF 2(3)]
      by (auto simp: cJSON_ParseWithOpts_def Let_def simp del: parse_value.simps)
  qed
qed

end
