(* ===== verification/Arion_Ketopt.thy ===== *)
theory Arion_Ketopt
  imports Arion_Prelude "HOL-Library.Char_ord"
begin

text \<open>
  The option parser \<open>src/src/extern/ketopt.h\<close>. An argument is the C string without its NUL, so
  position \<open>length s\<close> reads as NUL and a later one is outside. The state keeps the C field names;
  a pointer to an option argument is the string it points to. A call returns its result with the
  state and the (possibly permuted) arguments, or \<open>None\<close> when it would read outside them.
\<close>

section \<open>State\<close>

record ketopt_t =
  ko_ind :: nat
  ko_opt :: int
  ko_arg :: "string option"
  ko_longidx :: int
  ko_i :: nat
  ko_pos :: int
  ko_n_args :: nat

record ko_longopt_t =
  lo_name :: string
  lo_has_arg :: int
  lo_val :: int

definition KETOPT_INIT :: ketopt_t where
  "KETOPT_INIT = \<lparr>ko_ind = 1, ko_opt = 0, ko_arg = None, ko_longidx = - 1, ko_i = 1, ko_pos = 0, ko_n_args = 0\<rparr>"

text \<open>Characters of a C string; \<open>char\<close> is signed.\<close>

definition NUL :: char where "NUL = CHR 0x00"

definition c_char :: "string \<Rightarrow> int \<Rightarrow> char option" where
  "c_char s p = (if p < 0 \<or> int (length s) < p then None else if p = int (length s) then Some NUL else Some (s ! nat p))"

definition char_int :: "char \<Rightarrow> int" where
  "char_int c = (let n = of_char c in if n < 128 then n else n - 256)"

definition argv_char :: "string list \<Rightarrow> nat \<Rightarrow> int \<Rightarrow> char option" where
  "argv_char argv i p = (if i < length argv then c_char (argv ! i) p else None)"

text \<open>Whether an argument is no option: it does not start with a dash, or is a single dash.\<close>

definition no_option :: "string \<Rightarrow> bool" where
  "no_option s \<longleftrightarrow> \<not> (2 \<le> length s \<and> hd s = CHR ''-'')"

section \<open>Permuting the arguments\<close>

text \<open>\<open>argv[j]\<close> moves over \<open>n\<close> elements to the left.\<close>

primrec permute_loop :: "nat \<Rightarrow> nat \<Rightarrow> nat \<Rightarrow> string list \<Rightarrow> string list" where
  "permute_loop 0 j k argv = argv"
| "permute_loop (Suc n) j k argv = permute_loop n j (k + 1) (argv[j - k := argv ! (j - k - 1)])"

definition ketopt_permute :: "string list \<Rightarrow> nat \<Rightarrow> nat \<Rightarrow> string list" where
  "ketopt_permute argv j n = (let p = argv ! j in (permute_loop n j 0 argv)[j - n := p])"

primrec permute_options :: "nat \<Rightarrow> nat \<Rightarrow> nat \<Rightarrow> string list \<Rightarrow> string list" where
  "permute_options 0 j n argv = argv"
| "permute_options (Suc m) j n argv = permute_options m (j + 1) n (ketopt_permute argv j n)"

text \<open>The arguments that are no options, counted from \<open>i\<close> on.\<close>

definition skip_arguments :: "string list \<Rightarrow> nat \<Rightarrow> nat" where
  "skip_arguments argv i = length (takeWhile no_option (drop i argv))"

section \<open>Long options\<close>

text \<open>
  The exact and the proper prefix matches of the name, as indices, in the order of the table; the
  code counts them and remembers the last of each.
\<close>

definition long_matches :: "string \<Rightarrow> ko_longopt_t list \<Rightarrow> bool \<Rightarrow> nat list" where
  "long_matches name longopts exact =
     filter (\<lambda>k. let n = lo_name (longopts ! k) in take (length name) n = name \<and> (length n = length name) = exact)
       [0..<length longopts]"

text \<open>
  A long option: \<open>Inl\<close> is the early return with \<open>'?'\<close>, \<open>Inr\<close> the option code with the state. The
  state comes with \<open>opt\<close> and \<open>pos\<close> already set.
\<close>

definition long_option :: "ko_longopt_t list \<Rightarrow> string list \<Rightarrow> ketopt_t \<Rightarrow> int + int \<times> ketopt_t" where
  "long_option longopts argv s =
     (let word = drop 2 (argv ! ko_i s);
          name = takeWhile (\<lambda>c. c \<noteq> CHR ''='') word;
          rest = drop (length name) word;
          exact = long_matches name longopts True; partial = long_matches name longopts False
      in if 1 < length exact \<or> exact = [] \<and> 1 < length partial then Inl (char_int CHR ''?'')
         else case (if length exact = 1 then Some (last exact) else if length partial = 1 then Some (last partial) else None) of
           None \<Rightarrow> Inr (char_int CHR ''?'', s)
         | Some k \<Rightarrow>
             (let lopt = longopts ! k; opt = lo_val lopt;
                  s = s\<lparr>ko_opt := opt, ko_longidx := int k\<rparr>;
                  s = (if rest \<noteq> [] then s\<lparr>ko_arg := Some (tl rest)\<rparr> else s)
              in if lo_has_arg lopt = 1 \<and> rest = []
                 then if ko_i s + 1 < length argv
                      then Inr (opt, s\<lparr>ko_i := ko_i s + 1, ko_arg := Some (argv ! (ko_i s + 1))\<rparr>)
                      else Inr (char_int CHR '':'', s)
                 else Inr (opt, s)))"

section \<open>Short options\<close>

text \<open>\<open>strchr\<close>: the rest of the option string from the character on.\<close>

definition strchr :: "string \<Rightarrow> char \<Rightarrow> string option" where
  "strchr s c = (let r = dropWhile (\<lambda>x. x \<noteq> c) s in if r \<noteq> [] then Some r else if c = NUL then Some [] else None)"

definition short_option :: "string \<Rightarrow> string list \<Rightarrow> ketopt_t \<Rightarrow> (int \<times> ketopt_t) option" where
  "short_option ostr argv s =
     (let pos = (if ko_pos s = 0 then 1 else ko_pos s)
      in do {
        c \<leftarrow> argv_char argv (ko_i s) pos;
        let s = s\<lparr>ko_opt := char_int c, ko_pos := pos + 1\<rparr>;
        case strchr ostr c of
          None \<Rightarrow> Some (char_int CHR ''?'', s)
        | Some p \<Rightarrow> do {
            p1 \<leftarrow> c_char p 1;
            if p1 \<noteq> CHR '':'' then Some (char_int c, s)
            else do {
              next_c \<leftarrow> argv_char argv (ko_i s) (ko_pos s);
              Some (if next_c = NUL
                then if ko_i s + 1 < length argv
                     then (char_int c, s\<lparr>ko_i := ko_i s + 1, ko_arg := Some (argv ! (ko_i s + 1)), ko_pos := - 1\<rparr>)
                     else (char_int CHR '':'', s\<lparr>ko_pos := - 1\<rparr>)
                else (char_int c, s\<lparr>ko_arg := Some (drop (nat (ko_pos s)) (argv ! ko_i s)), ko_pos := - 1\<rparr>))
            }
          }
      })"

section \<open>One option\<close>

text \<open>The end of a call: an argument that is used up is passed, and the options move to the front.\<close>

definition ketopt_finish :: "nat \<Rightarrow> string list \<Rightarrow> int \<Rightarrow> ketopt_t \<Rightarrow> (int \<times> ketopt_t \<times> string list) option" where
  "ketopt_finish i0 argv opt s = do {
     used \<leftarrow> (if ko_pos s < 0 then Some True else map_option (\<lambda>c. c = NUL) (argv_char argv (ko_i s) (ko_pos s)));
     let s = (if used then s\<lparr>ko_i := ko_i s + 1, ko_pos := 0\<rparr> else s);
     let argv = (if used \<and> 0 < ko_n_args s then permute_options (ko_i s - i0) i0 (ko_n_args s) argv else argv);
     Some (opt, s\<lparr>ko_ind := ko_i s - ko_n_args s\<rparr>, argv)
   }"

definition ketopt :: "ketopt_t \<Rightarrow> string list \<Rightarrow> bool \<Rightarrow> string \<Rightarrow> ko_longopt_t list option \<Rightarrow>
    (int \<times> ketopt_t \<times> string list) option" where
  "ketopt s argv permute ostr longopts =
     (let skipped = (if permute then skip_arguments argv (ko_i s) else 0);
          s = s\<lparr>ko_i := ko_i s + skipped, ko_n_args := ko_n_args s + skipped, ko_arg := None, ko_longidx := - 1\<rparr>;
          i0 = ko_i s
      in if length argv \<le> ko_i s \<or> no_option (argv ! ko_i s)
         then Some (- 1, s\<lparr>ko_ind := ko_i s - ko_n_args s\<rparr>, argv)
         else if argv ! ko_i s ! 1 = CHR ''-''
         then if argv ! ko_i s = ''--''
              then Some (- 1, s\<lparr>ko_i := ko_i s + 1, ko_ind := ko_i s + 1 - ko_n_args s\<rparr>,
                     ketopt_permute argv (ko_i s) (ko_n_args s))
              else let s = s\<lparr>ko_opt := 0, ko_pos := - 1\<rparr>
                in (case longopts of
                      None \<Rightarrow> ketopt_finish i0 argv (char_int CHR ''?'') s
                    | Some ls \<Rightarrow> (case long_option ls argv s of
                        Inl opt \<Rightarrow> Some (opt, s, argv)
                      | Inr (opt, s) \<Rightarrow> ketopt_finish i0 argv opt s))
         else do { (opt, s) \<leftarrow> short_option ostr argv s; ketopt_finish i0 argv opt s })"

section \<open>Progress\<close>

text \<open>
  Unless it reports the end, a call without long options consumes a character or an argument. It
  keeps the number of the arguments, and permutes them only when it consumed one.
\<close>

lemma length_permute_loop [simp]: "length (permute_loop n j k argv) = length argv"
  by (induction n arbitrary: k argv) auto

lemma length_ketopt_permute [simp]: "length (ketopt_permute argv j n) = length argv"
  by (simp add: ketopt_permute_def Let_def)

lemma length_permute_options [simp]: "length (permute_options m j n argv) = length argv"
  by (induction m arbitrary: j argv) auto

definition ketopt_measure :: "(ketopt_t \<times> string list) \<Rightarrow> nat \<times> nat" where
  "ketopt_measure = (\<lambda>(s, argv). (length argv - ko_i s,
     if ko_i s < length argv then nat (int (length (argv ! ko_i s)) + 1 - ko_pos s) else 0))"

lemma argv_char_inside:
  "argv_char argv i p = Some c \<Longrightarrow> i < length argv \<and> 0 \<le> p \<and> p \<le> int (length (argv ! i))"
  by (auto simp: argv_char_def c_char_def split: if_splits)

lemma ketopt_finish_advances:
  assumes "ketopt_finish i0 argv opt s = Some (c, s', argv')"
    "ko_i s < length argv" "i \<le> ko_i s" "i < ko_i s \<longrightarrow> ko_pos s < 0" "0 \<le> ko_pos s \<longrightarrow> pos < ko_pos s"
  shows "length argv' = length argv \<and> (i < ko_i s' \<or> argv' = argv \<and> ko_i s' = i \<and> pos < ko_pos s' \<and>
    ko_pos s' \<le> int (length (argv ! i)))"
  using assms argv_char_inside [of argv "ko_i s" "ko_pos s"]
  by (cases "argv_char argv (ko_i s) (ko_pos s)") (auto simp: ketopt_finish_def Let_def split: if_splits)

lemma short_option_advances:
  assumes "short_option ostr argv s = Some (opt, s')"
  shows "ko_i s < length argv \<and> ko_i s \<le> ko_i s' \<and> ko_i s' < length argv \<and> (ko_i s < ko_i s' \<longrightarrow> ko_pos s' < 0) \<and>
    (0 \<le> ko_pos s' \<longrightarrow> ko_pos s < ko_pos s')"
  using assms argv_char_inside
  by (fastforce simp: short_option_def Let_def split: option.splits if_splits bind_splits)

lemma ketopt_advances:
  assumes "ketopt s argv False ostr None = Some (c, s', argv')" "0 \<le> c"
  shows "length argv' = length argv \<and> ko_i s < length argv \<and>
    (ko_i s < ko_i s' \<or> argv' = argv \<and> ko_i s' = ko_i s \<and> ko_pos s < ko_pos s' \<and>
      ko_pos s' \<le> int (length (argv ! ko_i s)))"
proof -
  let ?s = "s\<lparr>ko_n_args := ko_n_args s, ko_arg := None, ko_longidx := - 1\<rparr>"
  have i: "ko_i s < length argv" "\<not> no_option (argv ! ko_i s)" "argv ! ko_i s \<noteq> ''--''"
    using assms by (auto simp: ketopt_def Let_def split: if_splits)
  show ?thesis
  proof (cases "argv ! ko_i s ! 1 = CHR ''-''")
    case True
    then have "ketopt_finish (ko_i s) argv (char_int CHR ''?'')
        (s\<lparr>ko_arg := None, ko_longidx := - 1, ko_opt := 0, ko_pos := - 1\<rparr>) = Some (c, s', argv')"
      using assms(1) i by (simp add: ketopt_def Let_def)
    from ketopt_finish_advances [OF this, of "ko_i s" "ko_pos s"] i(1) show ?thesis by simp
  next
    case False
    then obtain opt t where t: "short_option ostr argv (s\<lparr>ko_arg := None, ko_longidx := - 1\<rparr>) = Some (opt, t)"
      "ketopt_finish (ko_i s) argv opt t = Some (c, s', argv')"
      using assms(1) i by (auto simp: ketopt_def Let_def split: bind_splits)
    have "ko_i s \<le> ko_i t \<and> ko_i t < length argv \<and> (ko_i s < ko_i t \<longrightarrow> ko_pos t < 0) \<and> (0 \<le> ko_pos t \<longrightarrow> ko_pos s < ko_pos t)"
      using short_option_advances [OF t(1)] by simp
    then show ?thesis using ketopt_finish_advances [OF t(2), of "ko_i s" "ko_pos s"] i(1) by blast
  qed
qed

lemma ketopt_decreases:
  assumes "ketopt s argv False ostr None = Some (c, s', argv')" "0 \<le> c"
  shows "((s', argv'), (s, argv)) \<in> inv_image (less_than <*lex*> less_than) ketopt_measure"
  using ketopt_advances [OF assms] by (auto simp: ketopt_measure_def)

end
