(* ===== verification/Arion_Maps.thy ===== *)
theory Arion_Maps
  imports Arion_Datamodel
begin

text \<open>
  The daemon's registry of BPF maps and the operations on the tables it serves
  (\<open>src/src/dmn/trn_transit_xdp_usr.c\<close>): endpoints, CIDR security groups, security groups and
  port ranges. The BPF system calls are parameters, one record \<open>bpf_map_ops\<close> per map type, with
  the documented behaviour of an update, a lookup and a delete as the predicate \<open>map_law\<close>. The
  contract the callers use is the locale \<open>kv_table\<close>; every group of operations interprets it.
\<close>

section \<open>The system calls on a map\<close>

text \<open>
  \<open>'s\<close> is the kernel's state. A result other than 0 of update and delete, and \<open>None\<close> of a
  lookup, is the error of the call.
\<close>

record ('k, 'v, 's) bpf_map_ops =
  bm_update :: "int \<Rightarrow> 'k \<Rightarrow> 'v \<Rightarrow> 's \<Rightarrow> int \<times> 's"
  bm_lookup :: "int \<Rightarrow> 'k \<Rightarrow> 's \<Rightarrow> 'v option"
  bm_delete :: "int \<Rightarrow> 'k \<Rightarrow> 's \<Rightarrow> int \<times> 's"

definition map_law :: "('k, 'v, 's) bpf_map_ops \<Rightarrow> bool" where
  "map_law M \<longleftrightarrow>
     (\<forall>fd k v s r s' k'. bm_update M fd k v s = (r, s') \<longrightarrow>
        bm_lookup M fd k' s' = (if r = 0 \<and> k' = k then Some v else bm_lookup M fd k' s)) \<and>
     (\<forall>fd k s r s' k'. bm_delete M fd k s = (r, s') \<longrightarrow>
        bm_lookup M fd k' s' = (if r = 0 \<and> k' = k then None else bm_lookup M fd k' s))"

lemma map_law_update:
  "map_law M \<Longrightarrow> bm_update M fd k v s = (r, s') \<Longrightarrow>
   bm_lookup M fd k' s' = (if r = 0 \<and> k' = k then Some v else bm_lookup M fd k' s)"
  unfolding map_law_def by blast

lemma map_law_delete:
  "map_law M \<Longrightarrow> bm_delete M fd k s = (r, s') \<Longrightarrow>
   bm_lookup M fd k' s' = (if r = 0 \<and> k' = k then None else bm_lookup M fd k' s)"
  unfolding map_law_def by blast

record 's map_kernel =
  k_endpoints :: "(endpoint_key_t, endpoint_t, 's) bpf_map_ops"
  k_sg_cidr :: "(sg_cidr_key_t, sg_cidr_t, 's) bpf_map_ops"
  k_security_group :: "(security_group_key_t, security_group_t, 's) bpf_map_ops"
  k_port_range :: "(port_range_key_t, port_range_t, 's) bpf_map_ops"
  k_if_config :: "(u32, tunnel_iface_t, 's) bpf_map_ops"
  k_jmp_table :: "(nat, int, 's) bpf_map_ops"
  k_interfaces :: "(u32, u32, 's) bpf_map_ops"

section \<open>The registry\<close>

record trn_xdp_map_t =
  xm_name :: string
  xm_shared :: bool
  xm_fd :: int
  xm_map :: "nat option"

definition trn_xdp_bpfmaps :: "trn_xdp_map_t list" where
  "trn_xdp_bpfmaps =
     map (\<lambda>(name, shared). \<lparr>xm_name = name, xm_shared = shared, xm_fd = - 1, xm_map = None\<rparr>)
       [(''jmp_table'', True), (''endpoints_map'', True), (''if_config_map'', True),
        (''interfaces_map'', True), (''sg_cidr_map'', True), (''security_group_map'', True),
        (''port_range_map'', True), (''xsks_map'', True), (''xdpcap_hook'', False)]"

text \<open>\<open>trn_transit_map_get\<close> gives the index of the element the C code points to.\<close>

primrec trn_transit_map_get :: "trn_xdp_map_t list \<Rightarrow> string \<Rightarrow> nat option" where
  "trn_transit_map_get [] name = None"
| "trn_transit_map_get (m # ms) name =
     (if xm_name m = name then Some 0 else map_option Suc (trn_transit_map_get ms name))"

definition trn_transit_map_get_fd :: "trn_xdp_map_t list \<Rightarrow> string \<Rightarrow> int" where
  "trn_transit_map_get_fd ms name =
     (case trn_transit_map_get ms name of None \<Rightarrow> - 1 | Some i \<Rightarrow> xm_fd (ms ! i))"

definition trn_transit_map_hash :: "trn_xdp_map_t list \<Rightarrow> int \<times> trn_xdp_map_t list" where
  "trn_transit_map_hash ms = (0, map (\<lambda>m. m\<lparr>xm_fd := - 1, xm_map := None\<rparr>) ms)"

lemma trn_transit_map_get_Some:
  "trn_transit_map_get ms name = Some i \<Longrightarrow> i < length ms \<and> xm_name (ms ! i) = name"
  by (induction ms arbitrary: i) (auto split: if_splits)

lemma trn_transit_map_get_None:
  "trn_transit_map_get ms name = None \<longleftrightarrow> name \<notin> xm_name ` set ms"
  by (induction ms) auto

lemma trn_transit_map_get_first:
  "trn_transit_map_get ms name = Some i \<Longrightarrow> j < i \<Longrightarrow> xm_name (ms ! j) \<noteq> name"
proof (induction ms arbitrary: i j)
  case (Cons m ms)
  then show ?case by (cases j) (auto split: if_splits)
qed simp

section \<open>The daemon's state for its tables\<close>

record 's tables =
  tb_kern :: 's
  tb_maps :: "trn_xdp_map_t list"

section \<open>Endpoints\<close>

definition trn_update_endpoints_get_ctx :: "('s, 'x) tables_scheme \<Rightarrow> int" where
  "trn_update_endpoints_get_ctx st = trn_transit_map_get_fd (tb_maps st) ''endpoints_map''"

definition trn_update_endpoint ::
  "('s, 'z) map_kernel_scheme \<Rightarrow> int \<Rightarrow> endpoint_key_t \<Rightarrow> endpoint_t \<Rightarrow> ('s, 'x) tables_scheme \<Rightarrow>
   int \<times> ('s, 'x) tables_scheme" where
  "trn_update_endpoint K fd epkey ep st =
     (if fd < 0 then (1, st)
      else let (err, k) = bm_update (k_endpoints K) fd epkey ep (tb_kern st); st = st\<lparr>tb_kern := k\<rparr>
        in if err \<noteq> 0 then (1, st) else (0, st))"

definition trn_get_endpoint ::
  "('s, 'z) map_kernel_scheme \<Rightarrow> endpoint_key_t \<Rightarrow> ('s, 'x) tables_scheme \<Rightarrow> int \<times> endpoint_t option" where
  "trn_get_endpoint K epkey st =
     (let fd = trn_transit_map_get_fd (tb_maps st) ''endpoints_map''
      in if fd < 0 then (1, None)
         else case bm_lookup (k_endpoints K) fd epkey (tb_kern st) of
                None \<Rightarrow> (1, None)
              | Some ep \<Rightarrow> (0, Some ep))"

definition trn_delete_endpoint ::
  "('s, 'z) map_kernel_scheme \<Rightarrow> endpoint_key_t \<Rightarrow> ('s, 'x) tables_scheme \<Rightarrow>
   int \<times> ('s, 'x) tables_scheme" where
  "trn_delete_endpoint K epkey st =
     (let fd = trn_transit_map_get_fd (tb_maps st) ''endpoints_map''
      in if fd < 0 then (1, st)
         else case bm_lookup (k_endpoints K) fd epkey (tb_kern st) of
                None \<Rightarrow> (1, st)
              | Some ep \<Rightarrow>
                  let (err, k) = bm_delete (k_endpoints K) fd epkey (tb_kern st); st = st\<lparr>tb_kern := k\<rparr>
                  in if err \<noteq> 0 then (1, st) else (0, st))"

section \<open>CIDR security groups\<close>

definition trn_update_sg_cidr_get_ctx :: "('s, 'x) tables_scheme \<Rightarrow> int" where
  "trn_update_sg_cidr_get_ctx st = trn_transit_map_get_fd (tb_maps st) ''sg_cidr_map''"

definition trn_update_sg_cidr ::
  "('s, 'z) map_kernel_scheme \<Rightarrow> int \<Rightarrow> sg_cidr_key_t \<Rightarrow> sg_cidr_t \<Rightarrow> ('s, 'x) tables_scheme \<Rightarrow>
   int \<times> ('s, 'x) tables_scheme" where
  "trn_update_sg_cidr K fd epkey ep st =
     (if fd < 0 then (1, st)
      else let (err, k) = bm_update (k_sg_cidr K) fd epkey ep (tb_kern st); st = st\<lparr>tb_kern := k\<rparr>
        in if err \<noteq> 0 then (1, st) else (0, st))"

definition trn_get_sg_cidr ::
  "('s, 'z) map_kernel_scheme \<Rightarrow> sg_cidr_key_t \<Rightarrow> ('s, 'x) tables_scheme \<Rightarrow> int \<times> sg_cidr_t option" where
  "trn_get_sg_cidr K epkey st =
     (let fd = trn_transit_map_get_fd (tb_maps st) ''sg_cidr_map''
      in if fd < 0 then (1, None)
         else case bm_lookup (k_sg_cidr K) fd epkey (tb_kern st) of
                None \<Rightarrow> (1, None)
              | Some ep \<Rightarrow> (0, Some ep))"

definition trn_delete_sg_cidr ::
  "('s, 'z) map_kernel_scheme \<Rightarrow> sg_cidr_key_t \<Rightarrow> ('s, 'x) tables_scheme \<Rightarrow>
   int \<times> ('s, 'x) tables_scheme" where
  "trn_delete_sg_cidr K epkey st =
     (let fd = trn_transit_map_get_fd (tb_maps st) ''sg_cidr_map''
      in if fd < 0 then (1, st)
         else case bm_lookup (k_sg_cidr K) fd epkey (tb_kern st) of
                None \<Rightarrow> (1, st)
              | Some ep \<Rightarrow>
                  let (err, k) = bm_delete (k_sg_cidr K) fd epkey (tb_kern st); st = st\<lparr>tb_kern := k\<rparr>
                  in if err \<noteq> 0 then (1, st) else (0, st))"

section \<open>Security groups\<close>

definition trn_update_sg_get_ctx :: "('s, 'x) tables_scheme \<Rightarrow> int" where
  "trn_update_sg_get_ctx st = trn_transit_map_get_fd (tb_maps st) ''security_group_map''"

definition trn_update_sg ::
  "('s, 'z) map_kernel_scheme \<Rightarrow> int \<Rightarrow> security_group_key_t \<Rightarrow> security_group_t \<Rightarrow> ('s, 'x) tables_scheme \<Rightarrow>
   int \<times> ('s, 'x) tables_scheme" where
  "trn_update_sg K fd epkey ep st =
     (if fd < 0 then (1, st)
      else let (err, k) = bm_update (k_security_group K) fd epkey ep (tb_kern st); st = st\<lparr>tb_kern := k\<rparr>
        in if err \<noteq> 0 then (1, st) else (0, st))"

definition trn_get_sg ::
  "('s, 'z) map_kernel_scheme \<Rightarrow> security_group_key_t \<Rightarrow> ('s, 'x) tables_scheme \<Rightarrow> int \<times> security_group_t option" where
  "trn_get_sg K epkey st =
     (let fd = trn_transit_map_get_fd (tb_maps st) ''security_group_map''
      in if fd < 0 then (1, None)
         else case bm_lookup (k_security_group K) fd epkey (tb_kern st) of
                None \<Rightarrow> (1, None)
              | Some ep \<Rightarrow> (0, Some ep))"

definition trn_delete_sg ::
  "('s, 'z) map_kernel_scheme \<Rightarrow> security_group_key_t \<Rightarrow> ('s, 'x) tables_scheme \<Rightarrow>
   int \<times> ('s, 'x) tables_scheme" where
  "trn_delete_sg K epkey st =
     (let fd = trn_transit_map_get_fd (tb_maps st) ''security_group_map''
      in if fd < 0 then (1, st)
         else case bm_lookup (k_security_group K) fd epkey (tb_kern st) of
                None \<Rightarrow> (1, st)
              | Some ep \<Rightarrow>
                  let (err, k) = bm_delete (k_security_group K) fd epkey (tb_kern st); st = st\<lparr>tb_kern := k\<rparr>
                  in if err \<noteq> 0 then (1, st) else (0, st))"

section \<open>Port ranges\<close>

definition trn_update_port_range_get_ctx :: "('s, 'x) tables_scheme \<Rightarrow> int" where
  "trn_update_port_range_get_ctx st = trn_transit_map_get_fd (tb_maps st) ''port_range_map''"

definition trn_update_port_range ::
  "('s, 'z) map_kernel_scheme \<Rightarrow> int \<Rightarrow> port_range_key_t \<Rightarrow> port_range_t \<Rightarrow> ('s, 'x) tables_scheme \<Rightarrow>
   int \<times> ('s, 'x) tables_scheme" where
  "trn_update_port_range K fd epkey ep st =
     (if fd < 0 then (1, st)
      else let (err, k) = bm_update (k_port_range K) fd epkey ep (tb_kern st); st = st\<lparr>tb_kern := k\<rparr>
        in if err \<noteq> 0 then (1, st) else (0, st))"

definition trn_get_port_range ::
  "('s, 'z) map_kernel_scheme \<Rightarrow> port_range_key_t \<Rightarrow> ('s, 'x) tables_scheme \<Rightarrow> int \<times> port_range_t option" where
  "trn_get_port_range K epkey st =
     (let fd = trn_transit_map_get_fd (tb_maps st) ''port_range_map''
      in if fd < 0 then (1, None)
         else case bm_lookup (k_port_range K) fd epkey (tb_kern st) of
                None \<Rightarrow> (1, None)
              | Some ep \<Rightarrow> (0, Some ep))"

definition trn_delete_port_range ::
  "('s, 'z) map_kernel_scheme \<Rightarrow> port_range_key_t \<Rightarrow> ('s, 'x) tables_scheme \<Rightarrow>
   int \<times> ('s, 'x) tables_scheme" where
  "trn_delete_port_range K epkey st =
     (let fd = trn_transit_map_get_fd (tb_maps st) ''port_range_map''
      in if fd < 0 then (1, st)
         else case bm_lookup (k_port_range K) fd epkey (tb_kern st) of
                None \<Rightarrow> (1, st)
              | Some ep \<Rightarrow>
                  let (err, k) = bm_delete (k_port_range K) fd epkey (tb_kern st); st = st\<lparr>tb_kern := k\<rparr>
                  in if err \<noteq> 0 then (1, st) else (0, st))"

section \<open>The interface configuration\<close>

definition trn_update_itf_config ::
  "('s, 'z) map_kernel_scheme \<Rightarrow> tunnel_iface_t \<Rightarrow> ('s, 'x) tables_scheme \<Rightarrow>
   int \<times> ('s, 'x) tables_scheme" where
  "trn_update_itf_config K itf st =
     (let fd = trn_transit_map_get_fd (tb_maps st) ''if_config_map''
      in if fd < 0 then (1, st)
         else let (err, k) = bm_update (k_if_config K) fd (iface_index itf) itf (tb_kern st);
                  st = st\<lparr>tb_kern := k\<rparr>
           in if err \<noteq> 0 then (1, st) else (0, st))"

section \<open>The contract of a table\<close>

text \<open>A batch of insertions that stops at the first error, as the update handlers do it.\<close>

primrec put_all :: "('key \<Rightarrow> 'val \<Rightarrow> 'st \<Rightarrow> int \<times> 'st) \<Rightarrow> ('key \<times> 'val) list \<Rightarrow> 'st \<Rightarrow> int \<times> 'st" where
  "put_all put [] st = (0, st)"
| "put_all put (kv # kvs) st =
     (case put (fst kv) (snd kv) st of (r, st') \<Rightarrow> if r \<noteq> 0 then (r, st') else put_all put kvs st')"

text \<open>
  What the handlers rely on: \<open>find\<close> is the content; a successful \<open>put\<close> or \<open>del\<close> changes the
  content at its key and nowhere else, and one that fails changes nothing. \<open>ok\<close> is the
  hypothesis about the kernel the operations run on.
\<close>

locale kv_table =
  fixes put :: "'key \<Rightarrow> 'val \<Rightarrow> 'st \<Rightarrow> int \<times> 'st"
    and find :: "'key \<Rightarrow> 'st \<Rightarrow> 'val option"
    and del :: "'key \<Rightarrow> 'st \<Rightarrow> int \<times> 'st"
    and ok :: bool
  assumes put_result: "ok \<Longrightarrow> put k v st = (r, st') \<Longrightarrow> r = 0 \<or> r = 1"
    and put_find: "ok \<Longrightarrow> put k v st = (r, st') \<Longrightarrow>
      find k' st' = (if r = 0 \<and> k' = k then Some v else find k' st)"
    and del_result: "ok \<Longrightarrow> del k st = (r, st') \<Longrightarrow> r = 0 \<or> r = 1"
    and del_find: "ok \<Longrightarrow> del k st = (r, st') \<Longrightarrow>
      find k' st' = (if r = 0 \<and> k' = k then None else find k' st)"
    and del_absent: "ok \<Longrightarrow> find k st = None \<Longrightarrow> fst (del k st) = 1"
begin

lemma put_all_find:
  assumes ok "put_all put kvs st = (0, st')"
  shows "find k st' = (case map_of (rev kvs) k of Some v \<Rightarrow> Some v | None \<Rightarrow> find k st)"
  using assms(2)
proof (induction kvs arbitrary: st)
  case (Cons kv kvs)
  obtain r s1 where p: "put (fst kv) (snd kv) st = (r, s1)" by fastforce
  with Cons.prems have r: "r = 0" "put_all put kvs s1 = (0, st')" by (auto split: if_splits)
  have "find k s1 = (if k = fst kv then Some (snd kv) else find k st)"
    using put_find [OF assms(1) p, of k] r(1) by simp
  then show ?case
    using Cons.IH [OF r(2)] by (cases kv) (auto simp: map_add_def split: option.splits)
qed simp

lemma put_all_stops:
  assumes ok "put_all put kvs st = (r, st')" "r \<noteq> 0"
  shows "\<exists>n<length kvs. \<exists>s1. put_all put (take n kvs) st = (0, s1) \<and> (\<forall>k. find k st' = find k s1)"
  using assms(2)
proof (induction kvs arbitrary: st)
  case (Cons kv kvs)
  obtain q s1 where p: "put (fst kv) (snd kv) st = (q, s1)" by fastforce
  show ?case
  proof (cases "q = 0")
    case True
    with Cons.prems p have "put_all put kvs s1 = (r, st')" by simp
    then obtain n s2 where "n < length kvs" "put_all put (take n kvs) s1 = (0, s2)" "\<forall>k. find k st' = find k s2"
      using Cons.IH by blast
    then show ?thesis using True p by (intro exI [of _ "Suc n"]) simp
  next
    case False
    with Cons.prems p have "s1 = st'" by simp
    then show ?thesis using put_find [OF assms(1) p] False by (intro exI [of _ 0]) simp
  qed
qed (use assms(3) in simp)

lemma put_all_result:
  assumes ok "put_all put kvs st = (r, st')" shows "r = 0 \<or> r = 1"
  using assms(2)
proof (induction kvs arbitrary: st)
  case (Cons kv kvs)
  then show ?case using put_result [OF assms(1)] by (auto split: prod.splits if_splits) metis
qed simp

lemma put_del_find:
  assumes ok "put k v st = (0, st1)" "del k st1 = (0, st2)"
  shows "find k' st2 = (if k' = k then None else find k' st)"
  using put_find [OF assms(1,2), of k'] del_find [OF assms(1,3), of k'] by auto

end

section \<open>Every table of the daemon honours the contract\<close>

lemmas table_op_defs = trn_update_endpoint_def trn_get_endpoint_def trn_delete_endpoint_def
  trn_update_endpoints_get_ctx_def trn_update_sg_cidr_def trn_get_sg_cidr_def trn_delete_sg_cidr_def
  trn_update_sg_cidr_get_ctx_def trn_update_sg_def trn_get_sg_def trn_delete_sg_def
  trn_update_sg_get_ctx_def trn_update_port_range_def trn_get_port_range_def
  trn_delete_port_range_def trn_update_port_range_get_ctx_def

interpretation ep_tab: kv_table
    "\<lambda>k v st. trn_update_endpoint K (trn_update_endpoints_get_ctx st) k v st"
    "\<lambda>k st. snd (trn_get_endpoint K k st)" "\<lambda>k st. trn_delete_endpoint K k st"
    "map_law (k_endpoints K)" for K
  by unfold_locales
    (auto simp: table_op_defs Let_def map_law_update map_law_delete
      split: if_splits prod.splits option.splits)

interpretation sgc_tab: kv_table
    "\<lambda>k v st. trn_update_sg_cidr K (trn_update_sg_cidr_get_ctx st) k v st"
    "\<lambda>k st. snd (trn_get_sg_cidr K k st)" "\<lambda>k st. trn_delete_sg_cidr K k st"
    "map_law (k_sg_cidr K)" for K
  by unfold_locales
    (auto simp: table_op_defs Let_def map_law_update map_law_delete
      split: if_splits prod.splits option.splits)

interpretation sg_tab: kv_table
    "\<lambda>k v st. trn_update_sg K (trn_update_sg_get_ctx st) k v st"
    "\<lambda>k st. snd (trn_get_sg K k st)" "\<lambda>k st. trn_delete_sg K k st"
    "map_law (k_security_group K)" for K
  by unfold_locales
    (auto simp: table_op_defs Let_def map_law_update map_law_delete
      split: if_splits prod.splits option.splits)

interpretation pr_tab: kv_table
    "\<lambda>k v st. trn_update_port_range K (trn_update_port_range_get_ctx st) k v st"
    "\<lambda>k st. snd (trn_get_port_range K k st)" "\<lambda>k st. trn_delete_port_range K k st"
    "map_law (k_port_range K)" for K
  by unfold_locales
    (auto simp: table_op_defs Let_def map_law_update map_law_delete
      split: if_splits prod.splits option.splits)

end
