(* ===== verification/Arion_Loader.thy ===== *)
theory Arion_Loader
  imports Arion_Maps
begin

text \<open>
  Loading and unloading the XDP programs (\<open>src/src/dmn/trn_transit_xdp_usr.c\<close>): the program
  tables, the customisation of an object before it is loaded and the pinning of its maps after,
  the initialisation of the jump table and the redirect map, and the four entry points the RPC
  handlers call. libbpf and the system calls are the record \<open>kernel\<close>, an extension of the map
  calls, over a state \<open>'s\<close>; an object, a map handle and a file descriptor are numbers. Loops
  over an object's maps are recursions over the list libbpf enumerates.
\<close>

section \<open>Data\<close>

record trn_prog_t =
  pg_fd :: int
  pg_id :: u32
  pg_obj :: "nat option"
  pg_pcapfile :: string

record trn_iface_t =
  tif_ip :: u32
  tif_index :: u32
  tif_ibo_port :: u16
  tif_protocol :: u8
  tif_role :: u8
  tif_mac :: mac6

record trn_xdp_object_t =
  xo_eth :: trn_iface_t
  xo_xdp :: trn_prog_t

record user_metadata_t =
  md_ready :: bool
  md_xdp_flags :: u32
  md_objs :: "trn_xdp_object_t list"
  md_prog_tbl :: "string list"
  md_ebpf_progs :: "trn_prog_t list"

record 's daemon = "'s tables" +
  dm_md :: "user_metadata_t option"

record 's kernel = "'s map_kernel" +
  k_if_nametoindex :: "string \<Rightarrow> u32"
  k_setrlimit :: "'s \<Rightarrow> int \<times> 's"
  k_malloc_ok :: "'s \<Rightarrow> bool"
  k_open :: "string \<Rightarrow> 's \<Rightarrow> nat option \<times> 's"
  k_num_progs :: "nat \<Rightarrow> 's \<Rightarrow> nat"
  k_set_progs :: "nat \<Rightarrow> 's \<Rightarrow> 's"
  k_maps :: "nat \<Rightarrow> 's \<Rightarrow> (string \<times> nat) list"
  k_set_ifindex :: "nat \<Rightarrow> 's \<Rightarrow> 's"
  k_reuse_fd :: "nat \<Rightarrow> int \<Rightarrow> 's \<Rightarrow> int \<times> 's"
  k_load :: "nat \<Rightarrow> 's \<Rightarrow> int \<times> 's"
  k_first_prog_fd :: "nat \<Rightarrow> 's \<Rightarrow> int"
  k_obj_get :: "string \<Rightarrow> 's \<Rightarrow> int \<times> 's"
  k_close :: "int \<Rightarrow> 's \<Rightarrow> 's"
  k_pin :: "nat \<Rightarrow> string \<Rightarrow> 's \<Rightarrow> int \<times> 's"
  k_unpin :: "nat option \<Rightarrow> string \<Rightarrow> 's \<Rightarrow> 's"
  k_map_fd :: "nat \<Rightarrow> 's \<Rightarrow> int"
  k_obj_close :: "nat option \<Rightarrow> 's \<Rightarrow> 's"
  k_attach :: "u32 \<Rightarrow> int \<Rightarrow> u32 \<Rightarrow> 's \<Rightarrow> int \<times> 's"
  k_query_id :: "u32 \<Rightarrow> u32 \<Rightarrow> 's \<Rightarrow> int \<times> u32"
  k_prog_info :: "int \<Rightarrow> 's \<Rightarrow> int \<times> u32"

definition TRAN_MAX_PROG_N :: nat where [simp]: "TRAN_MAX_PROG_N = 5"
definition TRAN_ITF_MAP_MAX_N :: nat where [simp]: "TRAN_ITF_MAP_MAX_N = 2"
definition XDP_FLAGS_SKB_MODE :: u32 where "XDP_FLAGS_SKB_MODE = 2"

definition trn_prog_tbl :: "string list" where
  "trn_prog_tbl = [''/trn_xdp/trn_transit_xdp_ebpf.o'', ''/trn_xdp/trn_transit_tx_proc_xdp_ebpf.o'',
     ''/trn_xdp/trn_transit_pass_proc_xdp_ebpf.o'', ''/trn_xdp/trn_transit_redirect_proc_xdp_ebpf.o'',
     ''/trn_xdp/trn_transit_drop_proc_xdp_ebpf.o'']"

definition trn_prog_dbg_tbl :: "string list" where
  "trn_prog_dbg_tbl = [''/trn_xdp/trn_transit_xdp_ebpf_debug.o'',
     ''/trn_xdp/trn_transit_tx_proc_xdp_ebpf_debug.o'', ''/trn_xdp/trn_transit_pass_proc_xdp_ebpf_debug.o'',
     ''/trn_xdp/trn_transit_redirect_proc_xdp_ebpf_debug.o'', ''/trn_xdp/trn_transit_drop_proc_xdp_ebpf_debug.o'']"

text \<open>Role and tunnel protocol of the interface at an index: tenants, then ZGC.\<close>

definition trn_xdp_itf_def :: "(u8 \<times> u8) list" where
  "trn_xdp_itf_def = [(role_code XDP_FWD, tunnel_protocol_code XDP_TUNNEL_VXLAN),
     (role_code XDP_FTN, tunnel_protocol_code XDP_TUNNEL_GENEVE)]"

definition pin_path :: string where "pin_path = ''/sys/fs/bpf''"

section \<open>Before and after loading an object\<close>

text \<open>One map of the object before loading: adopt the handle, reuse a shared map's descriptor.\<close>

primrec pre_load_maps :: "('s, 'z) kernel_scheme \<Rightarrow> (string \<times> nat) list \<Rightarrow> ('s, 'x) tables_scheme \<Rightarrow>
    int \<times> ('s, 'x) tables_scheme" where
  "pre_load_maps K [] st = (0, st)"
| "pre_load_maps K (m # ms) st =
     (let (map_name, h) = m; st = st\<lparr>tb_kern := k_set_ifindex K h (tb_kern st)\<rparr>
      in case trn_transit_map_get (tb_maps st) map_name of
           None \<Rightarrow> pre_load_maps K ms st
         | Some i \<Rightarrow>
             let st = (if xm_map (tb_maps st ! i) = None
                       then st\<lparr>tb_maps := (tb_maps st)[i := (tb_maps st ! i)\<lparr>xm_map := Some h\<rparr>]\<rparr> else st);
                 xdpmap = tb_maps st ! i
             in if xm_shared xdpmap \<and> xm_fd xdpmap \<ge> 0
                then let (err, k) = k_reuse_fd K h (xm_fd xdpmap) (tb_kern st); st = st\<lparr>tb_kern := k\<rparr>
                  in if err \<noteq> 0 then (1, st) else pre_load_maps K ms st
                else pre_load_maps K ms st)"

definition trn_transit_xdp_pre_load :: "('s, 'z) kernel_scheme \<Rightarrow> trn_prog_t \<Rightarrow> ('s, 'x) tables_scheme \<Rightarrow>
    int \<times> ('s, 'x) tables_scheme" where
  "trn_transit_xdp_pre_load K prog st =
     (case pg_obj prog of
        None \<Rightarrow> (1, st)
      | Some obj \<Rightarrow>
          let st = st\<lparr>tb_kern := k_set_progs K obj (tb_kern st)\<rparr>
          in if k_num_progs K obj (tb_kern st) = 0 then (1, st)
             else pre_load_maps K (k_maps K obj (tb_kern st)) st)"

text \<open>The pin file of a map, \<open>None\<close> when the generated path does not fit the buffer.\<close>

definition map_pin_file :: "nat \<Rightarrow> trn_prog_t \<Rightarrow> string \<Rightarrow> string option" where
  "map_pin_file prog_idx prog map_name =
     (if prog_idx = prog_id_code TRAN_TRANSIT_PROG \<and> map_name = ''xdpcap_hook_map''
      then Some (pg_pcapfile prog)
      else let buf = pin_path @ ''/'' @ map_name
        in if length buf \<ge> TRAN_MAX_PATH_SIZE then None else Some buf)"

primrec post_load_maps :: "('s, 'z) kernel_scheme \<Rightarrow> nat \<Rightarrow> trn_prog_t \<Rightarrow> (string \<times> nat) list \<Rightarrow>
    ('s, 'x) tables_scheme \<Rightarrow> int \<times> ('s, 'x) tables_scheme" where
  "post_load_maps K prog_idx prog [] st = (0, st)"
| "post_load_maps K prog_idx prog (m # ms) st =
     (let (map_name, h) = m
      in case trn_transit_map_get (tb_maps st) map_name of
           None \<Rightarrow> post_load_maps K prog_idx prog ms st
         | Some i \<Rightarrow>
             (case map_pin_file prog_idx prog map_name of
                None \<Rightarrow> (1, st)
              | Some pinfile \<Rightarrow>
                  let (fd, k) = k_obj_get K pinfile (tb_kern st);
                      (err, k) = (if fd \<ge> 0 then (0, k_close K fd k) else k_pin K h pinfile k);
                      st = st\<lparr>tb_kern := k\<rparr>;
                      xdpmap = tb_maps st ! i
                  in if err \<noteq> 0 then (1, st)
                     else post_load_maps K prog_idx prog ms
                       (if xm_shared xdpmap \<and> xm_fd xdpmap < 0
                        then st\<lparr>tb_maps := (tb_maps st)[i := xdpmap\<lparr>xm_fd := k_map_fd K h k\<rparr>]\<rparr>
                        else st)))"

definition trn_transit_xdp_post_load :: "('s, 'z) kernel_scheme \<Rightarrow> trn_prog_t \<Rightarrow> nat \<Rightarrow>
    ('s, 'x) tables_scheme \<Rightarrow> int \<times> trn_prog_t \<times> ('s, 'x) tables_scheme" where
  "trn_transit_xdp_post_load K prog prog_idx st =
     (case pg_obj prog of
        None \<Rightarrow> (1, prog, st)
      | Some obj \<Rightarrow>
          if k_num_progs K obj (tb_kern st) = 0 then (1, prog, st)
          else let prog = prog\<lparr>pg_fd := k_first_prog_fd K obj (tb_kern st)\<rparr>;
                   (err, st) = post_load_maps K prog_idx prog (k_maps K obj (tb_kern st)) st
            in (err, prog, st))"

text \<open>Steps 2 to 4 of \<open>trn_prog_load\<close>, on the opened object, with the cleanup label.\<close>

definition prog_load_opened :: "('s, 'z) kernel_scheme \<Rightarrow> trn_prog_t \<Rightarrow> nat \<Rightarrow> nat \<Rightarrow>
    ('s, 'x) tables_scheme \<Rightarrow> int \<times> trn_prog_t \<times> ('s, 'x) tables_scheme" where
  "prog_load_opened K prog ob prog_idx st =
     (let cleanup = (\<lambda>prog st. (1, prog\<lparr>pg_obj := None\<rparr>,
            st\<lparr>tb_kern := k_obj_close K (pg_obj prog) (tb_kern st)\<rparr>))
      in case trn_transit_xdp_pre_load K prog st of
           (err, st) \<Rightarrow>
             if err \<noteq> 0 then cleanup prog st
             else (case k_load K ob (tb_kern st) of
               (err, k) \<Rightarrow>
                 let st = st\<lparr>tb_kern := k\<rparr>
                 in if err \<noteq> 0 then cleanup prog st
                    else (case trn_transit_xdp_post_load K prog prog_idx st of
                      (err, prog, st) \<Rightarrow> if err \<noteq> 0 then cleanup prog st else (0, prog, st))))"

text \<open>
  \<open>trn_prog_load\<close> reads the path out of \<open>md\<close> before it checks \<open>md\<close>; \<open>path\<close> is what it read. The
  program descriptor comes back updated.
\<close>

definition trn_prog_load :: "('s, 'z) kernel_scheme \<Rightarrow> string \<Rightarrow> trn_prog_t \<Rightarrow> nat \<Rightarrow>
    ('s, 'x) tables_scheme \<Rightarrow> int \<times> trn_prog_t \<times> ('s, 'x) tables_scheme" where
  "trn_prog_load K path prog prog_idx st =
     (let st = (if pg_obj prog \<noteq> None then st\<lparr>tb_kern := k_obj_close K (pg_obj prog) (tb_kern st)\<rparr> else st);
          (obj, k) = k_open K path (tb_kern st);
          st = st\<lparr>tb_kern := k\<rparr>;
          prog = prog\<lparr>pg_obj := obj\<rparr>
      in case obj of
           None \<Rightarrow> (1, prog, st)
         | Some ob \<Rightarrow> prog_load_opened K prog ob prog_idx st)"

section \<open>Initialising the maps\<close>

primrec init_jmp_table :: "('s, 'z) kernel_scheme \<Rightarrow> int \<Rightarrow> user_metadata_t \<Rightarrow> nat list \<Rightarrow>
    ('s, 'x) tables_scheme \<Rightarrow> int \<times> ('s, 'x) tables_scheme" where
  "init_jmp_table K fd md [] st = (0, st)"
| "init_jmp_table K fd md (idx # is) st =
     (let (err, k) = bm_update (k_jmp_table K) fd idx (pg_fd (md_ebpf_progs md ! idx)) (tb_kern st);
          st = st\<lparr>tb_kern := k\<rparr>
      in if err \<noteq> 0 then (1, st) else init_jmp_table K fd md is st)"

text \<open>
  The key of \<open>interfaces_map\<close> is an \<open>int\<close>, and the code passes \<open>&eth->role\<close>: the kernel reads the
  role byte and the three bytes after it, the start of \<open>mac\<close>.
\<close>

definition interfaces_key :: "trn_iface_t \<Rightarrow> u32" where
  "interfaces_key eth = (case mac_bytes (tif_mac eth) of
     m0 # m1 # m2 # _ \<Rightarrow> le32 (le16 (tif_role eth) m0) (le16 m1 m2))"

primrec init_interfaces :: "('s, 'z) kernel_scheme \<Rightarrow> int \<Rightarrow> user_metadata_t \<Rightarrow> nat list \<Rightarrow>
    ('s, 'x) tables_scheme \<Rightarrow> int \<times> ('s, 'x) tables_scheme" where
  "init_interfaces K fd md [] st = (0, st)"
| "init_interfaces K fd md (idx # is) st =
     (let eth = xo_eth (md_objs md ! idx);
          (err, k) = bm_update (k_interfaces K) fd (interfaces_key eth) (tif_index eth) (tb_kern st);
          st = st\<lparr>tb_kern := k\<rparr>
      in if err \<noteq> 0 then (1, st) else init_interfaces K fd md is st)"

text \<open>A missing \<open>interfaces_map\<close> is tolerated (result 0).\<close>

definition trn_transit_xdp_map_initialize :: "('s, 'z) kernel_scheme \<Rightarrow> user_metadata_t \<Rightarrow>
    ('s, 'x) tables_scheme \<Rightarrow> int \<times> ('s, 'x) tables_scheme" where
  "trn_transit_xdp_map_initialize K md st =
     (let fd = trn_transit_map_get_fd (tb_maps st) ''jmp_table''
      in if fd < 0 then (1, st)
         else case init_jmp_table K fd md [prog_id_code TRAN_TRANSIT_PROG + 1..<TRAN_MAX_PROG_N] st of
           (err, st) \<Rightarrow>
             if err \<noteq> 0 then (1, st)
             else let fd = trn_transit_map_get_fd (tb_maps st) ''interfaces_map''
               in if fd < 0 then (0, st) else init_interfaces K fd md [0..<TRAN_ITF_MAP_MAX_N] st)"

section \<open>Loading\<close>

text \<open>Step 1: the two interfaces, each with its own instance of the main program.\<close>

primrec load_interfaces :: "('s, 'z) kernel_scheme \<Rightarrow> string list \<Rightarrow> u16 \<Rightarrow> nat list \<Rightarrow> user_metadata_t \<Rightarrow>
    ('s, 'x) tables_scheme \<Rightarrow> int \<times> user_metadata_t \<times> ('s, 'x) tables_scheme" where
  "load_interfaces K interfaces ibo [] md st = (0, md, st)"
| "load_interfaces K interfaces ibo (i # is) md st =
     (let index = k_if_nametoindex K (interfaces ! i); ob = md_objs md ! i;
          eth = (xo_eth ob)\<lparr>tif_index := index\<rparr>;
          upd = (\<lambda>eth prog. md\<lparr>md_objs := (md_objs md)[i := \<lparr>xo_eth = eth, xo_xdp = prog\<rparr>]\<rparr>)
      in if index = 0 then (1, upd eth (xo_xdp ob), st)
         else let eth = eth\<lparr>tif_ibo_port := ibo, tif_protocol := snd (trn_xdp_itf_def ! i),
                    tif_role := fst (trn_xdp_itf_def ! i)\<rparr>;
                  prog = (xo_xdp ob)\<lparr>pg_pcapfile :=
                    take (TRAN_MAX_PATH_SIZE - 1) (''/sys/fs/bpf/transit_xdp_pcap_'' @ interfaces ! i)\<rparr>
           in case trn_prog_load K (md_prog_tbl md ! prog_id_code TRAN_TRANSIT_PROG) prog
                (prog_id_code TRAN_TRANSIT_PROG) st of
                (err, prog, st) \<Rightarrow>
                  if err \<noteq> 0 then (1, upd eth prog, st)
                  else load_interfaces K interfaces ibo is (upd eth prog) st)"

text \<open>Step 2: the stage programs.\<close>

primrec load_stages :: "('s, 'z) kernel_scheme \<Rightarrow> nat list \<Rightarrow> user_metadata_t \<Rightarrow>
    ('s, 'x) tables_scheme \<Rightarrow> int \<times> user_metadata_t \<times> ('s, 'x) tables_scheme" where
  "load_stages K [] md st = (0, md, st)"
| "load_stages K (i # is) md st =
     (case trn_prog_load K (md_prog_tbl md ! i) (md_ebpf_progs md ! i) i st of
        (err, prog, st) \<Rightarrow>
          let md = md\<lparr>md_ebpf_progs := (md_ebpf_progs md)[i := prog]\<rparr>
          in if err \<noteq> 0 then (1, md, st) else load_stages K is md st)"

primrec attach_interfaces :: "('s, 'z) kernel_scheme \<Rightarrow> nat list \<Rightarrow> user_metadata_t \<Rightarrow>
    ('s, 'x) tables_scheme \<Rightarrow> int \<times> user_metadata_t \<times> ('s, 'x) tables_scheme" where
  "attach_interfaces K [] md st = (0, md, st)"
| "attach_interfaces K (i # is) md st =
     (let ob = md_objs md ! i;
          (r, k) = k_attach K (tif_index (xo_eth ob)) (pg_fd (xo_xdp ob)) (md_xdp_flags md) (tb_kern st);
          st = st\<lparr>tb_kern := k\<rparr>
      in if r < 0 then (1, md, st)
         else let (err, prog_id) = k_prog_info K (pg_fd (xo_xdp ob)) (tb_kern st)
           in if err \<noteq> 0 then (1, md, st)
              else attach_interfaces K is
                (md\<lparr>md_objs := (md_objs md)[i := ob\<lparr>xo_xdp := (xo_xdp ob)\<lparr>pg_id := prog_id\<rparr>\<rparr>]\<rparr>) st)"

definition prog_zero :: trn_prog_t where
  "prog_zero = \<lparr>pg_fd = 0, pg_id = 0, pg_obj = None, pg_pcapfile = []\<rparr>"

definition iface_zero :: trn_iface_t where
  "iface_zero = \<lparr>tif_ip = 0, tif_index = 0, tif_ibo_port = 0, tif_protocol = 0, tif_role = 0,
     tif_mac = mac_zero\<rparr>"

text \<open>The metadata after \<open>memset\<close>, with the flags and the program table set.\<close>

definition fresh_metadata :: "bool \<Rightarrow> user_metadata_t" where
  "fresh_metadata debug = \<lparr>md_ready = False, md_xdp_flags = XDP_FLAGS_SKB_MODE,
     md_objs = replicate TRAN_ITF_MAP_MAX_N \<lparr>xo_eth = iface_zero, xo_xdp = prog_zero\<rparr>,
     md_prog_tbl = (if debug then trn_prog_dbg_tbl else trn_prog_tbl),
     md_ebpf_progs = replicate TRAN_MAX_PROG_N prog_zero\<rparr>"

definition trn_transit_xdp_load :: "('s, 'z) kernel_scheme \<Rightarrow> string list \<Rightarrow> u16 \<Rightarrow> bool \<Rightarrow> 's daemon \<Rightarrow>
    int \<times> 's daemon" where
  "trn_transit_xdp_load K interfaces ibo debug st =
     (if dm_md st \<noteq> None then (0, st)
      else case k_setrlimit K (tb_kern st) of (err, k) \<Rightarrow>
        let st = st\<lparr>tb_kern := k\<rparr>
        in if err \<noteq> 0 then (1, st)
           else case trn_transit_map_hash (tb_maps st) of (err, maps) \<Rightarrow>
             let st = st\<lparr>tb_maps := maps\<rparr>; cleanup = (\<lambda>st. (1, st\<lparr>dm_md := None\<rparr>))
             in if err \<noteq> 0 then (1, st)
                else if \<not> k_malloc_ok K (tb_kern st) then (1, st)
                else (case load_interfaces K interfaces ibo [0..<TRAN_ITF_MAP_MAX_N] (fresh_metadata debug) st of
                  (err, md, st) \<Rightarrow>
                    if err \<noteq> 0 then cleanup st
                    else (case load_stages K [prog_id_code TRAN_TRANSIT_PROG + 1..<TRAN_MAX_PROG_N] md st of
                      (err, md, st) \<Rightarrow>
                        if err \<noteq> 0 then cleanup st
                        else (case trn_transit_xdp_map_initialize K md st of
                          (err, st) \<Rightarrow>
                            if err \<noteq> 0 then cleanup st
                            else (case attach_interfaces K [0..<TRAN_ITF_MAP_MAX_N] md st of
                              (err, md, st) \<Rightarrow>
                                if err \<noteq> 0 then cleanup st
                                else (0, st\<lparr>dm_md := Some (md\<lparr>md_ready := True\<rparr>)\<rparr>))))))"

section \<open>Unloading\<close>

text \<open>
  Step 1 of unloading, per interface: detach the program if it is still the one that was
  attached; then the source attaches the program again.
\<close>

primrec detach_interfaces :: "('s, 'z) kernel_scheme \<Rightarrow> nat list \<Rightarrow> user_metadata_t \<Rightarrow>
    ('s, 'x) tables_scheme \<Rightarrow> int \<times> ('s, 'x) tables_scheme" where
  "detach_interfaces K [] md st = (0, st)"
| "detach_interfaces K (i # is) md st =
     (let ob = md_objs md ! i; index = tif_index (xo_eth ob);
          (err, link_prog_id) = k_query_id K index (md_xdp_flags md) (tb_kern st)
      in if err \<noteq> 0 then (1, st)
         else let st = (if pg_id (xo_xdp ob) = link_prog_id
                        then st\<lparr>tb_kern := snd (k_attach K index (- 1) (md_xdp_flags md) (tb_kern st))\<rparr> else st);
                  (r, k) = k_attach K index (pg_fd (xo_xdp ob)) (md_xdp_flags md) (tb_kern st);
                  st = st\<lparr>tb_kern := k\<rparr>
           in if r < 0 then (1, st) else detach_interfaces K is md st)"

text \<open>Step 2: unpin; \<open>i\<close> is the index of the map, used for the interface too in the second branch.\<close>

primrec unpin_maps :: "('s, 'z) kernel_scheme \<Rightarrow> nat \<Rightarrow> trn_xdp_map_t list \<Rightarrow> user_metadata_t \<Rightarrow>
    's \<Rightarrow> int \<times> 's" where
  "unpin_maps K i [] md k = (0, k)"
| "unpin_maps K i (m # ms) md k =
     (if xm_shared m
      then let buf = pin_path @ ''/'' @ xm_name m
        in if length buf \<ge> TRAN_MAX_PATH_SIZE then (1, k)
           else unpin_maps K (i + 1) ms md (k_unpin K (xm_map m) buf k)
      else if xm_name m = ''xdpcap_hook_map''
      then unpin_maps K (i + 1) ms md (k_unpin K (xm_map m) (pg_pcapfile (xo_xdp (md_objs md ! i))) k)
      else unpin_maps K (i + 1) ms md k)"

definition close_objects :: "('s, 'z) kernel_scheme \<Rightarrow> user_metadata_t \<Rightarrow> 's \<Rightarrow> 's" where
  "close_objects K md k =
     fold (\<lambda>ob. k_obj_close K (pg_obj (xo_xdp ob))) (md_objs md)
       (fold (\<lambda>p. if pg_obj p \<noteq> None then k_obj_close K (pg_obj p) else id) (tl (md_ebpf_progs md)) k)"

definition trn_transit_xdp_unload :: "('s, 'z) kernel_scheme \<Rightarrow> 's daemon \<Rightarrow> int \<times> 's daemon" where
  "trn_transit_xdp_unload K st =
     (case dm_md st of
        None \<Rightarrow> (0, st)
      | Some md \<Rightarrow>
          (case detach_interfaces K [0..<TRAN_ITF_MAP_MAX_N] md st of
             (err, st) \<Rightarrow>
               if err \<noteq> 0 then (1, st)
               else (case unpin_maps K 0 (tb_maps st) md (tb_kern st) of
                 (err, k) \<Rightarrow>
                   let st = st\<lparr>tb_kern := k\<rparr>
                   in if err \<noteq> 0 then (1, st)
                      else (0, st\<lparr>tb_kern := close_objects K md (tb_kern st), dm_md := None\<rparr>))))"

section \<open>Single stage programs\<close>

text \<open>\<open>prog_idx\<close> is a C \<open>int\<close>.\<close>

definition trn_transit_ebpf_load :: "('s, 'z) kernel_scheme \<Rightarrow> int \<Rightarrow> 's daemon \<Rightarrow> int \<times> 's daemon" where
  "trn_transit_ebpf_load K prog_idx st =
     (case dm_md st of
        None \<Rightarrow> (1, st)
      | Some md \<Rightarrow>
          if prog_idx \<le> int (prog_id_code TRAN_TRANSIT_PROG) \<or> prog_idx \<ge> int TRAN_MAX_PROG_N then (1, st)
          else let i = nat prog_idx
            in (case trn_prog_load K (md_prog_tbl md ! i) (md_ebpf_progs md ! i) i st of
                  (err, prog, st) \<Rightarrow>
                    let md = md\<lparr>md_ebpf_progs := (md_ebpf_progs md)[i := prog]\<rparr>; st = st\<lparr>dm_md := Some md\<rparr>
                    in if err \<noteq> 0 then (1, st)
                       else let fd = trn_transit_map_get_fd (tb_maps st) ''jmp_table''
                         in if fd < 0 then (1, st)
                            else let (err, k) = bm_update (k_jmp_table K) fd i (pg_fd prog) (tb_kern st);
                                     st = st\<lparr>tb_kern := k\<rparr>
                              in if err \<noteq> 0 then (1, st) else (0, st)))"

definition trn_transit_ebpf_unload :: "('s, 'z) kernel_scheme \<Rightarrow> int \<Rightarrow> 's daemon \<Rightarrow> int \<times> 's daemon" where
  "trn_transit_ebpf_unload K prog_idx st =
     (case dm_md st of
        None \<Rightarrow> (1, st)
      | Some md \<Rightarrow>
          if prog_idx \<le> int (prog_id_code TRAN_TRANSIT_PROG) \<or> prog_idx \<ge> int TRAN_MAX_PROG_N then (1, st)
          else let i = nat prog_idx; fd = trn_transit_map_get_fd (tb_maps st) ''jmp_table''
            in if fd < 0 then (1, st)
               else let prog = md_ebpf_progs md ! i;
                        k = snd (bm_delete (k_jmp_table K) fd i (tb_kern st));
                        k = k_obj_close K (pg_obj prog) k;
                        k = k_close K (pg_fd prog) k;
                        prog = prog\<lparr>pg_obj := None, pg_fd := - 1\<rparr>
                 in (0, st\<lparr>tb_kern := k, dm_md := Some (md\<lparr>md_ebpf_progs := (md_ebpf_progs md)[i := prog]\<rparr>)\<rparr>))"

text \<open>
  \<open>trn_remove_prog\<close> checks neither \<open>md\<close> nor the index: \<open>None\<close> where it would follow a null
  pointer or leave the array.
\<close>

definition trn_remove_prog :: "('s, 'z) kernel_scheme \<Rightarrow> u32 \<Rightarrow> 's daemon \<Rightarrow> (int \<times> 's daemon) option" where
  "trn_remove_prog K prog_idx st =
     (let fd = trn_transit_map_get_fd (tb_maps st) ''jmp_table''
      in if fd < 0 then Some (1, st)
         else do {
           let k = snd (bm_delete (k_jmp_table K) fd (unat prog_idx) (tb_kern st));
           md \<leftarrow> dm_md st;
           if unat prog_idx < length (md_ebpf_progs md)
           then Some (0, st\<lparr>tb_kern := k_obj_close K (pg_obj (md_ebpf_progs md ! unat prog_idx)) k\<rparr>)
           else None
         })"

section \<open>Interface contexts\<close>

definition trn_get_itf_context :: "('s, 'z) kernel_scheme \<Rightarrow> string \<Rightarrow> 's daemon \<Rightarrow> trn_iface_t option" where
  "trn_get_itf_context K interface st =
     (case dm_md st of
        None \<Rightarrow> None
      | Some md \<Rightarrow>
          let index = k_if_nametoindex K interface
          in if index = 0 then None
             else find (\<lambda>eth. tif_index eth = index) (map xo_eth (md_objs md)))"

end
