(* ===== verification/Arion_Loader_Props.thy ===== *)
theory Arion_Loader_Props
  imports Arion_Loader
begin

text \<open>
  What loading and unloading guarantee: the registry only ever learns descriptors
  (\<open>registry_le\<close>); a successful load leaves both interfaces running their programs and the jump
  table filled with the stage programs; and what a failed load and an unload leave behind.
\<close>

section \<open>The registry\<close>

definition map_le :: "trn_xdp_map_t \<Rightarrow> trn_xdp_map_t \<Rightarrow> bool" where
  "map_le m m' \<longleftrightarrow> xm_name m' = xm_name m \<and> xm_shared m' = xm_shared m \<and> (0 \<le> xm_fd m \<longrightarrow> xm_fd m' = xm_fd m)"

definition registry_le :: "trn_xdp_map_t list \<Rightarrow> trn_xdp_map_t list \<Rightarrow> bool" where
  "registry_le = list_all2 map_le"

lemma registry_le_refl [simp]: "registry_le ms ms"
  by (simp add: registry_le_def list_all2_refl map_le_def)

lemma registry_le_trans: "registry_le a b \<Longrightarrow> registry_le b c \<Longrightarrow> registry_le a c"
  unfolding registry_le_def by (rule list_all2_trans [of map_le map_le]) (auto simp: map_le_def)

lemma registry_le_update: "i < length ms \<Longrightarrow> map_le (ms ! i) m \<Longrightarrow> registry_le ms (ms[i := m])"
  by (auto simp: registry_le_def list_all2_conv_all_nth nth_list_update map_le_def)

lemma registry_le_names: "registry_le ms ms' \<Longrightarrow> map xm_name ms' = map xm_name ms"
  unfolding registry_le_def by (induction rule: list_all2_induct) (auto simp: map_le_def)

lemma trn_transit_map_get_names:
  "map xm_name ms = map xm_name ms' \<Longrightarrow> trn_transit_map_get ms name = trn_transit_map_get ms' name"
proof (induction ms arbitrary: ms')
  case (Cons m ms)
  then show ?case by (cases ms') auto
qed simp

lemma registry_le_fd:
  assumes "registry_le ms ms'" "0 \<le> trn_transit_map_get_fd ms name"
  shows "trn_transit_map_get_fd ms' name = trn_transit_map_get_fd ms name"
proof -
  have get: "trn_transit_map_get ms' name = trn_transit_map_get ms name"
    using registry_le_names [OF assms(1)] by (rule trn_transit_map_get_names)
  show ?thesis
  proof (cases "trn_transit_map_get ms name")
    case None
    then show ?thesis using assms(2) by (simp add: trn_transit_map_get_fd_def)
  next
    case (Some i)
    then have "map_le (ms ! i) (ms' ! i)" "0 \<le> xm_fd (ms ! i)"
      using assms trn_transit_map_get_Some [OF Some]
      by (simp_all add: registry_le_def list_all2_conv_all_nth trn_transit_map_get_fd_def)
    then show ?thesis using Some get by (simp add: trn_transit_map_get_fd_def map_le_def)
  qed
qed

lemma pre_load_maps_le:
  "pre_load_maps K ms st = (r, st') \<Longrightarrow> registry_le (tb_maps st) (tb_maps st')"
proof (induction ms arbitrary: st)
  case (Cons m ms)
  obtain name h where m: "m = (name, h)" by (cases m)
  let ?s = "st\<lparr>tb_kern := k_set_ifindex K h (tb_kern st)\<rparr>"
  show ?case
  proof (cases "trn_transit_map_get (tb_maps st) name")
    case None
    then show ?thesis using Cons m by (fastforce simp: Let_def)
  next
    case (Some i)
    let ?t = "if xm_map (tb_maps st ! i) = None
      then ?s\<lparr>tb_maps := (tb_maps st)[i := (tb_maps st ! i)\<lparr>xm_map := Some h\<rparr>]\<rparr> else ?s"
    have "registry_le (tb_maps st) (tb_maps ?t)"
      using trn_transit_map_get_Some [OF Some] by (auto intro!: registry_le_update simp: map_le_def)
    moreover have "registry_le (tb_maps ?t) (tb_maps st')"
      using Cons.prems Cons.IH m Some
      by (fastforce simp: Let_def split: prod.splits if_splits)
    ultimately show ?thesis by (rule registry_le_trans)
  qed
qed simp

lemma post_load_maps_le:
  "post_load_maps K n prog ms st = (r, st') \<Longrightarrow> registry_le (tb_maps st) (tb_maps st')"
proof (induction ms arbitrary: st)
  case (Cons m ms)
  obtain name h where m: "m = (name, h)" by (cases m)
  show ?case
  proof (cases "trn_transit_map_get (tb_maps st) name")
    case None
    then show ?thesis using Cons m by (fastforce simp: Let_def)
  next
    case (Some i)
    have upd: "registry_le (tb_maps st) ((tb_maps st)[i := (tb_maps st ! i)\<lparr>xm_fd := f\<rparr>])"
      if "xm_fd (tb_maps st ! i) < 0" for f
      using trn_transit_map_get_Some [OF Some] that by (intro registry_le_update) (auto simp: map_le_def)
    have step: "\<exists>s1. post_load_maps K n prog ms s1 = (r, st') \<and> registry_le (tb_maps st) (tb_maps s1) \<or> tb_maps st' = tb_maps st"
      using Cons.prems m Some upd by (fastforce simp: Let_def split: option.splits prod.splits if_splits)
    then show ?thesis using Cons.IH registry_le_trans by (metis registry_le_refl)
  qed
qed simp

lemma pre_load_le:
  "trn_transit_xdp_pre_load K p st = (r, st') \<Longrightarrow> registry_le (tb_maps st) (tb_maps st')"
  using pre_load_maps_le
  by (fastforce simp: trn_transit_xdp_pre_load_def Let_def split: option.splits if_splits)

lemma post_load_le:
  "trn_transit_xdp_post_load K p n st = (r, p', st') \<Longrightarrow> registry_le (tb_maps st) (tb_maps st')"
  using post_load_maps_le
  by (fastforce simp: trn_transit_xdp_post_load_def Let_def split: option.splits if_splits prod.splits)

lemma prog_load_opened_le:
  assumes "prog_load_opened K prog ob n st = (r, prog', st')"
  shows "registry_le (tb_maps st) (tb_maps st')"
proof -
  obtain e1 s1 where pre: "trn_transit_xdp_pre_load K prog st = (e1, s1)" by fastforce
  obtain e2 k where ld: "k_load K ob (tb_kern s1) = (e2, k)" by fastforce
  obtain e3 p3 s3 where post: "trn_transit_xdp_post_load K prog n (s1\<lparr>tb_kern := k\<rparr>) = (e3, p3, s3)"
    by (metis prod_cases3)
  have first: "registry_le (tb_maps st) (tb_maps s1)" by (rule pre_load_le [OF pre])
  moreover have "registry_le (tb_maps s1) (tb_maps s3)" using post_load_le [OF post] by simp
  ultimately have le: "registry_le (tb_maps st) (tb_maps s3)" by (rule registry_le_trans)
  have "tb_maps st' \<in> {tb_maps s1, tb_maps s3}"
    using assms pre ld post by (auto simp: prog_load_opened_def Let_def split: if_splits)
  then show ?thesis using le first by auto
qed

lemma trn_prog_load_le:
  assumes "trn_prog_load K path prog n st = (r, prog', st')"
  shows "registry_le (tb_maps st) (tb_maps st')"
proof -
  let ?s = "if pg_obj prog \<noteq> None then st\<lparr>tb_kern := k_obj_close K (pg_obj prog) (tb_kern st)\<rparr> else st"
  obtain ob k where o: "k_open K path (tb_kern ?s) = (ob, k)" by fastforce
  have m: "tb_maps (?s\<lparr>tb_kern := k\<rparr>) = tb_maps st" by simp
  show ?thesis
  proof (cases ob)
    case None
    then show ?thesis using assms o m by (auto simp: trn_prog_load_def Let_def)
  next
    case (Some b)
    then have "prog_load_opened K (prog\<lparr>pg_obj := ob\<rparr>) b n (?s\<lparr>tb_kern := k\<rparr>) = (r, prog', st')"
      using assms o by (simp add: trn_prog_load_def Let_def)
    then show ?thesis using prog_load_opened_le m by metis
  qed
qed

section \<open>The jump table\<close>

lemma init_jmp_table_keeps:
  assumes "map_law (k_jmp_table K)"
  shows "init_jmp_table K fd md is st = (r, st') \<Longrightarrow> j \<notin> set is \<Longrightarrow>
    bm_lookup (k_jmp_table K) fd j (tb_kern st') = bm_lookup (k_jmp_table K) fd j (tb_kern st)"
proof (induction "is" arbitrary: st)
  case (Cons i "is")
  obtain e k where u: "bm_update (k_jmp_table K) fd i (pg_fd (md_ebpf_progs md ! i)) (tb_kern st) = (e, k)" by fastforce
  show ?case using Cons u map_law_update [OF assms u, of j] by (auto simp: Let_def split: if_splits)
qed simp

lemma init_jmp_table_fills:
  assumes "map_law (k_jmp_table K)"
  shows "init_jmp_table K fd md is st = (0, st') \<Longrightarrow> i \<in> set is \<Longrightarrow>
    bm_lookup (k_jmp_table K) fd i (tb_kern st') = Some (pg_fd (md_ebpf_progs md ! i))"
proof (induction "is" arbitrary: st)
  case (Cons j "is")
  obtain e k where u: "bm_update (k_jmp_table K) fd j (pg_fd (md_ebpf_progs md ! j)) (tb_kern st) = (e, k)" by fastforce
  then have e: "e = 0" "init_jmp_table K fd md is (st\<lparr>tb_kern := k\<rparr>) = (0, st')"
    using Cons.prems(1) by (auto simp: Let_def split: if_splits)
  show ?case
  proof (cases "i \<in> set is")
    case True
    then show ?thesis using Cons.IH [OF e(2)] by simp
  next
    case False
    then have "i = j" using Cons.prems(2) by simp
    then show ?thesis
      using init_jmp_table_keeps [OF assms e(2) False] map_law_update [OF assms u, of i] e(1) by simp
  qed
qed simp

lemma init_jmp_table_maps: "init_jmp_table K fd md is st = (r, st') \<Longrightarrow> tb_maps st' = tb_maps st"
  by (induction "is" arbitrary: st) (fastforce simp: Let_def split: if_splits prod.splits)+

lemma init_interfaces_maps: "init_interfaces K fd md is st = (r, st') \<Longrightarrow> tb_maps st' = tb_maps st"
  by (induction "is" arbitrary: st) (fastforce simp: Let_def split: if_splits prod.splits)+

section \<open>The metadata\<close>

text \<open>The arrays of \<open>user_metadata_t\<close> keep the sizes C gives them.\<close>

definition metadata_ok :: "user_metadata_t \<Rightarrow> bool" where
  "metadata_ok md \<longleftrightarrow> length (md_objs md) = TRAN_ITF_MAP_MAX_N \<and>
     length (md_prog_tbl md) = TRAN_MAX_PROG_N \<and> length (md_ebpf_progs md) = TRAN_MAX_PROG_N"

definition daemon_ok :: "'s daemon \<Rightarrow> bool" where
  "daemon_ok st \<longleftrightarrow> (\<forall>md. dm_md st = Some md \<longrightarrow> metadata_ok md \<and> md_ready md)"

lemma fresh_metadata_ok: "metadata_ok (fresh_metadata debug)"
  by (simp add: metadata_ok_def fresh_metadata_def trn_prog_tbl_def trn_prog_dbg_tbl_def)

lemma load_interfaces_ok:
  "load_interfaces K ifs ibo is md st = (r, md', st') \<Longrightarrow> metadata_ok md \<Longrightarrow> metadata_ok md'"
proof (induction "is" arbitrary: md st)
  case (Cons i "is")
  have upd: "metadata_ok (md\<lparr>md_objs := (md_objs md)[i := x]\<rparr>)" for x
    using Cons.prems(2) by (simp add: metadata_ok_def)
  show ?case
    using Cons.prems(1) upd Cons.IH by (auto simp: Let_def split: if_splits prod.splits)
qed simp

lemma load_stages_ok:
  "load_stages K is md st = (r, md', st') \<Longrightarrow> metadata_ok md \<Longrightarrow> metadata_ok md'"
proof (induction "is" arbitrary: md st)
  case (Cons i "is")
  have upd: "metadata_ok (md\<lparr>md_ebpf_progs := (md_ebpf_progs md)[i := x]\<rparr>)" for x
    using Cons.prems(2) by (simp add: metadata_ok_def)
  show ?case
    using Cons.prems(1) upd Cons.IH by (auto simp: Let_def split: if_splits prod.splits)
qed simp

lemma attach_interfaces_ok:
  "attach_interfaces K is md st = (r, md', st') \<Longrightarrow> metadata_ok md \<Longrightarrow> metadata_ok md'"
proof (induction "is" arbitrary: md st)
  case (Cons i "is")
  have upd: "metadata_ok (md\<lparr>md_objs := (md_objs md)[i := x]\<rparr>)" for x
    using Cons.prems(2) by (simp add: metadata_ok_def)
  show ?case
    using Cons.prems upd Cons.IH by (auto simp: Let_def split: if_splits prod.splits)
qed simp

text \<open>The interface at an index has the context the load gives it.\<close>

definition itf_ready :: "('s, 'z) kernel_scheme \<Rightarrow> string list \<Rightarrow> u16 \<Rightarrow> nat \<Rightarrow> trn_xdp_object_t \<Rightarrow> bool" where
  "itf_ready K ifs ibo i ob \<longleftrightarrow> tif_index (xo_eth ob) = k_if_nametoindex K (ifs ! i) \<and>
     tif_index (xo_eth ob) \<noteq> 0 \<and> tif_ibo_port (xo_eth ob) = ibo \<and>
     tif_role (xo_eth ob) = fst (trn_xdp_itf_def ! i) \<and> tif_protocol (xo_eth ob) = snd (trn_xdp_itf_def ! i)"

lemma load_interfaces_ready:
  "load_interfaces K ifs ibo is md st = (0, md', st') \<Longrightarrow>
   length (md_objs md') = length (md_objs md) \<and>
   (\<forall>i<length (md_objs md). i \<in> set is \<or> itf_ready K ifs ibo i (md_objs md ! i) \<longrightarrow>
      itf_ready K ifs ibo i (md_objs md' ! i))"
proof (induction "is" arbitrary: md st)
  case (Cons j "is")
  let ?eth = "(xo_eth (md_objs md ! j))\<lparr>tif_index := k_if_nametoindex K (ifs ! j), tif_ibo_port := ibo,
    tif_protocol := snd (trn_xdp_itf_def ! j), tif_role := fst (trn_xdp_itf_def ! j)\<rparr>"
  obtain prog s1 where idx: "k_if_nametoindex K (ifs ! j) \<noteq> 0"
    and rec: "load_interfaces K ifs ibo is (md\<lparr>md_objs := (md_objs md)[j := \<lparr>xo_eth = ?eth, xo_xdp = prog\<rparr>]\<rparr>) s1 = (0, md', st')"
    using Cons.prems by (auto simp: Let_def split: if_splits prod.splits)
  have "itf_ready K ifs ibo j \<lparr>xo_eth = ?eth, xo_xdp = prog\<rparr>" using idx by (simp add: itf_ready_def)
  then have "itf_ready K ifs ibo i ((md_objs md)[j := \<lparr>xo_eth = ?eth, xo_xdp = prog\<rparr>] ! i)"
    if "i < length (md_objs md)" "i = j \<or> itf_ready K ifs ibo i (md_objs md ! i)" for i
    using that by (cases "i = j") simp_all
  with Cons.IH [OF rec] show ?case by (simp, blast)
qed simp

lemma load_stages_objs: "load_stages K is md st = (r, md', st') \<Longrightarrow> md_objs md' = md_objs md"
proof (induction "is" arbitrary: md st)
  case (Cons i "is")
  then show ?case by (fastforce simp: Let_def split: if_splits prod.splits)
qed simp

lemma load_interfaces_mac:
  "load_interfaces K ifs ibo is md st = (0, md', st') \<Longrightarrow>
   map (\<lambda>ob. tif_mac (xo_eth ob)) (md_objs md') = map (\<lambda>ob. tif_mac (xo_eth ob)) (md_objs md)"
proof (induction "is" arbitrary: md st)
  case (Cons j "is")
  have upd: "map (\<lambda>ob. tif_mac (xo_eth ob)) ((md_objs md)[j := \<lparr>xo_eth = (xo_eth (md_objs md ! j))\<lparr>tif_index := a,
      tif_ibo_port := ibo, tif_protocol := p, tif_role := r\<rparr>, xo_xdp = x\<rparr>])
    = map (\<lambda>ob. tif_mac (xo_eth ob)) (md_objs md)" for a p r x
    by (cases "j < length (md_objs md)") (simp_all add: map_update list_update_same_conv list_update_beyond)
  obtain a p r x s1 where "load_interfaces K ifs ibo is (md\<lparr>md_objs := (md_objs md)[j := \<lparr>xo_eth =
      (xo_eth (md_objs md ! j))\<lparr>tif_index := a, tif_ibo_port := ibo, tif_protocol := p, tif_role := r\<rparr>, xo_xdp = x\<rparr>]\<rparr>) s1
    = (0, md', st')"
    using Cons.prems by (auto simp: Let_def split: if_splits prod.splits)
  from Cons.IH [OF this] upd show ?case by simp
qed simp

lemma attach_interfaces_eth:
  "attach_interfaces K is md st = (r, md', st') \<Longrightarrow> map xo_eth (md_objs md') = map xo_eth (md_objs md)"
proof (induction "is" arbitrary: md st)
  case (Cons j "is")
  have "map xo_eth ((md_objs md)[j := (md_objs md ! j)\<lparr>xo_xdp := x\<rparr>]) = map xo_eth (md_objs md)" for x
    by (cases "j < length (md_objs md)") (simp_all add: map_update list_update_same_conv list_update_beyond)
  with Cons show ?case by (fastforce simp: Let_def split: if_splits prod.splits)
qed simp

section \<open>A kernel for examples\<close>

text \<open>
  A concrete kernel whose state records the attached programs and the content of the jump
  table: every call succeeds, objects hold the maps of the registry, map and program
  descriptors are the handles.
\<close>

record demo_kern =
  dk_attached :: "u32 \<Rightarrow> int option"
  dk_jmp :: "nat \<Rightarrow> int option"
  dk_eps :: "endpoint_key_t \<Rightarrow> endpoint_t option"
  dk_itf :: "u32 \<Rightarrow> tunnel_iface_t option"
  dk_ifs :: "u32 \<Rightarrow> u32 option"

definition table_ops :: "('s \<Rightarrow> 'k \<Rightarrow> 'v option) \<Rightarrow> (('k \<Rightarrow> 'v option) \<Rightarrow> 's \<Rightarrow> 's) \<Rightarrow> ('k, 'v, 's) bpf_map_ops" where
  "table_ops sel upd = \<lparr>bm_update = (\<lambda>fd k v s. (0, upd ((sel s)(k \<mapsto> v)) s)), bm_lookup = (\<lambda>fd k s. sel s k),
     bm_delete = (\<lambda>fd k s. if sel s k = None then (- 2, s) else (0, upd ((sel s)(k := None)) s))\<rparr>"

definition no_ops :: "('k, 'v, 's) bpf_map_ops" where
  "no_ops = \<lparr>bm_update = (\<lambda>fd k v s. (- 1, s)), bm_lookup = (\<lambda>fd k s. None), bm_delete = (\<lambda>fd k s. (- 1, s))\<rparr>"

lemma table_ops_law:
  assumes "\<And>m s. sel (upd m s) = m" shows "map_law (table_ops sel upd)"
  using assms by (auto simp: map_law_def table_ops_def split: if_splits)

definition demo_kernel :: "demo_kern kernel" where
  "demo_kernel = \<lparr>k_endpoints = table_ops dk_eps (\<lambda>m s. s\<lparr>dk_eps := m\<rparr>), k_sg_cidr = no_ops,
     k_security_group = no_ops, k_port_range = no_ops,
     k_if_config = table_ops dk_itf (\<lambda>m s. s\<lparr>dk_itf := m\<rparr>),
     k_jmp_table = table_ops dk_jmp (\<lambda>m s. s\<lparr>dk_jmp := m\<rparr>),
     k_interfaces = table_ops dk_ifs (\<lambda>m s. s\<lparr>dk_ifs := m\<rparr>),
     k_if_nametoindex = (\<lambda>n. if n = ''eth0'' then 3 else if n = ''eth1'' then 4 else 0),
     k_setrlimit = (\<lambda>s. (0, s)), k_malloc_ok = (\<lambda>_. True), k_open = (\<lambda>p s. (Some 1, s)),
     k_num_progs = (\<lambda>_ _. 1), k_set_progs = (\<lambda>_ s. s),
     k_maps = (\<lambda>_ _. [(''jmp_table'', 11), (''endpoints_map'', 12), (''if_config_map'', 13), (''interfaces_map'', 14)]),
     k_set_ifindex = (\<lambda>_ s. s), k_reuse_fd = (\<lambda>_ _ s. (0, s)), k_load = (\<lambda>_ s. (0, s)),
     k_first_prog_fd = (\<lambda>_ _. 7), k_obj_get = (\<lambda>_ s. (- 1, s)), k_close = (\<lambda>_ s. s),
     k_pin = (\<lambda>_ _ s. (0, s)), k_unpin = (\<lambda>_ _ s. s), k_map_fd = (\<lambda>h _. int h),
     k_obj_close = (\<lambda>_ s. s),
     k_attach = (\<lambda>i fd fl s. (0, s\<lparr>dk_attached := (dk_attached s)(i := if fd = - 1 then None else Some fd)\<rparr>)),
     k_query_id = (\<lambda>_ _ _. (0, 0)), k_prog_info = (\<lambda>_ _. (0, 0))\<rparr>"

definition demo_kern0 :: demo_kern where
  "demo_kern0 = \<lparr>dk_attached = (\<lambda>_. None), dk_jmp = (\<lambda>_. None), dk_eps = (\<lambda>_. None), dk_itf = (\<lambda>_. None),
     dk_ifs = (\<lambda>_. None)\<rparr>"

text \<open>The daemon before a load, and with two loaded programs.\<close>

definition daemon_init :: "'s \<Rightarrow> 's daemon" where
  "daemon_init k = \<lparr>tb_kern = k, tb_maps = trn_xdp_bpfmaps, dm_md = None\<rparr>"

definition demo_md :: user_metadata_t where
  "demo_md = (fresh_metadata False)\<lparr>md_objs :=
     [\<lparr>xo_eth = iface_zero\<lparr>tif_index := 3\<rparr>, xo_xdp = prog_zero\<lparr>pg_fd := 7\<rparr>\<rparr>,
      \<lparr>xo_eth = iface_zero\<lparr>tif_index := 4, tif_role := 1, tif_protocol := 1\<rparr>, xo_xdp = prog_zero\<lparr>pg_fd := 8\<rparr>\<rparr>],
     md_ready := True\<rparr>"

definition demo_daemon :: "demo_kern daemon" where
  "demo_daemon = \<lparr>tb_kern = demo_kern0,
     tb_maps = map (\<lambda>m. m\<lparr>xm_fd := 20\<rparr>) trn_xdp_bpfmaps, dm_md = Some demo_md\<rparr>"

lemma demo_laws:
  "map_law (k_endpoints demo_kernel)" "map_law (k_jmp_table demo_kernel)" "map_law (k_if_config demo_kernel)"
  "map_law (k_interfaces demo_kernel)"
  by (simp_all add: demo_kernel_def table_ops_law)

section \<open>Properties\<close>

text \<open>
  Maps are shared by descriptor. Once the registry holds a descriptor for a map, loading
  any further program, successfully or not, never replaces it, so every program that is loaded
  uses the same endpoints, security groups and jump table.
\<close>

theorem trn_prog_load_shares:
  assumes "trn_prog_load K path prog n st = (r, prog', st')"
    "0 \<le> trn_transit_map_get_fd (tb_maps st) name"
  shows "trn_transit_map_get_fd (tb_maps st') name = trn_transit_map_get_fd (tb_maps st) name"
  using registry_le_fd [OF trn_prog_load_le [OF assms(1)] assms(2)] .

theorem trn_prog_load_shares_witness:
  "\<exists>r prog' st'. trn_prog_load demo_kernel ''x.o'' prog_zero 1 demo_daemon = (r, prog', st') \<and>
     trn_transit_map_get_fd (tb_maps st') ''endpoints_map'' = 20"
proof -
  obtain r prog' st' where l: "trn_prog_load demo_kernel ''x.o'' prog_zero 1 demo_daemon = (r, prog', st')"
    by (metis prod_cases3)
  have "trn_transit_map_get_fd (tb_maps demo_daemon) ''endpoints_map'' = 20"
    by (simp add: demo_daemon_def trn_xdp_bpfmaps_def trn_transit_map_get_fd_def)
  with trn_prog_load_shares [OF l, of "''endpoints_map''"] l show ?thesis by auto
qed

text \<open>
  Initialising the maps before the programs are attached leaves, on success, every stage
  program's descriptor at its own index of the jump table, whatever the kernel answered before.
\<close>

theorem init_jmp_table_complete:
  assumes "map_law (k_jmp_table K)"
    "init_jmp_table K fd md [prog_id_code TRAN_TRANSIT_PROG + 1..<TRAN_MAX_PROG_N] st = (0, st')"
    "prog \<notin> {TRAN_TRANSIT_PROG, TRAN_MAX_PROG}"
  shows "bm_lookup (k_jmp_table K) fd (prog_id_code prog) (tb_kern st')
    = Some (pg_fd (md_ebpf_progs md ! prog_id_code prog))"
  using assms(3) by (intro init_jmp_table_fills [OF assms(1,2)]) (cases prog; simp)

theorem init_jmp_table_complete_witness:
  "\<exists>st'. init_jmp_table demo_kernel 20 demo_md [1..<5] demo_daemon = (0, st') \<and>
     dk_jmp (tb_kern st') 4 = Some 0"
proof -
  obtain r st' where i: "init_jmp_table demo_kernel 20 demo_md [1..<5] demo_daemon = (r, st')" by fastforce
  have "r = 0" using i
    by (simp add: upt_rec numeral_eq_Suc demo_kernel_def table_ops_def)
  with init_jmp_table_complete [OF demo_laws(2), of 20 demo_md demo_daemon st' TRAN_DROP_PROG] i
  show ?thesis by (simp add: demo_kernel_def table_ops_def demo_md_def fresh_metadata_def prog_zero_def)
qed

lemma interfaces_key_role: "tif_mac eth = mac_zero \<Longrightarrow> interfaces_key eth = ucast (tif_role eth)"
proof -
  have "ucast (ucast (tif_role eth) :: u16) = (ucast (tif_role eth) :: u32)"
    by (rule bit_eqI) (auto simp: bit_simps dest: bit_imp_le_length)
  then show "tif_mac eth = mac_zero \<Longrightarrow> interfaces_key eth = ucast (tif_role eth)"
    by (simp add: interfaces_key_def mac_zero_def) (simp add: le32_def le16_def)
qed

lemma init_interfaces_fills:
  assumes "map_law (k_interfaces K)" "init_interfaces K fd md [0..<2] st = (0, st')"
    "interfaces_key (xo_eth (md_objs md ! 0)) \<noteq> interfaces_key (xo_eth (md_objs md ! 1))" "i < 2"
  shows "bm_lookup (k_interfaces K) fd (interfaces_key (xo_eth (md_objs md ! i))) (tb_kern st')
    = Some (tif_index (xo_eth (md_objs md ! i)))"
proof -
  let ?eth = "\<lambda>i. xo_eth (md_objs md ! i)"
  obtain k1 k2 where "bm_update (k_interfaces K) fd (interfaces_key (?eth 0)) (tif_index (?eth 0)) (tb_kern st) = (0, k1)"
    "bm_update (k_interfaces K) fd (interfaces_key (?eth 1)) (tif_index (?eth 1)) k1 = (0, k2)" "tb_kern st' = k2"
    using assms(2) by (auto simp: numeral_2_eq_2 Let_def split: if_splits prod.splits)
  moreover from \<open>i < 2\<close> have "i = 0 \<or> i = 1" by auto
  ultimately show ?thesis
    using assms(3) by (auto simp: map_law_update [OF assms(1)])
qed

text \<open>
  The redirect map is keyed by role. The key the code passes is a pointer to one byte where
  the kernel reads four; a load from scratch still puts the index of the interface the operator
  named for a role exactly at that role, since the bytes read along are the zeroed MAC.
\<close>

theorem interfaces_map_by_role:
  assumes "map_law (k_interfaces K)"
    "load_interfaces K ifs ibo [0..<2] (fresh_metadata debug) s0 = (0, md1, s1)"
    "load_stages K stages md1 s1 = (0, md, s2)" "init_interfaces K fd md [0..<2] s2 = (0, s3)" "i < 2"
  shows "bm_lookup (k_interfaces K) fd (ucast (fst (trn_xdp_itf_def ! i))) (tb_kern s3)
    = Some (k_if_nametoindex K (ifs ! i))"
proof -
  have objs: "md_objs md = md_objs md1" by (rule load_stages_objs [OF assms(3)])
  have rdy: "length (md_objs md1) = 2" "\<forall>j<2. itf_ready K ifs ibo j (md_objs md1 ! j)"
    using load_interfaces_ready [OF assms(2)] by (simp_all add: fresh_metadata_def)
  have "map (\<lambda>ob. tif_mac (xo_eth ob)) (md_objs md1) = replicate 2 mac_zero"
    using load_interfaces_mac [OF assms(2)] by (simp add: fresh_metadata_def iface_zero_def)
  then have "tif_mac (xo_eth (md_objs md1 ! j)) = mac_zero" if "j < 2" for j
    using that rdy(1) by (metis nth_map nth_replicate)
  then have key: "interfaces_key (xo_eth (md_objs md ! j)) = ucast (fst (trn_xdp_itf_def ! j))" if "j < 2" for j
    using that rdy(2) by (simp add: objs interfaces_key_role itf_ready_def)
  then have "interfaces_key (xo_eth (md_objs md ! 0)) \<noteq> interfaces_key (xo_eth (md_objs md ! 1))"
    by (simp add: trn_xdp_itf_def_def)
  from init_interfaces_fills [OF assms(1,4) this assms(5)] key [OF assms(5)] rdy(2) assms(5)
  show ?thesis by (simp add: objs itf_ready_def)
qed

lemma upt_0_2: "[0..<2] = [0, 1]" "replicate 2 x = [x, x]"
  by (simp_all add: upt_rec numeral_2_eq_2)

lemma demo_load:
  assumes "load_interfaces demo_kernel [''eth0'', ''eth1''] 8300 [0..<2] (fresh_metadata False) demo_daemon = (r, md, s)"
  shows "r = 0"
  using assms
  by (simp add: upt_0_2 Let_def trn_prog_load_def prog_load_opened_def trn_transit_xdp_pre_load_def
      trn_transit_xdp_post_load_def demo_kernel_def demo_daemon_def trn_xdp_bpfmaps_def map_pin_file_def
      fresh_metadata_def prog_zero_def pin_path_def TRAN_MAX_PATH_SIZE_def)

theorem interfaces_map_by_role_witness:
  "\<exists>md s. load_interfaces demo_kernel [''eth0'', ''eth1''] 8300 [0..<2] (fresh_metadata False) demo_daemon = (0, md, s) \<and>
    (\<exists>s'. init_interfaces demo_kernel 20 md [0..<2] s = (0, s') \<and>
      bm_lookup (k_interfaces demo_kernel) 20 1 (tb_kern s') = Some 4)"
proof -
  let ?ifs = "[''eth0'', ''eth1'']"
  obtain r md s where l: "load_interfaces demo_kernel ?ifs 8300 [0..<2] (fresh_metadata False) demo_daemon = (r, md, s)"
    by (metis prod_cases3)
  have "r = 0" using l by (rule demo_load)
  obtain r' s' where i: "init_interfaces demo_kernel 20 md [0..<2] s = (r', s')" by fastforce
  have "r' = 0" using i
    by (simp add: upt_0_2 Let_def demo_kernel_def table_ops_def)
  with interfaces_map_by_role [OF demo_laws(4), of ?ifs 8300 False demo_daemon md s "[]" md s 20 s' 1] i l \<open>r = 0\<close>
  show ?thesis by (simp add: demo_kernel_def trn_xdp_itf_def_def)
qed

lemma itf_ready_eth: "xo_eth a = xo_eth b \<Longrightarrow> itf_ready K ifs ibo i a = itf_ready K ifs ibo i b"
  by (simp add: itf_ready_def)

lemma load_phases:
  assumes "load_interfaces K ifs ibo [0..<2] (fresh_metadata debug) s0 = (0, md1, s1)"
    "load_stages K stages md1 s2 = (0, md2, s3)"
    "attach_interfaces K [0..<2] md2 s4 = (0, md3, s5)"
  shows "metadata_ok (md3\<lparr>md_ready := True\<rparr>) \<and> (\<forall>i<2. itf_ready K ifs ibo i (md_objs md3 ! i))"
proof -
  have ok: "metadata_ok md1" "metadata_ok md3"
    using load_interfaces_ok [OF assms(1) fresh_metadata_ok] load_stages_ok [OF assms(2)]
      attach_interfaces_ok [OF assms(3)] by auto
  have len: "length (md_objs md1) = 2" "length (md_objs md3) = 2" using ok by (simp_all add: metadata_ok_def)
  have eth: "map xo_eth (md_objs md3) = map xo_eth (md_objs md1)"
    using attach_interfaces_eth [OF assms(3)] load_stages_objs [OF assms(2)] by simp
  have "itf_ready K ifs ibo i (md_objs md3 ! i)" if "i < 2" for i
  proof -
    have "itf_ready K ifs ibo i (md_objs md1 ! i)"
      using load_interfaces_ready [OF assms(1)] that by (simp add: fresh_metadata_def)
    moreover have "xo_eth (md_objs md3 ! i) = xo_eth (md_objs md1 ! i)"
      using arg_cong [OF eth, of "\<lambda>l. l ! i"] that len by simp
    ultimately show ?thesis using itf_ready_eth by blast
  qed
  with ok show ?thesis by (simp add: metadata_ok_def)
qed

lemma load_outcome:
  assumes "trn_transit_xdp_load K ifs ibo debug st = (r, st')" "dm_md st = None"
  shows "(r = 1 \<and> dm_md st' = None) \<or>
    (r = 0 \<and> (\<exists>md. dm_md st' = Some md \<and> md_ready md \<and> metadata_ok md \<and>
      (\<forall>i<2. itf_ready K ifs ibo i (md_objs md ! i))))"
  using assms load_phases [of K ifs ibo debug]
  by (auto simp: trn_transit_xdp_load_def trn_transit_map_hash_def Let_def simp del: upt_Suc
      split: if_splits prod.splits) blast+

section \<open>What a load leaves in the kernel\<close>

text \<open>
  The documented effect of attaching: on success the interface runs the program, or none for
  the descriptor -1; nothing else about attachments changes, and neither unpinning a map nor
  closing an object detaches anything.
\<close>

definition attach_law :: "('s, 'z) kernel_scheme \<Rightarrow> (u32 \<Rightarrow> 's \<Rightarrow> int option) \<Rightarrow> bool" where
  "attach_law K attached \<longleftrightarrow>
     (\<forall>i fd fl s r s' j. k_attach K i fd fl s = (r, s') \<longrightarrow>
        attached j s' = (if 0 \<le> r \<and> j = i then (if fd = - 1 then None else Some fd) else attached j s)) \<and>
     (\<forall>m p s j. attached j (k_unpin K m p s) = attached j s) \<and>
     (\<forall>ob s j. attached j (k_obj_close K ob s) = attached j s)"

lemma attach_lawD:
  assumes "attach_law K attached"
  shows "k_attach K i fd fl s = (r, s') \<Longrightarrow>
      attached j s' = (if 0 \<le> r \<and> j = i then (if fd = - 1 then None else Some fd) else attached j s)"
    "attached j (k_unpin K m p s) = attached j s" "attached j (k_obj_close K ob s) = attached j s"
  using assms unfolding attach_law_def by blast+

text \<open>
  The jump table is a map of its own: neither filling \<open>interfaces_map\<close> nor attaching a program
  touches it.
\<close>

definition jmp_table_law :: "('s, 'z) kernel_scheme \<Rightarrow> bool" where
  "jmp_table_law K \<longleftrightarrow> map_law (k_jmp_table K) \<and>
     (\<forall>fd i fd' key v s. bm_lookup (k_jmp_table K) fd i (snd (bm_update (k_interfaces K) fd' key v s)) = bm_lookup (k_jmp_table K) fd i s) \<and>
     (\<forall>fd i x p fl s. bm_lookup (k_jmp_table K) fd i (snd (k_attach K x p fl s)) = bm_lookup (k_jmp_table K) fd i s)"

lemma jmp_table_lawD:
  assumes "jmp_table_law K"
  shows "bm_update (k_interfaces K) fd' key v s = (r, s') \<Longrightarrow> bm_lookup (k_jmp_table K) fd i s' = bm_lookup (k_jmp_table K) fd i s"
    "k_attach K x p fl s = (r, s') \<Longrightarrow> bm_lookup (k_jmp_table K) fd i s' = bm_lookup (k_jmp_table K) fd i s"
  using assms unfolding jmp_table_law_def by (metis snd_conv)+

text \<open>The stage programs are where the tail calls look for them.\<close>

definition stages_installed :: "('s, 'z) kernel_scheme \<Rightarrow> user_metadata_t \<Rightarrow> ('s, 'x) tables_scheme \<Rightarrow> bool" where
  "stages_installed K md st \<longleftrightarrow> (\<forall>i\<in>{1..<5}.
     bm_lookup (k_jmp_table K) (trn_transit_map_get_fd (tb_maps st) ''jmp_table'') i (tb_kern st) = Some (pg_fd (md_ebpf_progs md ! i)))"

lemma init_interfaces_jmp:
  assumes "jmp_table_law K"
  shows "init_interfaces K fd' md is st = (r, st') \<Longrightarrow>
    bm_lookup (k_jmp_table K) fd i (tb_kern st') = bm_lookup (k_jmp_table K) fd i (tb_kern st)"
proof (induction "is" arbitrary: st)
  case (Cons j "is")
  obtain e k where u: "bm_update (k_interfaces K) fd' (interfaces_key (xo_eth (md_objs md ! j))) (tif_index (xo_eth (md_objs md ! j)))
      (tb_kern st) = (e, k)" by fastforce
  show ?case using Cons u jmp_table_lawD(1) [OF assms u, of fd i] by (auto simp: Let_def split: if_splits)
qed simp

lemma map_initialize_installs:
  assumes "jmp_table_law K" "trn_transit_xdp_map_initialize K md st = (0, st')"
  shows "stages_installed K md st' \<and> tb_maps st' = tb_maps st"
proof -
  let ?fd = "trn_transit_map_get_fd (tb_maps st) ''jmp_table''"
  obtain s1 where j: "init_jmp_table K ?fd md [1..<5] st = (0, s1)" and i: "st' = s1 \<or> (\<exists>fd'. init_interfaces K fd' md [0..<2] s1 = (0, st'))"
    using assms(2) by (auto simp: trn_transit_xdp_map_initialize_def Let_def simp del: upt_Suc split: if_splits prod.splits)
  have fill: "bm_lookup (k_jmp_table K) ?fd i (tb_kern s1) = Some (pg_fd (md_ebpf_progs md ! i))" if "i \<in> {1..<5}" for i
    using init_jmp_table_fills [OF _ j] assms(1) that by (simp add: jmp_table_law_def)
  moreover have "bm_lookup (k_jmp_table K) ?fd i (tb_kern st') = bm_lookup (k_jmp_table K) ?fd i (tb_kern s1)" for i
    using i init_interfaces_jmp [OF assms(1)] by auto
  moreover have "tb_maps st' = tb_maps st"
    using init_jmp_table_maps [OF j] i init_interfaces_maps by metis
  ultimately show ?thesis by (simp add: stages_installed_def)
qed

text \<open>Attaching: every interface runs the program loaded for it.\<close>

abbreviation itf_at :: "user_metadata_t \<Rightarrow> nat \<Rightarrow> u32" where
  "itf_at md i \<equiv> tif_index (xo_eth (md_objs md ! i))"

abbreviation prog_at :: "user_metadata_t \<Rightarrow> nat \<Rightarrow> int" where
  "prog_at md i \<equiv> pg_fd (xo_xdp (md_objs md ! i))"

lemma attach_interfaces_runs:
  assumes "attach_law K attached" "jmp_table_law K"
  shows "attach_interfaces K is md st = (0, md', st') \<Longrightarrow> distinct (map (itf_at md) is) \<Longrightarrow> \<forall>i\<in>set is. i < length (md_objs md) \<Longrightarrow>
    (\<forall>i\<in>set is. attached (itf_at md i) (tb_kern st') = (if prog_at md i = - 1 then None else Some (prog_at md i))) \<and>
    (\<forall>x. x \<notin> itf_at md ` set is \<longrightarrow> attached x (tb_kern st') = attached x (tb_kern st)) \<and>
    map (\<lambda>ob. (xo_eth ob, pg_fd (xo_xdp ob))) (md_objs md') = map (\<lambda>ob. (xo_eth ob, pg_fd (xo_xdp ob))) (md_objs md) \<and>
    md_ebpf_progs md' = md_ebpf_progs md \<and> tb_maps st' = tb_maps st \<and>
    (\<forall>fd i. bm_lookup (k_jmp_table K) fd i (tb_kern st') = bm_lookup (k_jmp_table K) fd i (tb_kern st))"
proof (induction "is" arbitrary: md st)
  case (Cons j "is")
  obtain r k where a: "k_attach K (itf_at md j) (prog_at md j) (md_xdp_flags md) (tb_kern st) = (r, k)" by fastforce
  obtain e id where q: "k_prog_info K (prog_at md j) k = (e, id)" by fastforce
  let ?md = "md\<lparr>md_objs := (md_objs md)[j := (md_objs md ! j)\<lparr>xo_xdp := (xo_xdp (md_objs md ! j))\<lparr>pg_id := id\<rparr>\<rparr>]\<rparr>"
  have rec: "0 \<le> r" "attach_interfaces K is ?md (st\<lparr>tb_kern := k\<rparr>) = (0, md', st')"
    using Cons.prems(1) a q by (auto simp: Let_def split: if_splits)
  have same: "itf_at ?md i = itf_at md i" "prog_at ?md i = prog_at md i" for i
    using Cons.prems(3) by (simp_all add: nth_list_update)
  have objs: "map (\<lambda>ob. (xo_eth ob, pg_fd (xo_xdp ob))) (md_objs ?md) = map (\<lambda>ob. (xo_eth ob, pg_fd (xo_xdp ob))) (md_objs md)"
    by (cases "j < length (md_objs md)") (simp_all add: map_update list_update_same_conv list_update_beyond)
  have k: "attached x k = (if x = itf_at md j then (if prog_at md j = - 1 then None else Some (prog_at md j)) else attached x (tb_kern st))" for x
    using attach_lawD(1) [OF assms(1) a, of x] rec(1) by simp
  have d: "distinct (map (itf_at ?md) is)" "\<forall>i\<in>set is. i < length (md_objs ?md)" "itf_at md j \<notin> itf_at md ` set is"
    using Cons.prems(2,3) same by simp_all
  note IH = Cons.IH [OF rec(2) d(1,2), unfolded same tables.select_convs tables.simps]
  note at = IH [THEN conjunct1] and other = IH [THEN conjunct2, THEN conjunct1]
    and rest = IH [THEN conjunct2, THEN conjunct2]
  have first: "attached (itf_at md j) (tb_kern st') = attached (itf_at md j) k" using other [THEN spec, THEN mp, OF d(3)] by simp
  have 1: "\<forall>i\<in>set (j # is). attached (itf_at md i) (tb_kern st') = (if prog_at md i = - 1 then None else Some (prog_at md i))"
  proof
    fix i assume "i \<in> set (j # is)"
    then consider "i = j" | "i \<in> set is" by auto
    then show "attached (itf_at md i) (tb_kern st') = (if prog_at md i = - 1 then None else Some (prog_at md i))"
    proof cases
      case 1
      then show ?thesis by (simp only: first k refl if_True)
    qed (rule bspec [OF at])
  qed
  have 2: "\<forall>x. x \<notin> itf_at md ` set (j # is) \<longrightarrow> attached x (tb_kern st') = attached x (tb_kern st)"
  proof (intro allI impI)
    fix x assume x: "x \<notin> itf_at md ` set (j # is)"
    then have "x \<notin> itf_at md ` set is" by auto
    from other [THEN spec, THEN mp, OF this] have "attached x (tb_kern st') = attached x k" by simp
    with x k [of x] show "attached x (tb_kern st') = attached x (tb_kern st)" by auto
  qed
  have 3: "\<forall>fd i. bm_lookup (k_jmp_table K) fd i (tb_kern st') = bm_lookup (k_jmp_table K) fd i (tb_kern st)"
    using rest [THEN conjunct2, THEN conjunct2, THEN conjunct2] jmp_table_lawD(2) [OF assms(2) a] by simp
  from rest have "map (\<lambda>ob. (xo_eth ob, pg_fd (xo_xdp ob))) (md_objs md') = map (\<lambda>ob. (xo_eth ob, pg_fd (xo_xdp ob))) (md_objs md) \<and>
      md_ebpf_progs md' = md_ebpf_progs md \<and> tb_maps st' = tb_maps st" unfolding objs by simp
  with 1 2 3 show ?case by blast
qed simp

lemma load_runs:
  assumes "attach_law K attached" "jmp_table_law K" "k_if_nametoindex K (ifs ! 0) \<noteq> k_if_nametoindex K (ifs ! 1)"
    and load: "load_interfaces K ifs ibo [0..<2] (fresh_metadata debug) s0 = (0, md1, s1)"
      "load_stages K stages md1 s1 = (0, md2, s2)" "trn_transit_xdp_map_initialize K md2 s2 = (0, s3)"
      "attach_interfaces K [0..<2] md2 s3 = (0, md, st)"
  shows "metadata_ok md \<and> (\<forall>i<2. itf_ready K ifs ibo i (md_objs md ! i) \<and>
      attached (itf_at md i) (tb_kern st) = (if prog_at md i = - 1 then None else Some (prog_at md i))) \<and> stages_installed K md st"
proof -
  have ph: "metadata_ok (md\<lparr>md_ready := True\<rparr>)" "\<forall>i<2. itf_ready K ifs ibo i (md_objs md ! i)"
    using load_phases [OF load(1,2,4)] by auto
  have len: "length (md_objs md2) = 2" "length (md_objs md) = 2"
    using load_stages_ok [OF load(2) load_interfaces_ok [OF load(1) fresh_metadata_ok]] ph(1) by (simp_all add: metadata_ok_def)
  have objs: "map xo_eth (md_objs md) = map xo_eth (md_objs md2)" by (rule attach_interfaces_eth [OF load(4)])
  have eth: "xo_eth (md_objs md2 ! i) = xo_eth (md_objs md ! i)" if "i < 2" for i
    using arg_cong [OF objs, of "\<lambda>l. l ! i"] that len by simp
  then have ix: "itf_at md2 i = k_if_nametoindex K (ifs ! i)" if "i < 2" for i
    using ph(2) that by (simp add: itf_ready_def)
  have "distinct (map (itf_at md2) [0..<2])" using assms(3) ix [of 0] ix [of 1] by (simp add: upt_0_2)
  from attach_interfaces_runs [OF assms(1,2) load(4) this] len(1) have at:
    "\<forall>i<2. attached (itf_at md2 i) (tb_kern st) = (if prog_at md2 i = - 1 then None else Some (prog_at md2 i))"
    "map (\<lambda>ob. (xo_eth ob, pg_fd (xo_xdp ob))) (md_objs md) = map (\<lambda>ob. (xo_eth ob, pg_fd (xo_xdp ob))) (md_objs md2)"
    "md_ebpf_progs md = md_ebpf_progs md2" "tb_maps st = tb_maps s3"
    "\<forall>fd i. bm_lookup (k_jmp_table K) fd i (tb_kern st) = bm_lookup (k_jmp_table K) fd i (tb_kern s3)" by auto
  have "prog_at md2 i = prog_at md i" if "i < 2" for i
    using arg_cong [OF at(2), of "\<lambda>l. snd (l ! i)"] that len by simp
  then have "\<forall>i<2. attached (itf_at md i) (tb_kern st) = (if prog_at md i = - 1 then None else Some (prog_at md i))"
    using at(1) eth by simp
  moreover have "stages_installed K md st"
    using map_initialize_installs [OF assms(2) load(3), THEN conjunct1] at(3-5) by (simp add: stages_installed_def)
  ultimately show ?thesis using ph by (simp add: metadata_ok_def)
qed

lemma load_success:
  assumes "trn_transit_xdp_load K ifs ibo debug st = (0, st')" "dm_md st = None"
  shows "\<exists>s0 md1 s1 md2 s2 s3 md s4.
    load_interfaces K ifs ibo [0..<2] (fresh_metadata debug) s0 = (0, md1, s1) \<and>
    load_stages K [1..<5] md1 s1 = (0, md2, s2) \<and> trn_transit_xdp_map_initialize K md2 s2 = (0, s3) \<and>
    attach_interfaces K [0..<2] md2 s3 = (0, md, s4) \<and> st' = s4\<lparr>dm_md := Some (md\<lparr>md_ready := True\<rparr>)\<rparr>"
proof -
  obtain e k where k: "k_setrlimit K (tb_kern st) = (e, k)" by fastforce
  define stages where "stages = [prog_id_code TRAN_TRANSIT_PROG + 1..<TRAN_MAX_PROG_N]"
  define s0 where "s0 = st\<lparr>tb_kern := k, tb_maps := map (\<lambda>m. m\<lparr>xm_fd := - 1, xm_map := None\<rparr>) (tb_maps st)\<rparr>"
  have ok: "(case load_interfaces K ifs ibo [0..<TRAN_ITF_MAP_MAX_N] (fresh_metadata debug) s0 of (e1, md1, s1) \<Rightarrow>
      if e1 \<noteq> 0 then (1, s1\<lparr>dm_md := None\<rparr>) else (case load_stages K stages md1 s1 of (e2, md2, s2) \<Rightarrow>
      if e2 \<noteq> 0 then (1, s2\<lparr>dm_md := None\<rparr>) else (case trn_transit_xdp_map_initialize K md2 s2 of (e3, s3) \<Rightarrow>
      if e3 \<noteq> 0 then (1, s3\<lparr>dm_md := None\<rparr>) else (case attach_interfaces K [0..<TRAN_ITF_MAP_MAX_N] md2 s3 of (e4, md, s4) \<Rightarrow>
      if e4 \<noteq> 0 then (1, s4\<lparr>dm_md := None\<rparr>) else (0, s4\<lparr>dm_md := Some (md\<lparr>md_ready := True\<rparr>)\<rparr>))))) = (0 :: int, st')"
    using assms k unfolding s0_def stages_def
    by (simp add: trn_transit_xdp_load_def trn_transit_map_hash_def Let_def split: if_splits del: upt_Suc)
  obtain e1 md1 s1 where p1: "load_interfaces K ifs ibo [0..<2] (fresh_metadata debug) s0 = (e1, md1, s1)" by (metis prod_cases3)
  obtain e2 md2 s2 where p2: "load_stages K stages md1 s1 = (e2, md2, s2)" by (metis prod_cases3)
  obtain e3 s3 where p3: "trn_transit_xdp_map_initialize K md2 s2 = (e3, s3)" by fastforce
  obtain e4 md s4 where p4: "attach_interfaces K [0..<2] md2 s3 = (e4, md, s4)" by (metis prod_cases3)
  from ok have e: "e1 = 0" by (simp add: p1 split: if_splits)
  from ok e have e': "e2 = 0" by (simp add: p1 p2 split: if_splits)
  from ok e e' have e'': "e3 = 0" by (simp add: p1 p2 p3 split: if_splits)
  from ok e e' e'' have "e4 = 0 \<and> st' = s4\<lparr>dm_md := Some (md\<lparr>md_ready := True\<rparr>)\<rparr>"
    by (simp add: p1 p2 p3 p4 split: if_splits)
  moreover have "stages = [1..<5]" by (simp add: stages_def)
  ultimately show ?thesis using p1 p2 p3 p4 e e' e'' by metis
qed


lemma demo_attach_law: "attach_law demo_kernel (\<lambda>i s. dk_attached s i)"
  by (auto simp: attach_law_def demo_kernel_def)

lemma demo_jmp_table_law: "jmp_table_law demo_kernel"
  using demo_laws(2) by (simp add: jmp_table_law_def) (simp add: demo_kernel_def table_ops_def)

lemma upt_1_5: "[Suc 0..<5] = [1, 2, 3, 4]"
  by (simp add: upt_rec)

lemma demo_load_succeeds:
  "\<exists>st'. trn_transit_xdp_load demo_kernel [''eth0'', ''eth1''] 8300 False (daemon_init demo_kern0) = (0, st')"
  by (simp add: trn_transit_xdp_load_def trn_transit_map_hash_def upt_0_2 upt_1_5 Let_def trn_prog_load_def
      prog_load_opened_def trn_transit_xdp_pre_load_def trn_transit_xdp_post_load_def demo_kernel_def daemon_init_def
      trn_xdp_bpfmaps_def map_pin_file_def fresh_metadata_def prog_zero_def pin_path_def TRAN_MAX_PATH_SIZE_def
      trn_transit_xdp_map_initialize_def trn_transit_map_get_fd_def table_ops_def)


text \<open>
  C35: a failed load is not undone. When everything is loaded, the first interface is attached and
  attaching the second fails, the call returns 1 and forgets its metadata while the gateway keeps
  running on the first interface; an unload then reports success and does nothing.
\<close>

theorem trn_transit_xdp_load_leaves_attached:
  assumes "attach_law K attached" "dm_md st = None" "k_setrlimit K (tb_kern st) = (0, k)" "k_malloc_ok K k"
    and load: "load_interfaces K ifs ibo [0..<2] (fresh_metadata debug)
        (st\<lparr>tb_kern := k, tb_maps := snd (trn_transit_map_hash (tb_maps st))\<rparr>) = (0, md1, s1)"
      "load_stages K [1..<5] md1 s1 = (0, md, s2)" "trn_transit_xdp_map_initialize K md s2 = (0, s3)"
    and first: "k_attach K (itf_at md 0) (prog_at md 0) (md_xdp_flags md) (tb_kern s3) = (a, k1)" "0 \<le> a"
      "k_prog_info K (prog_at md 0) k1 = (0, info)" "prog_at md 0 \<noteq> - 1"
    and second: "k_attach K (itf_at md 1) (prog_at md 1) (md_xdp_flags md) k1 = (b, k2)" "b < 0"
  shows "\<exists>st'. trn_transit_xdp_load K ifs ibo debug st = (1, st') \<and> dm_md st' = None \<and>
    attached (itf_at md 0) (tb_kern st') = Some (prog_at md 0) \<and> trn_transit_xdp_unload K st' = (0, st')"
proof -
  let ?md = "md\<lparr>md_objs := (md_objs md)[0 := (md_objs md ! 0)\<lparr>xo_xdp := (xo_xdp (md_objs md ! 0))\<lparr>pg_id := info\<rparr>\<rparr>]\<rparr>"
  have "attach_interfaces K [0..<2] md s3 = (1, ?md, s3\<lparr>tb_kern := k2\<rparr>)"
    using first second by (simp add: upt_0_2 Let_def)
  then have "trn_transit_xdp_load K ifs ibo debug st = (1, s3\<lparr>tb_kern := k2, dm_md := None\<rparr>)"
    using assms(2-4) load by (simp add: trn_transit_xdp_load_def trn_transit_map_hash_def Let_def)
  moreover have "attached (itf_at md 0) k2 = Some (prog_at md 0)"
    using attach_lawD(1) [OF assms(1) first(1)] attach_lawD(1) [OF assms(1) second(1)] first(2,4) second(2) by simp
  ultimately show ?thesis by (simp add: trn_transit_xdp_unload_def)
qed

text \<open>The demonstration kernel where a program cannot be attached to \<open>eth1\<close>.\<close>

definition demo_refusing_kernel :: "demo_kern kernel" where
  "demo_refusing_kernel = demo_kernel\<lparr>k_attach := (\<lambda>i fd fl s. if i = 4 then (- 16, s)
     else (0, s\<lparr>dk_attached := (dk_attached s)(i := if fd = - 1 then None else Some fd)\<rparr>))\<rparr>"

lemma demo_load_steps:
  "\<exists>md1 s1. load_interfaces demo_refusing_kernel [''eth0'', ''eth1''] 8300 [0..<2] (fresh_metadata False)
      (daemon_init demo_kern0) = (0, md1, s1) \<and>
    (\<exists>md s2. load_stages demo_refusing_kernel [1..<5] md1 s1 = (0, md, s2) \<and> itf_at md 0 = 3 \<and> prog_at md 0 = 7 \<and> itf_at md 1 = 4 \<and>
      (\<exists>s3. trn_transit_xdp_map_initialize demo_refusing_kernel md s2 = (0, s3)))"
  by (simp add: upt_0_2 upt_1_5 Let_def trn_prog_load_def prog_load_opened_def trn_transit_xdp_pre_load_def
      trn_transit_xdp_post_load_def demo_refusing_kernel_def demo_kernel_def daemon_init_def trn_xdp_bpfmaps_def map_pin_file_def
      fresh_metadata_def prog_zero_def pin_path_def TRAN_MAX_PATH_SIZE_def trn_transit_xdp_map_initialize_def
      trn_transit_map_get_fd_def table_ops_def)

theorem trn_transit_xdp_load_leaves_attached_witness:
  "\<exists>st'. trn_transit_xdp_load demo_refusing_kernel [''eth0'', ''eth1''] 8300 False (daemon_init demo_kern0) = (1, st') \<and>
    dk_attached (tb_kern st') 3 = Some 7 \<and> trn_transit_xdp_unload demo_refusing_kernel st' = (0, st')"
proof -
  have law: "attach_law demo_refusing_kernel (\<lambda>i s. dk_attached s i)"
    by (auto simp: attach_law_def demo_refusing_kernel_def demo_kernel_def)
  have st: "(daemon_init demo_kern0)\<lparr>tb_kern := demo_kern0, tb_maps := snd (trn_transit_map_hash (tb_maps (daemon_init demo_kern0)))\<rparr>
      = daemon_init demo_kern0"
    by (simp add: daemon_init_def trn_transit_map_hash_def trn_xdp_bpfmaps_def)
  have k: "dm_md (daemon_init demo_kern0) = None" "k_setrlimit demo_refusing_kernel (tb_kern (daemon_init demo_kern0)) = (0, demo_kern0)"
    "k_malloc_ok demo_refusing_kernel demo_kern0"
    by (simp_all add: daemon_init_def demo_refusing_kernel_def demo_kernel_def)
  obtain md1 s1 md s2 s3 where l: "load_interfaces demo_refusing_kernel [''eth0'', ''eth1''] 8300 [0..<2] (fresh_metadata False)
      (daemon_init demo_kern0) = (0, md1, s1)" "load_stages demo_refusing_kernel [1..<5] md1 s1 = (0, md, s2)"
    "trn_transit_xdp_map_initialize demo_refusing_kernel md s2 = (0, s3)" "itf_at md 0 = 3" "prog_at md 0 = 7" "itf_at md 1 = 4"
    using demo_load_steps by blast
  obtain k1 where first: "k_attach demo_refusing_kernel (itf_at md 0) (prog_at md 0) (md_xdp_flags md) (tb_kern s3) = (0, k1)"
    unfolding l(4) by (simp add: demo_refusing_kernel_def)
  have second: "k_attach demo_refusing_kernel (itf_at md 1) (prog_at md 1) (md_xdp_flags md) k1 = (- 16, k1)"
    unfolding l(6) by (simp add: demo_refusing_kernel_def)
  have info: "k_prog_info demo_refusing_kernel (prog_at md 0) k1 = (0, 0)" by (simp add: demo_refusing_kernel_def demo_kernel_def)
  have l1: "load_interfaces demo_refusing_kernel [''eth0'', ''eth1''] 8300 [0..<2] (fresh_metadata False)
      ((daemon_init demo_kern0)\<lparr>tb_kern := demo_kern0, tb_maps := snd (trn_transit_map_hash (tb_maps (daemon_init demo_kern0)))\<rparr>)
      = (0, md1, s1)" unfolding st by (rule l(1))
  from trn_transit_xdp_load_leaves_attached [OF law k l1 l(2,3) first _ info _ second] l(4,5) show ?thesis by auto
qed

section \<open>What unloading leaves attached\<close>

lemma unpin_maps_attached:
  assumes "attach_law K attached"
  shows "unpin_maps K i ms md k = (r, k') \<Longrightarrow> attached j k' = attached j k"
proof (induction ms arbitrary: i k)
  case (Cons m ms)
  from Cons.prems show ?case
    by (auto simp: Let_def attach_lawD(2) [OF assms] dest!: Cons.IH split: if_splits)
qed simp

lemma close_objects_attached:
  assumes "attach_law K attached" shows "attached j (close_objects K md k) = attached j k"
proof -
  have f: "attached j (fold (\<lambda>ob. k_obj_close K (pg_obj (xo_xdp ob))) obs s) = attached j s" for obs s
    by (induction obs arbitrary: s) (simp_all add: attach_lawD(3) [OF assms])
  have g: "attached j (fold (\<lambda>p. if pg_obj p \<noteq> None then k_obj_close K (pg_obj p) else id) ps s) = attached j s" for ps s
    by (induction ps arbitrary: s) (simp_all add: attach_lawD(3) [OF assms])
  show ?thesis by (simp only: close_objects_def f g)
qed

lemma detach_interfaces_attached:
  assumes "attach_law K attached"
  shows "detach_interfaces K is md st = (0, st') \<Longrightarrow> distinct (map (\<lambda>i. tif_index (xo_eth (md_objs md ! i))) is) \<Longrightarrow>
    (\<forall>i\<in>set is. pg_fd (xo_xdp (md_objs md ! i)) \<noteq> - 1 \<longrightarrow>
       attached (tif_index (xo_eth (md_objs md ! i))) (tb_kern st') = Some (pg_fd (xo_xdp (md_objs md ! i)))) \<and>
    (\<forall>j. j \<notin> (\<lambda>i. tif_index (xo_eth (md_objs md ! i))) ` set is \<longrightarrow> attached j (tb_kern st') = attached j (tb_kern st)) \<and>
    tb_maps st' = tb_maps st"
proof (induction "is" arbitrary: st)
  case (Cons i "is")
  let ?ob = "md_objs md ! i"
  let ?x = "tif_index (xo_eth ?ob)" and ?fl = "md_xdp_flags md"
  obtain e id where q: "k_query_id K ?x ?fl (tb_kern st) = (e, id)" by fastforce
  obtain r0 k0 where a0: "k_attach K ?x (- 1) ?fl (tb_kern st) = (r0, k0)" by fastforce
  define k1 where "k1 = (if pg_id (xo_xdp ?ob) = id then k0 else tb_kern st)"
  obtain r2 k2 where a2: "k_attach K ?x (pg_fd (xo_xdp ?ob)) ?fl k1 = (r2, k2)" by fastforce
  have st: "(if pg_id (xo_xdp ?ob) = id then st\<lparr>tb_kern := k0\<rparr> else st)\<lparr>tb_kern := k2\<rparr> = st\<lparr>tb_kern := k2\<rparr>"
    "tb_kern (if pg_id (xo_xdp ?ob) = id then st\<lparr>tb_kern := k0\<rparr> else st) = k1"
    by (simp_all add: k1_def)
  have rec: "0 \<le> r2" "detach_interfaces K is md (st\<lparr>tb_kern := k2\<rparr>) = (0, st')"
    using Cons.prems(1) q a0 a2 st by (auto simp: Let_def split: if_splits)
  have k1: "j \<noteq> ?x \<Longrightarrow> attached j k1 = attached j (tb_kern st)" for j
    using attach_lawD(1) [OF assms a0, of j] by (simp add: k1_def)
  have k2: "attached j k2 = (if j = ?x then (if pg_fd (xo_xdp ?ob) = - 1 then None else Some (pg_fd (xo_xdp ?ob)))
      else attached j (tb_kern st))" for j
    using attach_lawD(1) [OF assms a2, of j] rec(1) k1 by simp
  have IH: "(\<forall>i\<in>set is. pg_fd (xo_xdp (md_objs md ! i)) \<noteq> - 1 \<longrightarrow>
       attached (tif_index (xo_eth (md_objs md ! i))) (tb_kern st') = Some (pg_fd (xo_xdp (md_objs md ! i))))"
    "\<And>j. j \<notin> (\<lambda>i. tif_index (xo_eth (md_objs md ! i))) ` set is \<Longrightarrow> attached j (tb_kern st') = attached j k2"
    "tb_maps st' = tb_maps st"
    using Cons.IH [OF rec(2)] Cons.prems(2) by simp_all
  have "?x \<notin> (\<lambda>i. tif_index (xo_eth (md_objs md ! i))) ` set is" using Cons.prems(2) by simp
  from IH(2) [OF this] show ?case using IH k2 by simp
qed simp

text \<open>
  C33: a successful unload does not detach the gateway: step 1 attaches the program again right
  after detaching it, so both interfaces still run their programs when the call returns 0, the
  maps are unpinned and the metadata is freed.
\<close>

theorem trn_transit_xdp_unload_leaves_attached:
  assumes "attach_law K attached" "trn_transit_xdp_unload K st = (0, st')" "dm_md st = Some md"
    "tif_index (xo_eth (md_objs md ! 0)) \<noteq> tif_index (xo_eth (md_objs md ! 1))"
    "i < TRAN_ITF_MAP_MAX_N" "pg_fd (xo_xdp (md_objs md ! i)) \<noteq> - 1"
  shows "attached (tif_index (xo_eth (md_objs md ! i))) (tb_kern st') = Some (pg_fd (xo_xdp (md_objs md ! i))) \<and>
    dm_md st' = None"
proof -
  obtain s1 k where d: "detach_interfaces K [0..<2] md st = (0, s1)"
    "unpin_maps K 0 (tb_maps s1) md (tb_kern s1) = (0, k)"
    "st' = s1\<lparr>tb_kern := close_objects K md k, dm_md := None\<rparr>"
    using assms(2,3) by (auto simp: trn_transit_xdp_unload_def Let_def split: prod.splits if_splits)
  have "attached (tif_index (xo_eth (md_objs md ! i))) (tb_kern s1) = Some (pg_fd (xo_xdp (md_objs md ! i)))"
  proof -
    have "distinct (map (\<lambda>i. tif_index (xo_eth (md_objs md ! i))) [0..<2])"
      using assms(4) by (simp add: upt_rec numeral_2_eq_2)
    from detach_interfaces_attached [OF assms(1) d(1) this, THEN conjunct1] assms(5,6) show ?thesis
      by simp
  qed
  then show ?thesis
    using d(3) by (simp add: close_objects_attached [OF assms(1)] unpin_maps_attached [OF assms(1) d(2)])
qed

lemma demo_unload: "\<exists>st'. trn_transit_xdp_unload demo_kernel demo_daemon = (0, st')"
  by (simp add: trn_transit_xdp_unload_def demo_daemon_def upt_rec numeral_2_eq_2 demo_kernel_def
      trn_xdp_bpfmaps_def pin_path_def TRAN_MAX_PATH_SIZE_def Let_def)

theorem trn_transit_xdp_unload_leaves_attached_witness:
  "\<exists>st'. trn_transit_xdp_unload demo_kernel demo_daemon = (0, st') \<and>
     dk_attached (tb_kern st') 3 = Some 7 \<and> dm_md st' = None"
proof -
  obtain st' where u: "trn_transit_xdp_unload demo_kernel demo_daemon = (0, st')" using demo_unload by blast
  have "dm_md demo_daemon = Some demo_md" by (simp add: demo_daemon_def)
  from trn_transit_xdp_unload_leaves_attached [OF demo_attach_law u this, of 0] u
  show ?thesis by (simp add: demo_md_def)
qed

text \<open>
  The capture hook is never pinned at the file prepared for it. The registry knows the map
  as \<open>xdpcap_hook\<close>, the loader looks for \<open>xdpcap_hook_map\<close>: every tracked map is pinned under its
  plain name, for the main program too, and unloading with the registry's names never unpins
  the capture file.
\<close>

theorem pcapfile_never_pinned:
  assumes "trn_transit_map_get trn_xdp_bpfmaps name = Some i"
  shows "map_pin_file n prog name = Some (pin_path @ ''/'' @ name) \<and>
    (\<forall>m\<in>set trn_xdp_bpfmaps. xm_name m \<noteq> ''xdpcap_hook_map'')"
proof -
  have "name \<in> xm_name ` set trn_xdp_bpfmaps"
    using assms trn_transit_map_get_None [of trn_xdp_bpfmaps name] by auto
  then show ?thesis
    by (auto simp: trn_xdp_bpfmaps_def map_pin_file_def pin_path_def TRAN_MAX_PATH_SIZE_def)
qed

theorem pcapfile_never_pinned_witness:
  "map_pin_file 0 (prog_zero\<lparr>pg_pcapfile := ''p''\<rparr>) ''xdpcap_hook'' = Some ''/sys/fs/bpf/xdpcap_hook''"
proof -
  have "trn_transit_map_get trn_xdp_bpfmaps ''xdpcap_hook'' = Some 8"
    by (simp add: trn_xdp_bpfmaps_def)
  from pcapfile_never_pinned [OF this, of 0 "prog_zero\<lparr>pg_pcapfile := ''p''\<rparr>"] show ?thesis
    by (simp add: pin_path_def)
qed

text \<open>
  Installing a stage program. A successful \<open>trn_transit_ebpf_load\<close> needs an index of a stage
  program, leaves the freshly loaded program at exactly that index of the jump table, and
  every other stage as it was; an index outside the stages changes nothing.
\<close>

theorem trn_transit_ebpf_load_installs:
  assumes "map_law (k_jmp_table K)" "trn_transit_ebpf_load K prog_idx st = (r, st')" "dm_md st = Some md"
    "metadata_ok md"
  shows "(\<not> (0 < prog_idx \<and> prog_idx < 5) \<longrightarrow> r = 1 \<and> st' = st) \<and>
    (r = 0 \<longrightarrow> (\<exists>md' fd. dm_md st' = Some md' \<and> fd = trn_transit_map_get_fd (tb_maps st') ''jmp_table'' \<and>
      bm_lookup (k_jmp_table K) fd (nat prog_idx) (tb_kern st') = Some (pg_fd (md_ebpf_progs md' ! nat prog_idx)) \<and>
      (\<forall>j. j \<noteq> nat prog_idx \<longrightarrow> md_ebpf_progs md' ! j = md_ebpf_progs md ! j)))"
proof (cases "0 < prog_idx \<and> prog_idx < 5")
  case False
  then show ?thesis using assms(2,3) by (auto simp: trn_transit_ebpf_load_def)
next
  case True
  let ?i = "nat prog_idx"
  have len: "?i < length (md_ebpf_progs md)" using assms(4) True by (auto simp: metadata_ok_def)
  obtain e p s1 where l: "trn_prog_load K (md_prog_tbl md ! ?i) (md_ebpf_progs md ! ?i) ?i st = (e, p, s1)"
    by (metis prod_cases3)
  let ?md' = "md\<lparr>md_ebpf_progs := (md_ebpf_progs md)[?i := p]\<rparr>"
  let ?fd = "trn_transit_map_get_fd (tb_maps s1) ''jmp_table''"
  obtain u k where b: "bm_update (k_jmp_table K) ?fd ?i (pg_fd p) (tb_kern s1) = (u, k)" by fastforce
  have "r = 0 \<longrightarrow> st' = s1\<lparr>dm_md := Some ?md', tb_kern := k\<rparr> \<and> u = 0"
    using assms(2,3) True l b by (auto simp: trn_transit_ebpf_load_def Let_def split: if_splits)
  then show ?thesis using True len map_law_update [OF assms(1) b, of ?i] by auto
qed

theorem trn_transit_ebpf_load_installs_witness:
  "\<exists>r st'. trn_transit_ebpf_load demo_kernel 9 demo_daemon = (r, st') \<and> r = 1 \<and> st' = demo_daemon"
proof -
  obtain r st' where l: "trn_transit_ebpf_load demo_kernel 9 demo_daemon = (r, st')" by fastforce
  have "dm_md demo_daemon = Some demo_md" "metadata_ok demo_md"
    by (simp_all add: demo_daemon_def metadata_ok_def demo_md_def fresh_metadata_def trn_prog_tbl_def)
  from trn_transit_ebpf_load_installs [OF demo_laws(2) l this] l show ?thesis by simp
qed

end
