(* ===== verification/Arion_Rpc.thy ===== *)
theory Arion_Rpc
  imports Arion_Loader_Props
begin

text \<open>
  The RPC handlers of the daemon (\<open>src/src/dmn/trn_rpc_protocol_handlers_1.c\<close>) over the tables
  and the loader. A handler returns its result code with the daemon's state; \<open>update_droplet\<close>
  can leave its arrays and is partial. The requests together form the daemon's transition
  system, with the invariant its handlers keep.
\<close>

section \<open>Requests\<close>

definition RPC_TRN_ERROR :: int where [simp]: "RPC_TRN_ERROR = 2"
definition RPC_TRN_FATAL :: int where [simp]: "RPC_TRN_FATAL = 3"

record rpc_endpoint_key_t =
  rek_vni :: u32
  rek_ip :: u32

record rpc_addr_t =
  ra_ip :: u32
  ra_mac :: mac6

record rpc_trn_droplet_t =
  rd_interface :: string
  rd_num_entrances :: u32
  rd_entrances :: "rpc_addr_t list"

record rpc_trn_xdp_intf_t =
  rx_interfaces :: "string list"
  rx_ibo_port :: u16
  rx_debug_mode :: u32

record rpc_trn_ebpf_prog_t =
  re_prog_idx :: u32
  re_debug_mode :: u32

text \<open>The cast \<open>(endpoint_key_t *)argp\<close>.\<close>

definition key_of_rpc :: "rpc_endpoint_key_t \<Rightarrow> endpoint_key_t" where
  "key_of_rpc k = \<lparr>ek_vni = rek_vni k, ek_ip = rek_ip k\<rparr>"

section \<open>Handlers\<close>

primrec update_ep_loop :: "('s, 'z) kernel_scheme \<Rightarrow> int \<Rightarrow> rpc_trn_endpoint_t list \<Rightarrow> 's daemon \<Rightarrow> int \<times> 's daemon" where
  "update_ep_loop K ctx [] st = (0, st)"
| "update_ep_loop K ctx (ep # eps) st =
     (let (key, val) = xdp_ep_of_rpc ep; (rc, st) = trn_update_endpoint K ctx key val st
      in if rc \<noteq> 0 then (RPC_TRN_ERROR, st) else update_ep_loop K ctx eps st)"

definition update_ep_1_svc :: "('s, 'z) kernel_scheme \<Rightarrow> rpc_trn_endpoint_t list \<Rightarrow> 's daemon \<Rightarrow> int \<times> 's daemon" where
  "update_ep_1_svc K batch st =
     (let ctx = trn_update_endpoints_get_ctx st
      in if ctx < 0 then (RPC_TRN_ERROR, st) else update_ep_loop K ctx batch st)"

definition delete_ep_1_svc :: "('s, 'z) kernel_scheme \<Rightarrow> rpc_endpoint_key_t \<Rightarrow> 's daemon \<Rightarrow> int \<times> 's daemon" where
  "delete_ep_1_svc K argp st =
     (let (rc, st) = trn_delete_endpoint K (key_of_rpc argp) st
      in if rc \<noteq> 0 then (RPC_TRN_ERROR, st) else (0, st))"

definition get_ep_1_svc :: "('s, 'z) kernel_scheme \<Rightarrow> rpc_endpoint_key_t \<Rightarrow> 's daemon \<Rightarrow> rpc_trn_endpoint_t option" where
  "get_ep_1_svc K argp st =
     (case trn_get_endpoint K (key_of_rpc argp) st of
        (rc, val) \<Rightarrow> if rc \<noteq> 0 then None
          else map_option (rpc_of_xdp_ep \<lparr>ek_vni = rek_vni argp, ek_ip = rek_ip argp\<rparr>) val)"

text \<open>
  The copy of the entrances into the \<open>tunnel_iface_t\<close> on the stack, \<open>i\<close> up to \<open>n\<close>: \<open>None\<close> when it
  leaves the array of the request or of the configuration.
\<close>

primrec copy_entrances :: "rpc_addr_t list \<Rightarrow> nat \<Rightarrow> nat \<Rightarrow> zgc_entrance_t list \<Rightarrow> zgc_entrance_t list option" where
  "copy_entrances src i 0 dst = Some dst"
| "copy_entrances src i (Suc n) dst =
     (if i < length src \<and> i < length dst
      then copy_entrances src (i + 1) n
        (dst[i := \<lparr>ze_ip = ra_ip (src ! i), ze_announced = 0, ze_mac = ra_mac (src ! i)\<rparr>])
      else None)"

text \<open>\<open>stack\<close> is what the uninitialised local holds.\<close>

definition update_droplet_1_svc :: "('s, 'z) kernel_scheme \<Rightarrow> tunnel_iface_t \<Rightarrow> rpc_trn_droplet_t \<Rightarrow> 's daemon \<Rightarrow>
    (int \<times> 's daemon) option" where
  "update_droplet_1_svc K stack droplet st =
     (case trn_get_itf_context K (rd_interface droplet) st of
        None \<Rightarrow> Some (RPC_TRN_ERROR, st)
      | Some eth \<Rightarrow> do {
          ents \<leftarrow> copy_entrances (rd_entrances droplet) 0 (unat (rd_num_entrances droplet)) (entrances stack);
          let itf = stack\<lparr>entrances := ents, num_entrances := rd_num_entrances droplet,
                iface_index := tif_index eth, ibo_port := tif_ibo_port eth, ti_role := tif_role eth,
                ti_protocol := tif_protocol eth\<rparr>;
          let (rc, st) = trn_update_itf_config K itf st;
          Some (if rc \<noteq> 0 then (RPC_TRN_ERROR, st) else (0, st))
        })"

definition load_transit_xdp_1_svc :: "('s, 'z) kernel_scheme \<Rightarrow> rpc_trn_xdp_intf_t \<Rightarrow> 's daemon \<Rightarrow> int \<times> 's daemon" where
  "load_transit_xdp_1_svc K xdp_intf st =
     (let debug = (rx_debug_mode xdp_intf \<noteq> 0);
          (rc, st) = trn_transit_xdp_load K (rx_interfaces xdp_intf) (rx_ibo_port xdp_intf) debug st
      in if rc \<noteq> 0 then (RPC_TRN_FATAL, st) else (0, st))"

definition unload_transit_xdp_1_svc :: "('s, 'z) kernel_scheme \<Rightarrow> rpc_trn_xdp_intf_t \<Rightarrow> 's daemon \<Rightarrow> int \<times> 's daemon" where
  "unload_transit_xdp_1_svc K xdp_intf st =
     (let (rc, st) = trn_transit_xdp_unload K st in if rc \<noteq> 0 then (RPC_TRN_FATAL, st) else (0, st))"

text \<open>The index of the request is unsigned; the function takes an \<open>int\<close>.\<close>

definition load_transit_xdp_ebpf_1_svc :: "('s, 'z) kernel_scheme \<Rightarrow> rpc_trn_ebpf_prog_t \<Rightarrow> 's daemon \<Rightarrow> int \<times> 's daemon" where
  "load_transit_xdp_ebpf_1_svc K argp st =
     (let (rc, st) = trn_transit_ebpf_load K (sint (re_prog_idx argp)) st
      in if rc \<noteq> 0 then (RPC_TRN_ERROR, st) else (0, st))"

definition unload_transit_xdp_ebpf_1_svc :: "('s, 'z) kernel_scheme \<Rightarrow> rpc_trn_ebpf_prog_t \<Rightarrow> 's daemon \<Rightarrow> int \<times> 's daemon" where
  "unload_transit_xdp_ebpf_1_svc K argp st =
     (let (rc, st) = trn_transit_ebpf_unload K (sint (re_prog_idx argp)) st
      in if rc \<noteq> 0 then (RPC_TRN_ERROR, st) else (0, st))"

end
