(* ===== verification/Arion_Cli.thy ===== *)
theory Arion_Cli
  imports Arion_Ketopt Arion_Json_Parse Arion_Rpc
begin

text \<open>
  The command line client (\<open>src/src/cli\<close>). A computation is \<open>None\<close> where the C code has undefined
  behaviour (a NULL pointer is read, a conversion from \<open>double\<close> is out of range, a buffer
  overflows), \<open>Some (Inl out)\<close> where it stops with a return code or with \<open>exit\<close>, and
  \<open>Some (Inr x)\<close> where it goes on with \<open>x\<close>. Parameters: the files, the transport rpcgen
  generates (a record of the calls, \<open>None\<close> for a failed one) and \<open>clnt_create\<close>. Allocation
  succeeds; messages and the printing of \<open>dump_ep\<close> and \<open>dump_droplet\<close> are left out.
\<close>

section \<open>Outcomes\<close>

datatype outcome = Return int | Exit int

type_synonym 'a cli = "(outcome + 'a) option"

definition EINVAL :: int where "EINVAL = 22"

abbreviation einval :: "'a cli" where "einval \<equiv> Some (Inl (Return (- EINVAL)))"

definition and_then :: "'a cli \<Rightarrow> ('a \<Rightarrow> 'b cli) \<Rightarrow> 'b cli" where
  "and_then p f = (case p of None \<Rightarrow> None | Some (Inl out) \<Rightarrow> Some (Inl out) | Some (Inr x) \<Rightarrow> f x)"

definition guard_that :: "bool \<Rightarrow> 'a cli \<Rightarrow> 'a cli" where
  "guard_that b p = (if b then p else einval)"

lemma and_then_simps [simp]:
  "and_then (Some (Inr x)) f = f x" "and_then (Some (Inl out)) f = Some (Inl out)" "and_then None f = None"
  by (simp_all add: and_then_def)

lemma guard_that_simps [simp]: "guard_that True p = p" "guard_that False p = einval"
  by (simp_all add: guard_that_def)

section \<open>The C library\<close>

text \<open>The conversion of a \<open>double\<close> to an unsigned type of \<open>w\<close> bits: undefined out of range.\<close>

definition double_to_uint :: "nat \<Rightarrow> double \<Rightarrow> int option" where
  "double_to_uint w d = (case d of
     Infinite _ \<Rightarrow> None
   | Finite x \<Rightarrow> let t = trunc_rat x in if 0 \<le> t \<and> t < 2 ^ w then Some t else None)"

text \<open>\<open>strcpy\<close> into a buffer of \<open>cap\<close> bytes.\<close>

definition strcpy_into :: "nat \<Rightarrow> string \<Rightarrow> string option" where
  "strcpy_into cap s = (if length s < cap then Some s else None)"

definition is_space :: "char \<Rightarrow> bool" where
  "is_space c \<longleftrightarrow> c = CHR '' '' \<or> CHR 0x09 \<le> c \<and> c \<le> CHR 0x0D"

text \<open>
  \<open>inet_pton(AF_INET, \<dots>)\<close>: the octets before the current one, the current one, how many were
  begun, and whether the current one has a digit.
\<close>

primrec pton_loop :: "string \<Rightarrow> nat list \<Rightarrow> nat \<Rightarrow> nat \<Rightarrow> bool \<Rightarrow> nat list option" where
  "pton_loop [] done cur octets saw_digit = (if octets < 4 then None else Some (done @ [cur]))"
| "pton_loop (ch # src) done cur octets saw_digit =
     (if is_digit ch
      then let new = cur * 10 + (of_char ch - of_char CHR ''0'')
        in if saw_digit \<and> cur = 0 \<or> 255 < new then None
           else if saw_digit then pton_loop src done new octets True
           else if octets = 4 then None
           else pton_loop src done new (octets + 1) True
      else if ch = CHR ''.'' \<and> saw_digit
      then if octets = 4 then None else pton_loop src (done @ [cur]) 0 octets False
      else None)"

definition inet_pton :: "string \<Rightarrow> u32 option" where
  "inet_pton s = (case pton_loop s [] 0 0 False of
     None \<Rightarrow> None
   | Some os \<Rightarrow> Some (le32 (le16 (of_nat (os ! 0)) (of_nat (os ! 1))) (le16 (of_nat (os ! 2)) (of_nat (os ! 3)))))"

text \<open>The conversion \<open>%hhx\<close>: the low byte of the number, and the input after it.\<close>

definition scan_hhx :: "string \<Rightarrow> (u8 \<times> string) option" where
  "scan_hhx s =
     (let s = dropWhile is_space s; (neg, n) = sign_of s; s = drop n s;
          zero = (s \<noteq> [] \<and> hd s = CHR ''0''); s = (if zero then tl s else s);
          s = (if zero \<and> s \<noteq> [] \<and> (hd s = CHR ''x'' \<or> hd s = CHR ''X'') then tl s else s);
          ds = takeWhile (\<lambda>c. hex_value c \<noteq> None) s;
          v = foldl (\<lambda>v c. 16 * v + the (hex_value c)) 0 ds;
          w = (if 2 ^ 64 \<le> v then 2 ^ 64 - 1 else if neg then - int v else int v)
      in if \<not> zero \<and> ds = [] then None else Some (of_int w, drop (length ds) s))"

text \<open>\<open>sscanf\<close> with \<open>%hhx\<close> conversions separated by colons; \<open>None\<close> when one fails.\<close>

primrec scan_mac :: "nat \<Rightarrow> string \<Rightarrow> u8 list option" where
  "scan_mac 0 s = Some []"
| "scan_mac (Suc n) s = do {
     (b, s) \<leftarrow> scan_hhx s;
     if n = 0 then Some [b]
     else if s \<noteq> [] \<and> hd s = CHR '':'' then map_option ((#) b) (scan_mac n (tl s))
     else None
   }"

text \<open>\<open>atoi\<close>, as the cast of \<open>strtol\<close>.\<close>

definition atoi :: "string \<Rightarrow> u32" where
  "atoi s =
     (let s = dropWhile is_space s; (neg, n) = sign_of s; ds = takeWhile is_digit (drop n s);
          v = int (digits_value ds)
      in of_int (if neg then max (- v) (- (2 ^ 63)) else min v (2 ^ 63 - 1)))"

section \<open>Fields of a request\<close>

definition trn_cli_parse_json :: "string \<Rightarrow> cJSON cli" where
  "trn_cli_parse_json buf = (case cJSON_Parse buf of
     None \<Rightarrow> None | Some (Inl e) \<Rightarrow> einval | Some (Inr json) \<Rightarrow> Some (Inr json))"

text \<open>The item of a key, checked for its type: \<open>get\<close> reads the field the type has.\<close>

definition json_field :: "(cJSON \<Rightarrow> 'a option) \<Rightarrow> cJSON \<Rightarrow> string \<Rightarrow> 'a cli" where
  "json_field get jsonobj key = (case cJSON_GetObjectItem jsonobj key of
     None \<Rightarrow> einval
   | Some item \<Rightarrow> (case get item of None \<Rightarrow> einval | Some x \<Rightarrow> Some (Inr x)))"

definition valuestring :: "cJSON \<Rightarrow> string option" where
  "valuestring item = (case item of cJSON_String s \<Rightarrow> Some s | _ \<Rightarrow> None)"

definition valuedouble :: "cJSON \<Rightarrow> double option" where
  "valuedouble item = (case item of cJSON_Number d _ \<Rightarrow> Some d | _ \<Rightarrow> None)"

definition trn_cli_parse_json_string :: "nat \<Rightarrow> cJSON \<Rightarrow> string \<Rightarrow> string cli" where
  "trn_cli_parse_json_string cap jsonobj key =
     and_then (json_field valuestring jsonobj key) (\<lambda>s. map_option Inr (strcpy_into cap s))"

text \<open>The loop that turns a number into network byte order, and the one that stores a MAC.\<close>

primrec swap_loop :: "nat \<Rightarrow> 'w::len word \<Rightarrow> 'w word \<Rightarrow> 'w word" where
  "swap_loop 0 tmp buf = buf"
| "swap_loop (Suc n) tmp buf = swap_loop n (drop_bit 8 tmp) (push_bit 8 buf OR (tmp AND 0xFF))"

primrec mac_loop :: "nat \<Rightarrow> u64 \<Rightarrow> u8 list \<Rightarrow> u8 list" where
  "mac_loop 0 vd buf = buf"
| "mac_loop (Suc n) vd buf = mac_loop n (drop_bit 8 vd) (buf[n := ucast vd])"

definition trn_cli_parse_json_number_u16n :: "cJSON \<Rightarrow> string \<Rightarrow> u16 cli" where
  "trn_cli_parse_json_number_u16n jsonobj key =
     and_then (json_field valuedouble jsonobj key)
       (\<lambda>d. map_option (\<lambda>t. Inr (swap_loop 2 (of_int t) 0)) (double_to_uint 16 d))"

definition trn_cli_parse_json_number_u32n :: "cJSON \<Rightarrow> string \<Rightarrow> u32 cli" where
  "trn_cli_parse_json_number_u32n jsonobj key =
     and_then (json_field valuedouble jsonobj key)
       (\<lambda>d. map_option (\<lambda>t. Inr (swap_loop 4 (of_int t) 0)) (double_to_uint 32 d))"

definition trn_cli_parse_json_number_mac :: "cJSON \<Rightarrow> string \<Rightarrow> mac6 cli" where
  "trn_cli_parse_json_number_mac jsonobj key =
     and_then (json_field valuedouble jsonobj key)
       (\<lambda>d. map_option (\<lambda>t. Inr (get_mac (mac_loop 6 (of_int t AND 0xFFFFFFFFFFFF) (replicate 6 0)) 0))
         (double_to_uint 64 d))"

definition trn_cli_parse_json_number_u32 :: "cJSON \<Rightarrow> string \<Rightarrow> u32 cli" where
  "trn_cli_parse_json_number_u32 jsonobj key =
     and_then (json_field valuedouble jsonobj key) (\<lambda>d. map_option (\<lambda>t. Inr (of_int t)) (double_to_uint 32 d))"

definition trn_cli_parse_json_str_ip :: "cJSON \<Rightarrow> string \<Rightarrow> u32 cli" where
  "trn_cli_parse_json_str_ip jsonobj key =
     and_then (json_field valuestring jsonobj key)
       (\<lambda>s. case inet_pton s of None \<Rightarrow> einval | Some ip \<Rightarrow> Some (Inr ip))"

definition trn_cli_parse_json_str_mac :: "cJSON \<Rightarrow> string \<Rightarrow> mac6 cli" where
  "trn_cli_parse_json_str_mac jsonobj key =
     and_then (json_field valuestring jsonobj key)
       (\<lambda>s. case scan_mac 6 s of None \<Rightarrow> einval | Some bs \<Rightarrow> Some (Inr (get_mac bs 0)))"

record rpc_trn_arion_key_t =
  ak_id :: u32

definition trn_cli_parse_arion_key :: "cJSON \<Rightarrow> rpc_trn_arion_key_t cli" where
  "trn_cli_parse_arion_key jsonobj =
     and_then (json_field valuestring jsonobj ''id'') (\<lambda>s. Some (Inr \<lparr>ak_id = atoi s\<rparr>))"

section \<open>The configuration argument\<close>

type_synonym files = "string \<Rightarrow> string option"

text \<open>The option loop: the string of \<open>-j\<close> (NULL at first) and the file name of \<open>-f\<close>.\<close>

function conf_options :: "ketopt_t \<Rightarrow> string list \<Rightarrow> string option \<Rightarrow> string \<Rightarrow> (string option \<times> string) cli" where
  "conf_options om argv conf_str conf_file =
     (case ketopt om argv False ''f:j:'' None of
        None \<Rightarrow> None
      | Some (c, om', argv') \<Rightarrow>
          if c < 0 then Some (Inr (conf_str, conf_file))
          else if c = char_int CHR ''j''
          then (case ko_arg om' of None \<Rightarrow> None | Some s \<Rightarrow> conf_options om' argv' (Some s) conf_file)
          else if c = char_int CHR ''f''
          then (case ko_arg om' of
                  None \<Rightarrow> None
                | Some s \<Rightarrow> if TRAN_MAX_PATH_SIZE \<le> length s then einval else conf_options om' argv' conf_str s)
          else conf_options om' argv' conf_str conf_file)"
  by pat_completeness auto
termination
  by (relation "inv_image (inv_image (less_than <*lex*> less_than) ketopt_measure) (\<lambda>(om, argv, conf_str, conf_file). (om, argv))")
    (use ketopt_decreases in auto)

declare conf_options.simps [simp del]

text \<open>
  \<open>conf->conf_str[0]\<close> is read before it is known that a string was given. The file is read into
  the memory of the string, which has room for its NUL only when the string is empty.
\<close>

definition read_conf_file :: "files \<Rightarrow> string \<Rightarrow> string \<Rightarrow> string cli" where
  "read_conf_file fs conf_str conf_file = do {
     content \<leftarrow> fs conf_file;
     if TRAN_MAX_CLI_JSON_STR \<le> length content then Some (Inl (Exit 1))
     else if length content \<le> length conf_str then Some (Inr (c_string content))
     else None
   }"

definition trn_cli_read_conf_str :: "files \<Rightarrow> ketopt_t \<Rightarrow> string list \<Rightarrow> string cli" where
  "trn_cli_read_conf_str fs om argv =
     and_then (conf_options om argv None [])
       (\<lambda>(conf_str, conf_file).
         if conf_str = None \<and> conf_file = [] then einval
         else (case conf_str of
             None \<Rightarrow> None
           | Some s \<Rightarrow> if s \<noteq> [] \<and> conf_file \<noteq> [] then einval
               else if conf_file \<noteq> [] then read_conf_file fs s conf_file
               else Some (Inr s)))"

section \<open>Requests\<close>

definition trn_cli_parse_ep_key :: "cJSON \<Rightarrow> rpc_endpoint_key_t cli" where
  "trn_cli_parse_ep_key jsonobj =
     and_then (trn_cli_parse_json_number_u32 jsonobj ''vni'') (\<lambda>vni.
     and_then (trn_cli_parse_json_str_ip jsonobj ''ip'') (\<lambda>ip.
     Some (Inr \<lparr>rek_vni = vni, rek_ip = ip\<rparr>)))"

definition parse_ep_item :: "cJSON \<Rightarrow> rpc_trn_endpoint_t cli" where
  "parse_ep_item ep =
     and_then (trn_cli_parse_json_number_u32 ep ''vni'') (\<lambda>vni.
     and_then (trn_cli_parse_json_number_u32n ep ''ip'') (\<lambda>ip.
     and_then (trn_cli_parse_json_number_u32n ep ''hip'') (\<lambda>hip.
     and_then (trn_cli_parse_json_number_mac ep ''mac'') (\<lambda>mac.
     and_then (trn_cli_parse_json_number_mac ep ''hmac'') (\<lambda>hmac.
     Some (Inr (rpc_of_xdp_ep \<lparr>ek_vni = vni, ek_ip = ip\<rparr> \<lparr>ep_hip = hip, ep_mac = mac, ep_hmac = hmac\<rparr>)))))))"

text \<open>\<open>cJSON_ArrayForEach\<close> over the children, collecting what each gives.\<close>

primrec for_each :: "('a \<Rightarrow> 'b cli) \<Rightarrow> 'a list \<Rightarrow> 'b list cli" where
  "for_each f [] = Some (Inr [])"
| "for_each f (x # xs) = and_then (f x) (\<lambda>y. and_then (for_each f xs) (\<lambda>ys. Some (Inr (y # ys))))"

text \<open>
  The size is compared with the \<open>int\<close> array size as unsigned numbers. That many items are
  allocated.
\<close>

definition trn_cli_parse_ep :: "cJSON \<Rightarrow> rpc_trn_endpoint_t list cli" where
  "trn_cli_parse_ep jsonobj =
     and_then (trn_cli_parse_json_number_u32 jsonobj ''size'') (\<lambda>size.
     guard_that (unat size \<le> TRAN_MAX_EP_BATCH_SIZE)
       (case cJSON_GetObjectItem jsonobj ''eps'' of
          None \<Rightarrow> einval
        | Some eps \<Rightarrow>
            guard_that (cJSON_IsArray eps \<and> of_int (cJSON_GetArraySize eps) = size)
              (and_then (for_each parse_ep_item (map snd (cJSON_child eps)))
                (\<lambda>items. guard_that (of_nat (length items) = size) (Some (Inr items))))))"

definition parse_entrance :: "cJSON \<Rightarrow> rpc_addr_t cli" where
  "parse_entrance entrance =
     and_then (trn_cli_parse_json_str_ip entrance ''ip'') (\<lambda>ip.
     and_then (trn_cli_parse_json_str_mac entrance ''mac'') (\<lambda>mac.
     Some (Inr \<lparr>ra_ip = ip, ra_mac = mac\<rparr>)))"

text \<open>The loop fills the array of the request from the front; the rest stays zero.\<close>

definition zero_entrances :: "rpc_addr_t list" where
  "zero_entrances = replicate TRAN_MAX_ZGC_ENTRANCES \<lparr>ra_ip = 0, ra_mac = MAC 0 0 0 0 0 0\<rparr>"

definition trn_cli_parse_droplet :: "cJSON \<Rightarrow> rpc_trn_droplet_t cli" where
  "trn_cli_parse_droplet jsonobj =
     and_then (trn_cli_parse_json_string TRAN_MAX_ITF_SIZE jsonobj ''interface'') (\<lambda>interface.
     and_then (trn_cli_parse_json_number_u32 jsonobj ''num_entrances'') (\<lambda>num.
     guard_that (unat num \<le> TRAN_MAX_ZGC_ENTRANCES)
       (case cJSON_GetObjectItem jsonobj ''entrances'' of
          None \<Rightarrow> einval
        | Some arr \<Rightarrow>
            guard_that (cJSON_IsArray arr \<and> of_int (cJSON_GetArraySize arr) = num)
              (and_then (for_each parse_entrance (map snd (cJSON_child arr))) (\<lambda>ents.
                if TRAN_MAX_ZGC_ENTRANCES < length ents then None
                else Some (Inr \<lparr>rd_interface = interface, rd_num_entrances = num,
                       rd_entrances = ents @ drop (length ents) zero_entrances\<rparr>))))))"

definition trn_cli_parse_ebpf_prog :: "cJSON \<Rightarrow> rpc_trn_ebpf_prog_t cli" where
  "trn_cli_parse_ebpf_prog jsonobj =
     and_then (json_field valuestring jsonobj ''name'') (\<lambda>name_str.
     and_then
       (if name_str = ''xdp_tx'' then Some (Inr TRAN_TX_PROG)
        else if name_str = ''xdp_pass'' then Some (Inr TRAN_PASS_PROG)
        else if name_str = ''xdp_redirect'' then Some (Inr TRAN_REDIRECT_PROG)
        else if name_str = ''xdp_drop'' then Some (Inr TRAN_DROP_PROG)
        else einval) (\<lambda>prog.
     and_then (trn_cli_parse_json_number_u32 jsonobj ''debug_mode'') (\<lambda>debug_mode.
     Some (Inr \<lparr>re_prog_idx = of_nat (prog_id_code prog), re_debug_mode = debug_mode\<rparr>))))"

definition trn_cli_parse_xdp :: "cJSON \<Rightarrow> rpc_trn_xdp_intf_t cli" where
  "trn_cli_parse_xdp jsonobj =
     and_then (trn_cli_parse_json_string TRAN_MAX_ITF_SIZE jsonobj ''itf_tenant'') (\<lambda>itf_tenant.
     and_then (trn_cli_parse_json_string TRAN_MAX_ITF_SIZE jsonobj ''itf_zgc'') (\<lambda>itf_zgc.
     and_then (trn_cli_parse_json_number_u16n jsonobj ''ibo_port'') (\<lambda>port.
     and_then
       (case cJSON_GetObjectItem jsonobj ''debug_mode'' of
          None \<Rightarrow> Some (Inr 1)
        | Some _ \<Rightarrow> trn_cli_parse_json_number_u32 jsonobj ''debug_mode'') (\<lambda>debug_mode.
     Some (Inr \<lparr>rx_interfaces = [itf_tenant, itf_zgc], rx_ibo_port = port, rx_debug_mode = debug_mode\<rparr>)))))"

section \<open>Subcommands\<close>

text \<open>The client stubs of the RPC protocol: \<open>None\<close> is the NULL of a failed call.\<close>

record 's client =
  load_transit_xdp_1 :: "rpc_trn_xdp_intf_t \<Rightarrow> 's \<Rightarrow> int option \<times> 's"
  unload_transit_xdp_1 :: "rpc_trn_xdp_intf_t \<Rightarrow> 's \<Rightarrow> int option \<times> 's"
  load_transit_xdp_ebpf_1 :: "rpc_trn_ebpf_prog_t \<Rightarrow> 's \<Rightarrow> int option \<times> 's"
  unload_transit_xdp_ebpf_1 :: "rpc_trn_ebpf_prog_t \<Rightarrow> 's \<Rightarrow> int option \<times> 's"
  update_ep_1 :: "rpc_trn_endpoint_t list \<Rightarrow> 's \<Rightarrow> int option \<times> 's"
  delete_ep_1 :: "rpc_endpoint_key_t \<Rightarrow> 's \<Rightarrow> int option \<times> 's"
  get_ep_1 :: "rpc_endpoint_key_t \<Rightarrow> 's \<Rightarrow> rpc_trn_endpoint_t option \<times> 's"
  update_droplet_1 :: "rpc_trn_droplet_t \<Rightarrow> 's \<Rightarrow> int option \<times> 's"

type_synonym 's result = "(outcome \<times> 's) option"

text \<open>What a subcommand makes of the reply: \<open>rc == NULL\<close> and \<open>*rc != 0\<close> are errors.\<close>

definition check_reply :: "int option \<times> 's \<Rightarrow> 's result" where
  "check_reply reply = (case reply of
     (None, st) \<Rightarrow> Some (Return (- EINVAL), st)
   | (Some rc, st) \<Rightarrow> if rc \<noteq> 0 then Some (Return (- EINVAL), st) else Some (Return 0, st))"

text \<open>The common part of the subcommands: configuration, JSON, request.\<close>

definition with_request :: "files \<Rightarrow> string list \<Rightarrow> (cJSON \<Rightarrow> 'a cli) \<Rightarrow> ('a \<Rightarrow> 's \<Rightarrow> 's result) \<Rightarrow> 's \<Rightarrow> 's result" where
  "with_request fs argv parse call st =
     (case and_then (trn_cli_read_conf_str fs KETOPT_INIT argv)
             (\<lambda>buf. and_then (trn_cli_parse_json buf) parse) of
        None \<Rightarrow> None
      | Some (Inl out) \<Rightarrow> Some (out, st)
      | Some (Inr request) \<Rightarrow> call request st)"

type_synonym 's subcmd = "files \<Rightarrow> 's client \<Rightarrow> string list \<Rightarrow> 's \<Rightarrow> 's result"

definition trn_cli_update_ep_subcmd :: "'s subcmd" where
  "trn_cli_update_ep_subcmd fs clnt argv =
     with_request fs argv trn_cli_parse_ep (\<lambda>batch st. check_reply (update_ep_1 clnt batch st))"

definition trn_cli_get_ep_subcmd :: "'s subcmd" where
  "trn_cli_get_ep_subcmd fs clnt argv =
     with_request fs argv trn_cli_parse_ep_key (\<lambda>epkey st. case get_ep_1 clnt epkey st of
       (None, st) \<Rightarrow> Some (Return (- EINVAL), st)
     | (Some ep, st) \<Rightarrow> Some (Return 0, st))"

definition trn_cli_delete_ep_subcmd :: "'s subcmd" where
  "trn_cli_delete_ep_subcmd fs clnt argv =
     with_request fs argv trn_cli_parse_ep_key (\<lambda>ep_key st. check_reply (delete_ep_1 clnt ep_key st))"

definition trn_cli_update_droplet_subcmd :: "'s subcmd" where
  "trn_cli_update_droplet_subcmd fs clnt argv =
     with_request fs argv trn_cli_parse_droplet (\<lambda>droplet st. check_reply (update_droplet_1 clnt droplet st))"

definition trn_cli_load_transit_subcmd :: "'s subcmd" where
  "trn_cli_load_transit_subcmd fs clnt argv =
     with_request fs argv trn_cli_parse_xdp (\<lambda>xdp_intf st. check_reply (load_transit_xdp_1 clnt xdp_intf st))"

definition trn_cli_unload_transit_subcmd :: "'s subcmd" where
  "trn_cli_unload_transit_subcmd fs clnt argv =
     with_request fs argv trn_cli_parse_xdp (\<lambda>xdp_intf st. check_reply (unload_transit_xdp_1 clnt xdp_intf st))"

definition trn_cli_load_ebpf_prog_subcmd :: "'s subcmd" where
  "trn_cli_load_ebpf_prog_subcmd fs clnt argv =
     with_request fs argv trn_cli_parse_ebpf_prog (\<lambda>prog st. check_reply (load_transit_xdp_ebpf_1 clnt prog st))"

definition trn_cli_unload_ebpf_prog_subcmd :: "'s subcmd" where
  "trn_cli_unload_ebpf_prog_subcmd fs clnt argv =
     with_request fs argv trn_cli_parse_ebpf_prog (\<lambda>prog st. check_reply (unload_transit_xdp_ebpf_1 clnt prog st))"

section \<open>The program\<close>

definition cmds :: "(string \<times> 's subcmd) list" where
  "cmds =
    [(''load-transit-xdp'', trn_cli_load_transit_subcmd),
     (''unload-transit-xdp'', trn_cli_unload_transit_subcmd),
     (''update-droplet'', trn_cli_update_droplet_subcmd),
     (''update-ep'', trn_cli_update_ep_subcmd),
     (''get-ep'', trn_cli_get_ep_subcmd),
     (''delete-ep'', trn_cli_delete_ep_subcmd),
     (''load-ebpf-prog'', trn_cli_load_ebpf_prog_subcmd),
     (''unload-ebpf-prog'', trn_cli_unload_ebpf_prog_subcmd)]"

text \<open>The loop over the global options: the first server and the first protocol count.\<close>

function main_options :: "ketopt_t \<Rightarrow> string list \<Rightarrow> string option \<Rightarrow> string option \<Rightarrow>
    (ketopt_t \<times> string list \<times> string option \<times> string option) option" where
  "main_options om argv server protocol =
     (case ketopt om argv False ''s:p:'' None of
        None \<Rightarrow> None
      | Some (opt, om', argv') \<Rightarrow>
          if opt < 0 then Some (om', argv', server, protocol)
          else if server = None \<and> opt = char_int CHR ''s''
          then (case ko_arg om' of None \<Rightarrow> None | Some s \<Rightarrow> main_options om' argv' (Some s) protocol)
          else if protocol = None \<and> opt = char_int CHR ''p''
          then (case ko_arg om' of None \<Rightarrow> None | Some s \<Rightarrow> main_options om' argv' server (Some s))
          else main_options om' argv' server protocol)"
  by pat_completeness auto
termination
  by (relation "inv_image (inv_image (less_than <*lex*> less_than) ketopt_measure) (\<lambda>(om, argv, server, protocol). (om, argv))")
    (use ketopt_decreases in auto)

declare main_options.simps [simp del]

text \<open>\<open>connect\<close> is \<open>clnt_create\<close> on the server and the protocol.\<close>

definition cli_main :: "files \<Rightarrow> (string \<Rightarrow> string \<Rightarrow> 's client option) \<Rightarrow> string list \<Rightarrow> 's \<Rightarrow> 's result" where
  "cli_main fs connect argv st = do {
     (om, argv, server, protocol) \<leftarrow> main_options KETOPT_INIT argv None None;
     let server = (case server of None \<Rightarrow> ''localhost'' | Some s \<Rightarrow> s);
     let protocol = (case protocol of None \<Rightarrow> ''udp'' | Some p \<Rightarrow> p);
     if ko_ind om = length argv then Some (Return 1, st)
     else if length argv < ko_ind om then None
     else case map_of cmds (argv ! ko_ind om) of
       None \<Rightarrow> Some (Return 1, st)
     | Some func \<Rightarrow> (case connect server protocol of
         None \<Rightarrow> Some (Return 1, st)
       | Some clnt \<Rightarrow> (case func fs clnt (drop (ko_ind om) argv) st of
           None \<Rightarrow> None
         | Some (Exit code, st) \<Rightarrow> Some (Exit code, st)
         | Some (Return rc, st) \<Rightarrow> if rc \<noteq> 0 then Some (Return 1, st) else Some (Return 0, st)))
   }"

end
