(* ===== verification/Arion_Json_Number.thy ===== *)
theory Arion_Json_Number
  imports Arion_Json_Parse
begin

text \<open>
  Numbers as \<open>print_number\<close> of \<open>src/src/extern/cJSON.c\<close> writes them: the \<open>%1.15g\<close> and \<open>%1.17g\<close>
  conversions of the C library, exact and rounded to nearest, and the choice between them. A
  double needs at most 24 characters, so the buffer of 26 is large enough, and reading the text
  back gives the same double. The sign of a zero is not part of the model of doubles.
\<close>

section \<open>Decimal digits\<close>

fun dec :: "nat \<Rightarrow> string" where
  "dec n = (if n < 10 then [char_of (48 + n)] else dec (n div 10) @ [char_of (48 + n mod 10)])"

declare dec.simps [simp del]

lemma char_of_digit: "n < 10 \<Longrightarrow> of_char (char_of (48 + n)) = (48 + n :: nat)"
  by (simp add: of_char_of)

lemma is_digit_char_of: "n < 10 \<Longrightarrow> is_digit (char_of (48 + n :: nat))"
  by (simp add: is_digit_def less_eq_char_def of_char_of)

lemma dec_digits: "dec n \<noteq> [] \<and> (\<forall>c\<in>set (dec n). is_digit c)"
proof (induction n rule: dec.induct)
  case (1 n)
  then show ?case using is_digit_char_of [of n] is_digit_char_of [of "n mod 10"]
    by (subst (1 2) dec.simps) auto
qed

lemma hd_dec: "0 < n \<Longrightarrow> hd (dec n) \<noteq> CHR ''0''"
proof (induction n rule: dec.induct)
  case (1 n)
  show ?case
  proof (cases "n < 10")
    case True
    then have "char_of (48 + n) \<noteq> (char_of (48 :: nat) :: char)" using 1(2) char_of_digit [of n] char_of_digit [of 0] by auto
    moreover have "char_of (48 :: nat) = CHR ''0''" by (simp add: char_of_def bit_iff_odd)
    ultimately show ?thesis using True by (subst dec.simps) simp
  next
    case False
    then have "hd (dec n) = hd (dec (n div 10))" using dec_digits [of "n div 10"] by (subst dec.simps) (simp add: hd_append)
    then show ?thesis using 1(1) False by (simp add: div_greater_zero_iff)
  qed
qed

lemma digits_value_dec: "digits_value (dec n) = n"
proof (induction n rule: dec.induct)
  case (1 n)
  show ?case
  proof (cases "n < 10")
    case True
    then show ?thesis using char_of_digit [of n] by (subst dec.simps) (simp add: digits_value_def)
  next
    case False
    then have "digits_value (dec n) = 10 * digits_value (dec (n div 10)) + n mod 10"
      using char_of_digit [of "n mod 10"] by (subst dec.simps) (simp add: digits_value_def)
    then show ?thesis using "1.IH" False by simp
  qed
qed

lemma length_dec: "n < 10 ^ k \<Longrightarrow> 0 < k \<Longrightarrow> length (dec n) \<le> k"
proof (induction n arbitrary: k rule: dec.induct)
  case (1 n)
  show ?case
  proof (cases "n < 10")
    case False
    then obtain j where k: "k = Suc j" "0 < j" using 1(2,3) by (cases k; cases "k - 1") auto
    then have "n div 10 < 10 ^ j" using 1(2) by (simp add: less_mult_imp_div_less mult.commute)
    then show ?thesis using "1.IH" [OF False _ k(2)] False k by (subst dec.simps) simp
  qed (use 1(3) in \<open>subst dec.simps, simp\<close>)
qed

section \<open>The conversion \<open>%g\<close>\<close>

text \<open>The exponent of the first decimal digit of a positive number.\<close>

definition decade :: "rat \<Rightarrow> int" where
  "decade x = (let (n, d) = quotient_of x; e = int (floorlog 10 (nat n)) - int (floorlog 10 (nat d))
     in if scale10 e \<le> x then e else e - 1)"

text \<open>The number rounded to \<open>P\<close> significant digits: exponent and digits as a natural.\<close>

definition sci_digits :: "nat \<Rightarrow> rat \<Rightarrow> int \<times> nat" where
  "sci_digits P x =
     (let X = decade x; m = nat (round_half_even (x / scale10 (X - int P + 1)))
      in if m = 10 ^ P then (X + 1, 10 ^ (P - 1)) else (X, m))"

definition strip_zeros :: "string \<Rightarrow> string" where
  "strip_zeros s = rev (dropWhile (\<lambda>c. c = CHR ''0'') (rev s))"

definition fraction_text :: "string \<Rightarrow> string" where
  "fraction_text s = (let s = strip_zeros s in if s = [] then [] else CHR ''.'' # s)"

definition exponent_text :: "int \<Rightarrow> string" where
  "exponent_text X = CHR ''e'' # (if X < 0 then CHR ''-'' else CHR ''+'') #
     (let s = dec (nat \<bar>X\<bar>) in if length s < 2 then CHR ''0'' # s else s)"

definition fmt_g_pos :: "nat \<Rightarrow> rat \<Rightarrow> string" where
  "fmt_g_pos P x =
     (let (X, m) = sci_digits P x; ds = dec m
      in if X < - 4 \<or> int P \<le> X then take 1 ds @ fraction_text (drop 1 ds) @ exponent_text X
         else if 0 \<le> X then take (nat X + 1) ds @ fraction_text (drop (nat X + 1) ds)
         else CHR ''0'' # fraction_text (replicate (nat (- X) - 1) CHR ''0'' @ ds))"

definition fmt_g :: "nat \<Rightarrow> rat \<Rightarrow> string" where
  "fmt_g P x =
     (if x = 0 then ''0'' else (if x < 0 then ''-'' else []) @ fmt_g_pos P \<bar>x\<bar>)"

section \<open>The text of a number\<close>

definition number_text :: "double \<Rightarrow> string" where
  "number_text d = (case d of
     Infinite _ \<Rightarrow> ''null''
   | Finite x \<Rightarrow>
       let s = fmt_g 15 x; (test, used) = strtod s
       in if used = 0 \<or> test \<noteq> d then fmt_g 17 x else s)"

section \<open>Powers\<close>

lemma scale10_powi: "scale10 e = 10 powi e"
  by (simp add: scale10_def power_int_def inverse_eq_divide power_one_over)

lemma pow2_powi: "pow2 e = 2 powi e"
  by (simp add: pow2_def power_int_def inverse_eq_divide power_one_over)

lemma powi_le: "1 < b \<Longrightarrow> (b :: rat) powi i \<le> b powi j \<longleftrightarrow> i \<le> j"
  by (meson linorder_not_less power_int_increasing power_int_strict_increasing order_less_imp_le)

lemma floorlog_range:
  assumes "1 < b" "0 < n"
  shows "of_nat b powi (int (floorlog b n) - 1) \<le> (of_nat n :: rat)" "(of_nat n :: rat) < of_nat b powi int (floorlog b n)"
proof -
  have "b ^ (floorlog b n - 1) \<le> n" "n < b ^ floorlog b n" using floorlog_bounds [OF assms(2,1)] by auto
  then have "(of_nat b :: rat) ^ (floorlog b n - 1) \<le> of_nat n" "of_nat n < (of_nat b :: rat) ^ floorlog b n"
    by (metis of_nat_le_iff of_nat_power, metis of_nat_less_iff of_nat_power)
  moreover have "0 < floorlog b n" using assms by (simp add: floorlog_def)
  ultimately show "of_nat b powi (int (floorlog b n) - 1) \<le> (of_nat n :: rat)" "(of_nat n :: rat) < of_nat b powi int (floorlog b n)"
    by (simp_all flip: power_int_of_nat add: of_nat_diff)
qed

lemma quotient_magnitude:
  assumes "1 < b" "0 < x" "quotient_of x = (n, d)"
  defines "e \<equiv> int (floorlog b (nat n)) - int (floorlog b (nat d))"
  shows "of_nat b powi (e - 1) < x" "x < of_nat b powi (e + 1)"
proof -
  have d: "0 < d" using quotient_of_denom_pos [OF assms(3)] .
  have x: "x = of_int n / of_int d" using quotient_of_div [OF assms(3)] .
  then have n: "0 < n" using assms(2) d by (simp add: zero_less_divide_iff)
  let ?b = "of_nat b :: rat" and ?i = "int (floorlog b (nat n))" and ?j = "int (floorlog b (nat d))"
  have N: "?b powi (?i - 1) \<le> of_int n" "of_int n < ?b powi ?i"
    and D: "?b powi (?j - 1) \<le> of_int d" "of_int d < ?b powi ?j"
    using floorlog_range [OF assms(1), of "nat n"] floorlog_range [OF assms(1), of "nat d"] n d by simp_all
  have b: "0 < ?b" using assms(1) by simp
  then have p: "0 < ?b powi k" for k by (rule zero_less_power_int)
  have add: "?b powi (k + l) = ?b powi k * ?b powi l" for k l using b by (intro power_int_add) simp
  have "?b powi (e - 1) * of_int d < ?b powi (e - 1) * ?b powi ?j" using D(2) p by simp
  also have "\<dots> = ?b powi (?i - 1)" using add [of "e - 1" ?j] by (simp add: e_def)
  also note N(1)
  finally show "?b powi (e - 1) < x" using d by (simp add: x pos_less_divide_eq)
  have "?b powi ?i = ?b powi (e + 1) * ?b powi (?j - 1)" using add [of "e + 1" "?j - 1"] by (simp add: e_def)
  also have "\<dots> \<le> ?b powi (e + 1) * of_int d" using D(1) p [of "e + 1"] by simp
  finally show "x < ?b powi (e + 1)" using N(2) d by (simp add: x pos_divide_less_eq)
qed

lemma binade_bounds:
  assumes "0 < x" shows "pow2 (binade x) \<le> x \<and> x < pow2 (binade x + 1)"
proof -
  obtain n d where q: "quotient_of x = (n, d)" by fastforce
  show ?thesis using quotient_magnitude [OF _ assms q, of 2]
    by (auto simp: binade_def q Let_def pow2_powi)
qed

lemma decade_bounds:
  assumes "0 < x" shows "scale10 (decade x) \<le> x \<and> x < scale10 (decade x + 1)"
proof -
  obtain n d where q: "quotient_of x = (n, d)" by fastforce
  show ?thesis using quotient_magnitude [OF _ assms q, of 10]
    by (auto simp: decade_def q Let_def scale10_powi)
qed

section \<open>Rounding to a double\<close>

text \<open>The numbers a double can hold.\<close>

definition double_value :: "rat \<Rightarrow> bool" where
  "double_value x \<longleftrightarrow> round_double x = Finite x"

lemma pow2_pos [simp]: "0 < pow2 e" "0 \<le> pow2 e" "pow2 e \<noteq> 0"
  by (simp_all add: pow2_def)

lemma pow2_add: "pow2 (i + j) = pow2 i * pow2 j"
  by (simp add: pow2_powi power_int_add)

lemma pow2_le [simp]: "pow2 i \<le> pow2 j \<longleftrightarrow> i \<le> j"
  by (simp add: pow2_powi powi_le)

lemma pow2_less [simp]: "pow2 i < pow2 j \<longleftrightarrow> i < j"
  by (simp flip: not_le)

lemma pow2_int: "0 \<le> e \<Longrightarrow> \<exists>k. pow2 e = of_int k \<and> 0 < k"
  by (intro exI [of _ "2 ^ nat e"]) (simp add: pow2_def)

lemma binade_unique:
  assumes "pow2 e \<le> x" "x < pow2 (e + 1)" shows "binade x = e"
proof -
  have "0 < x" using assms(1) pow2_pos(1) [of e] by linarith
  then have b: "pow2 (binade x) \<le> x" "x < pow2 (binade x + 1)" using binade_bounds by auto
  have "pow2 (binade x) < pow2 (e + 1)" "pow2 e < pow2 (binade x + 1)"
    using le_less_trans [OF b(1) assms(2)] le_less_trans [OF assms(1) b(2)] by blast+
  then show ?thesis unfolding pow2_less by linarith
qed

lemma round_half_even_near: "\<bar>r - of_int k\<bar> < 1 / 2 \<Longrightarrow> round_half_even r = k"
proof -
  assume r: "\<bar>r - of_int k\<bar> < 1 / 2"
  show ?thesis
  proof (cases "of_int k \<le> r")
    case True
    then have "\<lfloor>r\<rfloor> = k" using r by (simp add: floor_eq_iff)
    then show ?thesis using r True by (auto simp: round_half_even_def Let_def)
  next
    case False
    then have "\<lfloor>r\<rfloor> = k - 1" using r by (simp add: floor_eq_iff)
    then show ?thesis using r False by (auto simp: round_half_even_def Let_def)
  qed
qed

definition ulp_exponent :: "rat \<Rightarrow> int" where
  "ulp_exponent y = max (binade y - 52) (- 1074)"

lemma round_double_pos:
  assumes "0 < y" "\<bar>y - of_int k * pow2 (ulp_exponent y)\<bar> < pow2 (ulp_exponent y) / 2"
    "of_int k * pow2 (ulp_exponent y) < pow2 1024"
  shows "round_double y = Finite (of_int k * pow2 (ulp_exponent y))"
proof -
  let ?u = "pow2 (ulp_exponent y)"
  have "y / ?u - of_int k = (y - of_int k * ?u) / ?u" by (simp add: field_simps)
  then have "\<bar>y / ?u - of_int k\<bar> < 1 / 2" using assms(2) by (simp add: abs_divide divide_less_eq)
  then have "round_half_even (y / ?u) = k" by (rule round_half_even_near)
  then show ?thesis using assms(1,3) by (simp add: round_double_def Let_def ulp_exponent_def)
qed

lemma double_value_grid:
  assumes "double_value x" "0 < x"
  shows "\<exists>k. x = of_int k * pow2 (ulp_exponent x) \<and> 0 < k" "x < pow2 1024"
proof -
  let ?u = "pow2 (ulp_exponent x)" and ?k = "round_half_even (x / pow2 (ulp_exponent x))"
  have k: "x = of_int ?k * ?u" "x < pow2 1024"
    using assms by (auto simp: double_value_def round_double_def Let_def ulp_exponent_def split: if_splits)
  then have "0 < of_int ?k * ?u" using assms(2) by simp
  then have "0 < ?k" using pow2_pos(1) by (metis of_int_0_less_iff zero_less_mult_pos2)
  then show "\<exists>k. x = of_int k * pow2 (ulp_exponent x) \<and> 0 < k" "x < pow2 1024" using k by auto
qed

lemma round_double_minus:
  "y \<noteq> 0 \<Longrightarrow> round_double (- y) = (case round_double y of Finite v \<Rightarrow> Finite (- v) | Infinite neg \<Rightarrow> Infinite (\<not> neg))"
  by (auto simp: round_double_def Let_def)

lemma next_on_grid: "of_int (k + 1) * p = of_int k * p + (p :: rat)"
  by (simp add: algebra_simps)

text \<open>
  A number within a half of \<open>10\<^sup>-\<^sup>1\<^sup>6\<close> of a double, relative to it, is rounded to the double: the error is
  less than a quarter of the distance of doubles below \<open>x\<close>, and less than half of the one above.
\<close>

lemma round_double_close:
  assumes x: "double_value x" "0 < x" and y: "\<bar>y - x\<bar> \<le> x / (2 * 10 ^ 16)"
  shows "round_double y = Finite x"
proof -
  let ?e = "binade x" and ?u = "ulp_exponent x"
  obtain k where k: "x = of_int k * pow2 ?u" "0 < k" and lt: "x < pow2 1024" using double_value_grid [OF x] by blast
  have e: "pow2 ?e \<le> x" "x < pow2 (?e + 1)" using binade_bounds [OF x(2)] by auto
  have "pow2 ?u * 1 \<le> pow2 ?u * of_int k" using k(2) by (intro mult_left_mono) simp_all
  then have "pow2 ?u \<le> x" using k(1) by (simp add: mult.commute)
  from le_less_trans [OF this e(2)] have "?u \<le> ?e" unfolding pow2_less by linarith
  then have ue: "?u \<le> ?e" "- 1074 \<le> ?e" by (auto simp: ulp_exponent_def)
  have quarter: "z / (2 * 10 ^ 16) < z * pow2 (- 54)" if "0 < z" for z
    using that by (simp add: pow2_def)
  have err: "\<bar>y - x\<bar> < x * pow2 (- 54)" using y quarter [OF x(2)] by linarith
  also have "\<dots> < pow2 (?e + 1) * pow2 (- 54)" using e(2) by simp
  finally have half: "\<bar>y - x\<bar> < pow2 ?u / 2"
  proof -
    assume "\<bar>y - x\<bar> < pow2 (?e + 1) * pow2 (- 54)"
    also have "\<dots> = pow2 (?e - 53)" by (simp flip: pow2_add)
    also have "\<dots> \<le> pow2 (?u - 1)" by (simp add: ulp_exponent_def)
    also have "\<dots> = pow2 ?u / 2" using pow2_add [of "?u - 1" 1] by (simp add: pow2_def)
    finally show ?thesis .
  qed
  obtain m where m: "pow2 (?e + 1 - ?u) = of_int m" using pow2_int [of "?e + 1 - ?u"] ue by auto
  have em: "pow2 (?e + 1) = of_int m * pow2 ?u" using pow2_add [of "?e + 1 - ?u" ?u] m by simp
  have "of_int k * pow2 ?u < of_int m * pow2 ?u" using e(2) k(1) em by simp
  then have "k + 1 \<le> m" by simp
  then have "of_int (k + 1) * pow2 ?u \<le> of_int m * pow2 ?u" by (intro mult_right_mono) (simp_all only: of_int_le_iff pow2_pos)
  then have "x + pow2 ?u \<le> pow2 (?e + 1)" using next_on_grid [of k "pow2 ?u"] k(1) em by linarith
  then have up: "y < pow2 (?e + 1)" using half pow2_pos(1) [of ?u] by linarith
  show ?thesis
  proof (cases "pow2 ?e \<le> y")
    case True
    then have b: "ulp_exponent y = ?u" using binade_unique [OF True up] by (simp add: ulp_exponent_def)
    have "0 < y" using True pow2_pos(1) [of ?e] by linarith
    then show ?thesis using round_double_pos [of y k] half k(1) lt unfolding b by simp
  next
    case False
    obtain j where j: "pow2 (?e - ?u) = of_int j" using pow2_int [of "?e - ?u"] ue by auto
    have ej: "pow2 ?e = of_int j * pow2 ?u" using pow2_add [of "?e - ?u" ?u] j by simp
    have xe: "x = pow2 ?e"
    proof (rule ccontr)
      assume "x \<noteq> pow2 ?e"
      then have "of_int j * pow2 ?u < of_int k * pow2 ?u" using e(1) k(1) ej by simp
      then have "j + 1 \<le> k" by simp
      then have "of_int (j + 1) * pow2 ?u \<le> of_int k * pow2 ?u" by (intro mult_right_mono) (simp_all only: of_int_le_iff pow2_pos)
      then have "pow2 ?e + pow2 ?u \<le> x" using next_on_grid [of j "pow2 ?u"] k(1) ej by linarith
      then show False using half False pow2_pos(1) [of ?u] by linarith
    qed
    have "pow2 ?e * pow2 (- 54) = pow2 (?e - 54)" using pow2_add [of ?e "- 54"] by simp
    then have "x * pow2 (- 54) = pow2 (?e - 54)" using xe by metis
    then have d: "pow2 ?e - y < pow2 (?e - 54)" "y < pow2 ?e" using err False xe by linarith+
    have h: "pow2 ?e = 2 * pow2 (?e - 1)" using pow2_add [of "?e - 1" 1] by (simp add: pow2_def)
    have "pow2 (?e - 54) \<le> pow2 (?e - 1)" by simp
    then have low: "pow2 (?e - 1) \<le> y" using d(1) h by linarith
    have b: "binade y = ?e - 1" using binade_unique [OF low] d(2) by simp
    let ?v = "ulp_exponent y"
    have v: "?e - 53 \<le> ?v" "?v \<le> ?e" using b ue by (auto simp: ulp_exponent_def)
    obtain i where i: "pow2 (?e - ?v) = of_int i" using pow2_int [of "?e - ?v"] v by auto
    have ei: "pow2 ?e = of_int i * pow2 ?v" using pow2_add [of "?e - ?v" ?v] i by simp
    have "pow2 (?e - 54) \<le> pow2 (?v - 1)" using v by simp
    also have "\<dots> = pow2 ?v / 2" using pow2_add [of "?v - 1" 1] by (simp add: pow2_def)
    finally have "\<bar>y - of_int i * pow2 ?v\<bar> < pow2 ?v / 2" using d unfolding ei by linarith
    moreover have "0 < y" using low pow2_pos(1) [of "?e - 1"] by linarith
    ultimately show ?thesis using round_double_pos [of y i] lt ei xe by metis
  qed
qed

section \<open>Rounding to decimal digits\<close>

lemma round_half_even_error: "\<bar>of_int (round_half_even r) - r\<bar> \<le> 1 / 2"
proof -
  have "of_int \<lfloor>r\<rfloor> \<le> r" "r < of_int \<lfloor>r\<rfloor> + 1" by linarith+
  then show ?thesis by (auto simp: round_half_even_def Let_def abs_le_iff)
qed

lemma scale10_pos [simp]: "0 < scale10 e" "0 \<le> scale10 e" "scale10 e \<noteq> 0"
  by (simp_all add: scale10_def)

lemma scale10_add: "scale10 (i + j) = scale10 i * scale10 j"
  by (simp add: scale10_powi power_int_add)

lemma scale10_nat: "scale10 (int n) = of_nat (10 ^ n)"
  by (simp add: scale10_def)

lemma sci_digits_spec:
  assumes "0 < x" "sci_digits (Suc q) x = (X, m)"
  shows "10 ^ q \<le> m" "m < 10 ^ Suc q" "X = decade x \<or> X = decade x + 1"
    "\<bar>of_nat m * scale10 (X - int q) - x\<bar> \<le> scale10 (decade x - int q) / 2"
proof -
  let ?X = "decade x" let ?s = "scale10 (?X - int q)" let ?k = "round_half_even (x / ?s)"
  have s: "scale10 ?X = 10 ^ q * ?s" "scale10 (?X + 1) = 10 ^ Suc q * ?s"
    using scale10_add [of "int q" "?X - int q"] scale10_add [of "int (Suc q)" "?X - int q"]
      scale10_nat [of q] scale10_nat [of "Suc q"] by (simp_all add: add.commute)
  have "10 ^ q \<le> x / ?s" "x / ?s < 10 ^ Suc q"
    using decade_bounds [OF assms(1)] s by (simp_all add: pos_le_divide_eq pos_divide_less_eq)
  moreover have err: "\<bar>of_int ?k - x / ?s\<bar> \<le> 1 / 2" by (rule round_half_even_error)
  ultimately have "(10 :: rat) ^ q - 1 < of_int ?k" "of_int ?k < (10 :: rat) ^ Suc q + 1" by linarith+
  then have "of_int (10 ^ q - 1) < (of_int ?k :: rat)" "of_int ?k < (of_int (10 ^ Suc q + 1) :: rat)" by simp_all
  then have k: "10 ^ q \<le> ?k" "?k \<le> 10 ^ Suc q" unfolding of_int_less_iff by linarith+
  have m: "nat ?k = 10 ^ Suc q \<longleftrightarrow> ?k = 10 ^ Suc q" using k by (auto simp: nat_eq_iff)
  have kq: "10 ^ q \<le> nat ?k" "0 \<le> ?k" using k(1) by (auto simp: le_nat_iff intro: order_trans [OF _ k(1)])
  have e: "\<bar>of_nat (nat ?k) * ?s - x\<bar> \<le> ?s / 2"
  proof -
    have "of_nat (nat ?k) * ?s - x = (of_int ?k - x / ?s) * ?s" using kq(2) by (simp add: field_simps)
    then show ?thesis using err mult_right_mono [OF err, of ?s] by (simp add: abs_mult)
  qed
  show "10 ^ q \<le> m" "m < 10 ^ Suc q" "X = ?X \<or> X = ?X + 1"
    using assms(2) kq(1) k(2) m by (auto simp: sci_digits_def Let_def nat_less_iff split: if_splits)
  have "of_nat (10 ^ q) * scale10 (?X + 1 - int q) = of_nat (10 ^ Suc q) * ?s"
    using scale10_add [of 1 "?X - int q"] scale10_nat [of 1] by (simp add: algebra_simps)
  then show "\<bar>of_nat m * scale10 (X - int q) - x\<bar> \<le> ?s / 2"
    using assms(2) e m by (auto simp: sci_digits_def Let_def algebra_simps split: if_splits)
qed

section \<open>Reading a number back\<close>

lemma digits_value_append: "digits_value (s @ t) = digits_value s * 10 ^ length t + digits_value t"
proof (induction t rule: rev_induct)
  case (snoc c t)
  have "digits_value (r @ [c]) = 10 * digits_value r + (of_char c - of_char CHR ''0'')" for r
    by (simp add: digits_value_def)
  from this [of "s @ t"] this [of t] snoc show ?case by (simp add: algebra_simps)
qed (simp add: digits_value_def)

lemma digits_value_zeros: "digits_value (replicate k CHR ''0'') = 0"
  by (induction k) (simp_all add: digits_value_def)

lemma strip_zeros_append: "\<exists>k. s = strip_zeros s @ replicate k CHR ''0''"
proof -
  let ?z = "takeWhile (\<lambda>c. c = CHR ''0'') (rev s)"
  have "?z = replicate (length ?z) CHR ''0''" by (induction s rule: rev_induct) simp_all
  moreover have "s = strip_zeros s @ rev ?z"
    unfolding strip_zeros_def by (metis rev_append rev_rev_ident takeWhile_dropWhile_id)
  ultimately show ?thesis by (metis rev_replicate)
qed

lemma strtod_exp_text:
  "strtod_exp [] = (0, 0)" "strtod_exp (exponent_text E) = (E, length (exponent_text E))"
proof -
  let ?s = "dec (nat \<bar>E\<bar>)"
  let ?ds = "if length ?s < 2 then CHR ''0'' # ?s else ?s"
  have v: "digits_value (CHR ''0'' # ?s) = nat \<bar>E\<bar>" "digits_value ?s = nat \<bar>E\<bar>"
    using digits_value_append [of "''0''" ?s] digits_value_dec by (simp_all add: digits_value_def)
  have d: "takeWhile is_digit ?ds = ?ds" "?ds \<noteq> []"
    using dec_digits [of "nat \<bar>E\<bar>"] by (auto simp: takeWhile_eq_all_conv is_digit_def)
  define ds where "ds = ?ds"
  have "digits_value ds = nat \<bar>E\<bar>" using v by (simp add: ds_def)
  moreover have "exponent_text E = CHR ''e'' # (if E < 0 then CHR ''-'' else CHR ''+'') # ds"
    by (simp add: exponent_text_def ds_def Let_def)
  ultimately show "strtod_exp (exponent_text E) = (E, length (exponent_text E))"
    using d(2) [folded ds_def] by (simp add: strtod_exp_def sign_of_def Let_def d(1) [folded ds_def])
qed (simp add: strtod_exp_def)

lemma strtod_text:
  assumes w: "w \<noteq> []" "\<forall>c\<in>set w. is_digit c" and f: "\<forall>c\<in>set fr. is_digit c"
    and ex: "ex = [] \<and> E = 0 \<or> ex = exponent_text E"
  shows "strtod ((if neg then ''-'' else []) @ w @ fraction_text fr @ ex) =
    (round_double ((if neg then - 1 else 1) * of_nat (digits_value (w @ fr)) * scale10 (E - int (length fr))),
     length ((if neg then ''-'' else []) @ w @ fraction_text fr @ ex))"
proof -
  let ?sg = "if neg then ''-'' else []" and ?st = "strip_zeros fr"
  obtain k where k: "fr = ?st @ replicate k CHR ''0''" using strip_zeros_append by blast
  have st: "\<forall>c\<in>set ?st. is_digit c" using f by (subst (asm) k) simp
  have "\<not> is_digit CHR ''-''" "\<not> is_digit CHR ''+''" by (simp_all add: is_digit_def)
  then have "hd w \<noteq> CHR ''-'' \<and> hd w \<noteq> CHR ''+''" using w(2) hd_in_set [OF w(1)] by metis
  then have sg: "sign_of (?sg @ w @ t) = (neg, length ?sg)" for t
    using w(1) by (cases w) (auto simp: sign_of_def)
  have nd: "ex = [] \<or> (hd ex = CHR ''e'')" using ex by (auto simp: exponent_text_def)
  have exd: "takeWhile is_digit ex = []" using nd by (cases ex) (auto simp: is_digit_def)
  have whole: "takeWhile is_digit (w @ fraction_text fr @ ex) = w"
    using w(2) nd by (subst takeWhile_append2) (auto simp: fraction_text_def Let_def exd is_digit_def)
  have frac: "takeWhile is_digit (?st @ ex) = ?st" using st exd by (subst takeWhile_append2) auto
  have val: "of_nat (digits_value (w @ fr)) * scale10 (E - int (length fr)) =
      of_nat (digits_value (w @ ?st)) * scale10 (E - int (length ?st))"
  proof -
    have "digits_value (w @ fr) = digits_value (w @ ?st) * 10 ^ k"
      using digits_value_append [of "w @ ?st" "replicate k CHR ''0''"] digits_value_zeros by (subst k) simp
    moreover have "scale10 (E - int (length ?st)) = scale10 (int k) * scale10 (E - int (length fr))"
      using scale10_add [of "int k" "E - int (length fr)"] arg_cong [OF k, of length] by simp
    ultimately show ?thesis by (simp add: scale10_nat)
  qed
  have exv: "strtod_exp ex = (E, length ex)" using ex strtod_exp_text by auto
  show ?thesis
  proof (cases "?st = []")
    case True
    then have t: "fraction_text fr = []" by (simp add: fraction_text_def)
    have "takeWhile is_digit (w @ ex) = w" using whole t by simp
    moreover have "(if ex \<noteq> [] \<and> hd ex = CHR ''.'' then 1 else 0) = (0 :: nat)" using nd by auto
    moreover have "drop (length ?sg) (?sg @ w @ ex) = w @ ex" by simp
    ultimately show ?thesis using w(1) True
      by (simp only: strtod_def Let_def sg prod.case t append_Nil) (simp add: exv val mult.assoc)
  next
    case False
    then have t: "fraction_text fr = CHR ''.'' # ?st" by (simp add: fraction_text_def Let_def)
    have "takeWhile is_digit (w @ (CHR ''.'' # ?st) @ ex) = w" using whole t by simp
    then show ?thesis using w(1) False
      by (simp only: strtod_def Let_def sg prod.case t) (simp add: exv val frac mult.assoc)
  qed
qed

section \<open>The text of a number\<close>

lemma digits_value_less: "\<forall>c\<in>set s. is_digit c \<Longrightarrow> digits_value s < 10 ^ length s"
proof (induction s rule: rev_induct)
  case (snoc c s)
  have "of_char CHR ''0'' \<le> (of_char c :: nat)" "of_char c \<le> (of_char CHR ''9'' :: nat)"
    using snoc.prems by (simp_all add: is_digit_def less_eq_char_def)
  then have "digits_value [c] < 10" by (simp add: digits_value_def)
  then show ?case using snoc by (simp add: digits_value_append)
qed (simp add: digits_value_def)

lemma length_dec_digits: "10 ^ q \<le> n \<Longrightarrow> n < 10 ^ Suc q \<Longrightarrow> length (dec n) = Suc q"
proof -
  assume n: "10 ^ q \<le> n" "n < 10 ^ Suc q"
  have "n < 10 ^ length (dec n)" using digits_value_less [of "dec n"] dec_digits digits_value_dec by metis
  then have "(10 :: nat) ^ q < 10 ^ length (dec n)" using n(1) by (rule le_less_trans [rotated])
  then have "q < length (dec n)" by simp
  then show ?thesis using length_dec [OF n(2)] by simp
qed

text \<open>The layouts of \<open>fmt_g_pos\<close> as one: digits, fraction, exponent.\<close>

lemma fmt_g_layout:
  assumes "0 < x" "sci_digits (Suc q) x = (X, m)"
  obtains w fr ex E where "fmt_g_pos (Suc q) x = w @ fraction_text fr @ ex" "w \<noteq> []"
    "\<forall>c\<in>set (w @ fr). is_digit c" "ex = [] \<and> E = 0 \<or> ex = exponent_text E \<and> E = X \<and> length w = 1 \<and> length fr = q"
    "digits_value (w @ fr) = m" "E - int (length fr) = X - int q" "ex = [] \<longrightarrow> length w + length fr \<le> q + 5"
    "hd w = CHR ''0'' \<longrightarrow> length w = 1"
proof -
  have m: "10 ^ q \<le> m" "m < 10 ^ Suc q" using sci_digits_spec [OF assms] by auto
  let ?ds = "dec m"
  have l: "length ?ds = Suc q" using length_dec_digits [OF m] .
  have d: "\<forall>c\<in>set ?ds. is_digit c" "digits_value ?ds = m" using dec_digits digits_value_dec by auto
  have "0 < (10 :: nat) ^ q" by simp
  then have nz: "hd ?ds \<noteq> CHR ''0''" using hd_dec [of m] m(1) by linarith
  have z: "is_digit CHR ''0''" by (simp add: is_digit_def)
  consider (sci) "X < - 4 \<or> int (Suc q) \<le> X" | (whole) "0 \<le> X" "X < int (Suc q)" | (small) "- 4 \<le> X" "X < 0" by linarith
  then show thesis
  proof cases
    case sci
    show thesis
      by (rule that [of "take 1 ?ds" "drop 1 ?ds" "exponent_text X" X])
        (use sci l d in \<open>auto simp: fmt_g_pos_def assms(2) Let_def exponent_text_def dest: in_set_dropD\<close>)
  next
    case whole
    let ?n = "nat X + 1"
    have w: "length (take ?n ?ds) = ?n" "length (drop ?n ?ds) = Suc q - ?n" using whole l by auto
    have "fmt_g_pos (Suc q) x = take ?n ?ds @ fraction_text (drop ?n ?ds) @ []"
      using whole by (simp add: fmt_g_pos_def assms(2) Let_def)
    moreover have "take ?n ?ds \<noteq> []" using w(1) by (metis add_is_0 length_0_conv zero_neq_one)
    moreover have "0 - int (length (drop ?n ?ds)) = X - int q" using whole unfolding w(2) by linarith
    moreover have "length (take ?n ?ds) + length (drop ?n ?ds) \<le> q + 5" using l by (simp flip: length_append)
    moreover have "hd (take ?n ?ds) = hd ?ds" by simp
    ultimately show thesis using d nz by (intro that [of "take ?n ?ds" "drop ?n ?ds" "[]" 0]) simp_all
  next
    case small
    let ?z = "replicate (nat (- X) - 1) CHR ''0''"
    have "digits_value (''0'' @ ?z @ ?ds) = m"
      unfolding digits_value_append [of "''0''"] digits_value_append [of ?z ?ds]
      using d(2) digits_value_zeros [of 1] by (simp add: digits_value_zeros)
    moreover have "fmt_g_pos (Suc q) x = ''0'' @ fraction_text (?z @ ?ds) @ []"
      using small by (simp add: fmt_g_pos_def assms(2) Let_def)
    moreover have "\<forall>c\<in>set (''0'' @ ?z @ ?ds). is_digit c" using d(1) z by auto
    moreover have len: "length (?z @ ?ds) = nat (- X) - 1 + Suc q" using l by simp
    moreover have "0 - int (length (?z @ ?ds)) = X - int q" using small unfolding len by linarith
    moreover have "length ''0'' + length (?z @ ?ds) \<le> q + 5" using small unfolding len by simp
    ultimately show thesis by (intro that [of "''0''" "?z @ ?ds" "[]" 0]) simp_all
  qed
qed

lemma fmt_g_reads:
  assumes "x \<noteq> 0" "sci_digits (Suc q) \<bar>x\<bar> = (X, m)"
  shows "strtod (fmt_g (Suc q) x) =
    (round_double ((if x < 0 then - 1 else 1) * of_nat m * scale10 (X - int q)), length (fmt_g (Suc q) x))"
proof -
  have "0 < \<bar>x\<bar>" using assms(1) by simp
  then obtain w fr ex E where L: "fmt_g_pos (Suc q) \<bar>x\<bar> = w @ fraction_text fr @ ex" "w \<noteq> []"
    "\<forall>c\<in>set (w @ fr). is_digit c" "ex = [] \<and> E = 0 \<or> ex = exponent_text E \<and> E = X \<and> length w = 1 \<and> length fr = q"
    "digits_value (w @ fr) = m" "E - int (length fr) = X - int q"
    by (rule fmt_g_layout [OF _ assms(2)])
  have "ex = [] \<and> E = 0 \<or> ex = exponent_text E" using L(4) by blast
  from strtod_text [OF L(2) _ _ this, of fr "x < 0"] L(3,5,6) show ?thesis
    using assms(1) by (simp add: fmt_g_def L(1))
qed

lemma fmt_g_zero_reads: "strtod ''0'' = (Finite 0, 1)"
  using strtod_text [of "''0''" "[]" "[]" 0 False]
  by (simp add: is_digit_def fraction_text_def strip_zeros_def digits_value_def round_double_def)

text \<open>Seventeen digits determine a double.\<close>

lemma fmt_g_17_exact:
  assumes "double_value x" "x \<noteq> 0" shows "fst (strtod (fmt_g 17 x)) = Finite x"
proof -
  obtain X m where sci: "sci_digits (Suc 16) \<bar>x\<bar> = (X, m)" by fastforce
  let ?y = "of_nat m * scale10 (X - int 16)"
  have pos: "0 < \<bar>x\<bar>" using assms(2) by simp
  have dx: "double_value \<bar>x\<bar>"
    using assms by (cases "x < 0") (auto simp: double_value_def round_double_minus)
  have "\<bar>?y - \<bar>x\<bar>\<bar> \<le> scale10 (decade \<bar>x\<bar> - int 16) / 2" using sci_digits_spec(4) [OF pos sci] .
  also have "\<dots> = scale10 (decade \<bar>x\<bar>) / (2 * 10 ^ 16)"
    using scale10_add [of "decade \<bar>x\<bar> - int 16" "int 16"] scale10_nat [of 16] by simp
  also have "\<dots> \<le> \<bar>x\<bar> / (2 * 10 ^ 16)" using decade_bounds [OF pos] by (intro divide_right_mono) simp_all
  finally have r: "round_double ?y = Finite \<bar>x\<bar>" by (rule round_double_close [OF dx pos])
  have "?y \<noteq> 0"
  proof
    assume "?y = 0"
    then show False using r pos by (simp add: round_double_def)
  qed
  with r have "round_double ((if x < 0 then - 1 else 1) * of_nat m * scale10 (X - int 16)) = Finite x"
    by (cases "x < 0") (auto simp: round_double_minus)
  then show ?thesis using fmt_g_reads [OF assms(2) sci] by simp
qed

lemma number_text_reads:
  assumes "double_value x"
  shows "strtod (number_text (Finite x)) = (Finite x, length (number_text (Finite x)))"
proof (cases "x = 0")
  case True
  then show ?thesis using fmt_g_zero_reads by (simp add: number_text_def fmt_g_def Let_def)
next
  case False
  have r: "strtod (fmt_g P x) = (fst (strtod (fmt_g P x)), length (fmt_g P x))" if "0 < P" for P
    using fmt_g_reads [OF False] that by (cases P; cases "sci_digits P \<bar>x\<bar>") auto
  show ?thesis
  proof (cases "fst (strtod (fmt_g 15 x)) = Finite x \<and> snd (strtod (fmt_g 15 x)) \<noteq> 0")
    case True
    then show ?thesis using r [of 15] by (auto simp: number_text_def Let_def split_beta)
  next
    case no: False
    then have "number_text (Finite x) = fmt_g 17 x" by (auto simp: number_text_def Let_def split_beta)
    then show ?thesis using r [of 17] fmt_g_17_exact [OF assms False] by simp
  qed
qed

section \<open>Shape and length\<close>

lemma double_value_range:
  assumes "double_value x" "x \<noteq> 0" shows "- 324 \<le> decade \<bar>x\<bar>" "decade \<bar>x\<bar> \<le> 308"
proof -
  have pos: "0 < \<bar>x\<bar>" using assms(2) by simp
  have dx: "double_value \<bar>x\<bar>" using assms by (cases "x < 0") (auto simp: double_value_def round_double_minus)
  obtain k where k: "\<bar>x\<bar> = of_int k * pow2 (ulp_exponent \<bar>x\<bar>)" "0 < k" and lt: "\<bar>x\<bar> < pow2 1024"
    using double_value_grid [OF dx pos] by blast
  have D: "scale10 (decade \<bar>x\<bar>) \<le> \<bar>x\<bar>" "\<bar>x\<bar> < scale10 (decade \<bar>x\<bar> + 1)" using decade_bounds [OF pos] by auto
  have le: "scale10 i < scale10 j \<Longrightarrow> i < j" for i j by (metis not_less powi_le scale10_powi one_less_numeral_iff semiring_norm(76))
  have "pow2 1024 \<le> scale10 309" unfolding pow2_def scale10_def by simp
  then have "scale10 (decade \<bar>x\<bar>) < scale10 309" using D(1) lt by linarith
  then show "decade \<bar>x\<bar> \<le> 308" using le by fastforce
  have "pow2 (- 1074) \<le> pow2 (ulp_exponent \<bar>x\<bar>)" by (simp add: ulp_exponent_def)
  also have "\<dots> \<le> \<bar>x\<bar>"
  proof -
    have "1 * pow2 (ulp_exponent \<bar>x\<bar>) \<le> of_int k * pow2 (ulp_exponent \<bar>x\<bar>)" using k(2) by (intro mult_right_mono) simp_all
    then show ?thesis using k(1) by linarith
  qed
  finally have low: "pow2 (- 1074) \<le> \<bar>x\<bar>" .
  have "scale10 (- 324) \<le> pow2 (- 1074)" unfolding pow2_def scale10_def by simp
  then have "scale10 (- 324) < scale10 (decade \<bar>x\<bar> + 1)" using D(2) low by linarith
  then show "- 324 \<le> decade \<bar>x\<bar>" using le by fastforce
qed

lemma length_exponent_text:
  assumes "\<bar>X\<bar> < 1000" shows "length (exponent_text X) \<le> 5"
proof -
  have "length (dec (nat \<bar>X\<bar>)) \<le> 3" using assms by (intro length_dec) simp_all
  then show ?thesis by (simp add: exponent_text_def Let_def)
qed

lemma number_chars_text:
  "\<forall>c\<in>set s. is_digit c \<Longrightarrow> \<forall>c\<in>set (fraction_text s). number_char c"
  "\<forall>c\<in>set (exponent_text E). number_char c"
proof -
  show "\<forall>c\<in>set (fraction_text s). number_char c" if d: "\<forall>c\<in>set s. is_digit c"
  proof -
    obtain k where k: "s = strip_zeros s @ replicate k CHR ''0''" using strip_zeros_append by blast
    have "\<forall>c\<in>set (strip_zeros s). is_digit c" using d by (subst (asm) k) simp
    then show ?thesis by (auto simp: fraction_text_def Let_def number_char_def)
  qed
  show "\<forall>c\<in>set (exponent_text E). number_char c"
    using dec_digits [of "nat \<bar>E\<bar>"] by (auto simp: exponent_text_def Let_def number_char_def is_digit_def)
qed

text \<open>The numbers of JSON (RFC 8259, section 6): a sign, digits without a leading zero, a fraction, an exponent.\<close>

definition json_digits :: "string \<Rightarrow> bool" where
  "json_digits s \<longleftrightarrow> s \<noteq> [] \<and> (\<forall>c\<in>set s. is_digit c)"

definition json_int :: "string \<Rightarrow> bool" where
  "json_int s \<longleftrightarrow> json_digits s \<and> (hd s = CHR ''0'' \<longrightarrow> length s = 1)"

definition json_frac :: "string \<Rightarrow> bool" where
  "json_frac s \<longleftrightarrow> s = [] \<or> hd s = CHR ''.'' \<and> json_digits (tl s)"

definition json_exp :: "string \<Rightarrow> bool" where
  "json_exp s \<longleftrightarrow> s = [] \<or> hd s \<in> {CHR ''e'', CHR ''E''} \<and>
     (json_digits (tl s) \<or> tl s \<noteq> [] \<and> hd (tl s) \<in> {CHR ''+'', CHR ''-''} \<and> json_digits (tl (tl s)))"

definition json_number :: "string \<Rightarrow> bool" where
  "json_number s \<longleftrightarrow> (\<exists>sign w fr ex. s = sign @ w @ fr @ ex \<and> sign \<in> {[], ''-''} \<and> json_int w \<and> json_frac fr \<and> json_exp ex)"

lemma json_frac_text: "\<forall>c\<in>set s. is_digit c \<Longrightarrow> json_frac (fraction_text s)"
proof -
  obtain k where k: "s = strip_zeros s @ replicate k CHR ''0''" using strip_zeros_append by blast
  assume "\<forall>c\<in>set s. is_digit c"
  then have "\<forall>c\<in>set (strip_zeros s). is_digit c" by (subst (asm) k) simp
  then show ?thesis by (simp add: fraction_text_def Let_def json_frac_def json_digits_def)
qed

lemma json_exp_text: "json_exp (exponent_text E)"
  using dec_digits [of "nat \<bar>E\<bar>"] by (auto simp: exponent_text_def Let_def json_exp_def json_digits_def is_digit_def)

lemma fmt_g_json: "json_number (fmt_g (Suc q) x)"
proof (cases "x = 0")
  case True
  have "json_number ([] @ ''0'' @ [] @ [])"
    unfolding json_number_def by (intro exI conjI, rule refl) (simp_all add: json_int_def json_digits_def json_frac_def json_exp_def is_digit_def)
  then show ?thesis using True by (simp add: fmt_g_def)
next
  case False
  obtain X m where sci: "sci_digits (Suc q) \<bar>x\<bar> = (X, m)" by fastforce
  have pos: "0 < \<bar>x\<bar>" using False by simp
  obtain w fr ex E where L: "fmt_g_pos (Suc q) \<bar>x\<bar> = w @ fraction_text fr @ ex" "w \<noteq> []"
    "\<forall>c\<in>set (w @ fr). is_digit c" "ex = [] \<and> E = 0 \<or> ex = exponent_text E \<and> E = X \<and> length w = 1 \<and> length fr = q"
    "hd w = CHR ''0'' \<longrightarrow> length w = 1"
    by (rule fmt_g_layout [OF pos sci])
  have "json_int w" using L(2,3,5) by (simp add: json_int_def json_digits_def)
  moreover have "json_frac (fraction_text fr)" using L(3) by (intro json_frac_text) simp
  moreover have "json_exp ex" using L(4) json_exp_text by (auto simp: json_exp_def)
  moreover have "fmt_g (Suc q) x = (if x < 0 then ''-'' else []) @ w @ fraction_text fr @ ex" using False L(1) by (simp add: fmt_g_def)
  ultimately show ?thesis unfolding json_number_def by (intro exI conjI) (assumption | simp)+
qed

lemma number_text_json: "json_number (number_text (Finite x))"
  using fmt_g_json [of 14 x] fmt_g_json [of 16 x]
  by (auto simp: number_text_def Let_def split_beta eval_nat_numeral split: if_splits)

definition number_shape :: "string \<Rightarrow> bool" where
  "number_shape s \<longleftrightarrow> s \<noteq> [] \<and> (is_digit (hd s) \<or> hd s = CHR ''-'') \<and> (\<forall>c\<in>set s. number_char c)"

lemma length_fraction_text: "length (fraction_text s) \<le> length s + 1"
proof -
  obtain k where "s = strip_zeros s @ replicate k CHR ''0''" using strip_zeros_append by blast
  from arg_cong [OF this, of length] show ?thesis by (simp add: fraction_text_def Let_def)
qed

lemma fmt_g_shape:
  assumes "double_value x" shows "number_shape (fmt_g (Suc q) x) \<and> length (fmt_g (Suc q) x) \<le> q + 8"
proof (cases "x = 0")
  case True
  then show ?thesis by (simp add: fmt_g_def number_shape_def number_char_def is_digit_def)
next
  case False
  obtain X m where sci: "sci_digits (Suc q) \<bar>x\<bar> = (X, m)" by fastforce
  have pos: "0 < \<bar>x\<bar>" using False by simp
  obtain w fr ex E where L: "fmt_g_pos (Suc q) \<bar>x\<bar> = w @ fraction_text fr @ ex" "w \<noteq> []"
    "\<forall>c\<in>set (w @ fr). is_digit c" "ex = [] \<and> E = 0 \<or> ex = exponent_text E \<and> E = X \<and> length w = 1 \<and> length fr = q"
    "ex = [] \<longrightarrow> length w + length fr \<le> q + 5"
    by (rule fmt_g_layout [OF pos sci])
  have "\<bar>X\<bar> < 1000" using sci_digits_spec(3) [OF pos sci] double_value_range [OF assms False] by linarith
  then have "length ex \<le> 5" "ex \<noteq> [] \<Longrightarrow> length w + length fr \<le> q + 1" using L(4) length_exponent_text by auto
  then have len: "length (w @ fraction_text fr @ ex) \<le> q + 7"
    using L(5) length_fraction_text [of fr] by (cases "ex = []") auto
  have chars: "\<forall>c\<in>set (w @ fraction_text fr @ ex). number_char c"
    using number_chars_text(1) [of fr] number_chars_text(2) [of X] L(3,4) by (auto simp: number_char_def)
  have "is_digit (hd w)" using L(2,3) hd_in_set by auto
  then show ?thesis using False len chars L(2)
    by (auto simp: fmt_g_def L(1) number_shape_def hd_append number_char_def)
qed

lemma number_text_shape:
  assumes "double_value x" shows "number_shape (number_text (Finite x))" "length (number_text (Finite x)) \<le> 24"
  using fmt_g_shape [OF assms, of 14] fmt_g_shape [OF assms, of 16]
  by (auto simp: number_text_def Let_def split_beta eval_nat_numeral split: if_splits)

lemma length_number_text: "(\<forall>x. d = Finite x \<longrightarrow> double_value x) \<Longrightarrow> length (number_text d) \<le> 24"
  using number_text_shape by (cases d) (auto simp: number_text_def)

section \<open>Naturals\<close>

lemma round_half_even_of_int [simp]: "round_half_even (of_int i) = i"
  by (rule round_half_even_near) simp

lemma decade_unique:
  assumes "scale10 e \<le> x" "x < scale10 (e + 1)" shows "decade x = e"
proof -
  have b: "scale10 (decade x) \<le> x" "x < scale10 (decade x + 1)"
    using decade_bounds [of x] less_le_trans [OF scale10_pos(1) assms(1)] by auto
  have "scale10 (decade x) < scale10 (e + 1)" "scale10 e < scale10 (decade x + 1)"
    using le_less_trans [OF b(1) assms(2)] le_less_trans [OF assms(1) b(2)] by blast+
  then show ?thesis unfolding scale10_powi by (simp add: powi_le flip: not_le)
qed

lemma char_of_48: "char_of (48 :: nat) = CHR ''0''"
  by code_simp

lemma dec_times_10: "0 < n \<Longrightarrow> dec (n * 10 ^ k) = dec n @ replicate k CHR ''0''"
proof (induction k)
  case (Suc k)
  have "dec (n * 10 ^ Suc k) = dec (n * 10 ^ k) @ ''0''"
    using Suc.prems by (subst dec.simps) (simp add: char_of_48)
  then show ?case using Suc by (simp add: replicate_append_same)
qed simp

lemma fmt_g_of_nat:
  assumes "n < 10 ^ Suc q" shows "fmt_g (Suc q) (of_nat n) = dec n"
proof (cases "n = 0")
  case False
  define X where "X = length (dec n) - 1"
  have len: "length (dec n) = Suc X" using dec_digits [of n] by (simp add: X_def)
  have "length (dec n) \<le> Suc q" using length_dec [OF assms] by simp
  then have Xq: "X \<le> q" using len by simp
  have up: "n < 10 ^ Suc X" using digits_value_less [of "dec n"] dec_digits [of n] digits_value_dec [of n] len by simp
  have low: "10 ^ X \<le> n"
  proof (rule ccontr)
    assume "\<not> 10 ^ X \<le> n"
    then have "n < 10 ^ X" by simp
    moreover have "0 < X" using \<open>n < 10 ^ X\<close> False by (cases X) auto
    ultimately show False using length_dec [of n X] len by simp
  qed
  have dx: "decade (of_nat n) = int X"
  proof (rule decade_unique)
    show "scale10 (int X) \<le> of_nat n" using low unfolding scale10_nat of_nat_le_iff .
    show "of_nat n < scale10 (int X + 1)" using up scale10_nat [of "Suc X"] by (simp only: of_nat_less_iff of_nat_Suc add.commute)
  qed
  have "scale10 (int X - int q) * scale10 (int (q - X)) = 1"
    using scale10_add [of "int X - int q" "int (q - X)"] Xq by (simp add: scale10_def)
  then have "of_nat n / scale10 (int X - int q) = of_nat n * scale10 (int (q - X))"
    by (simp add: divide_eq_eq mult.assoc) (simp add: mult.commute)
  then have "of_nat n / scale10 (int X - int q) = of_int (int (n * 10 ^ (q - X)))" by (simp add: scale10_nat)
  then have r: "nat (round_half_even (of_nat n / scale10 (int X - int q))) = n * 10 ^ (q - X)"
    by (simp only: round_half_even_of_int nat_int)
  have "n * 10 ^ (q - X) < 10 ^ Suc X * 10 ^ (q - X)" using up by simp
  also have "\<dots> = 10 ^ Suc q" using Xq by (simp flip: power_add)
  finally have "sci_digits (Suc q) (of_nat n) = (int X, n * 10 ^ (q - X))"
    using r by (simp add: sci_digits_def dx Let_def)
  moreover have "dec (n * 10 ^ (q - X)) = dec n @ replicate (q - X) CHR ''0''" using False by (intro dec_times_10) simp
  ultimately have "fmt_g_pos (Suc q) (of_nat n) = dec n"
    using Xq len by (simp add: fmt_g_pos_def fraction_text_def strip_zeros_def)
  then show ?thesis using False by (simp add: fmt_g_def)
qed (simp add: fmt_g_def dec.simps char_of_48)

text \<open>A natural below \<open>2\<^sup>5\<^sup>3\<close> is a double.\<close>

lemma round_double_of_nat:
  assumes "n < 2 ^ 53" shows "round_double (of_nat n) = Finite (of_nat n)"
proof (cases "n = 0")
  case False
  let ?x = "of_nat n :: rat"
  let ?u = "max (binade \<bar>?x\<bar> - 52) (- 1074)"
  have "quotient_of ?x = (int n, 1)" using quotient_of_int [of "int n"] by simp
  moreover have "floorlog 2 n \<le> 53" using assms False by (simp add: floorlog_leI)
  ultimately have u: "?u \<le> 0" by (auto simp: binade_def Let_def floorlog_def)
  then have p: "pow2 ?u = 1 / 2 ^ nat (- ?u)" by (simp add: pow2_def)
  then have d: "?x / pow2 ?u = of_int (int n * 2 ^ nat (- ?u))" by simp
  have "?x < 2 ^ 53" using assms by (metis of_nat_less_iff of_nat_numeral of_nat_power)
  also have "(2 :: rat) ^ 53 \<le> 2 ^ 1024" by (rule power_increasing) simp_all
  finally have "\<not> pow2 1024 \<le> ?x" by (simp add: pow2_def)
  moreover have "of_int (round_half_even (?x / pow2 ?u)) * pow2 ?u = ?x" unfolding d round_half_even_of_int
    using p by simp
  ultimately show ?thesis using False by (simp add: round_double_def Let_def)
qed (simp add: round_double_def)

lemma number_text_of_nat:
  assumes "n < 10 ^ 15" shows "number_text (Finite (of_nat n)) = dec n"
proof -
  have "n < 2 ^ 53" using assms by simp
  then have dv: "double_value (of_nat n)" by (simp add: double_value_def round_double_of_nat)
  have f: "fmt_g 15 (of_nat n) = dec n" using fmt_g_of_nat [of n 14] assms by simp
  have "strtod (dec n) = (Finite (of_nat n), length (dec n))"
    using strtod_text [of "dec n" "[]" "[]" 0 False] dec_digits [of n] dv
    by (simp add: fraction_text_def strip_zeros_def digits_value_dec scale10_def double_value_def)
  then show ?thesis using dec_digits [of n] by (simp add: number_text_def Let_def f)
qed

text \<open>
  C10: numbers round trip. The text of a finite double is a number of JSON's grammar of at most 24
  characters, and \<open>strtod\<close> reads all of it and gives the same double back: 17 digits are enough,
  and 15 are used only when they are. An infinity, for which JSON has no number, prints as \<open>null\<close>.
\<close>

theorem number_text_roundtrip:
  assumes "\<forall>x. d = Finite x \<longrightarrow> double_value x"
  shows "case d of
      Finite x \<Rightarrow> strtod (number_text d) = (d, length (number_text d)) \<and> json_number (number_text d) \<and> length (number_text d) \<le> 24
    | Infinite _ \<Rightarrow> number_text d = ''null''"
proof (cases d)
  case (Finite x)
  with assms have "double_value x" by simp
  from number_text_reads [OF this] number_text_shape(2) [OF this] number_text_json [of x] Finite show ?thesis by simp
qed (simp add: number_text_def)

theorem number_text_roundtrip_witness:
  "fst (strtod (number_text (Finite (7036874417766 / 2 ^ 46)))) = Finite (7036874417766 / 2 ^ 46)"
proof -
  have "binade (7036874417766 / 2 ^ 46) = - 4" by (rule binade_unique) (simp_all add: pow2_def)
  then have "double_value (7036874417766 / 2 ^ 46)"
    using round_double_pos [of "7036874417766 / 2 ^ 46" "7036874417766 * 2 ^ 10"]
    by (simp add: double_value_def ulp_exponent_def pow2_def)
  then have "\<forall>x. Finite (7036874417766 / 2 ^ 46) = Finite x \<longrightarrow> double_value x"
    by (simp only: double.inject) blast
  from number_text_roundtrip [OF this] show ?thesis by simp
qed

end
