(* ===== verification/Arion_Json_Text.thy ===== *)
theory Arion_Json_Text
  imports Arion_Json_Number
begin

text \<open>
  Round trip of the JSON parser: \<open>json_text\<close> writes a value without white space, and
  \<open>cJSON_Parse\<close> gives the value back. It covers literals, every double, arbitrary
  strings (quotes, backslashes and control characters are escaped), arrays and objects within
  the nesting limit.
\<close>

section \<open>Text of a value\<close>

definition hex_digit :: "nat \<Rightarrow> char" where
  "hex_digit n = (if n < 10 then char_of (48 + n) else char_of (87 + n))"

definition escape :: "char \<Rightarrow> string" where
  "escape c =
     (if c = quote_char \<or> c = backslash then [backslash, c]
      else if c = CHR 0x08 then [backslash, CHR ''b''] else if c = CHR 0x0C then [backslash, CHR ''f'']
      else if c = CHR 0x0A then [backslash, CHR ''n''] else if c = CHR 0x0D then [backslash, CHR ''r'']
      else if c = CHR 0x09 then [backslash, CHR ''t'']
      else if of_char c < (32 :: nat) then backslash # ''u00'' @ [hex_digit (of_char c div 16), hex_digit (of_char c mod 16)]
      else [c])"

definition quoted :: "string \<Rightarrow> string" where
  "quoted s = quote_char # concat (map escape s) @ [quote_char]"

primrec sep_by :: "string list \<Rightarrow> string" where
  "sep_by [] = []"
| "sep_by (x # xs) = x @ (case xs of [] \<Rightarrow> [] | _ \<Rightarrow> '','' @ sep_by xs)"

definition json_nat :: "nat \<Rightarrow> cJSON" where
  "json_nat n = (let d = Finite (of_nat n) in cJSON_Number d (valueint_of d))"

fun json_text :: "cJSON \<Rightarrow> string" where
  "json_text cJSON_False = ''false''"
| "json_text cJSON_True = ''true''"
| "json_text cJSON_NULL = ''null''"
| "json_text (cJSON_Number d i) = number_text d"
| "json_text (cJSON_String s) = quoted s"
| "json_text (cJSON_Raw s) = s"
| "json_text (cJSON_Array xs) = ''['' @ sep_by (map json_text xs) @ '']''"
| "json_text (cJSON_Object ms) = ''{'' @ sep_by (map (\<lambda>(k, v). quoted k @ '':'' @ json_text v) ms) @ ''}''"

definition member_text :: "string \<times> cJSON \<Rightarrow> string" where
  "member_text m = quoted (fst m) @ '':'' @ json_text (snd m)"

lemma json_text_object: "json_text (cJSON_Object ms) = ''{'' @ sep_by (map member_text ms) @ ''}''"
  by (simp add: member_text_def [abs_def] split_beta')

definition plain_string :: "string \<Rightarrow> bool" where
  "plain_string s \<longleftrightarrow> CHR 0x00 \<notin> set s"

lemma plain_string_simps [simp]:
  "plain_string []"
  "plain_string (c # s) \<longleftrightarrow> c \<noteq> CHR 0x00 \<and> plain_string s"
  by (auto simp: plain_string_def)

text \<open>The values covered, nested to a depth of at most \<open>d\<close>.\<close>

inductive plain_json :: "nat \<Rightarrow> cJSON \<Rightarrow> bool" where
  "plain_json d cJSON_False"
| "plain_json d cJSON_True"
| "plain_json d cJSON_NULL"
| "double_value x \<Longrightarrow> plain_json d (cJSON_Number (Finite x) (valueint_of (Finite x)))"
| "plain_string s \<Longrightarrow> plain_json d (cJSON_String s)"
| "(\<And>x. x \<in> set xs \<Longrightarrow> plain_json d x) \<Longrightarrow> plain_json (Suc d) (cJSON_Array xs)"
| "(\<And>k v. (k, v) \<in> set ms \<Longrightarrow> plain_string k \<and> plain_json d v) \<Longrightarrow> plain_json (Suc d) (cJSON_Object ms)"

lemma plain_json_containers:
  "0 < d \<Longrightarrow> \<forall>x\<in>set xs. plain_json (d - 1) x \<Longrightarrow> plain_json d (cJSON_Array xs)"
  "0 < d \<Longrightarrow> \<forall>m\<in>set ms. plain_string (fst m) \<and> plain_json (d - 1) (snd m) \<Longrightarrow> plain_json d (cJSON_Object ms)"
  using plain_json.intros(6) [of xs "d - 1"] plain_json.intros(7) [of ms "d - 1"] by fastforce+

section \<open>Numbers\<close>

text \<open>What may follow a value.\<close>

definition follows :: "string \<Rightarrow> bool" where
  "follows post \<longleftrightarrow> post \<noteq> [] \<and> hd post \<in> {CHR '','', CHR '']'', CHR ''}'', CHR 0x00}"

lemma parse_number_text:
  assumes "double_value x" "follows post"
  shows "parse_number (pre @ number_text (Finite x) @ post) (length pre) =
    Some (Some (cJSON_Number (Finite x) (valueint_of (Finite x))), length pre + length (number_text (Finite x)))"
proof -
  let ?t = "number_text (Finite x)"
  note shape = number_text_shape [OF assms(1)]
  obtain c post' where post: "post = c # post'" "\<not> number_char c"
    using assms(2) by (cases post) (auto simp: follows_def number_char_def is_digit_def)
  have "take 63 (?t @ post) = ?t @ c # take (62 - length ?t) post'"
    using shape(2) by (simp add: post(1) take_Cons' Suc_diff_le)
  then have "takeWhile number_char (take 63 (?t @ post)) = ?t"
    using shape(1) post(2) by (simp add: takeWhile_append2 number_shape_def)
  then show ?thesis using shape(1) by (simp add: parse_number_reads number_read_def number_text_reads [OF assms(1)] number_shape_def)
qed

lemma plain_json_nat: "n < 2 ^ 53 \<Longrightarrow> plain_json d (json_nat n)"
  unfolding json_nat_def Let_def by (rule plain_json.intros) (simp add: double_value_def round_double_of_nat)

lemma json_text_nat: "n < 10 ^ 15 \<Longrightarrow> json_text (json_nat n) = dec n"
  by (simp add: json_nat_def Let_def number_text_of_nat)

section \<open>Strings\<close>

lemma hex_digit_facts:
  assumes "n < 16"
  shows "hex_value (hex_digit n) = Some n" "hex_digit n \<noteq> quote_char" "hex_digit n \<noteq> backslash"
    "is_digit (hex_digit n) \<or> CHR ''a'' \<le> hex_digit n \<and> hex_digit n \<le> CHR ''f''" "hex_digit n = CHR ''0'' \<longleftrightarrow> n = 0"
proof -
  have "\<forall>n\<in>set [0..<16]. hex_value (hex_digit n) = Some n \<and> hex_digit n \<noteq> quote_char \<and> hex_digit n \<noteq> backslash \<and>
      (is_digit (hex_digit n) \<or> CHR ''a'' \<le> hex_digit n \<and> hex_digit n \<le> CHR ''f'') \<and> (hex_digit n = CHR ''0'' \<longleftrightarrow> n = 0)"
    by code_simp
  moreover have "n \<in> set [0..<16]" using assms by simp
  ultimately show "hex_value (hex_digit n) = Some n" "hex_digit n \<noteq> quote_char" "hex_digit n \<noteq> backslash"
    "is_digit (hex_digit n) \<or> CHR ''a'' \<le> hex_digit n \<and> hex_digit n \<le> CHR ''f''" "hex_digit n = CHR ''0'' \<longleftrightarrow> n = 0"
    by (auto dest: bspec)
qed

text \<open>A character is written as itself, as a short escape or as a code.\<close>

lemma escape_cases:
  obtains "escape c = [c]" "c \<noteq> quote_char" "c \<noteq> backslash"
  | e where "escape c = [backslash, e]" "escape_char e = Some c" "e \<noteq> CHR ''u''"
  | n where "escape c = backslash # ''u00'' @ [hex_digit (n div 16), hex_digit (n mod 16)]" "n < 32" "c = char_of n"
proof (cases "c = quote_char \<or> c = backslash \<or> c \<in> {CHR 0x08, CHR 0x0C, CHR 0x0A, CHR 0x0D, CHR 0x09}")
  case True
  then have "\<exists>e. escape c = [backslash, e] \<and> escape_char e = Some c \<and> e \<noteq> CHR ''u''"
    by (auto simp: escape_def escape_char_def quote_char_def backslash_def)
  then show thesis using that(2) by blast
next
  case False
  show thesis
  proof (cases "of_char c < (32 :: nat)")
    case True
    show thesis by (rule that(3) [of "of_char c"]) (use False True in \<open>auto simp: escape_def\<close>)
  next
    case large: False
    show thesis by (rule that(1)) (use False large in \<open>auto simp: escape_def\<close>)
  qed
qed

lemma scan_char:
  "i < length content \<Longrightarrow> content ! i \<noteq> quote_char \<Longrightarrow> content ! i \<noteq> backslash \<Longrightarrow>
    scan_string content i k = scan_string content (Suc i) k"
  by (subst scan_string.simps) simp

lemma scan_escape:
  "Suc i < length content \<Longrightarrow> content ! i = backslash \<Longrightarrow> scan_string content i k = scan_string content (i + 2) (Suc k)"
  by (subst scan_string.simps) (simp add: backslash_def quote_char_def)

definition escapes :: "string \<Rightarrow> nat" where
  "escapes s = length (filter (\<lambda>c. escape c \<noteq> [c]) s)"

lemma nth_after: "(pre @ xs) ! (length pre + j) = xs ! j"
  by (rule nth_append_length_plus)

lemma scan_escaped_char:
  "scan_string (pre @ escape c @ post) (length pre) k =
    scan_string (pre @ escape c @ post) (length pre + length (escape c)) (if escape c = [c] then k else Suc k)"
proof (cases rule: escape_cases [of c])
  case 1
  then show ?thesis using scan_char [of "length pre" "pre @ escape c @ post" k] by simp
next
  case (2 e)
  then show ?thesis using scan_escape [of "length pre" "pre @ escape c @ post" k] by simp
next
  case (3 n)
  let ?c = "pre @ escape c @ post"
  have h: "n div 16 < 16" "n mod 16 < 16" using 3(2) by simp_all
  have first: "scan_string ?c (length pre) k = scan_string ?c (Suc (Suc (length pre))) (Suc k)"
    using scan_escape [of "length pre" ?c k] 3(1) by simp
  have step: "scan_string ?c (Suc (Suc (length pre + j))) (Suc k) = scan_string ?c (Suc (Suc (length pre + Suc j))) (Suc k)"
    if "j < 4" for j
  proof -
    have "j = 0 \<or> j = 1 \<or> j = 2 \<or> j = 3" using that by linarith
    then have "Suc (Suc (length pre + j)) < length ?c" "?c ! (length pre + Suc (Suc j)) \<noteq> quote_char"
      "?c ! (length pre + Suc (Suc j)) \<noteq> backslash"
      using hex_digit_facts(2,3) [OF h(1)] hex_digit_facts(2,3) [OF h(2)]
      by (auto simp: 3(1) nth_after quote_char_def backslash_def simp del: add_Suc_right)
    then show ?thesis using scan_char [of "Suc (Suc (length pre + j))" ?c "Suc k"] by simp
  qed
  have l: "length (escape c) = Suc (Suc (Suc (Suc (Suc (Suc 0)))))" by (simp add: 3(1))
  have e: "escape c \<noteq> [c]" by (simp add: 3(1))
  show ?thesis
    using first step [of 0] step [of "Suc 0"] step [of "Suc (Suc 0)"] step [of "Suc (Suc (Suc 0))"] e
    by (simp add: l)
qed

lemma scan_string_escaped:
  "scan_string (pre @ concat (map escape s) @ quote_char # post) (length pre) k =
    Some (length pre + length (concat (map escape s)), k + escapes s)"
proof (induction s arbitrary: pre k)
  case Nil
  then show ?case by (subst scan_string.simps) (simp add: escapes_def)
next
  case (Cons c s)
  show ?case
    using scan_escaped_char [of pre c "concat (map escape s) @ quote_char # post" k]
      Cons.IH [of "pre @ escape c" "if escape c = [c] then k else Suc k"] by (auto simp: escapes_def)
qed

lemma escapes_room: "length s + escapes s \<le> length (concat (map escape s))"
proof (induction s)
  case (Cons c s)
  have "(if escape c = [c] then 1 else 2) \<le> length (escape c)" by (cases rule: escape_cases [of c]) auto
  then show ?case using Cons by (auto simp: escapes_def)
qed (simp add: escapes_def)

lemma c_string_plain: "plain_string s \<Longrightarrow> c_string s = s"
  by (auto simp: c_string_def plain_string_def takeWhile_eq_all_conv)

lemma rdc_after: "rdc (pre @ xs) (length pre + j) = rdc xs j"
  by (simp add: rdc_def nth_after)

lemma parse_hex4_low:
  assumes "n < 32" "xs = ''00'' @ [hex_digit (n div 16), hex_digit (n mod 16)] @ rest"
  shows "parse_hex4 (pre @ xs) (length pre) = Some (of_nat n)"
proof -
  have h: "n div 16 < 16" "n mod 16 < 16" using assms(1) by simp_all
  let ?x = "CHR ''0'' # CHR ''0'' # hex_digit (n div 16) # hex_digit (n mod 16) # rest"
  have r: "rdc (pre @ ?x) (length pre) = Some CHR ''0''" "rdc (pre @ ?x) (Suc (length pre)) = Some CHR ''0''"
    "rdc (pre @ ?x) (Suc (Suc (length pre))) = Some (hex_digit (n div 16))"
    "rdc (pre @ ?x) (Suc (Suc (Suc (length pre)))) = Some (hex_digit (n mod 16))"
    using rdc_after [of pre ?x 0] rdc_after [of pre ?x "Suc 0"] rdc_after [of pre ?x "Suc (Suc 0)"]
      rdc_after [of pre ?x "Suc (Suc (Suc 0))"] by (simp_all add: rdc_def)
  have z: "hex_value CHR ''0'' = Some 0" by (simp add: hex_value_def is_digit_def)
  have w: "16 * (of_nat (n div 16) :: u32) + of_nat (n mod 16) = of_nat n"
    using arg_cong [OF mult_div_mod_eq [of 16 n], of "of_nat :: nat \<Rightarrow> u32"]
    by (simp only: of_nat_add of_nat_mult of_nat_numeral)
  have loop: "hex4_loop (pre @ ?x) (length pre) (Suc (Suc (Suc (Suc 0)))) 0 = Some (of_nat n)"
    using w by (simp add: r z hex_digit_facts(1) [OF h(1)] hex_digit_facts(1) [OF h(2)] push_bit_eq_mult mult.commute)
  have four: "Suc (Suc (Suc (Suc 0))) = 4" by simp
  show ?thesis using loop unfolding four parse_hex4_def assms(2) by (simp only: append_Cons append_Nil)
qed

lemma utf16_low:
  assumes "n < 32" "length pre + 6 \<le> e"
  shows "utf16_literal_to_utf8 (pre @ (backslash # ''u00'' @ [hex_digit (n div 16), hex_digit (n mod 16)]) @ rest) (length pre) e =
    Some (6, [char_of n])"
proof -
  let ?x = "''00'' @ [hex_digit (n div 16), hex_digit (n mod 16)] @ rest"
  have c: "pre @ (backslash # ''u00'' @ [hex_digit (n div 16), hex_digit (n mod 16)]) @ rest = (pre @ [backslash, CHR ''u'']) @ ?x"
    by simp
  have p: "parse_hex4 ((pre @ [backslash, CHR ''u'']) @ ?x) (length pre + 2) = Some (of_nat n)"
    using parse_hex4_low [OF assms(1) refl, of "pre @ [backslash, CHR ''u'']" rest] by simp
  have n: "unat (of_nat n :: u32) = n" "unat (of_nat n :: u64) = n"
    using assms(1) by (simp_all add: unsigned_of_nat take_bit_nat_eq_self)
  have lt: "(of_nat n :: u32) < 0xD800" "\<not> 0xDC00 \<le> (of_nat n :: u32)" "\<not> 0xD800 \<le> (of_nat n :: u32)"
    using assms(1) by (simp_all add: word_less_nat_alt word_le_nat_alt n)
  have "unat (ucast (of_nat n :: u32) :: u64) = unat (of_nat n :: u64)"
    using assms(1) by (simp add: unsigned_ucast_eq n take_bit_nat_eq_self)
  then have u: "(ucast (of_nat n :: u32) :: u64) = of_nat n" by (rule unsigned_word_eqI)
  have "unat (take_bit 7 (of_nat n :: u64)) = unat (of_nat n :: u64)"
    using assms(1) by (simp add: unsigned_take_bit_eq n take_bit_nat_eq_self)
  then have "take_bit 7 (of_nat n :: u64) = of_nat n" by (rule unsigned_word_eqI)
  then have "(of_nat n :: u64) AND 0x7F = of_nat n" by (simp add: take_bit_eq_mask mask_eq_exp_minus_1)
  then have "encode_utf8 (of_nat n) = Some [char_of n]"
    using assms(1) by (simp add: encode_utf8_def Let_def word_less_nat_alt n)
  then show ?thesis
    using assms(2) unfolding c by (simp add: utf16_literal_to_utf8_def p [simplified] Let_def lt u)
qed

lemma unescape_char:
  assumes "length pre + length (escape c) \<le> e" "length out < cap"
  shows "unescape (pre @ escape c @ rest) e cap (length pre) out =
    unescape (pre @ escape c @ rest) e cap (length pre + length (escape c)) (out @ [c])"
proof (cases rule: escape_cases [of c])
  case 1
  then show ?thesis
    using assms by (subst unescape.simps) (simp add: rdc_def push_out_def)
next
  case (2 x)
  then show ?thesis
    using assms rdc_after [of pre "escape c @ rest" "Suc 0"]
    by (subst unescape.simps) (simp add: rdc_def push_out_def)
next
  case (3 n)
  have "utf16_literal_to_utf8 (pre @ escape c @ rest) (length pre) e = Some (6, [c])"
    using assms(1) unfolding 3(1) 3(3) [symmetric] by (subst utf16_low [OF 3(2)]) (simp_all add: 3(3))
  moreover have "rdc (pre @ escape c @ rest) (length pre) = Some backslash"
    "rdc (pre @ escape c @ rest) (length pre + 1) = Some CHR ''u''"
    using rdc_after [of pre "escape c @ rest" 0] rdc_after [of pre "escape c @ rest" 1] by (simp_all add: 3(1) rdc_def)
  moreover have "length pre < e" "length (escape c) = 6" using assms(1) by (simp_all add: 3(1))
  ultimately show ?thesis using assms(2) by (subst unescape.simps) (simp add: push_out_def)
qed

lemma unescape_escaped:
  "length out + length s \<le> cap \<Longrightarrow>
    unescape (pre @ concat (map escape s) @ rest) (length pre + length (concat (map escape s))) cap (length pre) out =
      Some (Inr (out @ s))"
proof (induction s arbitrary: pre out)
  case Nil
  then show ?case by (subst unescape.simps) simp
next
  case (Cons c s)
  then show ?case
    using unescape_char [of pre c "length pre + length (concat (map escape (c # s)))" out cap "concat (map escape s) @ rest"]
      Cons.IH [of "out @ [c]" "pre @ escape c"] by (simp add: add.assoc)
qed

lemma parse_string_quoted:
  assumes "plain_string s"
  shows "parse_string (pre @ quoted s @ post) (length pre) = Some (Some s, length pre + length (quoted s))"
proof -
  let ?pre = "pre @ [quote_char]"
  let ?t = "concat (map escape s)"
  let ?c = "pre @ quoted s @ post"
  have c: "?c = ?pre @ ?t @ quote_char # post" by (simp add: quoted_def)
  have "scan_string ?c (length pre + 1) 0 = Some (length pre + 1 + length ?t, escapes s)"
    using scan_string_escaped [of ?pre s post 0] unfolding c by simp
  moreover have "unescape ?c (length pre + 1 + length ?t) (length pre + 1 + length ?t - length pre - escapes s) (length pre + 1) [] =
      Some (Inr s)"
    using unescape_escaped [of "[]" s "length pre + 1 + length ?t - length pre - escapes s" ?pre "quote_char # post"]
      escapes_room [of s] unfolding c by simp
  ultimately show ?thesis
    using c_string_plain [OF assms] by (simp add: parse_string_def rdc_def nth_append quoted_def)
qed

section \<open>Containers\<close>

lemma no_space_skipped:
  assumes "i < length content" "32 < (of_char (content ! i) :: nat)"
  shows "buffer_skip_whitespace content i = i"
  using assms by (simp add: buffer_skip_whitespace_def skip_spaces.simps [of content i])

definition visible :: "string \<Rightarrow> bool" where
  "visible t \<longleftrightarrow> t \<noteq> [] \<and> 32 < (of_char (hd t) :: nat) \<and> hd t \<noteq> CHR '']'' \<and> hd t \<noteq> CHR 0xEF"

text \<open>
  A reader of values: from the text of a good value on it gives the value and the place after it.
\<close>

locale value_reader =
  fixes content :: string and read_value :: "nat \<Rightarrow> cJSON parsed" and good :: "cJSON \<Rightarrow> bool"
  assumes reads: "good x \<Longrightarrow> content = pre @ json_text x @ post \<Longrightarrow> follows post \<Longrightarrow>
      read_value (length pre) = Some (Some x, length pre + length (json_text x))"
    and starts_visible: "good x \<Longrightarrow> visible (json_text x)"
begin

lemma skip_to_value:
  assumes "good x" "content = pre @ json_text x @ post"
  shows "buffer_skip_whitespace content (length pre) = length pre"
  using starts_visible [OF assms(1)] unfolding assms(2) visible_def
  by (intro no_space_skipped) (auto simp: nth_append hd_conv_nth)

lemma reads_elements:
  "xs \<noteq> [] \<Longrightarrow> \<forall>x\<in>set xs. good x \<Longrightarrow> content = pre @ c # sep_by (map json_text xs) @ '']'' @ post \<Longrightarrow>
    length xs \<le> fuel \<Longrightarrow>
    array_loop fuel read_value content items (length pre) =
      Some (Some (cJSON_Array (items @ xs)), length pre + length (sep_by (map json_text xs)) + 2)"
proof (induction xs arbitrary: pre c items fuel)
  case (Cons x xs)
  obtain f where f: "fuel = Suc f" using Cons.prems(4) by (cases fuel) simp_all
  let ?pre = "pre @ [c]"
  let ?rest = "(case xs of [] \<Rightarrow> [] | _ \<Rightarrow> '','' @ sep_by (map json_text xs)) @ '']'' @ post"
  have c: "content = ?pre @ json_text x @ ?rest" using Cons.prems(3) by (simp split: list.splits)
  have g: "good x" using Cons.prems(2) by simp
  have "follows ?rest" by (auto simp: follows_def split: list.splits)
  from reads [OF g c this] skip_to_value [OF g c]
  have r: "read_value (buffer_skip_whitespace content (length pre + 1)) = Some (Some x, length ?pre + length (json_text x))"
    by simp
  let ?o = "length ?pre + length (json_text x)"
  have d: "content = (?pre @ json_text x) @ ?rest" using c by simp
  have o: "?o < length content" "content ! ?o = hd ?rest"
    unfolding d by (auto simp: nth_append hd_conv_nth)
  then have s: "buffer_skip_whitespace content ?o = ?o"
    by (intro no_space_skipped) (auto split: list.splits)
  show ?case
  proof (cases xs)
    case Nil
    then show ?thesis using r s o by (simp add: f Let_def char_at_def)
  next
    case (Cons y ys)
    then have "content = (?pre @ json_text x) @ CHR '','' # sep_by (map json_text xs) @ '']'' @ post" using d by simp
    from Cons.IH [OF _ _ this, of f "items @ [x]"] Cons Cons.prems(2,4)
    show ?thesis using r s o by (simp add: f Let_def char_at_def)
  qed
qed simp

lemma reads_member:
  assumes "plain_string k" "good x" "content = pre @ member_text (k, x) @ post" "follows post"
  shows "buffer_skip_whitespace content (length pre) = length pre"
    "parse_string content (length pre) = Some (Some k, length pre + length (quoted k))"
    "buffer_skip_whitespace content (length pre + length (quoted k)) = length pre + length (quoted k)"
    "char_at content (length pre + length (quoted k)) (CHR '':'')"
    "buffer_skip_whitespace content (Suc (length pre + length (quoted k))) = Suc (length pre + length (quoted k))"
    "read_value (Suc (length pre + length (quoted k))) = Some (Some x, length pre + length (member_text (k, x)))"
proof -
  have c: "content = pre @ quoted k @ CHR '':'' # json_text x @ post"
    "content = (pre @ quoted k) @ CHR '':'' # json_text x @ post"
    "content = (pre @ quoted k @ '':'') @ json_text x @ post"
    using assms(3) by (simp_all add: member_text_def)
  show "buffer_skip_whitespace content (length pre) = length pre"
    unfolding c(1) by (intro no_space_skipped) (simp_all add: nth_append quoted_def quote_char_def)
  show "parse_string content (length pre) = Some (Some k, length pre + length (quoted k))"
    unfolding c(1) by (rule parse_string_quoted [OF assms(1)])
  have o: "length pre + length (quoted k) < length content" "content ! (length pre + length (quoted k)) = CHR '':''"
    unfolding c(2) by (auto simp: nth_append)
  then show "buffer_skip_whitespace content (length pre + length (quoted k)) = length pre + length (quoted k)"
    by (intro no_space_skipped) simp_all
  show "char_at content (length pre + length (quoted k)) (CHR '':'')" using o by (simp add: char_at_def)
  show "buffer_skip_whitespace content (Suc (length pre + length (quoted k))) = Suc (length pre + length (quoted k))"
    using skip_to_value [OF assms(2) c(3)] by simp
  show "read_value (Suc (length pre + length (quoted k))) = Some (Some x, length pre + length (member_text (k, x)))"
    using reads [OF assms(2) c(3) assms(4)] by (simp add: member_text_def)
qed

lemma reads_members:
  "ms \<noteq> [] \<Longrightarrow> \<forall>(k, x)\<in>set ms. plain_string k \<and> good x \<Longrightarrow>
    content = pre @ c # sep_by (map member_text ms) @ ''}'' @ post \<Longrightarrow> length ms \<le> fuel \<Longrightarrow>
    object_loop fuel read_value content items (length pre) =
      Some (Some (cJSON_Object (items @ ms)), length pre + length (sep_by (map member_text ms)) + 2)"
proof (induction ms arbitrary: pre c items fuel)
  case (Cons m ms)
  obtain f where f: "fuel = Suc f" using Cons.prems(4) by (cases fuel) simp_all
  obtain k x where m: "m = (k, x)" by fastforce
  let ?pre = "pre @ [c]"
  let ?rest = "(case ms of [] \<Rightarrow> [] | _ \<Rightarrow> '','' @ sep_by (map member_text ms)) @ ''}'' @ post"
  have c: "content = ?pre @ member_text (k, x) @ ?rest" using Cons.prems(3) by (simp add: m split: list.splits)
  have g: "plain_string k" "good x" using Cons.prems(2) by (simp_all add: m)
  have "follows ?rest" by (auto simp: follows_def split: list.splits)
  from reads_member [OF g c this]
  have r: "buffer_skip_whitespace content (Suc (length pre)) = Suc (length pre)"
    "parse_string content (Suc (length pre)) = Some (Some k, Suc (length pre) + length (quoted k))"
    "buffer_skip_whitespace content (Suc (length pre) + length (quoted k)) = Suc (length pre) + length (quoted k)"
    "char_at content (Suc (length pre) + length (quoted k)) (CHR '':'')"
    "buffer_skip_whitespace content (Suc (Suc (length pre) + length (quoted k))) = Suc (Suc (length pre) + length (quoted k))"
    "read_value (Suc (Suc (length pre) + length (quoted k))) = Some (Some x, Suc (length pre) + length (member_text (k, x)))"
    by simp_all
  let ?o = "Suc (length pre) + length (member_text (k, x))"
  have d: "content = (?pre @ member_text (k, x)) @ ?rest" using c by simp
  have o: "?o < length content" "content ! ?o = hd ?rest"
    unfolding d by (auto simp: nth_append hd_conv_nth)
  then have s: "buffer_skip_whitespace content ?o = ?o"
    by (intro no_space_skipped) (auto split: list.splits)
  show ?case
  proof (cases ms)
    case Nil
    then show ?thesis using r s o by (simp add: f m Let_def) (simp add: char_at_def)
  next
    case (Cons y ys)
    then have "content = (?pre @ member_text (k, x)) @ CHR '','' # sep_by (map member_text ms) @ ''}'' @ post" using d by simp
    from Cons.IH [OF _ _ this, of f "items @ [(k, x)]"] Cons Cons.prems(2,4)
    show ?thesis using r s o by (simp add: f m Let_def) (simp add: char_at_def)
  qed
qed simp

end

section \<open>Values\<close>

lemma first_char:
  assumes "t \<noteq> []"
  shows "char_at (pre @ t @ post) (length pre) c \<longleftrightarrow> hd t = c"
    "starts (pre @ t @ post) (length pre) (c # w) \<Longrightarrow> hd t = c"
    "(pre @ t @ post) ! length pre = hd t"
  using assms by (cases t; auto simp: char_at_def starts_def)+

lemma json_text_visible: "plain_json d x \<Longrightarrow> visible (json_text x)"
proof (induction rule: plain_json.induct)
  case (4 x d)
  let ?c = "hd (number_text (Finite x))"
  have c: "number_text (Finite x) \<noteq> []" "is_digit ?c \<or> ?c = CHR ''-''"
    using number_text_shape(1) [OF 4] by (auto simp: number_shape_def)
  then have "CHR ''-'' \<le> ?c" by (auto simp: is_digit_def intro: order_trans [of _ "CHR ''0''"])
  then have "(of_char CHR ''-'' :: nat) \<le> of_char ?c" by (simp add: less_eq_char_def)
  moreover have "\<not> is_digit CHR '']''" "\<not> is_digit CHR 0xEF" by (simp_all add: is_digit_def)
  then have "?c \<noteq> CHR '']''" "?c \<noteq> CHR 0xEF" using c(2) by auto
  ultimately show ?case using c(1) by (simp add: visible_def)
qed (simp_all add: quoted_def quote_char_def visible_def)

lemma sep_by_length: "\<forall>x\<in>set xs. f x \<noteq> [] \<Longrightarrow> length xs \<le> length (sep_by (map f xs))"
proof (induction xs)
  case (Cons x xs)
  then have "Suc 0 \<le> length (f x)" "length xs \<le> length (sep_by (map f xs))" by (auto simp: Suc_le_eq)
  then show ?case by (cases xs) auto
qed simp

lemma sep_by_hd: "xs \<noteq> [] \<Longrightarrow> f (hd xs) \<noteq> [] \<Longrightarrow> hd (sep_by (map f xs)) = hd (f (hd xs)) \<and> sep_by (map f xs) \<noteq> []"
  by (cases xs) auto

text \<open>The opening of a container and the place of its first element.\<close>

lemma skip_opening:
  assumes "t \<noteq> []" "32 < (of_char (hd t) :: nat)"
  shows "buffer_skip_whitespace (pre @ c # t @ post) (Suc (length pre)) = Suc (length pre)"
    "(pre @ c # t @ post) ! Suc (length pre) = hd t"
  using assms by (auto intro!: no_space_skipped simp: nth_append hd_conv_nth)

lemma parse_array_text:
  assumes r: "value_reader content (value (depth + 1)) good" and d: "depth < CJSON_NESTING_LIMIT"
    and g: "\<forall>x\<in>set xs. good x" and c: "content = pre @ json_text (cJSON_Array xs) @ post"
  shows "parse_array value content depth (length pre) =
    Some (Some (cJSON_Array xs), length pre + length (json_text (cJSON_Array xs)))"
proof -
  let ?t = "sep_by (map json_text xs) @ '']''"
  have t: "content = pre @ CHR ''['' # ?t @ post" using c by simp
  have v: "\<forall>x\<in>set xs. visible (json_text x)" using g value_reader.starts_visible [OF r] by blast
  have h: "?t \<noteq> []" "32 < (of_char (hd ?t) :: nat)" "xs \<noteq> [] \<Longrightarrow> hd ?t \<noteq> CHR '']''"
    using v sep_by_hd [of xs json_text] by (cases "xs = []"; simp add: visible_def)+
  have o: "buffer_skip_whitespace content (Suc (length pre)) = Suc (length pre)"
    "content ! Suc (length pre) = hd ?t" "content ! length pre = CHR ''[''" "Suc (length pre) < length content"
    using skip_opening [OF h(1,2), of pre "CHR ''[''" post] unfolding t by simp_all
  show ?thesis
  proof (cases "xs = []")
    case True
    then show ?thesis using o d by (simp add: parse_array_def rdc_def char_at_def Let_def)
  next
    case False
    have "\<forall>x\<in>set xs. json_text x \<noteq> []" using v by (simp add: visible_def)
    then have "length xs \<le> length content" using sep_by_length [of xs json_text] t by simp
    then show ?thesis
      using h(3) False o d value_reader.reads_elements [OF r False g, of pre "CHR ''[''" post "length content" "[]"] t
      by (simp add: parse_array_def rdc_def char_at_def Let_def)
  qed
qed

lemma parse_object_text:
  assumes r: "value_reader content (value (depth + 1)) good" and d: "depth < CJSON_NESTING_LIMIT"
    and g: "\<forall>(k, x)\<in>set ms. plain_string k \<and> good x" and c: "content = pre @ json_text (cJSON_Object ms) @ post"
  shows "parse_object value content depth (length pre) =
    Some (Some (cJSON_Object ms), length pre + length (json_text (cJSON_Object ms)))"
proof -
  let ?t = "sep_by (map member_text ms) @ ''}''"
  have t: "content = pre @ CHR ''{'' # ?t @ post" using c by (simp only: json_text_object) simp
  have v: "hd (member_text m) = quote_char" "member_text m \<noteq> []" for m by (simp_all add: member_text_def quoted_def)
  have h: "?t \<noteq> []" "32 < (of_char (hd ?t) :: nat)" "ms \<noteq> [] \<Longrightarrow> hd ?t \<noteq> CHR ''}''"
    using v sep_by_hd [of ms member_text] by (cases "ms = []"; simp add: quote_char_def)+
  have o: "buffer_skip_whitespace content (Suc (length pre)) = Suc (length pre)"
    "content ! Suc (length pre) = hd ?t" "content ! length pre = CHR ''{''" "Suc (length pre) < length content"
    using skip_opening [OF h(1,2), of pre "CHR ''{''" post] unfolding t by simp_all
  show ?thesis
  proof (cases "ms = []")
    case True
    then show ?thesis using o d by (simp add: parse_object_def char_at_def Let_def)
  next
    case False
    have "length ms \<le> length content" using sep_by_length [of ms member_text] v(2) t by simp
    then show ?thesis
      using h(3) False o d value_reader.reads_members [OF r False g, of pre "CHR ''{''" post "length content" "[]"] t
      by (simp add: parse_object_def char_at_def Let_def json_text_object del: json_text.simps)
  qed
qed

text \<open>\<open>parse_value\<close> branches on the first character of the value's text.\<close>

lemma parse_value_text:
  assumes "\<And>j. k = Suc j \<Longrightarrow> value_reader content (parse_value k content (CJSON_NESTING_LIMIT - j)) (plain_json j)"
    and k: "k \<le> CJSON_NESTING_LIMIT" and x: "plain_json k x" and c: "content = pre @ json_text x @ post" and f: "follows post"
  shows "parse_value (Suc k) content (CJSON_NESTING_LIMIT - k) (length pre) = Some (Some x, length pre + length (json_text x))"
proof -
  have t: "json_text x \<noteq> []" using json_text_visible [OF x] by (simp add: visible_def)
  note first = first_char [OF t, of pre post, folded c]
  have l: "length pre < length content" using t by (simp add: c)
  show ?thesis
    using x
  proof cases
    case 1
    then show ?thesis using first by (simp add: starts_def c)
  next
    case 2
    then show ?thesis using first by (simp add: starts_def c)
  next
    case 3
    then show ?thesis using first by (simp add: starts_def c)
  next
    case (4 y)
    let ?t = "number_text (Finite y)"
    have "is_digit (hd ?t) \<or> hd ?t = CHR ''-''" using number_text_shape(1) [OF 4(2)] by (simp add: number_shape_def)
    moreover have h: "hd (json_text x) = hd ?t" "content = pre @ ?t @ post" using c by (simp_all add: 4)
    moreover have "is_digit ch \<Longrightarrow> ch \<notin> {CHR ''n'', CHR ''f'', CHR ''t'', quote_char}" for ch
      by (auto simp: is_digit_def quote_char_def)
    ultimately have n: "hd (json_text x) \<notin> {CHR ''n'', CHR ''f'', CHR ''t'', quote_char}"
      "content ! length pre = CHR ''-'' \<or> is_digit (content ! length pre)"
      using first(3) by (auto simp: quote_char_def)
    then have "\<not> starts content (length pre) ''null''" "\<not> starts content (length pre) ''false''"
      "\<not> starts content (length pre) ''true''" "\<not> char_at content (length pre) quote_char"
      using first(1,2) by blast+
    then show ?thesis using n(2) l parse_number_text [OF 4(2) f, of pre] h(2) by (simp add: 4(1))
  next
    case (5 s)
    have "content = pre @ quoted s @ post" "hd (json_text x) = quote_char" using c by (simp_all add: 5 quoted_def)
    then show ?thesis
      using first parse_string_quoted [OF 5(2), of pre post] by (auto simp: 5 quote_char_def)
  next
    case (6 xs j)
    have d: "CJSON_NESTING_LIMIT - k < CJSON_NESTING_LIMIT" "Suc (CJSON_NESTING_LIMIT - k) = CJSON_NESTING_LIMIT - j"
      using k 6(1) by simp_all
    have "parse_array (parse_value k content) content (CJSON_NESTING_LIMIT - k) (length pre) =
        Some (Some x, length pre + length (json_text x))"
      unfolding 6(2) using assms(1) [OF 6(1)] d(1) 6(3) c
      by (intro parse_array_text [where good = "plain_json j"]) (simp_all add: d(2) 6(2))
    moreover have "hd (json_text x) = CHR ''[''" by (simp add: 6)
    ultimately show ?thesis using first l by (auto simp: quote_char_def is_digit_def)
  next
    case (7 ms j)
    have d: "CJSON_NESTING_LIMIT - k < CJSON_NESTING_LIMIT" "Suc (CJSON_NESTING_LIMIT - k) = CJSON_NESTING_LIMIT - j"
      using k 7(1) by simp_all
    have "parse_object (parse_value k content) content (CJSON_NESTING_LIMIT - k) (length pre) =
        Some (Some x, length pre + length (json_text x))"
      unfolding 7(2) using assms(1) [OF 7(1)] d(1) 7(3) c
      by (intro parse_object_text [where good = "plain_json j"]) (auto simp: d(2) 7(2))
    moreover have "hd (json_text x) = CHR ''{''" by (simp add: 7)
    ultimately show ?thesis using first l by (auto simp: quote_char_def is_digit_def)
  qed
qed

text \<open>By induction on the levels of nesting that are left, \<open>parse_value\<close> is a reader of plain values.\<close>

lemma value_reader_levels:
  "k \<le> CJSON_NESTING_LIMIT \<Longrightarrow>
    value_reader content (parse_value (Suc k) content (CJSON_NESTING_LIMIT - k)) (plain_json k)"
proof (induction k)
  case 0
  show ?case using parse_value_text [of 0 content] json_text_visible by unfold_locales simp_all
next
  case (Suc k)
  have "value_reader content (parse_value (Suc k) content (CJSON_NESTING_LIMIT - k)) (plain_json k)"
    using Suc by (simp del: parse_value.simps)
  then show ?case
    using parse_value_text [of "Suc k" content, OF _ Suc.prems] json_text_visible
    by unfold_locales (simp_all del: parse_value.simps)
qed

interpretation json: value_reader content "parse_value (CJSON_NESTING_LIMIT + 1) content 0" "plain_json CJSON_NESTING_LIMIT"
  for content
  using value_reader_levels [of CJSON_NESTING_LIMIT content] by (simp del: parse_value.simps)


section \<open>Round trip\<close>

lemma set_sep_by: "set (sep_by xs) \<subseteq> insert CHR '','' (\<Union>(set ` set xs))"
  by (induction xs) (auto split: list.splits)

lemma concat_map_notin: "\<forall>c\<in>set s. x \<notin> set (f c) \<Longrightarrow> x \<notin> set (concat (map f s))"
  by auto

lemma quoted_no_NUL: "plain_string s \<Longrightarrow> CHR 0x00 \<notin> set (quoted s)"
proof -
  assume "plain_string s"
  moreover have "CHR 0x00 \<notin> set (escape c)" if "c \<noteq> CHR 0x00" for c
  proof (cases rule: escape_cases [of c])
    case (2 e)
    then show ?thesis by (auto simp: escape_char_def backslash_def quote_char_def)
  next
    case (3 n)
    have "\<not> (is_digit CHR 0x00 \<or> CHR ''a'' \<le> CHR 0x00 \<and> CHR 0x00 \<le> CHR ''f'')" by (simp add: is_digit_def)
    then have h: "CHR 0x00 \<noteq> hex_digit k" if "k < 16" for k using hex_digit_facts(4) [OF that] by metis
    have "CHR 0x00 \<noteq> hex_digit (n div 16)" "CHR 0x00 \<noteq> hex_digit (n mod 16)" using 3(2) by (auto intro!: h)
    then show ?thesis unfolding 3(1) by (simp add: backslash_def)
  qed (use that in simp)
  ultimately have "CHR 0x00 \<notin> set (concat (map escape s))" by (metis concat_map_notin plain_string_def)
  then show "CHR 0x00 \<notin> set (quoted s)" by (simp add: quoted_def quote_char_def)
qed

lemma json_text_no_NUL: "plain_json d x \<Longrightarrow> CHR 0x00 \<notin> set (json_text x)"
proof (induction rule: plain_json.induct)
  case (4 x d)
  have "\<not> number_char CHR 0x00" by (simp add: number_char_def is_digit_def)
  then show ?case using number_text_shape(1) [OF 4] by (auto simp: number_shape_def)
next
  case (6 xs d)
  then show ?case using set_sep_by [of "map json_text xs"] by auto
next
  case (7 ms d)
  then have "CHR 0x00 \<notin> set (member_text m)" if "m \<in> set ms" for m
    using that quoted_no_NUL by (cases m) (auto simp: member_text_def)
  then show ?case using set_sep_by [of "map member_text ms"] unfolding json_text_object by auto
qed (simp_all add: quoted_no_NUL)

lemma cJSON_Parse_plain:
  assumes "plain_json CJSON_NESTING_LIMIT x"
  shows "cJSON_Parse (json_text x) = Some (Inr x)"
proof -
  let ?c = "json_text x @ [CHR 0x00]"
  have v: "json_text x \<noteq> []" "32 < (of_char (hd (json_text x)) :: nat)"
    using json_text_visible [OF assms] by (auto simp: visible_def)
  have "c_string (json_text x) = json_text x"
    using json_text_no_NUL [OF assms] by (auto simp: c_string_def takeWhile_eq_all_conv)
  moreover have "take 3 ?c \<noteq> utf8_bom"
    using json_text_visible [OF assms] by (cases "json_text x") (auto simp: visible_def utf8_bom_def)
  moreover have "buffer_skip_whitespace ?c 0 = 0"
    using v by (intro no_space_skipped) (auto simp: nth_append hd_conv_nth)
  moreover have "parse_value (CJSON_NESTING_LIMIT + 1) ?c 0 0 = Some (Some x, length (json_text x))"
    using json.reads [OF assms, of ?c "[]" "[CHR 0x00]"] by (simp add: follows_def del: parse_value.simps)
  ultimately show ?thesis
    by (simp add: cJSON_Parse_def cJSON_ParseWithOpts_def skip_utf8_bom_def Let_def del: parse_value.simps)
qed

text \<open>
  Parsing inverts writing. For every value nested no deeper than the limit and made of
  literals, doubles, C strings, arrays and objects, \<open>cJSON_Parse\<close> of its text is
  the value.
\<close>

theorem cJSON_Parse_text:
  assumes "plain_json CJSON_NESTING_LIMIT x"
  shows "cJSON_Parse (json_text x) = Some (Inr x)"
  using assms by (rule cJSON_Parse_plain)

theorem cJSON_Parse_text_witness:
  "cJSON_Parse (json_text (cJSON_Object [(''ip'', json_nat 3232235523), (''up'', cJSON_Array [cJSON_String [CHR 0x22, CHR 0x07]])])) =
    Some (Inr (cJSON_Object [(''ip'', json_nat 3232235523), (''up'', cJSON_Array [cJSON_String [CHR 0x22, CHR 0x07]])]))"
  by (rule cJSON_Parse_text, intro plain_json_containers)
    (simp_all add: plain_json.intros plain_json_nat plain_json_containers CJSON_NESTING_LIMIT_def quote_char_def backslash_def)

end
