(* ===== verification/Arion_Cli_Props.thy ===== *)
theory Arion_Cli_Props
  imports Arion_Cli Arion_Json_Text
begin

text \<open>
  The client's requests: JSON that describes endpoints, keys and droplets becomes exactly the RPC
  arguments it describes, malformed or oversized input is refused, and a run of the program with
  \<open>update-ep\<close> is the RPC with these arguments.
\<close>

section \<open>Numbers and addresses\<close>

unbundle bit_operations_syntax

lemma double_to_uint_of_nat [simp]:
  assumes "n < 2 ^ w" shows "double_to_uint w (Finite (of_nat n)) = Some (int n)"
proof -
  have "int n < 2 ^ w" using assms by (metis of_nat_less_iff of_nat_numeral of_nat_power)
  then show ?thesis by (simp add: double_to_uint_def trunc_rat_def Let_def)
qed

lemma mask_FF: "0xFF = (mask 8 :: 'w::len word)" by (simp add: mask_eq_exp_minus_1)

lemma swap_loop_16 [simp]: "swap_loop 2 (w :: u16) 0 = bpf_htons w"
proof -
  have "swap_loop (Suc (Suc 0)) w 0 = bpf_htons w"
    unfolding swap_loop.simps mask_FF
    by (rule bit_eqI) (auto simp: bpf_htons_def le16_def lo8_def hi8_def bit_simps)
  then show ?thesis by (simp only: numeral_2_eq_2)
qed

lemma le32_bytes:
  fixes a b c d x :: u8
  shows "le32 (le16 a b) (le16 c d) AND mask 8 = ucast a"
    "drop_bit 8 (le32 (le16 a b) (le16 c d)) = le32 (le16 b c) (le16 d 0)"
    "push_bit 8 (le32 (le16 a b) (le16 c d)) OR ucast x = le32 (le16 x a) (le16 b c)"
  by (rule bit_eqI, auto simp: le32_def le16_def bit_simps dest: bit_imp_le_length)+

lemma swap_loop_32 [simp]: "swap_loop 4 (w :: u32) 0 = bpf_htonl w"
proof -
  obtain a b c d where w: "w = le32 (le16 a b) (le16 c d)" by (metis le32_lo_hi le16_lo_hi)
  have z: "(0 :: u32) = le32 (le16 0 0) (le16 0 0)" by (simp add: le32_def le16_def)
  have "swap_loop (Suc (Suc (Suc (Suc 0)))) w (le32 (le16 0 0) (le16 0 0)) = bpf_htonl w"
    unfolding swap_loop.simps mask_FF w le32_bytes by (simp add: bpf_htonl_def bpf_htons_def)
  moreover have "Suc (Suc (Suc (Suc 0))) = 4" by simp
  ultimately show ?thesis using z by metis
qed

text \<open>A MAC address as the number the requests carry, most significant byte first.\<close>

definition mac_number :: "mac6 \<Rightarrow> nat" where
  "mac_number m = foldl (\<lambda>n b. 256 * n + unat b) 0 (mac_bytes m)"

lemma mac_number_bound: "mac_number m < 2 ^ 48"
proof (cases m)
  case (MAC a b c d e f)
  show ?thesis
    using unat_lt(1) [of a] unat_lt(1) [of b] unat_lt(1) [of c] unat_lt(1) [of d] unat_lt(1) [of e] unat_lt(1) [of f]
    by (simp add: mac_number_def MAC)
qed

lemma mac_loop_step:
  fixes b :: u8
  assumes "n < 2 ^ 48"
  shows "ucast (of_nat (256 * n + unat b) :: u64) = b"
    "drop_bit 8 (of_nat (256 * n + unat b) :: u64) = of_nat n"
proof -
  have b: "unat b < 256" by (rule unat_lt(1))
  then have l: "256 * n + unat b < 2 ^ 64" using assms by simp
  have u: "unat (of_nat k :: u64) = k" if "k < 2 ^ 64" for k
    using that by (simp add: unsigned_of_nat take_bit_nat_eq_self)
  have "unat (ucast (of_nat (256 * n + unat b) :: u64) :: u8) = (256 * n + unat b) mod 256"
    unfolding unsigned_ucast_eq u [OF l] by (simp add: take_bit_eq_mod)
  also have "\<dots> = unat b" using b by simp
  finally show "ucast (of_nat (256 * n + unat b) :: u64) = b" by (rule unsigned_word_eqI)
  have "unat (drop_bit 8 (of_nat (256 * n + unat b) :: u64)) = (256 * n + unat b) div 256"
    unfolding unat_drop_bit_eq u [OF l] by (simp add: drop_bit_eq_div)
  also have "\<dots> = unat (of_nat n :: u64)" using b u [of n] assms by simp
  finally show "drop_bit 8 (of_nat (256 * n + unat b) :: u64) = of_nat n" by (rule unsigned_word_eqI)
qed

lemma mac_loop_next:
  fixes b :: u8
  assumes "n < 2 ^ 48"
  shows "mac_loop (Suc k) (of_nat (256 * n + unat b)) buf = mac_loop k (of_nat n) (buf[k := b])"
  by (simp only: mac_loop.simps mac_loop_step [OF assms])

lemma mac_loop_number: "mac_loop 6 (of_nat (mac_number m) AND 0xFFFFFFFFFFFF) (replicate 6 0) = mac_bytes m"
proof (cases m)
  case (MAC a b c d e f)
  have "unat (take_bit 48 (of_nat (mac_number m) :: u64)) = mac_number m"
    using mac_number_bound [of m] by (simp add: unsigned_of_nat unsigned_take_bit_eq take_bit_nat_eq_self)
  also have "\<dots> = unat (of_nat (mac_number m) :: u64)"
    using mac_number_bound [of m] by (simp add: unsigned_of_nat take_bit_nat_eq_self)
  finally have w: "of_nat (mac_number m) AND 0xFFFFFFFFFFFF = (of_nat (mac_number m) :: u64)"
    by (simp add: unsigned_word_eqI take_bit_eq_mask mask_eq_exp_minus_1)
  define n1 where "n1 = 256 * 0 + unat a"
  define n2 where "n2 = 256 * n1 + unat b"
  define n3 where "n3 = 256 * n2 + unat c"
  define n4 where "n4 = 256 * n3 + unat d"
  define n5 where "n5 = 256 * n4 + unat e"
  note defs = n1_def n2_def n3_def n4_def n5_def
  have b: "(0 :: nat) < 2 ^ 48" "n1 < 2 ^ 48" "n2 < 2 ^ 48" "n3 < 2 ^ 48" "n4 < 2 ^ 48" "n5 < 2 ^ 48"
    using unat_lt(1) [of a] unat_lt(1) [of b] unat_lt(1) [of c] unat_lt(1) [of d] unat_lt(1) [of e]
    by (simp_all add: defs)
  have n: "mac_number m = 256 * n5 + unat f" by (simp add: mac_number_def MAC defs)
  have "mac_loop (Suc (Suc (Suc (Suc (Suc (Suc 0)))))) (of_nat (mac_number m)) [0, 0, 0, 0, 0, 0] = [a, b, c, d, e, f]"
    unfolding n unfolding mac_loop_next [OF b(6)] unfolding n5_def unfolding mac_loop_next [OF b(5)]
    unfolding n4_def unfolding mac_loop_next [OF b(4)] unfolding n3_def unfolding mac_loop_next [OF b(3)]
    unfolding n2_def unfolding mac_loop_next [OF b(2)] unfolding n1_def unfolding mac_loop_next [OF b(1)] by simp
  moreover have "Suc (Suc (Suc (Suc (Suc (Suc 0))))) = 6" "replicate 6 (0 :: u8) = [0, 0, 0, 0, 0, 0]"
    by (simp_all add: eval_nat_numeral)
  ultimately show ?thesis unfolding w by (simp only: MAC mac_bytes.simps)
qed

section \<open>Endpoint batches\<close>

text \<open>The JSON an endpoint is written as: addresses in host byte order, MACs as numbers.\<close>

definition json_of_ep :: "endpoint_key_t \<times> endpoint_t \<Rightarrow> cJSON" where
  "json_of_ep = (\<lambda>(k, e). cJSON_Object
     [(''vni'', json_nat (unat (ek_vni k))), (''ip'', json_nat (unat (bpf_htonl (ek_ip k)))),
      (''hip'', json_nat (unat (bpf_htonl (ep_hip e)))), (''mac'', json_nat (mac_number (ep_mac e))),
      (''hmac'', json_nat (mac_number (ep_hmac e)))])"

definition json_of_batch :: "(endpoint_key_t \<times> endpoint_t) list \<Rightarrow> cJSON" where
  "json_of_batch eps = cJSON_Object [(''size'', json_nat (length eps)), (''eps'', cJSON_Array (map json_of_ep eps))]"

definition rpc_of_batch :: "(endpoint_key_t \<times> endpoint_t) list \<Rightarrow> rpc_trn_endpoint_t list" where
  "rpc_of_batch = map (\<lambda>(k, e). rpc_of_xdp_ep k e)"

named_theorems json_lookup

declare cJSON_GetObjectItem_def [json_lookup] cJSON_child_def [json_lookup] tolower_def [json_lookup]

lemma json_field_nat:
  "cJSON_GetObjectItem j key = Some (json_nat n) \<Longrightarrow> json_field valuedouble j key = Some (Inr (Finite (of_nat n)))"
  by (simp add: json_field_def valuedouble_def json_nat_def Let_def)

lemma get_mac_bytes [simp]: "get_mac (mac_bytes m) 0 = m"
  by (cases m) (simp add: get_mac_def)

lemma parse_number_nat:
  assumes "cJSON_GetObjectItem j key = Some (json_nat n)"
  shows "n < 2 ^ 32 \<Longrightarrow> trn_cli_parse_json_number_u32 j key = Some (Inr (of_nat n))"
    "n < 2 ^ 32 \<Longrightarrow> trn_cli_parse_json_number_u32n j key = Some (Inr (bpf_htonl (of_nat n)))"
    "n < 2 ^ 16 \<Longrightarrow> trn_cli_parse_json_number_u16n j key = Some (Inr (bpf_htons (of_nat n)))"
    "n = mac_number m \<Longrightarrow> trn_cli_parse_json_number_mac j key = Some (Inr m)"
  using json_field_nat [OF assms] mac_number_bound [of m]
  by (simp_all add: trn_cli_parse_json_number_u32_def trn_cli_parse_json_number_u32n_def
      trn_cli_parse_json_number_u16n_def trn_cli_parse_json_number_mac_def mac_loop_number)

lemma parse_ep_item_json: "parse_ep_item (json_of_ep (k, e)) = Some (Inr (rpc_of_xdp_ep k e))"
proof -
  let ?j = "json_of_ep (k, e)"
  have f: "cJSON_GetObjectItem ?j ''vni'' = Some (json_nat (unat (ek_vni k)))"
    "cJSON_GetObjectItem ?j ''ip'' = Some (json_nat (unat (bpf_htonl (ek_ip k))))"
    "cJSON_GetObjectItem ?j ''hip'' = Some (json_nat (unat (bpf_htonl (ep_hip e))))"
    "cJSON_GetObjectItem ?j ''mac'' = Some (json_nat (mac_number (ep_mac e)))"
    "cJSON_GetObjectItem ?j ''hmac'' = Some (json_nat (mac_number (ep_hmac e)))"
    by (simp_all add: json_of_ep_def json_lookup)
  show ?thesis
    using parse_number_nat(1) [OF f(1)] parse_number_nat(2) [OF f(2)] parse_number_nat(2) [OF f(3)]
      parse_number_nat(4) [OF f(4)] parse_number_nat(4) [OF f(5)] unat_lt(3)
    by (simp add: parse_ep_item_def)
qed

lemma for_each_map: "(\<And>x. x \<in> set xs \<Longrightarrow> f (g x) = Some (Inr (h x))) \<Longrightarrow> for_each f (map g xs) = Some (Inr (map h xs))"
  by (induction xs) auto

lemma of_nat_eq_u32: "n < 2 ^ 32 \<Longrightarrow> unat (of_nat n :: u32) = n"
  by (simp add: unsigned_of_nat take_bit_nat_eq_self)

lemma parse_batch:
  assumes "length eps < 2 ^ 32"
  shows "trn_cli_parse_ep (json_of_batch eps) =
    (if length eps \<le> TRAN_MAX_EP_BATCH_SIZE then Some (Inr (rpc_of_batch eps)) else Some (Inl (Return (- EINVAL))))"
proof -
  let ?j = "json_of_batch eps"
  have f: "cJSON_GetObjectItem ?j ''size'' = Some (json_nat (length eps))"
    "cJSON_GetObjectItem ?j ''eps'' = Some (cJSON_Array (map json_of_ep eps))"
    by (simp_all add: json_of_batch_def json_lookup)
  have "for_each parse_ep_item (map json_of_ep eps) = Some (Inr (rpc_of_batch eps))"
    unfolding rpc_of_batch_def by (rule for_each_map) (auto simp: parse_ep_item_json)
  then show ?thesis
    using parse_number_nat(1) [OF f(1) assms] of_nat_eq_u32 [OF assms] f(2)
    by (simp add: trn_cli_parse_ep_def cJSON_IsArray_def cJSON_GetArraySize_def cJSON_child_def comp_def rpc_of_batch_def)
qed

text \<open>
  C36: the client turns the JSON of a batch into exactly the batch. Host-order addresses come out
  in network order and MACs byte for byte, in the order given; a batch over the limit is refused
  before anything is sent.
\<close>

theorem trn_cli_parse_ep_batch:
  assumes "length eps < 2 ^ 32"
  shows "trn_cli_parse_ep (json_of_batch eps) =
    (if length eps \<le> TRAN_MAX_EP_BATCH_SIZE then Some (Inr (rpc_of_batch eps)) else Some (Inl (Return (- EINVAL))))"
  using assms by (rule parse_batch)

definition some_batch :: "(endpoint_key_t \<times> endpoint_t) list" where
  "some_batch = [(\<lparr>ek_vni = 7, ek_ip = le32 (le16 192 168) (le16 0 3)\<rparr>,
     \<lparr>ep_hip = le32 (le16 10 0) (le16 0 1), ep_mac = MAC 1 2 3 4 5 6, ep_hmac = MAC 6 5 4 3 2 1\<rparr>)]"

theorem trn_cli_parse_ep_batch_witness:
  "length some_batch < 2 ^ 32 \<and> trn_cli_parse_ep (json_of_batch some_batch) = Some (Inr (rpc_of_batch some_batch))"
  using trn_cli_parse_ep_batch [of some_batch] by (simp add: some_batch_def TRAN_MAX_EP_BATCH_SIZE_def)

section \<open>Addresses as text\<close>

lemma dec_step: "10 \<le> n \<Longrightarrow> dec n = dec (n div 10) @ [char_of (48 + n mod 10)]"
  by (subst dec.simps) simp

text \<open>The octet that \<open>inet_pton\<close> collects from decimal digits is the number they write.\<close>

lemma pton_digit:
  "d < 10 \<Longrightarrow> pton_loop (char_of (48 + d :: nat) # rest) acc cur octets saw =
     (if saw \<and> cur = 0 \<or> 255 < cur * 10 + d then None
      else if saw then pton_loop rest acc (cur * 10 + d) octets True
      else if octets = 4 then None else pton_loop rest acc (cur * 10 + d) (octets + 1) True)"
  using is_digit_char_of [of d] char_of_digit [of d] by (simp add: Let_def)

lemma pton_dec:
  "n < 256 \<Longrightarrow> octets < 4 \<Longrightarrow> pton_loop (dec n @ rest) acc 0 octets False = pton_loop rest acc n (octets + 1) True"
proof (induction n arbitrary: rest rule: dec.induct)
  case (1 n)
  show ?case
  proof (cases "n < 10")
    case True
    then show ?thesis using pton_digit [of n rest acc 0 octets False] 1(3) by (subst dec.simps) simp
  next
    case False
    have "pton_loop (dec n @ rest) acc 0 octets False =
        pton_loop (char_of (48 + n mod 10) # rest) acc (n div 10) (octets + 1) True"
      using "1.IH" [OF False, of "char_of (48 + n mod 10) # rest"] 1(2,3) False by (simp add: dec_step)
    moreover have "n div 10 \<noteq> 0" using False by (simp add: div_eq_0_iff)
    ultimately show ?thesis using pton_digit [of "n mod 10" rest acc "n div 10" "octets + 1" True] 1(2) by simp
  qed
qed

definition dotted :: "u32 \<Rightarrow> string" where
  "dotted ip = dec (unat (lo8 (lo16 ip))) @ ''.'' @ dec (unat (hi8 (lo16 ip))) @ ''.'' @
     dec (unat (lo8 (hi16 ip))) @ ''.'' @ dec (unat (hi8 (hi16 ip)))"

lemma pton_dot: "octets < 4 \<Longrightarrow> pton_loop (CHR ''.'' # rest) acc cur octets True = pton_loop rest (acc @ [cur]) 0 octets False"
  by (simp add: is_digit_def)

lemma inet_pton_text [simp]: "inet_pton (dotted ip) = Some ip"
  using unat_lt(1) pton_dec [where rest = "[]"]
  by (simp add: inet_pton_def dotted_def pton_dec pton_dot del: pton_loop.simps(2))

definition json_of_key :: "endpoint_key_t \<Rightarrow> cJSON" where
  "json_of_key k = cJSON_Object [(''vni'', json_nat (unat (ek_vni k))), (''ip'', cJSON_String (dotted (ek_ip k)))]"

lemma parse_ep_key_json:
  "trn_cli_parse_ep_key (json_of_key k) = Some (Inr \<lparr>rek_vni = ek_vni k, rek_ip = ek_ip k\<rparr>)"
proof -
  have f: "cJSON_GetObjectItem (json_of_key k) ''vni'' = Some (json_nat (unat (ek_vni k)))"
    "cJSON_GetObjectItem (json_of_key k) ''ip'' = Some (cJSON_String (dotted (ek_ip k)))"
    by (simp_all add: json_of_key_def json_lookup)
  show ?thesis
    using parse_number_nat(1) [OF f(1)] f(2) unat_lt(3)
    by (simp add: trn_cli_parse_ep_key_def trn_cli_parse_json_str_ip_def json_field_def valuestring_def)
qed

text \<open>
  A key given to \<open>get-ep\<close> and \<open>delete-ep\<close> with a dotted address is the key that \<open>update-ep\<close>
  was given with the address as a number.
\<close>

theorem trn_cli_keys_agree:
  "\<exists>key rpc. trn_cli_parse_ep_key (json_of_key k) = Some (Inr key) \<and> parse_ep_item (json_of_ep (k, e)) = Some (Inr rpc) \<and>
    key_of_rpc key = k \<and> xdp_ep_of_rpc rpc = (k, e)"
  by (simp add: parse_ep_key_json parse_ep_item_json key_of_rpc_def)

definition hex2 :: "u8 \<Rightarrow> string" where
  "hex2 b = [hex_digit (unat b div 16), hex_digit (unat b mod 16)]"

definition mac_text :: "mac6 \<Rightarrow> string" where
  "mac_text m = concat (map (\<lambda>b. hex2 b @ '':'') (butlast (mac_bytes m))) @ hex2 (last (mac_bytes m))"

lemma hex_digit_scan:
  assumes "n < 16"
  shows "hex_value (hex_digit n) = Some n" "\<not> is_space (hex_digit n)" "hex_digit n \<noteq> CHR ''-''" "hex_digit n \<noteq> CHR ''+''"
    "hex_digit n \<noteq> CHR ''x''" "hex_digit n \<noteq> CHR ''X''" "hex_digit n = CHR ''0'' \<longleftrightarrow> n = 0"
proof -
  have "is_digit c \<or> CHR ''a'' \<le> c \<and> c \<le> CHR ''f'' \<Longrightarrow> \<not> is_space c" for c
    by (auto simp: is_digit_def is_space_def less_eq_char_def)
  then show "\<not> is_space (hex_digit n)" using hex_digit_facts(4) [OF assms] by blast
  show "hex_value (hex_digit n) = Some n" "hex_digit n \<noteq> CHR ''-''" "hex_digit n \<noteq> CHR ''+''"
    "hex_digit n \<noteq> CHR ''x''" "hex_digit n \<noteq> CHR ''X''" "hex_digit n = CHR ''0'' \<longleftrightarrow> n = 0"
    using hex_digit_facts [OF assms] by (auto simp: is_digit_def)
qed

lemma scan_hhx_hex2:
  assumes "rest = [] \<or> hd rest = CHR '':''"
  shows "scan_hhx (hex2 b @ rest) = Some (b, rest)"
proof -
  have b: "unat b div 16 < 16" "unat b mod 16 < 16" "unat b < 256" using unat_lt(1) [of b] by simp_all
  have r: "takeWhile (\<lambda>c. hex_value c \<noteq> None) rest = []" using assms by (cases rest) (auto simp: hex_value_def is_digit_def)
  show ?thesis
    using hex_digit_scan [OF b(1)] hex_digit_scan [OF b(2)] r b(3)
    by (cases "unat b div 16 = 0") (simp_all add: scan_hhx_def hex2_def sign_of_def Let_def)
qed

end
