(* ===== verification/Arion_Rpc_Props.thy ===== *)
theory Arion_Rpc_Props
  imports Arion_Rpc
begin

text \<open>
  What the RPC handlers promise their clients: the endpoint table behaves as a map, with the
  payload of a request coming back unchanged; a droplet is configured with the entrances of
  the request, within the arrays' bounds only; and every sequence of requests keeps the
  daemon's invariant.
\<close>

section \<open>Endpoints\<close>

lemma update_endpoint_maps:
  "trn_update_endpoint K fd k v st = (r, st') \<Longrightarrow> tb_maps st' = tb_maps st \<and> dm_md (st' :: 's daemon) = dm_md st"
  by (auto simp: trn_update_endpoint_def Let_def split: if_splits prod.splits)

abbreviation ep_put :: "('s, 'z) kernel_scheme \<Rightarrow> endpoint_key_t \<Rightarrow> endpoint_t \<Rightarrow> 's daemon \<Rightarrow> int \<times> 's daemon" where
  "ep_put K \<equiv> (\<lambda>k v st. trn_update_endpoint K (trn_update_endpoints_get_ctx st) k v st)"

lemma update_ep_loop_put_all:
  "ctx = trn_update_endpoints_get_ctx st \<Longrightarrow>
   update_ep_loop K ctx eps st = (case put_all (ep_put K) (map xdp_ep_of_rpc eps) st of
     (r, st') \<Rightarrow> (if r = 0 then 0 else 2, st'))"
proof (induction eps arbitrary: st)
  case (Cons ep eps)
  obtain k v where kv: "xdp_ep_of_rpc ep = (k, v)" by fastforce
  obtain r s1 where u: "trn_update_endpoint K ctx k v st = (r, s1)" by fastforce
  then have "ctx = trn_update_endpoints_get_ctx s1"
    using update_endpoint_maps [OF u] Cons.prems by (simp add: trn_update_endpoints_get_ctx_def)
  from Cons.IH [OF this] kv u show ?case by (simp add: Cons.prems [symmetric])
qed simp

lemma put_all_no_ctx:
  assumes "trn_update_endpoints_get_ctx st < 0" "kvs \<noteq> []"
  shows "put_all (ep_put K) kvs st = (1, st)"
  using assms by (cases kvs) (simp_all add: trn_update_endpoint_def)

text \<open>The map a batch describes: later entries win.\<close>

definition batch_map :: "rpc_trn_endpoint_t list \<Rightarrow> endpoint_key_t \<Rightarrow> endpoint_t option" where
  "batch_map batch = map_of (rev (map xdp_ep_of_rpc batch))"

definition endpoint_at :: "('s, 'z) kernel_scheme \<Rightarrow> 's daemon \<Rightarrow> endpoint_key_t \<Rightarrow> endpoint_t option" where
  "endpoint_at K st k = snd (trn_get_endpoint K k st)"

lemma update_ep_ok:
  assumes "map_law (k_endpoints K)" "update_ep_1_svc K batch st = (0, st')"
  shows "endpoint_at K st' k = (case batch_map batch k of Some v \<Rightarrow> Some v | None \<Rightarrow> endpoint_at K st k)"
proof -
  obtain r s where p: "put_all (ep_put K) (map xdp_ep_of_rpc batch) st = (r, s)" by fastforce
  then have "r = 0" "s = st'"
    using assms(2) by (auto simp: update_ep_1_svc_def Let_def update_ep_loop_put_all split: if_splits)
  then show ?thesis
    using ep_tab.put_all_find [OF assms(1)] p by (simp add: endpoint_at_def batch_map_def cong: option.case_cong)
qed

text \<open>
  C24: an update batch. On success the endpoint table holds exactly what it held before
  overridden by the batch, later entries winning; on failure the handler reports
  \<open>RPC_TRN_ERROR\<close> and a strict prefix of the batch has been applied.
\<close>

theorem update_ep_applies_batch:
  assumes "map_law (k_endpoints K)" "update_ep_1_svc K batch st = (r, st')"
  shows "(r = 0 \<and> (\<forall>k. endpoint_at K st' k = (case batch_map batch k of Some v \<Rightarrow> Some v | None \<Rightarrow> endpoint_at K st k))) \<or>
    (r = RPC_TRN_ERROR \<and> (batch = [] \<and> st' = st \<or>
      (\<exists>n<length batch. \<forall>k. endpoint_at K st' k =
        (case batch_map (take n batch) k of Some v \<Rightarrow> Some v | None \<Rightarrow> endpoint_at K st k))))"
proof (cases "trn_update_endpoints_get_ctx st < 0")
  case True
  then have "r = 2" "st' = st" using assms(2) by (auto simp: update_ep_1_svc_def)
  then show ?thesis by (cases batch) (auto simp: batch_map_def intro: exI [of _ 0])
next
  case False
  obtain q s where p: "put_all (ep_put K) (map xdp_ep_of_rpc batch) st = (q, s)" by fastforce
  then have r: "r = (if q = 0 then 0 else 2)" "s = st'"
    using assms(2) False by (auto simp: update_ep_1_svc_def Let_def update_ep_loop_put_all)
  show ?thesis
  proof (cases "q = 0")
    case True
    then show ?thesis using update_ep_ok [OF assms(1)] assms(2) r by auto
  next
    case q: False
    then obtain n s1 where n: "n < length batch" "put_all (ep_put K) (take n (map xdp_ep_of_rpc batch)) st = (0, s1)"
      "\<forall>k. endpoint_at K s k = endpoint_at K s1 k"
      using ep_tab.put_all_stops [OF assms(1) p] by (auto simp: endpoint_at_def)
    have "endpoint_at K s1 k = (case batch_map (take n batch) k of Some v \<Rightarrow> Some v | None \<Rightarrow> endpoint_at K st k)" for k
      using ep_tab.put_all_find [OF assms(1) n(2)]
      by (simp add: endpoint_at_def batch_map_def take_map cong: option.case_cong)
    with n r q show ?thesis by auto
  qed
qed

definition demo_rpc_ep :: rpc_trn_endpoint_t where
  "demo_rpc_ep = RpcEp 7 9 11"

lemma demo_update: "\<exists>st'. update_ep_1_svc demo_kernel [demo_rpc_ep] demo_daemon = (0, st')"
  by (cases "xdp_ep_of_rpc demo_rpc_ep")
    (simp add: update_ep_1_svc_def demo_daemon_def trn_update_endpoints_get_ctx_def trn_update_endpoint_def
      demo_kernel_def table_ops_def trn_transit_map_get_fd_def trn_xdp_bpfmaps_def)

theorem update_ep_applies_batch_witness:
  "\<exists>st'. update_ep_1_svc demo_kernel [demo_rpc_ep] demo_daemon = (0, st') \<and>
    endpoint_at demo_kernel st' (fst (xdp_ep_of_rpc demo_rpc_ep)) = Some (snd (xdp_ep_of_rpc demo_rpc_ep))"
proof -
  obtain st' where u: "update_ep_1_svc demo_kernel [demo_rpc_ep] demo_daemon = (0, st')" using demo_update by blast
  show ?thesis using update_ep_applies_batch [OF demo_laws(1) u] u by (auto simp: batch_map_def)
qed

text \<open>
  C25: an endpoint written by an update comes back bit for bit: after a successful batch,
  \<open>get_ep\<close> for the key of an entry that no later entry overrides returns that entry's 24 bytes,
  although it was stored as a key and a value and put together again.
\<close>

theorem get_ep_after_update:
  assumes "map_law (k_endpoints K)" "update_ep_1_svc K (before @ ep # after) st = (0, st')"
    "xdp_ep_of_rpc ep = (\<lparr>ek_vni = vni, ek_ip = ip\<rparr>, val)"
    "\<forall>e\<in>set after. fst (xdp_ep_of_rpc e) \<noteq> \<lparr>ek_vni = vni, ek_ip = ip\<rparr>"
  shows "get_ep_1_svc K \<lparr>rek_vni = vni, rek_ip = ip\<rparr> st' = Some ep"
proof -
  let ?k = "\<lparr>ek_vni = vni, ek_ip = ip\<rparr>"
  have "map_of (rev (map xdp_ep_of_rpc after)) ?k = None"
    using assms(4) by (force simp: map_of_eq_None_iff)
  then have "batch_map (before @ ep # after) ?k = Some val"
    by (simp add: batch_map_def assms(3) map_add_def)
  then have "snd (trn_get_endpoint K ?k st') = Some val"
    using update_ep_ok [OF assms(1,2), of ?k] by (simp add: endpoint_at_def)
  then have "trn_get_endpoint K ?k st' = (0, Some val)"
    by (auto simp: trn_get_endpoint_def Let_def split: if_splits option.splits)
  then show ?thesis using assms(3) by (simp add: get_ep_1_svc_def key_of_rpc_def)
qed

theorem get_ep_after_update_witness:
  "\<exists>st'. update_ep_1_svc demo_kernel [demo_rpc_ep] demo_daemon = (0, st') \<and>
    get_ep_1_svc demo_kernel \<lparr>rek_vni = 7, rek_ip = 0\<rparr> st' = Some demo_rpc_ep"
proof -
  obtain st' where u: "update_ep_1_svc demo_kernel ([] @ demo_rpc_ep # []) demo_daemon = (0, st')"
    using demo_update by auto
  have "fst (xdp_ep_of_rpc demo_rpc_ep) = \<lparr>ek_vni = 7, ek_ip = 0\<rparr>"
    by (simp add: demo_rpc_ep_def lo32_def hi32_def Let_def)
  then have "xdp_ep_of_rpc demo_rpc_ep = (\<lparr>ek_vni = 7, ek_ip = 0\<rparr>, snd (xdp_ep_of_rpc demo_rpc_ep))"
    by (metis prod.collapse)
  from get_ep_after_update [OF demo_laws(1) u this] u show ?thesis by simp
qed

text \<open>
  C26: deleting. The handler succeeds only for an endpoint that is in the table, then removes
  exactly that one; asked for one that is not, it reports \<open>RPC_TRN_ERROR\<close> and changes nothing.
\<close>

theorem delete_ep_removes:
  assumes "map_law (k_endpoints K)" "delete_ep_1_svc K k st = (r, st')"
  shows "(r = 0 \<and> endpoint_at K st (key_of_rpc k) \<noteq> None \<and>
      (\<forall>k'. endpoint_at K st' k' = (if k' = key_of_rpc k then None else endpoint_at K st k'))) \<or>
    (r = RPC_TRN_ERROR \<and> (\<forall>k'. endpoint_at K st' k' = endpoint_at K st k'))"
proof -
  obtain q where d: "trn_delete_endpoint K (key_of_rpc k) st = (q, st')" "r = (if q = 0 then 0 else 2)"
    using assms(2) by (auto simp: delete_ep_1_svc_def split: prod.splits if_splits)
  have "q = 0 \<Longrightarrow> endpoint_at K st (key_of_rpc k) \<noteq> None"
    using ep_tab.del_absent [OF assms(1), of "key_of_rpc k" st] d(1) by (auto simp: endpoint_at_def)
  then show ?thesis using ep_tab.del_find [OF assms(1) d(1)] d(2) by (auto simp: endpoint_at_def)
qed

theorem delete_ep_removes_witness:
  "\<exists>r st'. delete_ep_1_svc demo_kernel \<lparr>rek_vni = 7, rek_ip = 0\<rparr> demo_daemon = (r, st') \<and> r = RPC_TRN_ERROR"
proof -
  obtain r st' where d: "delete_ep_1_svc demo_kernel \<lparr>rek_vni = 7, rek_ip = 0\<rparr> demo_daemon = (r, st')" by fastforce
  have "endpoint_at demo_kernel demo_daemon k = None" for k
    by (simp add: endpoint_at_def trn_get_endpoint_def demo_kernel_def table_ops_def demo_daemon_def
        demo_kern0_def Let_def)
  with delete_ep_removes [OF demo_laws(1) d] d show ?thesis by auto
qed

section \<open>Droplets\<close>

definition entrance_of_rpc :: "rpc_addr_t \<Rightarrow> zgc_entrance_t" where
  "entrance_of_rpc a = \<lparr>ze_ip = ra_ip a, ze_announced = 0, ze_mac = ra_mac a\<rparr>"

lemma copy_entrances_ok:
  "i + n \<le> length src \<Longrightarrow> i + n \<le> length dst \<Longrightarrow>
   \<exists>ents. copy_entrances src i n dst = Some ents \<and> length ents = length dst \<and>
     (\<forall>j<length dst. ents ! j = (if i \<le> j \<and> j < i + n then entrance_of_rpc (src ! j) else dst ! j))"
proof (induction n arbitrary: i dst)
  case (Suc n)
  let ?d = "dst[i := entrance_of_rpc (src ! i)]"
  obtain ents where e: "copy_entrances src (i + 1) n ?d = Some ents" "length ents = length ?d"
    "\<forall>j<length ?d. ents ! j = (if i + 1 \<le> j \<and> j < i + 1 + n then entrance_of_rpc (src ! j) else ?d ! j)"
    using Suc.IH [of "i + 1" ?d] Suc.prems by auto
  have "copy_entrances src i (Suc n) dst = Some ents"
    using e(1) Suc.prems by (simp add: entrance_of_rpc_def)
  then show ?case using e(2,3) by (auto simp: nth_list_update not_less_eq_eq dest: le_antisym)
qed auto

lemma copy_entrances_overrun:
  "length dst \<le> i + n \<Longrightarrow> i < i + n \<Longrightarrow> length dst < i + n \<Longrightarrow> copy_entrances src i n dst = None"
proof (induction n arbitrary: i dst)
  case (Suc n)
  show ?case
  proof (cases "i < length src \<and> i < length dst")
    case True
    then have "0 < n" using Suc.prems by linarith
    then show ?thesis using True Suc.IH [of "dst[i := entrance_of_rpc (src ! i)]" "i + 1"] Suc.prems
      by (simp add: entrance_of_rpc_def)
  next
    case False
    then show ?thesis by auto
  qed
qed simp

text \<open>
  Configuring a droplet. For a request within the arrays, the handler terminates without
  leaving them, and on success the gateway finds, under the index of the interface, a
  well-formed configuration whose first \<open>num_entrances\<close> entrances are the request's, with the
  role and protocol the interface was loaded with.
\<close>

theorem update_droplet_configures:
  assumes "map_law (k_if_config K)" "tunnel_iface_ok stack"
    "length (rd_entrances d) = TRAN_MAX_ZGC_ENTRANCES" "unat (rd_num_entrances d) \<le> TRAN_MAX_ZGC_ENTRANCES"
  shows "\<exists>r st'. update_droplet_1_svc K stack d st = Some (r, st') \<and> r \<in> {0, RPC_TRN_ERROR} \<and>
    (r = 0 \<longrightarrow> (\<exists>eth itf. trn_get_itf_context K (rd_interface d) st = Some eth \<and>
      bm_lookup (k_if_config K) (trn_transit_map_get_fd (tb_maps st') ''if_config_map'') (tif_index eth) (tb_kern st') = Some itf \<and>
      tunnel_iface_ok itf \<and> num_entrances itf = rd_num_entrances d \<and> ti_role itf = tif_role eth \<and>
      ti_protocol itf = tif_protocol eth \<and>
      (\<forall>i<unat (rd_num_entrances d). entrances itf ! i = entrance_of_rpc (rd_entrances d ! i))))"
proof (cases "trn_get_itf_context K (rd_interface d) st")
  case None
  then show ?thesis by (simp add: update_droplet_1_svc_def)
next
  case (Some eth)
  let ?n = "unat (rd_num_entrances d)"
  have l: "length (entrances stack) = TRAN_MAX_ZGC_ENTRANCES" using assms(2) by (simp add: tunnel_iface_ok_def)
  then obtain ents where e: "copy_entrances (rd_entrances d) 0 ?n (entrances stack) = Some ents"
    "length ents = TRAN_MAX_ZGC_ENTRANCES" "\<forall>j<?n. ents ! j = entrance_of_rpc (rd_entrances d ! j)"
    using copy_entrances_ok [of 0 ?n "rd_entrances d" "entrances stack"] assms(3,4) by auto
  let ?itf = "stack\<lparr>entrances := ents, num_entrances := rd_num_entrances d, iface_index := tif_index eth,
    ibo_port := tif_ibo_port eth, ti_role := tif_role eth, ti_protocol := tif_protocol eth\<rparr>"
  obtain q st' where u: "trn_update_itf_config K ?itf st = (q, st')" by fastforce
  have res: "update_droplet_1_svc K stack d st = Some (if q \<noteq> 0 then (2, st') else (0, st'))"
    using Some e(1) u by (simp add: update_droplet_1_svc_def Let_def)
  have "q = 0 \<Longrightarrow> tb_maps st' = tb_maps st \<and> bm_lookup (k_if_config K)
      (trn_transit_map_get_fd (tb_maps st) ''if_config_map'') (tif_index eth) (tb_kern st') = Some ?itf"
    using u map_law_update [OF assms(1)]
    by (auto simp: trn_update_itf_config_def Let_def split: if_splits prod.splits)
  then show ?thesis using res Some e(2,3) by (auto simp: tunnel_iface_ok_def)
qed

definition demo_droplet :: "u32 \<Rightarrow> rpc_trn_droplet_t" where
  "demo_droplet n = \<lparr>rd_interface = ''eth0'', rd_num_entrances = n,
     rd_entrances = replicate 128 \<lparr>ra_ip = 9, ra_mac = MAC 2 0 0 0 0 1\<rparr>\<rparr>"

definition demo_stack :: tunnel_iface_t where
  "demo_stack = \<lparr>iface_index = 0, ibo_port = 0, ti_protocol = 0, ti_role = 0, num_entrances = 0,
     entrances = replicate 128 \<lparr>ze_ip = 0, ze_announced = 0, ze_mac = mac_zero\<rparr>\<rparr>"

theorem update_droplet_configures_witness:
  "\<exists>r st'. update_droplet_1_svc demo_kernel demo_stack (demo_droplet 2) demo_daemon = Some (r, st') \<and> r \<in> {0, RPC_TRN_ERROR}"
  using update_droplet_configures [OF demo_laws(3), of demo_stack "demo_droplet 2" demo_daemon]
  by (auto simp: demo_stack_def demo_droplet_def tunnel_iface_ok_def TRAN_MAX_ZGC_ENTRANCES_def)

text \<open>
  The handler does not check the number of entrances: a request for a known interface that
  names more than \<open>TRAN_MAX_ZGC_ENTRANCES\<close> makes the daemon run out of its arrays.
\<close>

theorem update_droplet_overruns:
  assumes "trn_get_itf_context K (rd_interface d) st \<noteq> None" "tunnel_iface_ok stack"
    "TRAN_MAX_ZGC_ENTRANCES < unat (rd_num_entrances d)"
  shows "update_droplet_1_svc K stack d st = None"
  using assms copy_entrances_overrun [of "entrances stack" 0 "unat (rd_num_entrances d)" "rd_entrances d"]
  by (auto simp: update_droplet_1_svc_def tunnel_iface_ok_def)

theorem update_droplet_overruns_witness:
  "update_droplet_1_svc demo_kernel demo_stack (demo_droplet 129) demo_daemon = None"
proof -
  have "trn_get_itf_context demo_kernel (rd_interface (demo_droplet 129)) demo_daemon \<noteq> None"
    by (simp add: trn_get_itf_context_def demo_daemon_def demo_droplet_def demo_kernel_def demo_md_def)
  moreover have "tunnel_iface_ok demo_stack" by (simp add: tunnel_iface_ok_def demo_stack_def TRAN_MAX_ZGC_ENTRANCES_def)
  ultimately show ?thesis
    using update_droplet_overruns [of demo_kernel "demo_droplet 129" demo_daemon demo_stack]
    by (simp add: demo_droplet_def TRAN_MAX_ZGC_ENTRANCES_def)
qed

section \<open>The daemon as a transition system\<close>

datatype rpc_request =
    Load_transit_xdp rpc_trn_xdp_intf_t
  | Unload_transit_xdp rpc_trn_xdp_intf_t
  | Load_ebpf rpc_trn_ebpf_prog_t
  | Unload_ebpf rpc_trn_ebpf_prog_t
  | Update_ep "rpc_trn_endpoint_t list"
  | Delete_ep rpc_endpoint_key_t
  | Get_ep rpc_endpoint_key_t
  | Update_droplet rpc_trn_droplet_t

text \<open>The program dispatches one request at a time to its handler.\<close>

primrec serve :: "('s, 'z) kernel_scheme \<Rightarrow> tunnel_iface_t \<Rightarrow> rpc_request \<Rightarrow> 's daemon \<Rightarrow> 's daemon option" where
  "serve K stack (Load_transit_xdp a) st = Some (snd (load_transit_xdp_1_svc K a st))"
| "serve K stack (Unload_transit_xdp a) st = Some (snd (unload_transit_xdp_1_svc K a st))"
| "serve K stack (Load_ebpf a) st = Some (snd (load_transit_xdp_ebpf_1_svc K a st))"
| "serve K stack (Unload_ebpf a) st = Some (snd (unload_transit_xdp_ebpf_1_svc K a st))"
| "serve K stack (Update_ep a) st = Some (snd (update_ep_1_svc K a st))"
| "serve K stack (Delete_ep a) st = Some (snd (delete_ep_1_svc K a st))"
| "serve K stack (Get_ep a) st = Some st"
| "serve K stack (Update_droplet a) st = map_option snd (update_droplet_1_svc K stack a st)"

inductive reachable :: "('s, 'z) kernel_scheme \<Rightarrow> 's daemon \<Rightarrow> bool" for K where
  start: "reachable K (daemon_init k)"
| request: "reachable K st \<Longrightarrow> serve K stack req st = Some st' \<Longrightarrow> reachable K st'"

text \<open>The registry still is the table of the source, up to descriptors and handles.\<close>

definition registry_ok :: "trn_xdp_map_t list \<Rightarrow> bool" where
  "registry_ok ms \<longleftrightarrow> map xm_name ms = map xm_name trn_xdp_bpfmaps \<and> map xm_shared ms = map xm_shared trn_xdp_bpfmaps"

lemma registry_le_ok: "registry_le a b \<Longrightarrow> registry_ok a \<Longrightarrow> registry_ok b"
proof -
  assume le: "registry_le a b"
  have "map xm_shared b = map xm_shared a"
    using le unfolding registry_le_def by (induction rule: list_all2_induct) (auto simp: map_le_def)
  with registry_le_names [OF le] show "registry_ok a \<Longrightarrow> registry_ok b" by (simp add: registry_ok_def)
qed

lemma load_interfaces_le:
  "load_interfaces K ifs ibo is md st = (r, md', st') \<Longrightarrow> registry_le (tb_maps st) (tb_maps st')"
proof (induction "is" arbitrary: md st)
  case (Cons i "is")
  show ?case
  proof (cases "k_if_nametoindex K (ifs ! i) = 0")
    case True
    then show ?thesis using Cons.prems by (auto simp: Let_def)
  next
    case False
    let ?p = "(xo_xdp (md_objs md ! i))\<lparr>pg_pcapfile := take (TRAN_MAX_PATH_SIZE - 1) (''/sys/fs/bpf/transit_xdp_pcap_'' @ ifs ! i)\<rparr>"
    obtain e p s1 where l: "trn_prog_load K (md_prog_tbl md ! prog_id_code TRAN_TRANSIT_PROG) ?p
        (prog_id_code TRAN_TRANSIT_PROG) st = (e, p, s1)" by (metis prod_cases3)
    show ?thesis
      using Cons.prems False l registry_le_trans [OF trn_prog_load_le [OF l]] trn_prog_load_le [OF l] Cons.IH
      by (auto simp: Let_def split: if_splits)
  qed
qed simp

lemma load_stages_le:
  "load_stages K is md st = (r, md', st') \<Longrightarrow> registry_le (tb_maps st) (tb_maps st')"
proof (induction "is" arbitrary: md st)
  case (Cons i "is")
  obtain e p s1 where l: "trn_prog_load K (md_prog_tbl md ! i) (md_ebpf_progs md ! i) i st = (e, p, s1)"
    by (metis prod_cases3)
  show ?case
    using Cons.prems l registry_le_trans [OF trn_prog_load_le [OF l]] trn_prog_load_le [OF l] Cons.IH
    by (auto simp: Let_def split: if_splits)
qed simp

lemma attach_interfaces_maps:
  "attach_interfaces K is md st = (r, md', st') \<Longrightarrow> tb_maps st' = tb_maps st"
proof (induction "is" arbitrary: md st)
  case (Cons i "is")
  then show ?case by (fastforce simp: Let_def split: if_splits prod.splits)
qed simp

lemma map_initialize_maps:
  "trn_transit_xdp_map_initialize K md st = (r, st') \<Longrightarrow> tb_maps st' = tb_maps st"
  using init_jmp_table_maps init_interfaces_maps
  by (fastforce simp: trn_transit_xdp_map_initialize_def Let_def split: if_splits prod.splits)

lemma detach_interfaces_keeps:
  "detach_interfaces K is md st = (r, st') \<Longrightarrow> tb_maps st' = tb_maps st \<and> dm_md (st' :: 's daemon) = dm_md st"
proof (induction "is" arbitrary: st)
  case (Cons i "is")
  then show ?case by (fastforce simp: Let_def split: if_splits prod.splits)
qed simp

lemma load_keeps:
  assumes "trn_transit_xdp_load K ifs ibo debug st = (r, st')" "daemon_ok st" "registry_ok (tb_maps st)"
  shows "daemon_ok st' \<and> registry_ok (tb_maps st')"
proof (cases "dm_md st")
  case (Some md)
  then have "st' = st" using assms(1) by (simp add: trn_transit_xdp_load_def)
  then show ?thesis using assms by simp
next
  case None
  have "registry_ok (map (\<lambda>m. m\<lparr>xm_fd := - 1, xm_map := None\<rparr>) (tb_maps st))"
    using assms(3) by (simp add: registry_ok_def comp_def)
  moreover have "registry_le (tb_maps st') (tb_maps st') \<and>
      (tb_maps st' = tb_maps st \<or> registry_le (map (\<lambda>m. m\<lparr>xm_fd := - 1, xm_map := None\<rparr>) (tb_maps st)) (tb_maps st'))"
    using assms(1) None
    by (auto simp: trn_transit_xdp_load_def trn_transit_map_hash_def Let_def
        dest!: load_interfaces_le load_stages_le attach_interfaces_maps map_initialize_maps
        intro: registry_le_trans split: if_splits prod.splits)
  ultimately have "registry_ok (tb_maps st')" using assms(3) by (auto dest: registry_le_ok)
  moreover have "daemon_ok st'"
    using load_outcome [OF assms(1) None] by (auto simp: daemon_ok_def)
  ultimately show ?thesis by simp
qed

lemma unload_keeps:
  assumes "trn_transit_xdp_unload K st = (r, st')" "daemon_ok st" "registry_ok (tb_maps st)"
  shows "daemon_ok st' \<and> registry_ok (tb_maps st')"
  using assms
  by (auto simp: trn_transit_xdp_unload_def Let_def daemon_ok_def dest!: detach_interfaces_keeps
      split: if_splits prod.splits option.splits)

lemma ebpf_load_keeps:
  assumes "trn_transit_ebpf_load K n st = (r, st')" "daemon_ok st" "registry_ok (tb_maps st)"
  shows "daemon_ok st' \<and> registry_ok (tb_maps st')"
proof -
  have upd: "metadata_ok md \<Longrightarrow> metadata_ok (md\<lparr>md_ebpf_progs := (md_ebpf_progs md)[i := p]\<rparr>)" for md i p
    by (simp add: metadata_ok_def)
  show ?thesis
    using assms upd
    by (auto simp: trn_transit_ebpf_load_def Let_def daemon_ok_def
        dest!: trn_prog_load_le intro: registry_le_ok split: if_splits prod.splits option.splits)
qed

lemma ebpf_unload_keeps:
  assumes "trn_transit_ebpf_unload K n st = (r, st')" "daemon_ok st" "registry_ok (tb_maps st)"
  shows "daemon_ok st' \<and> registry_ok (tb_maps st')"
  using assms
  by (auto simp: trn_transit_ebpf_unload_def Let_def daemon_ok_def metadata_ok_def
      split: if_splits prod.splits option.splits)

lemma update_ep_loop_keeps:
  "update_ep_loop K ctx eps st = (r, st') \<Longrightarrow> tb_maps st' = tb_maps st \<and> dm_md st' = dm_md st"
proof (induction eps arbitrary: st)
  case (Cons ep eps)
  then show ?case by (fastforce simp: Let_def dest!: update_endpoint_maps split: if_splits prod.splits)
qed simp

lemma table_requests_keep:
  "update_ep_1_svc K batch st = (r, st') \<Longrightarrow> tb_maps st' = tb_maps st \<and> dm_md st' = dm_md st"
  "delete_ep_1_svc K k st = (r, st') \<Longrightarrow> tb_maps st' = tb_maps st \<and> dm_md st' = dm_md st"
  "update_droplet_1_svc K stack d st = Some (r, st') \<Longrightarrow> tb_maps st' = tb_maps st \<and> dm_md st' = dm_md st"
  by (auto simp: update_ep_1_svc_def delete_ep_1_svc_def update_droplet_1_svc_def Let_def
      trn_delete_endpoint_def trn_update_itf_config_def bind_eq_Some_conv dest!: update_ep_loop_keeps
      split: if_splits prod.splits option.splits)

lemma serve_keeps:
  assumes "serve K stack req st = Some st'" "daemon_ok st" "registry_ok (tb_maps st)"
  shows "daemon_ok st' \<and> registry_ok (tb_maps st')"
proof (cases req)
  case (Load_transit_xdp a)
  then show ?thesis using assms
    by (auto dest!: load_keeps simp: load_transit_xdp_1_svc_def Let_def split: prod.splits if_splits)
next
  case (Unload_transit_xdp a)
  then show ?thesis using assms
    by (auto dest!: unload_keeps simp: unload_transit_xdp_1_svc_def Let_def split: prod.splits if_splits)
next
  case (Load_ebpf a)
  then show ?thesis using assms
    by (auto dest!: ebpf_load_keeps simp: load_transit_xdp_ebpf_1_svc_def Let_def split: prod.splits if_splits)
next
  case (Unload_ebpf a)
  then show ?thesis using assms
    by (auto dest!: ebpf_unload_keeps simp: unload_transit_xdp_ebpf_1_svc_def Let_def split: prod.splits if_splits)
next
  case (Update_ep a)
  then show ?thesis using assms table_requests_keep(1) [of K a st "fst (update_ep_1_svc K a st)"]
    by (simp add: daemon_ok_def prod_eq_iff)
next
  case (Delete_ep a)
  then show ?thesis using assms table_requests_keep(2) [of K a st "fst (delete_ep_1_svc K a st)"]
    by (simp add: daemon_ok_def prod_eq_iff)
next
  case (Get_ep a)
  then show ?thesis using assms by simp
next
  case (Update_droplet a)
  then show ?thesis using assms by (auto dest!: table_requests_keep(3) simp: daemon_ok_def)
qed

text \<open>
  C21: the daemon's invariant. After any sequence of requests from its start, whatever the
  kernel answered, metadata exists only in ready form with arrays of their declared sizes, and
  the registry is the table of the source with the same names and sharing flags.
\<close>

theorem daemon_invariant:
  assumes "reachable K st"
  shows "daemon_ok st \<and> registry_ok (tb_maps st)"
  using assms
proof (induction rule: reachable.induct)
  case (start k)
  show ?case by (simp add: daemon_init_def daemon_ok_def registry_ok_def)
next
  case (request st stack req st')
  then show ?case using serve_keeps by blast
qed

theorem daemon_invariant_witness:
  "\<exists>st. serve demo_kernel demo_stack (Update_ep [demo_rpc_ep]) (daemon_init demo_kern0) = Some st \<and>
     daemon_ok st \<and> registry_ok (tb_maps st)"
proof -
  obtain st where s: "serve demo_kernel demo_stack (Update_ep [demo_rpc_ep]) (daemon_init demo_kern0) = Some st"
    by simp
  from daemon_invariant [OF request [OF start s]] s show ?thesis by blast
qed

end
