(* ===== verification/Arion_Cli_Run.thy ===== *)
theory Arion_Cli_Run
  imports Arion_Cli_Props Arion_Rpc_Props
begin

text \<open>
  Runs of the client: droplets, the configuration options, and the whole program from its
  command line to the daemon.
\<close>

section \<open>Droplets\<close>

definition json_of_entrance :: "rpc_addr_t \<Rightarrow> cJSON" where
  "json_of_entrance a = cJSON_Object
     [(''ip'', cJSON_String (dotted (ra_ip a))), (''mac'', cJSON_String (mac_text (ra_mac a)))]"

definition json_of_droplet :: "string \<Rightarrow> rpc_addr_t list \<Rightarrow> cJSON" where
  "json_of_droplet itf ents = cJSON_Object
     [(''interface'', cJSON_String itf), (''num_entrances'', json_nat (length ents)),
      (''entrances'', cJSON_Array (map json_of_entrance ents))]"

definition rpc_of_droplet :: "string \<Rightarrow> rpc_addr_t list \<Rightarrow> rpc_trn_droplet_t" where
  "rpc_of_droplet itf ents = \<lparr>rd_interface = itf, rd_num_entrances = of_nat (length ents),
     rd_entrances = ents @ drop (length ents) zero_entrances\<rparr>"

lemma scan_mac_text: "scan_mac 6 (mac_text m) = Some (mac_bytes m)"
proof (cases m)
  case (MAC a b c d e f)
  have "scan_mac (Suc (Suc (Suc (Suc (Suc (Suc 0)))))) (mac_text m) = Some (mac_bytes m)"
    by (simp add: mac_text_def MAC scan_hhx_hex2 scan_hhx_hex2 [of "[]", simplified])
  then show ?thesis by (simp add: eval_nat_numeral)
qed

lemma parse_entrance_json: "parse_entrance (json_of_entrance a) = Some (Inr a)"
  by (simp add: parse_entrance_def trn_cli_parse_json_str_ip_def trn_cli_parse_json_str_mac_def json_field_def
      json_of_entrance_def json_lookup valuestring_def scan_mac_text)

lemma parse_droplet:
  assumes "length ents < 2 ^ 32"
  shows "trn_cli_parse_droplet (json_of_droplet itf ents) =
    (if TRAN_MAX_ITF_SIZE \<le> length itf then None
     else if TRAN_MAX_ZGC_ENTRANCES < length ents then Some (Inl (Return (- EINVAL)))
     else Some (Inr (rpc_of_droplet itf ents)))"
proof -
  let ?j = "json_of_droplet itf ents"
  have f: "cJSON_GetObjectItem ?j ''interface'' = Some (cJSON_String itf)"
    "cJSON_GetObjectItem ?j ''num_entrances'' = Some (json_nat (length ents))"
    "cJSON_GetObjectItem ?j ''entrances'' = Some (cJSON_Array (map json_of_entrance ents))"
    by (simp_all add: json_of_droplet_def json_lookup)
  have "for_each parse_entrance (map json_of_entrance ents) = Some (Inr (map id ents))"
    by (rule for_each_map) (simp add: parse_entrance_json)
  then show ?thesis
    using parse_number_nat(1) [OF f(2) assms] of_nat_eq_u32 [OF assms] f(1,3)
    by (auto simp: trn_cli_parse_droplet_def trn_cli_parse_json_string_def json_field_def valuestring_def strcpy_into_def
        cJSON_IsArray_def cJSON_GetArraySize_def cJSON_child_def comp_def rpc_of_droplet_def)
qed

text \<open>
  C37: the client turns the JSON of a droplet into the droplet, entrances in order and the rest of
  the array zero; more entrances than the array holds are refused, and an interface name of 20
  characters or more overflows the buffer it is copied into.
\<close>

theorem trn_cli_parse_droplet_json:
  assumes "length ents < 2 ^ 32"
  shows "trn_cli_parse_droplet (json_of_droplet itf ents) =
    (if TRAN_MAX_ITF_SIZE \<le> length itf then None
     else if TRAN_MAX_ZGC_ENTRANCES < length ents then Some (Inl (Return (- EINVAL)))
     else Some (Inr (rpc_of_droplet itf ents)))"
  using assms by (rule parse_droplet)

lemma and_then_Inr: "and_then p f = Some (Inr y) \<longleftrightarrow> (\<exists>x. p = Some (Inr x) \<and> f x = Some (Inr y))"
  by (auto simp: and_then_def split: option.splits sum.splits)

lemma guard_that_Inr: "guard_that b p = Some (Inr y) \<longleftrightarrow> b \<and> p = Some (Inr y)"
  by (simp add: guard_that_def)

lemma for_each_length: "for_each f xs = Some (Inr ys) \<Longrightarrow> length ys = length xs"
  by (induction xs arbitrary: ys) (auto simp: and_then_Inr)

lemma parsed_droplet_bounds:
  assumes "trn_cli_parse_droplet j = Some (Inr d)"
  shows "length (rd_entrances d) = TRAN_MAX_ZGC_ENTRANCES \<and> unat (rd_num_entrances d) \<le> TRAN_MAX_ZGC_ENTRANCES \<and>
    length (rd_interface d) < TRAN_MAX_ITF_SIZE"
  using assms
  by (auto simp: trn_cli_parse_droplet_def and_then_Inr guard_that_Inr trn_cli_parse_json_string_def strcpy_into_def
      zero_entrances_def split: option.splits if_splits)

text \<open>
  C38: the client stands between the operator and the unchecked handler. Whatever JSON it accepts
  for a droplet, the request does not drive the daemon out of its arrays, and the interface name
  fits the buffer.
\<close>

theorem client_droplets_never_overrun:
  assumes "trn_cli_parse_droplet j = Some (Inr d)" "tunnel_iface_ok stack"
  shows "update_droplet_1_svc K stack d st \<noteq> None \<and> length (rd_interface d) < TRAN_MAX_ITF_SIZE"
proof -
  have b: "length (rd_entrances d) = TRAN_MAX_ZGC_ENTRANCES" "unat (rd_num_entrances d) \<le> TRAN_MAX_ZGC_ENTRANCES"
    "length (rd_interface d) < TRAN_MAX_ITF_SIZE"
    using parsed_droplet_bounds [OF assms(1)] by simp_all
  obtain ents where "copy_entrances (rd_entrances d) 0 (unat (rd_num_entrances d)) (entrances stack) = Some ents"
    using copy_entrances_ok [of 0 "unat (rd_num_entrances d)" "rd_entrances d" "entrances stack"] b assms(2)
    by (auto simp: tunnel_iface_ok_def)
  then show ?thesis using b(3) by (auto simp: update_droplet_1_svc_def Let_def split: option.splits prod.splits)
qed

definition some_entrances :: "rpc_addr_t list" where
  "some_entrances = [\<lparr>ra_ip = le32 (le16 10 0) (le16 0 9), ra_mac = MAC 2 0 0 0 0 9\<rparr>]"

theorem trn_cli_parse_droplet_json_witness:
  "trn_cli_parse_droplet (json_of_droplet ''eth0'' some_entrances) = Some (Inr (rpc_of_droplet ''eth0'' some_entrances)) \<and>
    trn_cli_parse_droplet (json_of_droplet ''enp1s0f0np0_v12345678'' some_entrances) = None"
  using trn_cli_parse_droplet_json [of some_entrances "''eth0''"] trn_cli_parse_droplet_json [of some_entrances "''enp1s0f0np0_v12345678''"]
  by (simp add: some_entrances_def TRAN_MAX_ZGC_ENTRANCES_def TRAN_MAX_ITF_SIZE_def)

theorem client_droplets_never_overrun_witness:
  "\<exists>d. trn_cli_parse_droplet (json_of_droplet ''eth0'' some_entrances) = Some (Inr d) \<and>
    update_droplet_1_svc demo_kernel demo_stack d demo_daemon \<noteq> None"
proof -
  have p: "trn_cli_parse_droplet (json_of_droplet ''eth0'' some_entrances) = Some (Inr (rpc_of_droplet ''eth0'' some_entrances))"
    using parse_droplet [of some_entrances "''eth0''"]
    by (simp add: some_entrances_def TRAN_MAX_ZGC_ENTRANCES_def TRAN_MAX_ITF_SIZE_def)
  have "tunnel_iface_ok demo_stack" by (simp add: demo_stack_def tunnel_iface_ok_def TRAN_MAX_ZGC_ENTRANCES_def)
  from client_droplets_never_overrun [OF p this] p show ?thesis by blast
qed

section \<open>Options\<close>

named_theorems option_simps

declare KETOPT_INIT_def [option_simps] ketopt_def [option_simps] no_option_def [option_simps]
  short_option_def [option_simps] argv_char_def [option_simps] c_char_def [option_simps] strchr_def [option_simps]
  ketopt_finish_def [option_simps] char_int_def [option_simps] NUL_def [option_simps] Let_def [option_simps]

lemma conf_options_end:
  "length argv \<le> ko_i om \<Longrightarrow> conf_options om argv conf_str conf_file = Some (Inr (conf_str, conf_file))"
  by (subst conf_options.simps) (simp add: ketopt_def Let_def)

lemma conf_options_value:
  assumes "c = CHR ''j'' \<or> c = CHR ''f''"
  shows "\<exists>om. ketopt KETOPT_INIT [cmd, [CHR ''-'', c], s] False ''f:j:'' None = Some (char_int c, om, [cmd, [CHR ''-'', c], s]) \<and>
    ko_i om = 3 \<and> ko_arg om = Some s"
  using assms by (auto simp: option_simps)

lemma conf_options_json: "conf_options KETOPT_INIT [cmd, ''-j'', s] None [] = Some (Inr (Some s, []))"
proof -
  obtain om where "ketopt KETOPT_INIT [cmd, ''-j'', s] False ''f:j:'' None = Some (char_int CHR ''j'', om, [cmd, ''-j'', s])"
    "ko_i om = 3" "ko_arg om = Some s"
    using conf_options_value [of "CHR ''j''" cmd s] by auto
  then show ?thesis by (subst conf_options.simps) (simp add: char_int_def conf_options_end)
qed

lemma conf_options_file:
  assumes "length path < TRAN_MAX_PATH_SIZE"
  shows "conf_options KETOPT_INIT [cmd, ''-f'', path] None [] = Some (Inr (None, path))"
proof -
  obtain om where "ketopt KETOPT_INIT [cmd, ''-f'', path] False ''f:j:'' None = Some (char_int CHR ''f'', om, [cmd, ''-f'', path])"
    "ko_i om = 3" "ko_arg om = Some path"
    using conf_options_value [of "CHR ''f''" cmd path] by auto
  then show ?thesis using assms by (subst conf_options.simps) (simp add: char_int_def conf_options_end)
qed

lemma read_conf_json: "trn_cli_read_conf_str fs KETOPT_INIT [cmd, ''-j'', s] = Some (Inr s)"
  by (simp add: trn_cli_read_conf_str_def conf_options_json)

text \<open>
  A configuration file cannot be used. With \<open>-f\<close> alone the client reads through a NULL pointer
  before it opens the file, whatever the file holds.
\<close>

theorem conf_file_null_pointer:
  assumes "path \<noteq> []" "length path < TRAN_MAX_PATH_SIZE"
  shows "trn_cli_read_conf_str fs KETOPT_INIT [cmd, ''-f'', path] = None"
  by (simp add: trn_cli_read_conf_str_def conf_options_file [OF assms(2)] assms(1))

theorem conf_file_null_pointer_witness:
  "trn_cli_read_conf_str (\<lambda>_. Some ''{}'') KETOPT_INIT [''update-ep'', ''-f'', ''ep.json''] = None"
  by (rule conf_file_null_pointer) (simp_all add: TRAN_MAX_PATH_SIZE_def)

section \<open>The program\<close>

lemma main_options_none:
  assumes "no_option cmd"
  shows "main_options KETOPT_INIT (prog # cmd # argv) None None =
    Some (KETOPT_INIT, prog # cmd # argv, None, None)"
  using assms by (subst main_options.simps) (simp add: ketopt_def KETOPT_INIT_def)

lemma cli_main_run:
  assumes "map_of cmds cmd = Some func" "no_option cmd" "connect ''localhost'' ''udp'' = Some clnt"
  shows "cli_main fs connect [prog, cmd, ''-j'', text] st = (case func fs clnt [cmd, ''-j'', text] st of
      None \<Rightarrow> None
    | Some (Exit code, st) \<Rightarrow> Some (Exit code, st)
    | Some (Return rc, st) \<Rightarrow> if rc \<noteq> 0 then Some (Return 1, st) else Some (Return 0, st))"
  using assms by (simp add: cli_main_def main_options_none KETOPT_INIT_def [THEN arg_cong [of _ _ ko_ind]])

lemma with_request_json:
  assumes "plain_json CJSON_NESTING_LIMIT j"
  shows "with_request fs [cmd, ''-j'', json_text j] parse call st = (case parse j of
      None \<Rightarrow> None | Some (Inl out) \<Rightarrow> Some (out, st) | Some (Inr request) \<Rightarrow> call request st)"
  by (simp add: with_request_def read_conf_json trn_cli_parse_json_def cJSON_Parse_plain [OF assms])

text \<open>The RPC transport: a call of the client runs the handler of the daemon and returns its result.\<close>

locale rpc_transport =
  fixes call :: "'q \<Rightarrow> 's \<Rightarrow> int option \<times> 's" and svc :: "'q \<Rightarrow> 's \<Rightarrow> int \<times> 's"
  assumes delivers: "call q st = apfst Some (svc q st)"
begin

lemma reply: "check_reply (call q st) = Some (Return (if fst (svc q st) = 0 then 0 else - EINVAL), snd (svc q st))"
  by (simp add: check_reply_def delivers split_beta)

end

definition local_client :: "('s, 'z) kernel_scheme \<Rightarrow> tunnel_iface_t \<Rightarrow> 's daemon client" where
  "local_client K stack =
    \<lparr>load_transit_xdp_1 = \<lambda>q st. apfst Some (load_transit_xdp_1_svc K q st),
     unload_transit_xdp_1 = \<lambda>q st. apfst Some (unload_transit_xdp_1_svc K q st),
     load_transit_xdp_ebpf_1 = \<lambda>q st. apfst Some (load_transit_xdp_ebpf_1_svc K q st),
     unload_transit_xdp_ebpf_1 = \<lambda>q st. apfst Some (unload_transit_xdp_ebpf_1_svc K q st),
     update_ep_1 = \<lambda>q st. apfst Some (update_ep_1_svc K q st),
     delete_ep_1 = \<lambda>q st. apfst Some (delete_ep_1_svc K q st),
     get_ep_1 = \<lambda>q st. (get_ep_1_svc K q st, st),
     update_droplet_1 = \<lambda>q st. (case update_droplet_1_svc K stack q st of None \<Rightarrow> (None, st) | Some r \<Rightarrow> apfst Some r)\<rparr>"

interpretation update_rpc: rpc_transport "update_ep_1 (local_client K stack)" "update_ep_1_svc K" for K stack
  by unfold_locales (simp add: local_client_def)

interpretation delete_rpc: rpc_transport "delete_ep_1 (local_client K stack)" "delete_ep_1_svc K" for K stack
  by unfold_locales (simp add: local_client_def)

lemma plain_json_batch:
  assumes "length eps < 2 ^ 53" shows "plain_json CJSON_NESTING_LIMIT (json_of_batch eps)"
proof -
  have u: "unat w < 2 ^ 53" for w :: u32 using unat_lt(3) [of w] by simp
  have m: "mac_number x < 2 ^ 53" for x using mac_number_bound [of x] by simp
  have "plain_json (CJSON_NESTING_LIMIT - 2) (json_of_ep p)" for p
    by (cases p) (auto simp: json_of_ep_def CJSON_NESTING_LIMIT_def quote_char_def backslash_def intro!: plain_json_containers
        plain_json_nat u m)
  then show ?thesis
    using assms
    by (auto simp: json_of_batch_def CJSON_NESTING_LIMIT_def quote_char_def backslash_def intro!: plain_json_containers plain_json_nat)
qed

lemma plain_dotted: "plain_string (dotted ip)"
proof -
  have "plain_string (dec n)" for n
    using dec_digits [of n] by (auto simp: plain_string_def is_digit_def)
  then show ?thesis by (simp add: dotted_def plain_string_def)
qed

lemma plain_json_key: "plain_json CJSON_NESTING_LIMIT (json_of_key k)"
  using unat_lt(3) [of "ek_vni k"]
  by (auto simp: json_of_key_def CJSON_NESTING_LIMIT_def quote_char_def backslash_def plain_dotted
      intro!: plain_json_containers plain_json_nat plain_json.intros(5))

lemma run_update_ep:
  assumes "length eps < 2 ^ 32"
  shows "cli_main fs (\<lambda>server protocol. Some (local_client K stack)) [prog, ''update-ep'', ''-j'', json_text (json_of_batch eps)] st =
    (if length eps \<le> TRAN_MAX_EP_BATCH_SIZE
     then case update_ep_1_svc K (rpc_of_batch eps) st of (rc, st') \<Rightarrow> Some (Return (if rc = 0 then 0 else 1), st')
     else Some (Return 1, st))"
proof -
  have p: "plain_json CJSON_NESTING_LIMIT (json_of_batch eps)" using assms by (intro plain_json_batch) simp
  have c: "map_of cmds ''update-ep'' = Some trn_cli_update_ep_subcmd" by (simp add: cmds_def)
  have r: "trn_cli_update_ep_subcmd fs (local_client K stack) [''update-ep'', ''-j'', json_text (json_of_batch eps)] st =
    (if length eps \<le> TRAN_MAX_EP_BATCH_SIZE
     then check_reply (update_ep_1 (local_client K stack) (rpc_of_batch eps) st) else Some (Return (- EINVAL), st))"
    by (simp add: trn_cli_update_ep_subcmd_def with_request_json [OF p] parse_batch [OF assms])
  show ?thesis
    by (subst cli_main_run [OF c _ refl])
      (simp_all add: no_option_def r update_rpc.reply EINVAL_def split_beta)
qed

lemma run_delete_ep:
  "cli_main fs (\<lambda>server protocol. Some (local_client K stack)) [prog, ''delete-ep'', ''-j'', json_text (json_of_key k)] st =
    (case delete_ep_1_svc K \<lparr>rek_vni = ek_vni k, rek_ip = ek_ip k\<rparr> st of (rc, st') \<Rightarrow> Some (Return (if rc = 0 then 0 else 1), st'))"
proof -
  have c: "map_of cmds ''delete-ep'' = Some trn_cli_delete_ep_subcmd" by (simp add: cmds_def)
  have r: "trn_cli_delete_ep_subcmd fs (local_client K stack) [''delete-ep'', ''-j'', json_text (json_of_key k)] st =
    check_reply (delete_ep_1 (local_client K stack) \<lparr>rek_vni = ek_vni k, rek_ip = ek_ip k\<rparr> st)"
    by (simp add: trn_cli_delete_ep_subcmd_def with_request_json [OF plain_json_key] parse_ep_key_json)
  show ?thesis
    by (subst cli_main_run [OF c _ refl])
      (simp_all add: no_option_def r delete_rpc.reply EINVAL_def split_beta)
qed

text \<open>
  A run of the client is the RPC. \<open>update-ep\<close> with the JSON text of a batch, over a transport
  that delivers, changes the daemon's state exactly as the handler does for the batch, and the
  exit code tells whether it succeeded; a batch over the limit changes nothing.
\<close>

theorem cli_update_ep_runs:
  assumes "length eps < 2 ^ 32"
  shows "cli_main fs (\<lambda>server protocol. Some (local_client K stack)) [prog, ''update-ep'', ''-j'', json_text (json_of_batch eps)] st =
    (if length eps \<le> TRAN_MAX_EP_BATCH_SIZE
     then case update_ep_1_svc K (rpc_of_batch eps) st of (rc, st') \<Rightarrow> Some (Return (if rc = 0 then 0 else 1), st')
     else Some (Return 1, st))"
  using assms by (rule run_update_ep)

theorem cli_update_ep_runs_witness:
  "\<exists>st'. cli_main Map.empty (\<lambda>server protocol. Some (local_client demo_kernel demo_stack))
    [''trn_cli'', ''update-ep'', ''-j'', json_text (json_of_batch [])] demo_daemon = Some (Return 0, st')"
  using cli_update_ep_runs [of "[]" Map.empty demo_kernel demo_stack "''trn_cli''" demo_daemon]
  by (simp add: rpc_of_batch_def update_ep_1_svc_def demo_daemon_def trn_update_endpoints_get_ctx_def
      trn_transit_map_get_fd_def trn_xdp_bpfmaps_def)

end
