(* ===== verification/Arion_MapDefs.thy ===== *)
theory Arion_MapDefs
  imports Arion_Rpc_Props Arion_Gateway
begin

text \<open>
  The BPF maps as the gateway's object declares them (\<open>src/src/xdp/trn_transit_xdp_maps.h\<close>): type,
  sizes and capacity of each, compiled with \<open>sgSupport\<close> and without \<open>turnOn\<close>, \<open>cnOn\<close> and
  \<open>connTrack\<close>. The kernel copies \<open>key_size\<close> and \<open>value_size\<close> bytes at the pointers it is given, so
  the images of the packed structs (\<open>include/trn_datamodel.h\<close>) are written out, and the laws the
  daemon's tables are used under follow from laws about maps of bytes. The capacity of
  \<open>if_config_map\<close> decides which interfaces can carry a droplet.
\<close>

section \<open>Declarations\<close>

datatype bpf_map_type = BPF_MAP_TYPE_HASH | BPF_MAP_TYPE_ARRAY | BPF_MAP_TYPE_PROG_ARRAY
  | BPF_MAP_TYPE_LPM_TRIE | BPF_MAP_TYPE_DEVMAP | BPF_MAP_TYPE_XSKMAP

record bpf_map_def =
  bd_type :: bpf_map_type
  bd_key_size :: u32
  bd_value_size :: u32
  bd_max_entries :: u32
  bd_map_flags :: u32
  bd_inner_map_idx :: u32
  bd_numa_node :: u32

text \<open>A static initialiser leaves the fields it does not name zero.\<close>

definition map_def :: "bpf_map_type \<Rightarrow> u32 \<Rightarrow> u32 \<Rightarrow> u32 \<Rightarrow> bpf_map_def" where
  "map_def ty ks vs n = \<lparr>bd_type = ty, bd_key_size = ks, bd_value_size = vs, bd_max_entries = n,
     bd_map_flags = 0, bd_inner_map_idx = 0, bd_numa_node = 0\<rparr>"

text \<open>\<open>sizeof\<close> of a \<open>packed, aligned(4)\<close> struct: no padding inside, rounded up at its end.\<close>

definition sizeof_packed4 :: "u32 list \<Rightarrow> u32" where
  "sizeof_packed4 szs = (sum_list szs + 3) div 4 * 4"

definition sizeof_int :: u32 where "sizeof_int = 4"
definition sizeof_endpoint_key_t :: u32 where "sizeof_endpoint_key_t = sizeof_packed4 [4, 4]"
definition sizeof_endpoint_t :: u32 where "sizeof_endpoint_t = sizeof_packed4 [4, 6, 6]"
definition sizeof_sg_cidr_key_t :: u32 where "sizeof_sg_cidr_key_t = sizeof_packed4 [4, 4, 2, 1, 1, 4, 4]"
definition sizeof_sg_cidr_t :: u32 where "sizeof_sg_cidr_t = sizeof_packed4 [4, 1]"
definition sizeof_security_group_key_t :: u32 where "sizeof_security_group_key_t = sizeof_packed4 [4, 4, 1]"
definition sizeof_security_group_t :: u32 where "sizeof_security_group_t = sizeof_packed4 [4, 1]"
definition sizeof_port_range_key_t :: u32 where "sizeof_port_range_key_t = sizeof_packed4 [4, 4, 1]"
definition sizeof_port_range_t :: u32 where "sizeof_port_range_t = sizeof_packed4 [2, 2, 2, 2]"
definition sizeof_zgc_entrance_t :: u32 where "sizeof_zgc_entrance_t = sizeof_packed4 [4, 2, 6]"
definition sizeof_tunnel_iface_t :: u32 where
  "sizeof_tunnel_iface_t =
     sizeof_packed4 [4, 2, 1, 1, 4, of_nat TRAN_MAX_ZGC_ENTRANCES * sizeof_zgc_entrance_t]"

definition TRAN_MAX_NEP :: u32 where "TRAN_MAX_NEP = 1024 * 1024 * 4"
definition TRAN_MAX_CIDRS :: u32 where "TRAN_MAX_CIDRS = 1024 * 1024"
definition TRAN_MAX_ITF :: u32 where "TRAN_MAX_ITF = 128"
definition BPF_F_NO_PREALLOC :: u32 where "BPF_F_NO_PREALLOC = 1"

definition jmp_table_def :: bpf_map_def where
  "jmp_table_def = map_def BPF_MAP_TYPE_PROG_ARRAY 4 4 (of_nat (prog_id_code TRAN_MAX_PROG))"

definition endpoints_map_def :: bpf_map_def where
  "endpoints_map_def = map_def BPF_MAP_TYPE_HASH sizeof_endpoint_key_t sizeof_endpoint_t TRAN_MAX_NEP"

definition sg_cidr_map_def :: bpf_map_def where
  "sg_cidr_map_def = (map_def BPF_MAP_TYPE_LPM_TRIE sizeof_sg_cidr_key_t sizeof_security_group_t TRAN_MAX_CIDRS)
     \<lparr>bd_map_flags := BPF_F_NO_PREALLOC\<rparr>"

definition security_group_map_def :: bpf_map_def where
  "security_group_map_def =
     map_def BPF_MAP_TYPE_HASH sizeof_security_group_key_t sizeof_security_group_t TRAN_MAX_NEP"

definition port_range_map_def :: bpf_map_def where
  "port_range_map_def = map_def BPF_MAP_TYPE_HASH sizeof_port_range_key_t sizeof_port_range_t TRAN_MAX_NEP"

definition xsks_map_def :: bpf_map_def where
  "xsks_map_def = map_def BPF_MAP_TYPE_XSKMAP sizeof_int sizeof_int 64"

definition if_config_map_def :: bpf_map_def where
  "if_config_map_def = map_def BPF_MAP_TYPE_ARRAY 4 sizeof_tunnel_iface_t TRAN_MAX_ITF"

definition interfaces_map_def :: bpf_map_def where
  "interfaces_map_def =
     map_def BPF_MAP_TYPE_DEVMAP sizeof_int sizeof_int (of_nat (itf_map_key_code TRAN_ITF_MAP_MAX))"

definition XDPCAP_HOOK :: bpf_map_def where
  "XDPCAP_HOOK = map_def BPF_MAP_TYPE_PROG_ARRAY sizeof_int sizeof_int 5"

text \<open>The maps section of the object, in the order of the header.\<close>

definition transit_xdp_maps :: "(string \<times> bpf_map_def) list" where
  "transit_xdp_maps = [(''jmp_table'', jmp_table_def), (''endpoints_map'', endpoints_map_def),
     (''sg_cidr_map'', sg_cidr_map_def), (''security_group_map'', security_group_map_def),
     (''port_range_map'', port_range_map_def), (''xsks_map'', xsks_map_def),
     (''if_config_map'', if_config_map_def), (''interfaces_map'', interfaces_map_def),
     (''xdpcap_hook'', XDPCAP_HOOK)]"

lemmas sizeof_defs = sizeof_packed4_def sizeof_int_def sizeof_endpoint_key_t_def sizeof_endpoint_t_def
  sizeof_sg_cidr_key_t_def sizeof_sg_cidr_t_def sizeof_security_group_key_t_def
  sizeof_security_group_t_def sizeof_port_range_key_t_def sizeof_port_range_t_def
  sizeof_zgc_entrance_t_def sizeof_tunnel_iface_t_def

lemmas map_def_defs = map_def_def jmp_table_def_def endpoints_map_def_def sg_cidr_map_def_def
  security_group_map_def_def port_range_map_def_def xsks_map_def_def if_config_map_def_def
  interfaces_map_def_def XDPCAP_HOOK_def

section \<open>Images of keys and values\<close>

definition endpoint_key_bytes :: "endpoint_key_t \<Rightarrow> bytes" where
  "endpoint_key_bytes k = bytes32 (ek_vni k) @ bytes32 (ek_ip k)"

definition endpoint_bytes :: "endpoint_t \<Rightarrow> bytes" where
  "endpoint_bytes e = bytes32 (ep_hip e) @ mac_bytes (ep_mac e) @ mac_bytes (ep_hmac e)"

definition endpoint_of_bytes :: "bytes \<Rightarrow> endpoint_t" where
  "endpoint_of_bytes b = \<lparr>ep_hip = get32 b 0, ep_mac = get_mac b 4, ep_hmac = get_mac b 10\<rparr>"

definition sg_cidr_key_bytes :: "sg_cidr_key_t \<Rightarrow> bytes" where
  "sg_cidr_key_bytes k = bytes32 (sgk_prefixlen k) @ sg_cidr_key_data k"

text \<open>The three bytes that fill up \<open>sg_cidr_t\<close> are whatever the caller's memory held.\<close>

definition sg_cidr_bytes :: "u8 \<times> u8 \<times> u8 \<Rightarrow> sg_cidr_t \<Rightarrow> bytes" where
  "sg_cidr_bytes pad v = bytes32 (sgc_sg_id v) @ [sgc_action v, fst pad, fst (snd pad), snd (snd pad)]"

definition sg_cidr_of_bytes :: "bytes \<Rightarrow> sg_cidr_t" where
  "sg_cidr_of_bytes b = \<lparr>sgc_sg_id = get32 b 0, sgc_action = get8 b 4\<rparr>"

definition zgc_entrance_bytes :: "zgc_entrance_t \<Rightarrow> bytes" where
  "zgc_entrance_bytes z = bytes32 (ze_ip z) @ bytes16 (ze_announced z) @ mac_bytes (ze_mac z)"

definition tunnel_iface_bytes :: "tunnel_iface_t \<Rightarrow> bytes" where
  "tunnel_iface_bytes i = bytes32 (iface_index i) @ bytes16 (ibo_port i) @ [ti_protocol i, ti_role i]
     @ bytes32 (num_entrances i) @ concat (map zgc_entrance_bytes (entrances i))"

lemma get16_bytes16 [simp]: "get16 (bytes16 w @ b) 0 = w"
  by (simp add: get16_def bytes16_def)

lemma get32_bytes32 [simp]: "get32 (bytes32 w @ b) 0 = w"
  by (simp add: get32_def get16_def bytes32_def bytes16_def eval_nat_numeral)

lemma get_mac_append: "get_mac (mac_bytes m @ b) 0 = m"
  by (cases m) (simp add: get_mac_def eval_nat_numeral)

lemma get_mac_shift: "length a = i \<Longrightarrow> get_mac (a @ b) i = get_mac b 0"
  by (simp add: get_mac_def nth_append)

lemma bytes32_inj [simp]: "bytes32 a = bytes32 b \<longleftrightarrow> a = b"
  using get32_bytes32 [of a "[]"] get32_bytes32 [of b "[]"] by metis

lemma bytes16_inj [simp]: "bytes16 a = bytes16 b \<longleftrightarrow> a = b"
  using get16_bytes16 [of a "[]"] get16_bytes16 [of b "[]"] by metis

lemma endpoint_key_bytes_inj: "inj endpoint_key_bytes"
  by (rule injI) (simp add: endpoint_key_bytes_def)

lemma endpoint_of_bytes_inverse: "endpoint_of_bytes (endpoint_bytes e) = e"
proof -
  have "get_mac (endpoint_bytes e) 4 = ep_mac e"
    by (simp add: endpoint_bytes_def get_mac_shift get_mac_append)
  moreover have "get_mac (endpoint_bytes e) 10 = ep_hmac e"
    using get_mac_shift [of "bytes32 (ep_hip e) @ mac_bytes (ep_mac e)" 10 "mac_bytes (ep_hmac e)"]
      get_mac_append [of "ep_hmac e" "[]"] by (simp add: endpoint_bytes_def)
  moreover have "get32 (endpoint_bytes e) 0 = ep_hip e" by (simp add: endpoint_bytes_def)
  ultimately show ?thesis by (simp add: endpoint_of_bytes_def)
qed

lemma sg_cidr_key_bytes_inj: "inj sg_cidr_key_bytes"
  by (rule injI) (auto simp: sg_cidr_key_bytes_def sg_cidr_key_data_def)

lemma sg_cidr_of_bytes_inverse: "sg_cidr_of_bytes (sg_cidr_bytes pad v) = v"
proof -
  have "get8 (bytes32 (sgc_sg_id v) @ [sgc_action v, fst pad, fst (snd pad), snd (snd pad)]) 4 = sgc_action v"
    by (simp add: get8_def nth_append)
  then show ?thesis by (simp add: sg_cidr_of_bytes_def sg_cidr_bytes_def)
qed

lemma length_tunnel_iface_bytes: "length (tunnel_iface_bytes i) = 12 + 12 * length (entrances i)"
proof -
  have "length (concat (map zgc_entrance_bytes zs)) = 12 * length zs" for zs
    by (induction zs) (simp_all add: zgc_entrance_bytes_def)
  then show ?thesis by (simp add: tunnel_iface_bytes_def)
qed

text \<open>
  The byte images of endpoints, rules and the configuration of an interface have the sizes their maps
  are declared with, the rules being written as \<open>sg_cidr_t\<close> into a map declared for
  \<open>security_group_t\<close>; the image of an endpoint loses nothing.
\<close>

lemma map_images_fit:
  "length (endpoint_key_bytes k) = unat (bd_key_size endpoints_map_def) \<and>
   length (endpoint_bytes e) = unat (bd_value_size endpoints_map_def) \<and>
   endpoint_of_bytes (endpoint_bytes e) = e \<and>
   length (sg_cidr_key_bytes c) = unat (bd_key_size sg_cidr_map_def) \<and>
   length (sg_cidr_bytes pad r) = unat (bd_value_size sg_cidr_map_def) \<and>
   length (bytes32 (iface_index itf)) = unat (bd_key_size if_config_map_def) \<and>
   (tunnel_iface_ok itf \<longrightarrow> length (tunnel_iface_bytes itf) = unat (bd_value_size if_config_map_def))"
  by (simp add: map_def_defs sizeof_defs endpoint_key_bytes_def endpoint_bytes_def
      endpoint_of_bytes_inverse [unfolded endpoint_bytes_def] sg_cidr_key_bytes_def
      length_sg_cidr_key_data sg_cidr_bytes_def length_tunnel_iface_bytes tunnel_iface_ok_def
      TRAN_MAX_ZGC_ENTRANCES_def)

lemma map_images_fit_witness:
  "length (tunnel_iface_bytes demo_stack) = unat (bd_value_size if_config_map_def)"
  using map_images_fit [where itf = demo_stack]
  by (simp add: tunnel_iface_ok_def demo_stack_def TRAN_MAX_ZGC_ENTRANCES_def)

text \<open>
  The registry of the daemon is in sync with the maps section of the object, as its comment
  asks: the same names, each once, so every map of the object is tracked and shared, and every
  name the table operations look up is declared.
\<close>

theorem registry_in_sync:
  "set (map fst transit_xdp_maps) = set (map xm_name trn_xdp_bpfmaps) \<and>
   distinct (map fst transit_xdp_maps) \<and> distinct (map xm_name trn_xdp_bpfmaps)"
  by (auto simp: transit_xdp_maps_def trn_xdp_bpfmaps_def)

section \<open>From maps of bytes to the tables\<close>

text \<open>The calls the daemon makes, in terms of the kernel's calls on the bytes behind the pointers.\<close>

definition typed_ops :: "('k \<Rightarrow> bytes) \<Rightarrow> ('v \<Rightarrow> bytes) \<Rightarrow> (bytes \<Rightarrow> 'v) \<Rightarrow> (bytes, bytes, 's) bpf_map_ops \<Rightarrow>
    ('k, 'v, 's) bpf_map_ops" where
  "typed_ops key img read B =
     \<lparr>bm_update = (\<lambda>fd k v s. bm_update B fd (key k) (img v) s),
      bm_lookup = (\<lambda>fd k s. map_option read (bm_lookup B fd (key k) s)),
      bm_delete = (\<lambda>fd k s. bm_delete B fd (key k) s)\<rparr>"

text \<open>A representation of keys and values by bytes that a map of bytes cannot confuse.\<close>

locale map_image =
  fixes key :: "'key \<Rightarrow> bytes" and img :: "'val \<Rightarrow> bytes" and read :: "bytes \<Rightarrow> 'val"
  assumes key_inj: "inj key" and read_img: "read (img v) = v"
begin

lemma typed_law:
  assumes "map_law B" shows "map_law (typed_ops key img read B)"
proof -
  have k: "key x = key y \<longleftrightarrow> x = y" for x y by (rule inj_eq [OF key_inj])
  show ?thesis
    unfolding map_law_def typed_ops_def bpf_map_ops.simps
  proof (intro conjI allI impI)
    fix fd x v s r s' x'
    assume "bm_update B fd (key x) (img v) s = (r, s')"
    from map_law_update [OF assms this, of "key x'"]
    show "map_option read (bm_lookup B fd (key x') s') =
      (if r = 0 \<and> x' = x then Some v else map_option read (bm_lookup B fd (key x') s))"
      by (simp add: k read_img)
  next
    fix fd x s r s' x'
    assume "bm_delete B fd (key x) s = (r, s')"
    from map_law_delete [OF assms this, of "key x'"]
    show "map_option read (bm_lookup B fd (key x') s') =
      (if r = 0 \<and> x' = x then None else map_option read (bm_lookup B fd (key x') s))"
      by (simp add: k)
  qed
qed

end

interpretation ep_image: map_image endpoint_key_bytes endpoint_bytes endpoint_of_bytes
  by unfold_locales (simp_all add: endpoint_key_bytes_inj endpoint_of_bytes_inverse)

interpretation cidr_image: map_image sg_cidr_key_bytes "sg_cidr_bytes pad" sg_cidr_of_bytes for pad
  by unfold_locales (simp_all add: sg_cidr_key_bytes_inj sg_cidr_of_bytes_inverse)

text \<open>A kernel whose endpoint map holds bytes gives the daemon's handlers the table they rely on.\<close>

lemma endpoints_law_from_bytes:
  "map_law B \<Longrightarrow> k_endpoints K = typed_ops endpoint_key_bytes endpoint_bytes endpoint_of_bytes B \<Longrightarrow>
   map_law (k_endpoints K)"
  by (simp add: ep_image.typed_law)

lemma sg_cidr_law_from_bytes:
  "map_law B \<Longrightarrow> k_sg_cidr K = typed_ops sg_cidr_key_bytes (sg_cidr_bytes pad) sg_cidr_of_bytes B \<Longrightarrow>
   map_law (k_sg_cidr K)"
  by (simp add: cidr_image.typed_law)

section \<open>The capacity of the interface configuration\<close>

text \<open>
  An array map of \<open>n\<close> elements behind the descriptor \<open>fd\<close>: its keys are the indices below \<open>n\<close>,
  all of them present from the start, and it refuses every other.
\<close>

definition array_law :: "u32 \<Rightarrow> int \<Rightarrow> (u32, 'v, 's) bpf_map_ops \<Rightarrow> bool" where
  "array_law n fd M \<longleftrightarrow> (\<forall>k v s. fst (bm_update M fd k v s) = 0 \<longleftrightarrow> k < n) \<and>
     (\<forall>k s. bm_lookup M fd k s \<noteq> None \<longleftrightarrow> k < n)"

lemma trn_update_itf_config_array:
  assumes "array_law n (trn_transit_map_get_fd (tb_maps st) ''if_config_map'') (k_if_config K)"
    "0 \<le> trn_transit_map_get_fd (tb_maps st) ''if_config_map''"
  shows "fst (trn_update_itf_config K itf st) = (if iface_index itf < n then 0 else 1)"
  using assms by (auto simp: trn_update_itf_config_def array_law_def Let_def split: prod.splits)
    (metis fst_conv)+

definition if_config_shared :: "('s, 'z) kernel_scheme \<Rightarrow> 's daemon \<Rightarrow> xdp_env \<Rightarrow> bool" where
  "if_config_shared K st E \<longleftrightarrow> if_config_map E =
     (\<lambda>i. bm_lookup (k_if_config K) (trn_transit_map_get_fd (tb_maps st) ''if_config_map'') i (tb_kern st))"

text \<open>
  C34: the capacity of \<open>if_config_map\<close> decides which interface can carry a droplet. The map is
  indexed by the interface index of the host, of which it holds those below \<open>TRAN_MAX_ITF\<close>. A
  well-formed droplet for a loaded interface is installed exactly when its index is below; for
  any other the request fails whatever its content, and the gateway aborts every packet that
  arrives there.
\<close>

theorem update_droplet_needs_low_index:
  assumes "array_law (bd_max_entries if_config_map_def) (trn_transit_map_get_fd (tb_maps st) ''if_config_map'') (k_if_config K)"
    "0 \<le> trn_transit_map_get_fd (tb_maps st) ''if_config_map''"
    "trn_get_itf_context K (rd_interface d) st = Some eth" "tunnel_iface_ok stack"
    "length (rd_entrances d) = TRAN_MAX_ZGC_ENTRANCES" "unat (rd_num_entrances d) \<le> TRAN_MAX_ZGC_ENTRANCES"
  shows "\<exists>st'. update_droplet_1_svc K stack d st = Some (if tif_index eth < 128 then 0 else RPC_TRN_ERROR, st') \<and>
    (\<not> tif_index eth < 128 \<longrightarrow> (\<forall>E n ctx. if_config_shared K st' E \<and> ingress_ifindex ctx = tif_index eth \<longrightarrow>
      (\<exists>b. transit E n ctx = Some (XDP_ABORTED, b))))"
proof -
  have n: "bd_max_entries if_config_map_def = 128" by (simp add: map_def_defs TRAN_MAX_ITF_def)
  let ?fd = "trn_transit_map_get_fd (tb_maps st) ''if_config_map''"
  obtain ents where e: "copy_entrances (rd_entrances d) 0 (unat (rd_num_entrances d)) (entrances stack) = Some ents"
    using copy_entrances_ok [of 0 "unat (rd_num_entrances d)" "rd_entrances d" "entrances stack"] assms(4-6)
    by (auto simp: tunnel_iface_ok_def)
  let ?itf = "stack\<lparr>entrances := ents, num_entrances := rd_num_entrances d, iface_index := tif_index eth,
    ibo_port := tif_ibo_port eth, ti_role := tif_role eth, ti_protocol := tif_protocol eth\<rparr>"
  obtain q st' where u: "trn_update_itf_config K ?itf st = (q, st')" by fastforce
  have q: "q = (if tif_index eth < 128 then 0 else 1)"
    using trn_update_itf_config_array [OF assms(1,2), of ?itf] u n by simp
  have "tb_maps st' = tb_maps st"
    using u by (auto simp: trn_update_itf_config_def Let_def split: if_splits prod.splits)
  then have "bm_lookup (k_if_config K) (trn_transit_map_get_fd (tb_maps st') ''if_config_map'') i s = None"
    if "\<not> i < 128" for i s
    using assms(1) n that unfolding array_law_def by (metis (no_types))
  then have "\<not> tif_index eth < 128 \<Longrightarrow> if_config_shared K st' E \<Longrightarrow> ingress_ifindex ctx = tif_index eth \<Longrightarrow>
      \<exists>b. transit E m ctx = Some (XDP_ABORTED, b)" for E m ctx
    by (auto simp: if_config_shared_def transit_def Let_def split: prod.splits)
  moreover have "update_droplet_1_svc K stack d st = Some (if tif_index eth < 128 then 0 else RPC_TRN_ERROR, st')"
    using assms(3) e u q by (simp add: update_droplet_1_svc_def Let_def)
  ultimately show ?thesis by blast
qed

text \<open>The demonstration kernel with an array for the configurations, and with interface 200.\<close>

definition demo_array_ops :: "(u32, tunnel_iface_t, demo_kern) bpf_map_ops" where
  "demo_array_ops = \<lparr>bm_update = (\<lambda>fd k v s. if k < 128 then (0, s\<lparr>dk_itf := (dk_itf s)(k \<mapsto> v)\<rparr>) else (- 7, s)),
     bm_lookup = (\<lambda>fd k s. if k < 128 then Some (case dk_itf s k of None \<Rightarrow> demo_stack | Some v \<Rightarrow> v) else None),
     bm_delete = (\<lambda>fd k s. (- 22, s))\<rparr>"

definition demo_array_kernel :: "demo_kern kernel" where
  "demo_array_kernel = demo_kernel\<lparr>k_if_config := demo_array_ops,
     k_if_nametoindex := (\<lambda>n. if n = ''eth0'' then 3 else if n = ''eth1'' then 200 else 0)\<rparr>"

definition demo_high_daemon :: "demo_kern daemon" where
  "demo_high_daemon = demo_daemon\<lparr>dm_md := Some (demo_md\<lparr>md_objs :=
     (md_objs demo_md)[1 := (md_objs demo_md ! 1)\<lparr>xo_eth := iface_zero\<lparr>tif_index := 200\<rparr>\<rparr>]\<rparr>)\<rparr>"

theorem update_droplet_needs_low_index_witness:
  "(\<exists>st'. update_droplet_1_svc demo_array_kernel demo_stack (demo_droplet 2) demo_high_daemon = Some (0, st')) \<and>
   (\<exists>st'. update_droplet_1_svc demo_array_kernel demo_stack ((demo_droplet 2)\<lparr>rd_interface := ''eth1''\<rparr>)
     demo_high_daemon = Some (RPC_TRN_ERROR, st'))"
proof -
  have l: "array_law (bd_max_entries if_config_map_def) fd (k_if_config demo_array_kernel)" for fd
    by (simp add: array_law_def demo_array_kernel_def demo_array_ops_def map_def_defs TRAN_MAX_ITF_def)
  have fd: "0 \<le> trn_transit_map_get_fd (tb_maps demo_high_daemon) ''if_config_map''"
    by (simp add: demo_high_daemon_def demo_daemon_def trn_xdp_bpfmaps_def trn_transit_map_get_fd_def)
  have itf: "trn_get_itf_context demo_array_kernel ''eth0'' demo_high_daemon = Some (iface_zero\<lparr>tif_index := 3\<rparr>)"
    "trn_get_itf_context demo_array_kernel ''eth1'' demo_high_daemon = Some (iface_zero\<lparr>tif_index := 200\<rparr>)"
    by (simp_all add: trn_get_itf_context_def demo_high_daemon_def demo_daemon_def demo_array_kernel_def
        demo_kernel_def demo_md_def)
  have ok: "tunnel_iface_ok demo_stack" "length (rd_entrances (demo_droplet 2)) = TRAN_MAX_ZGC_ENTRANCES"
    "unat (rd_num_entrances (demo_droplet 2)) \<le> TRAN_MAX_ZGC_ENTRANCES"
    by (simp_all add: tunnel_iface_ok_def demo_stack_def demo_droplet_def TRAN_MAX_ZGC_ENTRANCES_def)
  have name: "trn_get_itf_context demo_array_kernel (rd_interface (demo_droplet 2)) demo_high_daemon =
      Some (iface_zero\<lparr>tif_index := 3\<rparr>)" using itf(1) by (simp add: demo_droplet_def)
  have low: "\<exists>st'. update_droplet_1_svc demo_array_kernel demo_stack (demo_droplet 2) demo_high_daemon = Some (0, st')"
    using update_droplet_needs_low_index [OF l fd name ok] by auto
  have "\<exists>st'. update_droplet_1_svc demo_array_kernel demo_stack ((demo_droplet 2)\<lparr>rd_interface := ''eth1''\<rparr>)
      demo_high_daemon = Some (RPC_TRN_ERROR, st')"
    using update_droplet_needs_low_index [OF l fd, of "(demo_droplet 2)\<lparr>rd_interface := ''eth1''\<rparr>"
      "iface_zero\<lparr>tif_index := 200\<rparr>" demo_stack] itf(2) ok by auto
  with low show ?thesis by blast
qed

end
