(* ===== verification/Arion_Json_Print.thy ===== *)
theory Arion_Json_Print
  imports Arion_Json_Text
begin

text \<open>
  The printer of \<open>src/src/extern/cJSON.c\<close>, one definition per function. The output buffer is a
  list of bytes of which \<open>None\<close> is one that was never written; every write is checked against
  the allocated memory, every read also against reading such a byte. A function returns its
  \<open>cJSON_bool\<close> with the buffer; the outer option is \<open>None\<close> when the C code would leave its memory.
\<close>

section \<open>The print buffer\<close>

text \<open>
  The allocator: whether \<open>malloc\<close> grants the request, given the number of requests made before it and
  the size asked for, and the same of \<open>realloc\<close> if the library has one (\<open>cJSON_InitHooks\<close> takes it
  away with the default \<open>malloc\<close> and \<open>free\<close>). With the number of the request as an argument every
  pattern of refusals is a value of the record: two requests of one size may fare differently.
\<close>

record internal_hooks =
  hk_allocate :: "nat \<Rightarrow> nat \<Rightarrow> bool"
  hk_reallocate :: "(nat \<Rightarrow> nat \<Rightarrow> bool) option"

type_synonym memory = "char option list"

text \<open>The fields of the C struct, and \<open>pb_requests\<close>, how many requests the allocator has had so far.\<close>

record printbuffer =
  pb_buffer :: "memory option"
  pb_length :: nat
  pb_offset :: nat
  pb_depth :: nat
  pb_noalloc :: bool
  pb_format :: bool
  pb_hooks :: internal_hooks
  pb_requests :: nat

type_synonym printing = "printbuffer \<Rightarrow> (bool \<times> printbuffer) option"

text \<open>\<open>ensure\<close> gives the position of its pointer in the buffer, or \<open>None\<close> for a null pointer.\<close>

definition free_buffer :: "printbuffer \<Rightarrow> printbuffer" where
  "free_buffer p = p\<lparr>pb_length := 0, pb_buffer := None\<rparr>"

definition grow_buffer :: "memory \<Rightarrow> nat \<Rightarrow> printbuffer \<Rightarrow> (nat option \<times> printbuffer) option" where
  "grow_buffer b newsize p =
     (let n = pb_requests p; p = p\<lparr>pb_requests := n + 1\<rparr> in
      case hk_reallocate (pb_hooks p) of
        Some reallocate \<Rightarrow>
          if \<not> reallocate n newsize then Some (None, free_buffer p)
          else Some (Some (pb_offset p),
            p\<lparr>pb_length := newsize, pb_buffer := Some (take newsize b @ replicate (newsize - length b) None)\<rparr>)
      | None \<Rightarrow>
          if \<not> hk_allocate (pb_hooks p) n newsize then Some (None, free_buffer p)
          else if length b < pb_offset p + 1 \<or> newsize < pb_offset p + 1 then None
          else Some (Some (pb_offset p),
            p\<lparr>pb_length := newsize,
              pb_buffer := Some (take (pb_offset p + 1) b @ replicate (newsize - (pb_offset p + 1)) None)\<rparr>))"

definition ensure :: "nat \<Rightarrow> printbuffer \<Rightarrow> (nat option \<times> printbuffer) option" where
  "ensure needed p =
     (case pb_buffer p of
        None \<Rightarrow> Some (None, p)
      | Some b \<Rightarrow>
          if 0 < pb_length p \<and> pb_length p \<le> pb_offset p then Some (None, p)
          else if INT_MAX < int needed then Some (None, p)
          else let needed = needed + pb_offset p + 1
            in if needed \<le> pb_length p then Some (Some (pb_offset p), p)
               else if pb_noalloc p then Some (None, p)
               else if INT_MAX div 2 < int needed
               then (if int needed \<le> INT_MAX then grow_buffer b (nat INT_MAX) p else Some (None, p))
               else grow_buffer b (needed * 2) p)"

text \<open>Writing at a position, one character and a string of them.\<close>

definition store :: "nat \<Rightarrow> char \<Rightarrow> printbuffer \<Rightarrow> printbuffer option" where
  "store i c p = (case pb_buffer p of
     None \<Rightarrow> None
   | Some b \<Rightarrow> if i < length b then Some (p\<lparr>pb_buffer := Some (b[i := Some c])\<rparr>) else None)"

primrec stores :: "nat \<Rightarrow> string \<Rightarrow> printbuffer \<Rightarrow> printbuffer option" where
  "stores i [] p = Some p"
| "stores i (c # cs) p = do { p \<leftarrow> store i c p; stores (i + 1) cs p }"

text \<open>\<open>strlen\<close> of memory: defined when a NUL comes before any byte that was not written.\<close>

primrec mem_strlen :: "memory \<Rightarrow> nat option" where
  "mem_strlen [] = None"
| "mem_strlen (m # ms) = (case m of
     None \<Rightarrow> None
   | Some c \<Rightarrow> if c = CHR 0x00 then Some 0 else map_option Suc (mem_strlen ms))"

definition update_offset :: printing where
  "update_offset p = (case pb_buffer p of
     None \<Rightarrow> Some (True, p)
   | Some b \<Rightarrow> do {
       n \<leftarrow> mem_strlen (drop (pb_offset p) b);
       Some (True, p\<lparr>pb_offset := pb_offset p + n\<rparr>)
     })"

text \<open>
  The steps of a print function: each reserves \<open>needed\<close> bytes, writes \<open>s\<close> at the pointer and
  advances the offset, and the function returns false at the first that fails.
\<close>

definition emit :: "nat \<Rightarrow> string \<Rightarrow> nat \<Rightarrow> printing" where
  "emit needed s advance p = do {
     (output, p) \<leftarrow> ensure needed p;
     case output of
       None \<Rightarrow> Some (False, p)
     | Some i \<Rightarrow> do { p \<leftarrow> stores i s p; Some (True, p\<lparr>pb_offset := pb_offset p + advance\<rparr>) }
   }"

primrec steps :: "printing list \<Rightarrow> printing" where
  "steps [] p = Some (True, p)"
| "steps (f # fs) p = do { (ok, p) \<leftarrow> f p; if \<not> ok then Some (False, p) else steps fs p }"

definition set_depth :: "(nat \<Rightarrow> nat) \<Rightarrow> printing" where
  "set_depth g p = Some (True, p\<lparr>pb_depth := g (pb_depth p)\<rparr>)"

definition NUL_text :: string where "NUL_text = [CHR 0x00]"

section \<open>Numbers and strings\<close>

text \<open>\<open>sprintf\<close> writes the text and a NUL into a local buffer of 26 bytes.\<close>

definition print_number :: "double \<Rightarrow> printing" where
  "print_number d p =
     (let number_buffer = number_text d
      in if 26 \<le> length number_buffer then None
         else emit (length number_buffer + 1) (number_buffer @ NUL_text) (length number_buffer) p)"

definition escape_letter :: "char \<Rightarrow> char option" where
  "escape_letter c =
     (if c = backslash then Some backslash else if c = quote_char then Some quote_char
      else if c = CHR 0x08 then Some CHR ''b'' else if c = CHR 0x0C then Some CHR ''f''
      else if c = CHR 0x0A then Some CHR ''n'' else if c = CHR 0x0D then Some CHR ''r''
      else if c = CHR 0x09 then Some CHR ''t'' else None)"

definition escape_count :: "char \<Rightarrow> nat" where
  "escape_count c = (if escape_letter c \<noteq> None then 1 else if of_char c < (32 :: nat) then 5 else 0)"

text \<open>\<open>sprintf\<close> of \<open>u%04x\<close> for one byte.\<close>

definition u04x :: "char \<Rightarrow> string" where
  "u04x c = ''u00'' @ [hex_digit (of_char c div 16), hex_digit (of_char c mod 16)]"

primrec escape_loop :: "string \<Rightarrow> nat \<Rightarrow> printbuffer \<Rightarrow> printbuffer option" where
  "escape_loop [] output_pointer p = Some p"
| "escape_loop (c # cs) output_pointer p =
     (if (31 :: nat) < of_char c \<and> c \<noteq> quote_char \<and> c \<noteq> backslash
      then do { p \<leftarrow> store output_pointer c p; escape_loop cs (output_pointer + 1) p }
      else do {
        p \<leftarrow> store output_pointer backslash p;
        case escape_letter c of
          Some l \<Rightarrow> do { p \<leftarrow> store (output_pointer + 1) l p; escape_loop cs (output_pointer + 2) p }
        | None \<Rightarrow> do {
            p \<leftarrow> stores (output_pointer + 1) (u04x c @ NUL_text) p;
            escape_loop cs (output_pointer + 6) p
          }
      })"

definition print_string_ptr :: "string option \<Rightarrow> printing" where
  "print_string_ptr input p = (case input of
     None \<Rightarrow> emit 3 ([quote_char, quote_char] @ NUL_text) 0 p
   | Some s \<Rightarrow>
       let input = c_string s;
           escape_characters = sum_list (map escape_count input);
           output_length = length input + escape_characters
       in do {
         (output, p) \<leftarrow> ensure (output_length + 3) p;
         case output of
           None \<Rightarrow> Some (False, p)
         | Some i \<Rightarrow>
             if escape_characters = 0
             then do {
               p \<leftarrow> stores i ([quote_char] @ input @ [quote_char] @ NUL_text) p;
               Some (True, p)
             }
             else do {
               p \<leftarrow> store i quote_char p;
               p \<leftarrow> escape_loop input (i + 1) p;
               p \<leftarrow> stores (i + output_length + 1) ([quote_char] @ NUL_text) p;
               Some (True, p)
             }
       })"

definition print_string :: "string \<Rightarrow> printing" where
  "print_string valuestring = print_string_ptr (Some valuestring)"

section \<open>Values\<close>

text \<open>Between two elements of an array, and at the end.\<close>

definition element_separator :: "bool \<Rightarrow> printing" where
  "element_separator next p =
     (if next then let len = (if pb_format p then 2 else 1)
        in emit (len + 1) (CHR '','' # (if pb_format p then '' '' else []) @ NUL_text) len p
      else Some (True, p))"

definition print_array :: "printing \<Rightarrow> printing" where
  "print_array elements =
     steps [emit 1 ''['' 1, set_depth Suc, elements, emit 2 ('']'' @ NUL_text) 0, set_depth (\<lambda>d. d - 1)]"

definition tabs :: "nat \<Rightarrow> string" where "tabs n = replicate n CHR 0x09"

definition open_object :: printing where
  "open_object p =
     (let len = (if pb_format p then 2 else 1)
      in steps [emit (len + 1) (CHR ''{'' # (if pb_format p then [CHR 0x0A] else [])) len, set_depth Suc] p)"

definition member_indent :: printing where
  "member_indent p =
     (if pb_format p then emit (pb_depth p) (tabs (pb_depth p)) (pb_depth p) p else Some (True, p))"

definition member_colon :: printing where
  "member_colon p =
     (let len = (if pb_format p then 2 else 1)
      in emit len (CHR '':'' # (if pb_format p then [CHR 0x09] else [])) len p)"

definition member_separator :: "bool \<Rightarrow> printing" where
  "member_separator next p =
     (let s = (if next then '','' else []) @ (if pb_format p then [CHR 0x0A] else [])
      in emit (length s + 1) (s @ NUL_text) (length s) p)"

definition close_object :: printing where
  "close_object p =
     steps [emit (if pb_format p then pb_depth p + 1 else 2)
       ((if pb_format p then tabs (pb_depth p - 1) else []) @ ''}'' @ NUL_text) 0, set_depth (\<lambda>d. d - 1)] p"

definition print_object :: "printing \<Rightarrow> printing" where
  "print_object members = steps [open_object, members, close_object]"

lemma size_members: "size_list (\<lambda>m. size (snd m)) ms < Suc (size_list (size_prod (\<lambda>x. 0) size) ms)"
  by (induction ms) auto

function print_value :: "cJSON \<Rightarrow> printing"
  and print_elements :: "cJSON list \<Rightarrow> printing"
  and print_members :: "(string \<times> cJSON) list \<Rightarrow> printing" where
  "print_value cJSON_NULL = emit 5 (''null'' @ NUL_text) 0"
| "print_value cJSON_False = emit 6 (''false'' @ NUL_text) 0"
| "print_value cJSON_True = emit 5 (''true'' @ NUL_text) 0"
| "print_value (cJSON_Number d i) = print_number d"
| "print_value (cJSON_Raw s) = emit (length (c_string s) + 1) (c_string s @ NUL_text) 0"
| "print_value (cJSON_String s) = print_string s"
| "print_value (cJSON_Array xs) = print_array (print_elements xs)"
| "print_value (cJSON_Object ms) = print_object (print_members ms)"
| "print_elements [] = steps []"
| "print_elements (x # xs) =
     steps [print_value x, update_offset, element_separator (xs \<noteq> []), print_elements xs]"
| "print_members [] = steps []"
| "print_members (m # ms) =
     steps [member_indent, print_string_ptr (Some (fst m)), update_offset, member_colon,
       print_value (snd m), update_offset, member_separator (ms \<noteq> []), print_members ms]"
  by pat_completeness auto
termination
  by (relation "measure (case_sum size (case_sum (size_list size) (size_list (\<lambda>m. size (snd m)))))")
    (simp_all add: size_members)

section \<open>Entry points\<close>

text \<open>The result is the memory of the printed text, or \<open>None\<close> for a null pointer.\<close>

definition print :: "cJSON \<Rightarrow> bool \<Rightarrow> internal_hooks \<Rightarrow> memory option option" where
  "print item format hooks =
     (if \<not> hk_allocate hooks 0 256 then Some None
      else do {
        (ok, p) \<leftarrow> steps [print_value item, update_offset]
          \<lparr>pb_buffer = Some (replicate 256 None), pb_length = 256, pb_offset = 0, pb_depth = 0,
           pb_noalloc = False, pb_format = format, pb_hooks = hooks, pb_requests = 1\<rparr>;
        case pb_buffer p of
          None \<Rightarrow> Some None
        | Some b \<Rightarrow>
            if \<not> ok then Some None
            else let size = pb_offset p + 1
              in (case hk_reallocate hooks of
                    Some reallocate \<Rightarrow>
                      if \<not> reallocate (pb_requests p) size then Some None
                      else Some (Some (take size b @ replicate (size - length b) None))
                  | None \<Rightarrow>
                      if \<not> hk_allocate hooks (pb_requests p) size then Some None
                      else let n = min (pb_length p) size
                        in if length b < n then None
                           else Some (Some ((take n b @ replicate (size - n) None)[pb_offset p := Some CHR 0x00])))
      })"

definition cJSON_Print :: "internal_hooks \<Rightarrow> cJSON \<Rightarrow> memory option option" where
  "cJSON_Print global_hooks item = print item True global_hooks"

definition cJSON_PrintUnformatted :: "internal_hooks \<Rightarrow> cJSON \<Rightarrow> memory option option" where
  "cJSON_PrintUnformatted global_hooks item = print item False global_hooks"

definition cJSON_PrintBuffered :: "internal_hooks \<Rightarrow> cJSON \<Rightarrow> int \<Rightarrow> bool \<Rightarrow> memory option option" where
  "cJSON_PrintBuffered global_hooks item prebuffer fmt =
     (if prebuffer < 0 then Some None
      else if \<not> hk_allocate global_hooks 0 (nat prebuffer) then Some None
      else do {
        (ok, p) \<leftarrow> print_value item
          \<lparr>pb_buffer = Some (replicate (nat prebuffer) None), pb_length = nat prebuffer, pb_offset = 0,
           pb_depth = 0, pb_noalloc = False, pb_format = fmt, pb_hooks = global_hooks, pb_requests = 1\<rparr>;
        Some (if ok then pb_buffer p else None)
      })"

text \<open>\<open>mem\<close> is the memory at \<open>buf\<close>, \<open>None\<close> for a null pointer; it comes back written.\<close>

definition cJSON_PrintPreallocated ::
    "internal_hooks \<Rightarrow> cJSON \<Rightarrow> memory option \<Rightarrow> int \<Rightarrow> bool \<Rightarrow> (bool \<times> memory option) option" where
  "cJSON_PrintPreallocated global_hooks item mem len fmt =
     (if len < 0 \<or> mem = None then Some (False, mem)
      else do {
        (ok, p) \<leftarrow> print_value item
          \<lparr>pb_buffer = mem, pb_length = nat len, pb_offset = 0, pb_depth = 0, pb_noalloc = True,
           pb_format = fmt, pb_hooks = global_hooks, pb_requests = 0\<rparr>;
        Some (ok, pb_buffer p)
      })"

end
