(* ===== verification/Arion_Json_Print_Props.thy ===== *)
theory Arion_Json_Print_Props
  imports Arion_Json_Print
begin

text \<open>
  The printer writes only into its memory and what it writes is the text of the value: the
  contract of a print step, the rule for sequences of steps, and the contract of every print
  function. From it the behaviour of the four entry points, and the round trip with the parser.
\<close>

section \<open>States of the buffer\<close>

text \<open>
  The fields agree with the memory; when the library grows the buffer by hand it must not be
  empty, because it copies the byte at the offset.
\<close>

definition pb_ok :: "printbuffer \<Rightarrow> bool" where
  "pb_ok p \<longleftrightarrow> (case pb_buffer p of None \<Rightarrow> True
     | Some b \<Rightarrow> pb_length p \<le> length b \<and>
         (pb_noalloc p \<or> pb_length p = length b \<and> (hk_reallocate (pb_hooks p) \<noteq> None \<or> 0 < pb_length p)))"

text \<open>What a step keeps: its configuration and, of memory that is not its own, all beyond the length.\<close>

definition outside :: "nat \<Rightarrow> memory option \<Rightarrow> (nat \<times> memory) option" where
  "outside n = map_option (\<lambda>b. (length b, drop n b))"

definition keeps :: "printbuffer \<Rightarrow> printbuffer \<Rightarrow> bool" where
  "keeps p p' \<longleftrightarrow> pb_hooks p' = pb_hooks p \<and> pb_noalloc p' = pb_noalloc p \<and> pb_format p' = pb_format p \<and>
     (pb_noalloc p \<longrightarrow> pb_length p' = pb_length p \<and> outside (pb_length p) (pb_buffer p') = outside (pb_length p) (pb_buffer p))"

text \<open>The memory holds \<open>s\<close>; the buffer stands at its end.\<close>

definition wrote :: "printbuffer \<Rightarrow> string \<Rightarrow> bool" where
  "wrote p s \<longleftrightarrow> (\<exists>b. pb_buffer p = Some b \<and> length s \<le> length b \<and> take (length s) b = map Some s)"

definition stands :: "printbuffer \<Rightarrow> string \<Rightarrow> bool" where
  "stands p s \<longleftrightarrow> pb_ok p \<and> wrote p s \<and> pb_offset p = length s \<and> (0 < pb_length p \<longrightarrow> pb_offset p < pb_length p)"

text \<open>\<open>N\<close> bytes are there or can be had.\<close>

definition roomy :: "printbuffer \<Rightarrow> nat \<Rightarrow> bool" where
  "roomy p N \<longleftrightarrow> int N \<le> INT_MAX \<and> (N \<le> pb_length p \<or> \<not> pb_noalloc p \<and>
     (\<forall>k n. hk_allocate (pb_hooks p) k n) \<and> (\<forall>f k n. hk_reallocate (pb_hooks p) = Some f \<longrightarrow> f k n))"

text \<open>
  The contract of a step: it never leaves the memory, it keeps what it must, it establishes \<open>Q\<close>
  when it reports success, and it does so when there is room for \<open>N\<close> bytes.
\<close>

definition prints :: "printbuffer \<Rightarrow> printing \<Rightarrow> nat \<Rightarrow> (printbuffer \<Rightarrow> bool) \<Rightarrow> bool" where
  "prints p f N Q \<longleftrightarrow> (\<exists>ok p'. f p = Some (ok, p') \<and> pb_ok p' \<and> keeps p p' \<and>
     (ok \<longrightarrow> Q p' \<and> pb_length p \<le> pb_length p') \<and> (roomy p N \<longrightarrow> ok))"

lemma keeps_refl [simp]: "keeps p p"
  by (simp add: keeps_def)

lemma other_fields [simp]:
  "pb_ok (p\<lparr>pb_offset := i\<rparr>) = pb_ok p" "pb_ok (p\<lparr>pb_depth := d\<rparr>) = pb_ok p"
  "wrote (p\<lparr>pb_offset := i\<rparr>) s = wrote p s" "wrote (p\<lparr>pb_depth := d\<rparr>) s = wrote p s"
  "keeps p (p\<lparr>pb_offset := i\<rparr>)" "keeps p (p\<lparr>pb_depth := d\<rparr>)"
  "stands (p\<lparr>pb_depth := d\<rparr>) s = stands p s"
  by (simp_all add: pb_ok_def wrote_def keeps_def stands_def cong: option.case_cong)

lemma keeps_trans: "keeps p q \<Longrightarrow> keeps q r \<Longrightarrow> keeps p r"
  by (auto simp: keeps_def)

lemma roomy_keeps: "keeps p q \<Longrightarrow> pb_length p \<le> pb_length q \<Longrightarrow> roomy p N \<Longrightarrow> roomy q N"
  by (auto simp: keeps_def roomy_def)

lemma prints_steps_Nil: "pb_ok p \<Longrightarrow> Q p \<Longrightarrow> prints p (steps []) N Q"
  unfolding prints_def by (intro exI [of _ True] exI [of _ p]) simp

lemma prints_steps_Cons:
  assumes f: "prints p f N Q"
    and fs: "\<And>q. pb_ok q \<Longrightarrow> keeps p q \<Longrightarrow> pb_length p \<le> pb_length q \<Longrightarrow> Q q \<Longrightarrow> prints q (steps fs) N R"
  shows "prints p (steps (f # fs)) N R"
proof -
  obtain ok q where q: "f p = Some (ok, q)" "pb_ok q" "keeps p q" "ok \<Longrightarrow> Q q \<and> pb_length p \<le> pb_length q"
    "roomy p N \<Longrightarrow> ok" using f by (auto simp: prints_def)
  show ?thesis
  proof (cases ok)
    case True
    then obtain ok' r where "steps fs q = Some (ok', r)" "pb_ok r" "keeps q r" "ok' \<longrightarrow> R r \<and> pb_length q \<le> pb_length r"
      "roomy q N \<longrightarrow> ok'" using fs [OF q(2,3)] q(4) by (auto simp: prints_def)
    then show ?thesis using q True keeps_trans [OF q(3)] roomy_keeps [OF q(3)]
      by (auto simp: prints_def)
  next
    case False
    then show ?thesis using q by (auto simp: prints_def)
  qed
qed

lemma prints_conseq: "prints p f N Q \<Longrightarrow> (\<And>q. keeps p q \<Longrightarrow> pb_ok q \<Longrightarrow> Q q \<Longrightarrow> R q) \<Longrightarrow> prints p f N R"
  by (fastforce simp: prints_def)

lemma roomy_less: "M \<le> N \<Longrightarrow> roomy p N \<Longrightarrow> roomy p M"
  by (auto simp: roomy_def)

lemma prints_more: "prints p f M Q \<Longrightarrow> M \<le> N \<Longrightarrow> prints p f N Q"
  unfolding prints_def using roomy_less by blast

section \<open>Reserving and writing\<close>

text \<open>What an attempt to have \<open>n\<close> bytes promises: the text is kept, there is room for them where
  it succeeds, and it succeeds where there is memory.\<close>

definition reserves :: "printbuffer \<Rightarrow> string \<Rightarrow> nat \<Rightarrow> (nat option \<times> printbuffer) option \<Rightarrow> bool" where
  "reserves p pre n res \<longleftrightarrow> (\<exists>r q. res = Some (r, q) \<and> pb_ok q \<and> keeps p q \<and>
     (r \<noteq> None \<longrightarrow> r = Some (length pre) \<and> wrote q pre \<and> pb_offset q = length pre \<and> pb_depth q = pb_depth p \<and>
       pb_length p \<le> pb_length q \<and> n \<le> pb_length q) \<and>
     (roomy p n \<longrightarrow> r \<noteq> None))"

lemma reserves_same:
  assumes "stands p pre" "n \<le> pb_length p"
  shows "reserves p pre n (Some (Some (length pre), p))"
  using assms by (simp add: reserves_def stands_def)

lemma reserves_fails: "pb_ok q \<Longrightarrow> keeps p q \<Longrightarrow> \<not> roomy p n \<Longrightarrow> reserves p pre n (Some (None, q))"
  by (simp add: reserves_def)

text \<open>The larger buffer starts with the text, wherever it is.\<close>

lemma reserves_moved:
  assumes st: "stands p pre" "pb_buffer p = Some b" and n: "pb_length p \<le> m" "n \<le> m" "\<not> pb_noalloc p"
    and c: "take (length pre) c = map Some pre" "length c = m" "length pre < m"
  shows "reserves p pre n (Some (Some (length pre), p\<lparr>pb_requests := k, pb_length := m, pb_buffer := Some c\<rparr>))"
  using assms by (simp add: reserves_def stands_def pb_ok_def keeps_def wrote_def)

lemma grow_buffer_reserves:
  assumes st: "stands p pre" "pb_buffer p = Some b"
    and n: "length pre < n" "\<not> n \<le> pb_length p" "\<not> pb_noalloc p" "n \<le> m"
  shows "reserves p pre n (grow_buffer b m p)"
proof -
  have ok: "pb_ok p" "pb_offset p = length pre" "0 < pb_length p \<Longrightarrow> length pre < pb_length p"
    and b: "length pre \<le> length b" "take (length pre) b = map Some pre"
    using st by (auto simp: stands_def wrote_def)
  have lb: "pb_length p = length b" "hk_reallocate (pb_hooks p) \<noteq> None \<or> length pre < length b"
    using ok(1,3) st(2) n(3) by (auto simp: pb_ok_def)
  have freed: "pb_ok (free_buffer (p\<lparr>pb_requests := k\<rparr>))" "keeps p (free_buffer (p\<lparr>pb_requests := k\<rparr>))" for k
    using n(3) by (simp_all add: free_buffer_def pb_ok_def keeps_def)
  show ?thesis
  proof (cases "hk_reallocate (pb_hooks p)")
    case None
    let ?c = "take (Suc (length pre)) b @ replicate (m - Suc (length pre)) None"
    have "Suc (length pre) \<le> length b" "Suc (length pre) \<le> m" using lb(2) None n by simp_all
    then have c: "take (length pre) ?c = map Some pre" "length ?c = m" using b(2) by (simp_all add: min_def)
    show ?thesis
    proof (cases "hk_allocate (pb_hooks p) (pb_requests p) m")
      case True
      then have "grow_buffer b m p = Some (Some (length pre), p\<lparr>pb_requests := pb_requests p + 1, pb_length := m, pb_buffer := Some ?c\<rparr>)"
        using None lb n ok(2) by (simp add: grow_buffer_def Let_def)
      then show ?thesis using reserves_moved [OF st _ n(4,3) c] n by simp
    next
      case False
      then have "\<not> roomy p n" using n by (auto simp: roomy_def)
      then show ?thesis using reserves_fails freed None False by (simp add: grow_buffer_def Let_def)
    qed
  next
    case (Some re)
    let ?c = "take m b @ replicate (m - length b) None"
    have c: "take (length pre) ?c = map Some pre" "length ?c = m" using b lb(1) n by (simp_all add: min_def)
    show ?thesis
    proof (cases "re (pb_requests p) m")
      case True
      then have "grow_buffer b m p = Some (Some (length pre), p\<lparr>pb_requests := pb_requests p + 1, pb_length := m, pb_buffer := Some ?c\<rparr>)"
        using Some ok(2) by (simp add: grow_buffer_def Let_def)
      then show ?thesis using reserves_moved [OF st _ n(4,3) c] n by simp
    next
      case False
      then have "\<not> roomy p n" using n Some by (auto simp: roomy_def)
      then show ?thesis using reserves_fails freed Some False by (simp add: grow_buffer_def Let_def)
    qed
  qed
qed

lemma ensure_reserves:
  assumes "stands p pre"
  shows "reserves p pre (length pre + needed + 1) (ensure needed p)"
proof -
  define n where "n = length pre + needed + 1"
  obtain b where b: "pb_buffer p = Some b" using assms by (auto simp: stands_def wrote_def)
  have ok: "pb_ok p" "pb_offset p = length pre" "\<not> (0 < pb_length p \<and> pb_length p \<le> length pre)"
    using assms by (auto simp: stands_def)
  have e: "ensure needed p = (if INT_MAX < int needed then Some (None, p)
      else if n \<le> pb_length p then Some (Some (length pre), p) else if pb_noalloc p then Some (None, p)
      else if INT_MAX div 2 < int n then (if int n \<le> INT_MAX then grow_buffer b (nat INT_MAX) p else Some (None, p))
      else grow_buffer b (n * 2) p)"
    unfolding ensure_def b(1) ok(2) option.case if_not_P [OF ok(3)] Let_def add.commute [of needed "length pre"] n_def by (rule refl)
  have same: "reserves p pre n (Some (Some (length pre), p))" if "n \<le> pb_length p" using reserves_same [OF assms that] .
  have fails: "reserves p pre n (Some (None, p))" if "\<not> roomy p n" using reserves_fails [OF ok(1) _ that] by simp
  have grown: "reserves p pre n (grow_buffer b m p)" if "\<not> n \<le> pb_length p" "\<not> pb_noalloc p" "n \<le> m" for m
    by (rule grow_buffer_reserves [OF assms b _ that]) (simp add: n_def)
  have "reserves p pre n (ensure needed p)"
  proof (cases "int n \<le> INT_MAX")
    case True
    then have m: "n \<le> nat INT_MAX" "n \<le> n * 2" "\<not> INT_MAX < int needed" by (simp_all add: n_def)
    have "\<not> roomy p n" if "\<not> n \<le> pb_length p" "pb_noalloc p" using that by (simp add: roomy_def)
    then show ?thesis unfolding e if_not_P [OF m(3)] if_P [OF True] using same fails grown m(1,2) by simp
  next
    case False
    then have "INT_MAX div 2 < int n" "\<not> roomy p n" by (simp_all add: INT_MAX_def roomy_def)
    then show ?thesis unfolding e using False same fails by simp
  qed
  then show ?thesis by (simp only: n_def)
qed

lemma stores_within:
  "pb_buffer p = Some b \<Longrightarrow> i + length s \<le> length b \<Longrightarrow>
   stores i s p = Some (p\<lparr>pb_buffer := Some (take i b @ map Some s @ drop (i + length s) b)\<rparr>)"
proof (induction s arbitrary: i p b)
  case (Cons c s)
  have "b[i := Some c] = take i b @ Some c # drop (Suc i) b" using Cons.prems by (simp add: upd_conv_take_nth_drop)
  then show ?case using Cons by (simp add: store_def take_Suc_conv_app_nth add.commute)
qed simp

lemma drop_splice:
  "i + length xs \<le> k \<Longrightarrow> i + length xs \<le> length b \<Longrightarrow> drop k (take i b @ xs @ drop (i + length xs) b) = drop k b"
  by (simp add: min_def)

text \<open>A step that reserves, writes and advances.\<close>

lemma prints_emit:
  assumes st: "stands p pre" and len: "length s \<le> needed + 1" "advance \<le> length s" "advance \<le> needed"
    and N: "length pre + needed + 1 \<le> N"
  shows "prints p (emit needed s advance) N (\<lambda>q. wrote q (pre @ s) \<and> pb_offset q = length pre + advance \<and>
    pb_depth q = pb_depth p \<and> length pre + needed + 1 \<le> pb_length q)"
proof -
  obtain r q where e: "ensure needed p = Some (r, q)" "pb_ok q" "keeps p q"
    "r \<noteq> None \<Longrightarrow> r = Some (length pre) \<and> wrote q pre \<and> pb_offset q = length pre \<and> pb_depth q = pb_depth p \<and>
      pb_length p \<le> pb_length q \<and> length pre + needed + 1 \<le> pb_length q"
    "roomy p (length pre + needed + 1) \<Longrightarrow> r \<noteq> None"
    using ensure_reserves [OF st, of needed] unfolding reserves_def by blast
  show ?thesis
  proof (cases r)
    case None
    then show ?thesis using e roomy_less [OF N, of p] by (auto simp: prints_def emit_def)
  next
    case (Some i)
    then have q: "r = Some (length pre)" "wrote q pre" "pb_offset q = length pre" "pb_depth q = pb_depth p"
      "pb_length p \<le> pb_length q" "length pre + needed + 1 \<le> pb_length q" using e(4) by auto
    obtain b where b: "pb_buffer q = Some b" "length pre \<le> length b" "take (length pre) b = map Some pre"
      using q(2) by (auto simp: wrote_def)
    have lb: "pb_length q \<le> length b" using e(2) b(1) by (simp add: pb_ok_def)
    then have l: "length pre + length s \<le> length b" "length pre + length s \<le> pb_length q" using len(1) q(6) by simp_all
    let ?b = "take (length pre) b @ map Some s @ drop (length pre + length s) b"
    let ?q = "q\<lparr>pb_buffer := Some ?b, pb_offset := length pre + advance\<rparr>"
    have "emit needed s advance p = Some (True, ?q)"
      using e(1) q(1,3) stores_within [OF b(1) l(1)] by (simp add: emit_def)
    moreover have "length ?b = length b" using l(1) by simp
    then have "pb_ok ?q" using e(2) b(1) by (simp add: pb_ok_def)
    moreover have "keeps p ?q"
    proof -
      have "outside (pb_length q) (Some ?b) = outside (pb_length q) (Some b)"
        using drop_splice [of "length pre" "map Some s" "pb_length q" b] l by (simp add: outside_def)
      then have "keeps q ?q" using b(1) by (simp add: keeps_def)
      then show ?thesis using keeps_trans [OF e(3)] by blast
    qed
    moreover have "wrote ?q (pre @ s)" using b(2,3) l(1) by (simp add: wrote_def min_def)
    ultimately show ?thesis using q(4-6) by (auto simp: prints_def)
  qed
qed

text \<open>The offset moves to the NUL that ends the text.\<close>

lemma mem_strlen_text: "CHR 0x00 \<notin> set t \<Longrightarrow> mem_strlen (map Some t @ Some CHR 0x00 # m) = Some (length t)"
  by (induction t) auto

lemma prints_update_offset_NUL:
  assumes "pb_ok p" "wrote p (pre @ t @ NUL_text)" "length pre \<le> pb_offset p" "pb_offset p \<le> length pre + length t"
    "CHR 0x00 \<notin> set t" "length pre + length t + 2 \<le> pb_length p"
  shows "prints p update_offset N (\<lambda>q. stands q (pre @ t) \<and> pb_depth q = pb_depth p \<and> wrote q (pre @ t @ NUL_text))"
proof -
  let ?s = "pre @ t @ NUL_text"
  obtain b where b: "pb_buffer p = Some b" "length ?s \<le> length b" "take (length ?s) b = map Some ?s"
    using assms(2) by (auto simp: wrote_def)
  define k where "k = pb_offset p - length pre"
  have k: "pb_offset p = length pre + k" "k \<le> length t" using assms(3,4) by (auto simp: k_def)
  define rest where "rest = drop (length ?s) b"
  have "b = map Some ?s @ rest" using b(3) append_take_drop_id unfolding rest_def by metis
  then have "b = map Some pre @ map Some t @ Some CHR 0x00 # rest" by (simp add: NUL_text_def)
  then have "drop (pb_offset p) b = map Some (drop k t) @ Some CHR 0x00 # rest"
    using k by (simp add: drop_map)
  then have "mem_strlen (drop (pb_offset p) b) = Some (length t - k)"
    using mem_strlen_text [of "drop k t"] assms(5) by (auto dest: in_set_dropD)
  then have "update_offset p = Some (True, p\<lparr>pb_offset := length pre + length t\<rparr>)"
    using b(1) k by (simp add: update_offset_def)
  moreover have "take (length (pre @ t)) b = map Some (pre @ t)"
    using arg_cong [OF b(3), of "take (length (pre @ t))"] by (simp add: min_def take_map NUL_text_def)
  then have "wrote p (pre @ t)" using b(1,2) by (simp add: wrote_def)
  ultimately show ?thesis
    using assms(1,2,6) unfolding prints_def stands_def
    by (intro exI [of _ True] exI [of _ "p\<lparr>pb_offset := length pre + length t\<rparr>"]) simp
qed

lemma prints_set_depth:
  "pb_ok p \<Longrightarrow> prints p (set_depth g) N (\<lambda>q. q = p\<lparr>pb_depth := g (pb_depth p)\<rparr>)"
  unfolding prints_def set_depth_def
  by (intro exI [of _ True] exI [of _ "p\<lparr>pb_depth := g (pb_depth p)\<rparr>"]) simp

section \<open>Scalars\<close>

text \<open>
  The contract of a print function for the text \<open>t\<close>: it is written with a NUL behind the text that
  was there, the offset is somewhere in it, and two bytes more than its length were there.
\<close>

definition value_written :: "string \<Rightarrow> string \<Rightarrow> nat \<Rightarrow> printbuffer \<Rightarrow> bool" where
  "value_written pre t d q \<longleftrightarrow> wrote q (pre @ t @ NUL_text) \<and> length pre \<le> pb_offset q \<and>
     pb_offset q \<le> length pre + length t \<and> pb_depth q = d \<and> length pre + length t + 2 \<le> pb_length q"

definition prints_text :: "printing \<Rightarrow> printbuffer \<Rightarrow> string \<Rightarrow> bool" where
  "prints_text f p t \<longleftrightarrow> (\<forall>pre N. stands p pre \<longrightarrow> length pre + length t + 2 \<le> N \<longrightarrow>
     prints p f N (value_written pre t (pb_depth p)))"

lemma prints_literal: "prints_text (emit (length t + 1) (t @ NUL_text) 0) p t"
  unfolding prints_text_def value_written_def
  by (auto intro!: prints_conseq [OF prints_emit] simp: NUL_text_def)

lemma print_number_prints:
  assumes "\<forall>x. d = Finite x \<longrightarrow> double_value x"
  shows "prints_text (print_number d) p (number_text d)"
proof -
  have "print_number d = emit (length (number_text d) + 1) (number_text d @ NUL_text) (length (number_text d))"
    using length_number_text [OF assms] by (simp add: print_number_def fun_eq_iff Let_def)
  then show ?thesis
    unfolding prints_text_def value_written_def
    by (auto intro!: prints_conseq [OF prints_emit] simp: NUL_text_def)
qed

lemma escape_plain:
  assumes "(31 :: nat) < of_char c \<and> c \<noteq> quote_char \<and> c \<noteq> backslash"
  shows "escape c = [c]" "escape_count c = 0"
proof -
  have "c \<noteq> CHR 0x08" "c \<noteq> CHR 0x0C" "c \<noteq> CHR 0x0A" "c \<noteq> CHR 0x0D" "c \<noteq> CHR 0x09" using assms by auto
  then show "escape c = [c]" "escape_count c = 0"
    using assms by (simp_all add: escape_def escape_count_def escape_letter_def)
qed

lemma escape_by_letter:
  assumes "escape_letter c = Some l" shows "escape c = [backslash, l]" "escape_count c = 1"
  using assms by (simp_all add: escape_def escape_count_def escape_letter_def split: if_splits)

lemma escape_by_code:
  assumes "\<not> ((31 :: nat) < of_char c \<and> c \<noteq> quote_char \<and> c \<noteq> backslash)" "escape_letter c = None"
  shows "escape c = backslash # u04x c" "escape_count c = 5"
proof -
  have "c \<noteq> backslash" "c \<noteq> quote_char" "c \<noteq> CHR 0x08" "c \<noteq> CHR 0x0C" "c \<noteq> CHR 0x0A" "c \<noteq> CHR 0x0D" "c \<noteq> CHR 0x09"
    using assms(2) by (auto simp: escape_letter_def split: if_splits)
  moreover from this have "of_char c < (32 :: nat)" using assms(1) by linarith
  ultimately show "escape c = backslash # u04x c" "escape_count c = 5"
    using assms(2) by (simp_all add: escape_def escape_count_def u04x_def)
qed

lemma length_escape: "length (concat (map escape s)) = length s + sum_list (map escape_count s)"
proof (induction s)
  case (Cons c s)
  have "length (escape c) = 1 + escape_count c"
  proof (cases "(31 :: nat) < of_char c \<and> c \<noteq> quote_char \<and> c \<noteq> backslash")
    case True
    then show ?thesis using escape_plain [OF True] by simp
  next
    case False
    then show ?thesis using escape_by_letter [of c] escape_by_code [OF False]
      by (cases "escape_letter c") (simp_all add: u04x_def)
  qed
  then show ?case using Cons by simp
qed simp

text \<open>
  The escapes are written one after the other; the NUL of \<open>sprintf\<close> falls on the place of the
  next character.
\<close>

lemma escape_loop_writes:
  assumes "pb_buffer p = Some b" "i + length (concat (map escape s)) + 1 \<le> length b"
  shows "\<exists>b'. escape_loop s i p = Some (p\<lparr>pb_buffer := Some b'\<rparr>) \<and> length b' = length b \<and>
    take (i + length (concat (map escape s))) b' = take i b @ map Some (concat (map escape s)) \<and>
    drop (i + length (concat (map escape s)) + 1) b' = drop (i + length (concat (map escape s)) + 1) b"
  using assms
proof (induction s arbitrary: i p b)
  case Nil
  then show ?case by (intro exI [of _ b]) simp
next
  case (Cons c s)
  let ?E = "concat (map escape s)"
  have one: "\<exists>b'. escape_loop (c # s) i p = Some (p\<lparr>pb_buffer := Some b'\<rparr>) \<and> length b' = length b \<and>
      take (i + length (w @ ?E)) b' = take i b @ map Some (w @ ?E) \<and>
      drop (i + length (w @ ?E) + 1) b' = drop (i + length (w @ ?E) + 1) b"
    if w: "stores i (w @ z) p = Some q" "escape_loop (c # s) i p = escape_loop s (i + length w) q"
      "length z \<le> 1" "i + length (w @ ?E) + 1 \<le> length b" for w z q
  proof -
    let ?b = "take i b @ map Some (w @ z) @ drop (i + length (w @ z)) b"
    have q: "q = p\<lparr>pb_buffer := Some ?b\<rparr>" using stores_within [OF Cons.prems(1), of i "w @ z"] w(1,3,4) by simp
    have lb: "length ?b = length b" using w(3,4) by simp
    have qb: "pb_buffer q = Some ?b" "i + length w + length ?E + 1 \<le> length ?b"
      using q w(4) unfolding lb by simp_all
    obtain b' where b': "escape_loop s (i + length w) q = Some (q\<lparr>pb_buffer := Some b'\<rparr>)" "length b' = length ?b"
      "take (i + length w + length ?E) b' = take (i + length w) ?b @ map Some ?E"
      "drop (i + length w + length ?E + 1) b' = drop (i + length w + length ?E + 1) ?b"
      using Cons.IH [OF qb] by blast
    have "take (i + length w) ?b = take i b @ map Some w" using w(4) by (simp add: min_def)
    moreover have "drop (i + length w + length ?E + 1) ?b = drop (i + length w + length ?E + 1) b"
      using drop_splice [of i "map Some (w @ z)" "i + length w + length ?E + 1" b] w(3,4) by simp
    ultimately show ?thesis using b' w(2) lb unfolding q by (intro exI [of _ b']) (simp add: add.assoc)
  qed
  show ?case
  proof (cases "(31 :: nat) < of_char c \<and> c \<noteq> quote_char \<and> c \<noteq> backslash")
    case True
    then have e: "escape c = [c]" by (rule escape_plain(1))
    have "i < length b" using Cons.prems(2) by (simp add: e)
    then have "stores i ([c] @ []) p = Some (p\<lparr>pb_buffer := Some (b[i := Some c])\<rparr>)"
      using Cons.prems(1) by (simp add: store_def)
    from one [OF this] True Cons.prems \<open>i < length b\<close> show ?thesis by (simp add: e store_def)
  next
    case False
    show ?thesis
    proof (cases "escape_letter c")
      case (Some l)
      then have e: "escape c = [backslash, l]" by (rule escape_by_letter(1))
      have l: "i < length b" "Suc i < length b" using Cons.prems(2) by (simp_all add: e)
      then have "stores i ([backslash, l] @ []) p = Some (p\<lparr>pb_buffer := Some (b[i := Some backslash, Suc i := Some l])\<rparr>)"
        using Cons.prems(1) by (simp add: store_def)
      from one [OF this] False Some Cons.prems l show ?thesis by (simp add: e store_def if_not_P [OF False])
    next
      case None
      then have e: "escape c = backslash # u04x c" using escape_by_code(1) [OF False] by blast
      have len: "length (u04x c) = 5" by (simp add: u04x_def)
      then have l: "i + 7 \<le> length b" using Cons.prems(2) by (simp add: e)
      let ?q = "p\<lparr>pb_buffer := Some (take i b @ map Some ((backslash # u04x c) @ NUL_text) @ drop (i + 7) b)\<rparr>"
      have "stores i ((backslash # u04x c) @ NUL_text) p = Some ?q"
        using stores_within [OF Cons.prems(1), of i "(backslash # u04x c) @ NUL_text"] l len by (simp add: NUL_text_def)
      moreover from this have "escape_loop (c # s) i p = escape_loop s (i + length (backslash # u04x c)) ?q"
        using None len by (auto simp: if_not_P [OF False] split: bind_splits)
      ultimately show ?thesis using one [of "backslash # u04x c" NUL_text ?q] Cons.prems(2) by (simp add: e NUL_text_def)
    qed
  qed
qed

lemma escape_nothing: "sum_list (map escape_count s) = 0 \<Longrightarrow> concat (map escape s) = s"
proof (induction s)
  case (Cons c s)
  have "escape_count c = 0" using Cons.prems by simp
  then have "escape c = [c]"
    using escape_plain(1) [of c] escape_by_letter(2) [of c] escape_by_code(2) [of c] by (cases "escape_letter c") auto
  then show ?case using Cons by simp
qed simp

lemma print_string_ptr_memory:
  assumes b: "pb_buffer q = Some b" "i + length (quoted (c_string s)) + 1 \<le> length b"
    and e: "ensure (length (quoted (c_string s)) + 1) p = Some (Some i, q)"
  shows "\<exists>b'. print_string_ptr (Some s) p = Some (True, q\<lparr>pb_buffer := Some b'\<rparr>) \<and> length b' = length b \<and>
    take (i + length (quoted (c_string s)) + 1) b' = take i b @ map Some (quoted (c_string s) @ NUL_text) \<and>
    drop (i + length (quoted (c_string s)) + 1) b' = drop (i + length (quoted (c_string s)) + 1) b"
proof -
  let ?s = "c_string s" and ?E = "concat (map escape (c_string s))"
  have len: "length ?s + sum_list (map escape_count ?s) + 3 = length (quoted ?s) + 1"
    "i + (length ?s + sum_list (map escape_count ?s)) + 1 = i + 1 + length ?E"
    and t: "quoted ?s = quote_char # ?E @ [quote_char]" by (simp_all add: quoted_def length_escape)
  show ?thesis
  proof (cases "sum_list (map escape_count ?s) = 0")
    case True
    have q: "[quote_char] @ ?s @ [quote_char] @ NUL_text = quoted ?s @ NUL_text" using escape_nothing [OF True] by (simp add: t)
    have "stores i (quoted ?s @ NUL_text) q =
        Some (q\<lparr>pb_buffer := Some (take i b @ map Some (quoted ?s @ NUL_text) @ drop (i + length (quoted ?s @ NUL_text)) b)\<rparr>)"
      using b by (intro stores_within) (simp_all add: NUL_text_def)
    then have "print_string_ptr (Some s) p =
        Some (True, q\<lparr>pb_buffer := Some (take i b @ map Some (quoted ?s @ NUL_text) @ drop (i + length (quoted ?s @ NUL_text)) b)\<rparr>)"
      unfolding print_string_ptr_def option.case Let_def len(1) e q if_P [OF True] by simp
    then show ?thesis using b(2) by (auto simp: NUL_text_def min_def)
  next
    case False
    have i: "i < length b" "i + 1 + length ?E + 2 \<le> length b" using b(2) by (simp_all add: t)
    let ?q1 = "q\<lparr>pb_buffer := Some (b[i := Some quote_char])\<rparr>"
    have s1: "store i quote_char q = Some ?q1" using b(1) i(1) by (simp add: store_def)
    obtain b2 where b2: "escape_loop ?s (i + 1) ?q1 = Some (?q1\<lparr>pb_buffer := Some b2\<rparr>)" "length b2 = length b"
      "take (i + 1 + length ?E) b2 = take (i + 1) (b[i := Some quote_char]) @ map Some ?E"
      "drop (i + 1 + length ?E + 1) b2 = drop (i + 1 + length ?E + 1) b"
      using escape_loop_writes [of ?q1 "b[i := Some quote_char]" "i + 1" ?s] i by auto
    let ?j = "i + 1 + length ?E"
    let ?b3 = "take ?j b2 @ map Some ([quote_char] @ NUL_text) @ drop (?j + 2) b2"
    have s3: "stores ?j ([quote_char] @ NUL_text) (?q1\<lparr>pb_buffer := Some b2\<rparr>) = Some (q\<lparr>pb_buffer := Some ?b3\<rparr>)"
      using stores_within [of "?q1\<lparr>pb_buffer := Some b2\<rparr>" b2 ?j "[quote_char] @ NUL_text"] i(2) b2(2) by (simp add: NUL_text_def)
    have "print_string_ptr (Some s) p = Some (True, q\<lparr>pb_buffer := Some ?b3\<rparr>)"
      unfolding print_string_ptr_def option.case Let_def len e if_not_P [OF False]
      by (simp only: bind.bind_lunit prod.case option.case s1 b2(1) s3 len(2))
    moreover have "length ?b3 = length b" using i(2) b2(2) by (simp add: NUL_text_def)
    moreover have l: "i + length (quoted ?s) + 1 = ?j + 2" by (simp add: t)
    moreover have "take (?j + 2) ?b3 = take i b @ map Some (quoted ?s @ NUL_text)"
    proof -
      have "take (i + 1) (b[i := Some quote_char]) = take i b @ [Some quote_char]" using i(1) by (simp add: take_Suc_conv_app_nth)
      then have "take ?j b2 = take i b @ Some quote_char # map Some ?E" using b2(3) by simp
      moreover have "length (take ?j b2 @ map Some ([quote_char] @ NUL_text)) = ?j + 2"
        using i(2) b2(2) by (simp add: NUL_text_def)
      then have "take (?j + 2) ?b3 = take ?j b2 @ map Some ([quote_char] @ NUL_text)"
        by (metis append_assoc append_eq_conv_conj)
      ultimately show ?thesis by (simp add: t NUL_text_def)
    qed
    moreover have "drop (?j + 2) ?b3 = drop (?j + 2) b"
      using drop_splice [of ?j "map Some ([quote_char] @ NUL_text)" "?j + 2" b2] i(2) b2(2)
        arg_cong [OF b2(4), of "drop 1"] by (simp add: NUL_text_def)
    ultimately show ?thesis by metis
  qed
qed

lemma print_string_ptr_prints: "prints_text (print_string_ptr (Some s)) p (quoted (c_string s))"
  unfolding prints_text_def
proof (intro allI impI)
  fix pre N
  let ?t = "quoted (c_string s)"
  assume st: "stands p pre" and N: "length pre + length ?t + 2 \<le> N"
  obtain r q where e: "ensure (length ?t + 1) p = Some (r, q)" "pb_ok q" "keeps p q"
    "r \<noteq> None \<Longrightarrow> r = Some (length pre) \<and> wrote q pre \<and> pb_offset q = length pre \<and> pb_depth q = pb_depth p \<and>
      pb_length p \<le> pb_length q \<and> length pre + (length ?t + 1) + 1 \<le> pb_length q"
    "roomy p (length pre + (length ?t + 1) + 1) \<Longrightarrow> r \<noteq> None"
    using ensure_reserves [OF st, of "length ?t + 1"] unfolding reserves_def by blast
  show "prints p (print_string_ptr (Some s)) N (value_written pre ?t (pb_depth p))"
  proof (cases r)
    case None
    have n: "length (c_string s) + sum_list (map escape_count (c_string s)) + 3 = length ?t + 1"
      by (simp add: quoted_def length_escape)
    then have "print_string_ptr (Some s) p = Some (False, q)"
      unfolding print_string_ptr_def option.case Let_def n e(1) None by simp
    then show ?thesis using e(2,3,5) None roomy_less [of _ N p] N by (auto simp: prints_def)
  next
    case (Some i)
    then have q: "r = Some (length pre)" "wrote q pre" "pb_offset q = length pre" "pb_depth q = pb_depth p"
      "pb_length p \<le> pb_length q" "length pre + length ?t + 2 \<le> pb_length q" using e(4) by auto
    obtain b where b: "pb_buffer q = Some b" "length pre \<le> length b" "take (length pre) b = map Some pre"
      using q(2) by (auto simp: wrote_def)
    have lb: "pb_length q \<le> length b" using e(2) b(1) by (simp add: pb_ok_def)
    obtain b' where b': "print_string_ptr (Some s) p = Some (True, q\<lparr>pb_buffer := Some b'\<rparr>)" "length b' = length b"
      "take (length pre + length ?t + 1) b' = map Some pre @ map Some (?t @ NUL_text)"
      "drop (length pre + length ?t + 1) b' = drop (length pre + length ?t + 1) b"
      using print_string_ptr_memory [OF b(1), of "length pre" s p] e(1) q(1,6) lb b(3) by auto
    let ?q = "q\<lparr>pb_buffer := Some b'\<rparr>"
    have "drop (pb_length q) b' = drop (pb_length q) b"
      using arg_cong [OF b'(4), of "drop (pb_length q - (length pre + length ?t + 1))"] q(6) by simp
    then have "keeps q ?q" using b'(2) b(1) by (simp add: keeps_def outside_def)
    then have "keeps p ?q" using keeps_trans [OF e(3)] by blast
    moreover have "pb_ok ?q" using e(2) b(1) b'(2) by (simp add: pb_ok_def)
    moreover have "value_written pre ?t (pb_depth p) ?q"
      using b'(2,3) q(3,4,6) lb by (simp add: value_written_def wrote_def NUL_text_def)
    ultimately show ?thesis using b'(1) q(5) by (auto simp: prints_def)
  qed
qed

section \<open>The text of a value\<close>

text \<open>What is printed, by format and depth, independent of the buffer.\<close>

function value_text :: "bool \<Rightarrow> nat \<Rightarrow> cJSON \<Rightarrow> string"
  and elements_text :: "bool \<Rightarrow> nat \<Rightarrow> cJSON list \<Rightarrow> string"
  and members_text :: "bool \<Rightarrow> nat \<Rightarrow> (string \<times> cJSON) list \<Rightarrow> string" where
  "value_text f d cJSON_NULL = ''null''"
| "value_text f d cJSON_False = ''false''"
| "value_text f d cJSON_True = ''true''"
| "value_text f d (cJSON_Number x i) = number_text x"
| "value_text f d (cJSON_Raw s) = c_string s"
| "value_text f d (cJSON_String s) = quoted (c_string s)"
| "value_text f d (cJSON_Array xs) = ''['' @ elements_text f (Suc d) xs @ '']''"
| "value_text f d (cJSON_Object ms) = ''{'' @ (if f then [CHR 0x0A] else []) @ members_text f (Suc d) ms @
     (if f then tabs d else []) @ ''}''"
| "elements_text f d [] = []"
| "elements_text f d (x # xs) = value_text f d x @ (if xs = [] then [] else if f then '', '' else '','') @ elements_text f d xs"
| "members_text f d [] = []"
| "members_text f d (m # ms) = (if f then tabs d else []) @ quoted (c_string (fst m)) @ '':'' @ (if f then [CHR 0x09] else []) @
     value_text f d (snd m) @ (if ms = [] then [] else '','') @ (if f then [CHR 0x0A] else []) @ members_text f d ms"
  by pat_completeness auto
termination
  by (relation "measure (case_sum (\<lambda>(f, d, x). size x) (case_sum (\<lambda>(f, d, xs). size_list size xs)
      (\<lambda>(f, d, ms). size_list (\<lambda>m. size (snd m)) ms)))")
    (simp_all add: size_members)

text \<open>The numbers of a value are doubles; in C they cannot be anything else.\<close>

fun printable :: "cJSON \<Rightarrow> bool" where
  "printable (cJSON_Number d i) = (case d of Finite x \<Rightarrow> double_value x | Infinite _ \<Rightarrow> True)"
| "printable (cJSON_Array xs) = (\<forall>x\<in>set xs. printable x)"
| "printable (cJSON_Object ms) = (\<forall>(k, v)\<in>set ms. printable v)"
| "printable _ = True"

lemma printable_object: "printable (cJSON_Object ms) \<longleftrightarrow> (\<forall>m\<in>set ms. printable (snd m))"
  by auto

declare printable.simps(3) [simp del] printable_object [simp]

lemma c_string_no_NUL: "CHR 0x00 \<notin> set (c_string s)"
  using set_takeWhileD [of "CHR 0x00" "\<lambda>c. c \<noteq> CHR 0x00" s] by (auto simp: c_string_def)

lemma quoted_c_string_no_NUL: "CHR 0x00 \<notin> set (quoted (c_string s))"
  using quoted_no_NUL c_string_no_NUL by (simp add: plain_string_def)

lemma number_text_no_NUL: "(case d of Finite x \<Rightarrow> double_value x | Infinite _ \<Rightarrow> True) \<Longrightarrow> CHR 0x00 \<notin> set (number_text d)"
proof (cases d)
  case (Finite x)
  assume "case d of Finite x \<Rightarrow> double_value x | Infinite _ \<Rightarrow> True"
  then have "number_shape (number_text d)" using Finite number_text_shape by simp
  moreover have "\<not> number_char CHR 0x00" by (simp add: number_char_def is_digit_def)
  ultimately show ?thesis by (auto simp: number_shape_def)
qed (simp add: number_text_def)

lemma text_no_NUL:
  "printable x \<Longrightarrow> CHR 0x00 \<notin> set (value_text f d x)"
  "\<forall>x\<in>set xs. printable x \<Longrightarrow> CHR 0x00 \<notin> set (elements_text f d xs)"
  "\<forall>m\<in>set ms. printable (snd m) \<Longrightarrow> CHR 0x00 \<notin> set (members_text f d ms)"
  by (induction f d x and f d xs and f d ms rule: value_text_elements_text_members_text.induct)
    (auto simp: number_text_no_NUL c_string_no_NUL quoted_c_string_no_NUL tabs_def)

section \<open>Containers\<close>

lemma stands_prefix:
  assumes "pb_ok q" "wrote q (s @ z)" "pb_offset q = length s" "length s < pb_length q"
  shows "stands q s"
proof -
  obtain b where b: "pb_buffer q = Some b" "length (s @ z) \<le> length b" "take (length (s @ z)) b = map Some (s @ z)"
    using assms(2) by (auto simp: wrote_def)
  have "take (length s) b = map Some s" using arg_cong [OF b(3), of "take (length s)"] by (simp add: min_def)
  then show ?thesis using assms b(1,2) by (auto simp: stands_def wrote_def)
qed

lemma prints_fragment:
  assumes st: "stands p pre" and len: "length w \<le> needed" "length w + length z \<le> needed + 1" and N: "length pre + needed + 1 \<le> N"
  shows "prints p (emit needed (w @ z) (length w)) N (\<lambda>q. stands q (pre @ w) \<and> pb_depth q = pb_depth p)"
proof (rule prints_conseq [OF prints_emit [OF st _ _ len(1) N]])
  fix q assume "pb_ok q" "wrote q (pre @ w @ z) \<and> pb_offset q = length pre + length w \<and> pb_depth q = pb_depth p \<and>
    length pre + needed + 1 \<le> pb_length q"
  then show "stands q (pre @ w) \<and> pb_depth q = pb_depth p"
    using len(1) by (auto intro!: stands_prefix [where z = z])
qed (use len in simp_all)

lemma prints_skip: "stands p pre \<Longrightarrow> prints p (\<lambda>p. Some (True, p)) N (\<lambda>q. stands q pre \<and> pb_depth q = pb_depth p)"
  unfolding prints_def by (intro exI [of _ True] exI [of _ p]) (auto simp: stands_def)

text \<open>A value with the offset moved behind it.\<close>

lemma prints_value_offset:
  assumes v: "prints_text f p t" and st: "stands p pre" and N: "length pre + length t + 2 \<le> N" and t: "CHR 0x00 \<notin> set t"
    and fs: "\<And>q. keeps p q \<Longrightarrow> stands q (pre @ t) \<Longrightarrow> pb_depth q = pb_depth p \<Longrightarrow> prints q (steps fs) N R"
  shows "prints p (steps (f # update_offset # fs)) N R"
proof (rule prints_steps_Cons)
  show "prints p f N (value_written pre t (pb_depth p))" using v st N by (simp add: prints_text_def)
  fix q assume q: "pb_ok q" "keeps p q" "value_written pre t (pb_depth p) q"
  show "prints q (steps (update_offset # fs)) N R"
  proof (rule prints_steps_Cons)
    show "prints q update_offset N (\<lambda>r. stands r (pre @ t) \<and> pb_depth r = pb_depth q)"
      using q t by (intro prints_conseq [OF prints_update_offset_NUL [where pre = pre and t = t]]) (simp_all add: value_written_def)
    fix r assume "keeps q r" "stands r (pre @ t) \<and> pb_depth r = pb_depth q"
    then show "prints r (steps fs) N R" using fs [of r] keeps_trans [OF q(2)] q(3) by (simp add: value_written_def)
  qed
qed

lemma prints_close:
  assumes st: "stands p pre" and len: "length t + 1 \<le> needed" and N: "length pre + needed + 1 \<le> N"
    and need: "length t + 1 = needed" and d: "pb_depth p = Suc d"
  shows "prints p (steps [emit needed (t @ NUL_text) 0, set_depth (\<lambda>d. d - 1)]) N
    (\<lambda>q. wrote q (pre @ t @ NUL_text) \<and> pb_offset q = length pre \<and> pb_depth q = d \<and> length pre + length t + 2 \<le> pb_length q)"
proof (rule prints_steps_Cons [OF prints_emit [OF st _ _ _ N]])
  fix q assume q: "pb_ok q" "wrote q (pre @ t @ NUL_text) \<and> pb_offset q = length pre + 0 \<and> pb_depth q = pb_depth p \<and>
    length pre + needed + 1 \<le> pb_length q"
  show "prints q (steps [set_depth (\<lambda>d. d - 1)]) N (\<lambda>q. wrote q (pre @ t @ NUL_text) \<and> pb_offset q = length pre \<and>
      pb_depth q = d \<and> length pre + length t + 2 \<le> pb_length q)"
    using q d need by (intro prints_steps_Cons [OF prints_set_depth] prints_steps_Nil) auto
qed (use need in \<open>simp_all add: NUL_text_def\<close>)

lemma print_elements_Cons:
  assumes x: "\<And>p. prints_text (print_value x) p (value_text (pb_format p) (pb_depth p) x)"
    and xs: "\<And>p pre N. stands p pre \<Longrightarrow> length pre + length (elements_text (pb_format p) (pb_depth p) xs) + 2 \<le> N \<Longrightarrow>
      prints p (print_elements xs) N (\<lambda>q. stands q (pre @ elements_text (pb_format p) (pb_depth p) xs) \<and> pb_depth q = pb_depth p)"
    and ok: "printable x" and st: "stands p pre"
    and N: "length pre + length (elements_text (pb_format p) (pb_depth p) (x # xs)) + 2 \<le> N"
  shows "prints p (print_elements (x # xs)) N
    (\<lambda>q. stands q (pre @ elements_text (pb_format p) (pb_depth p) (x # xs)) \<and> pb_depth q = pb_depth p)"
proof -
  let ?f = "pb_format p" and ?d = "pb_depth p"
  let ?t = "value_text ?f ?d x" and ?sep = "if xs = [] then [] else if ?f then '', '' else '',''"
  show ?thesis
    unfolding print_elements.simps
  proof (rule prints_value_offset [OF x st _ text_no_NUL(1) [OF ok]])
    show "length pre + length ?t + 2 \<le> N" using N by simp
    fix q assume q: "keeps p q" "stands q (pre @ ?t)" "pb_depth q = ?d"
    then have f: "pb_format q = ?f" by (simp add: keeps_def)
    show "prints q (steps [element_separator (xs \<noteq> []), print_elements xs]) N
        (\<lambda>q. stands q (pre @ elements_text ?f ?d (x # xs)) \<and> pb_depth q = ?d)"
    proof (rule prints_steps_Cons)
      show "prints q (element_separator (xs \<noteq> [])) N (\<lambda>r. stands r ((pre @ ?t) @ ?sep) \<and> pb_depth r = ?d)"
      proof (cases "xs = []")
        case True
        then show ?thesis using prints_skip [OF q(2)] q(3) by (simp add: element_separator_def [abs_def])
      next
        case False
        have e: "element_separator (xs \<noteq> []) q = emit (length ?sep + 1) (?sep @ NUL_text) (length ?sep) q"
          using False f by (simp add: element_separator_def eval_nat_numeral)
        have "prints q (emit (length ?sep + 1) (?sep @ NUL_text) (length ?sep)) N
            (\<lambda>r. stands r ((pre @ ?t) @ ?sep) \<and> pb_depth r = pb_depth q)"
          using N by (intro prints_fragment [OF q(2)]) (simp_all add: NUL_text_def)
        then show ?thesis using q(3) unfolding prints_def e by simp
      qed
      fix r assume r: "pb_ok r" "keeps q r" "stands r ((pre @ ?t) @ ?sep) \<and> pb_depth r = ?d"
      then have f': "pb_format r = ?f" using f by (simp add: keeps_def)
      show "prints r (steps [print_elements xs]) N (\<lambda>q. stands q (pre @ elements_text ?f ?d (x # xs)) \<and> pb_depth q = ?d)"
      proof (rule prints_steps_Cons)
        show "prints r (print_elements xs) N (\<lambda>s. stands s (((pre @ ?t) @ ?sep) @ elements_text ?f ?d xs) \<and> pb_depth s = ?d)"
          using xs [of r "(pre @ ?t) @ ?sep" N] r(3) f' N by simp
      qed (auto intro!: prints_steps_Nil)
    qed
  qed
qed

lemma print_array_prints:
  assumes xs: "\<And>p pre N. stands p pre \<Longrightarrow> length pre + length (elements_text (pb_format p) (pb_depth p) xs) + 2 \<le> N \<Longrightarrow>
      prints p (print_elements xs) N (\<lambda>q. stands q (pre @ elements_text (pb_format p) (pb_depth p) xs) \<and> pb_depth q = pb_depth p)"
  shows "prints_text (print_value (cJSON_Array xs)) p (value_text (pb_format p) (pb_depth p) (cJSON_Array xs))"
  unfolding prints_text_def print_value.simps print_array_def
proof (intro allI impI)
  fix pre N
  let ?f = "pb_format p" and ?d = "pb_depth p"
  let ?e = "elements_text ?f (Suc ?d) xs"
  assume st: "stands p pre" and N: "length pre + length (value_text ?f ?d (cJSON_Array xs)) + 2 \<le> N"
  show "prints p (steps [emit 1 ''['' 1, set_depth Suc, print_elements xs, emit 2 ('']'' @ NUL_text) 0, set_depth (\<lambda>d. d - 1)]) N
      (value_written pre (value_text ?f ?d (cJSON_Array xs)) ?d)"
  proof (rule prints_steps_Cons)
    show "prints p (emit 1 ''['' 1) N (\<lambda>q. stands q (pre @ ''['') \<and> pb_depth q = ?d)"
      using prints_fragment [OF st, of "''[''" 1 "[]" N] N by simp
    fix q assume q: "pb_ok q" "keeps p q" "stands q (pre @ ''['') \<and> pb_depth q = ?d"
    show "prints q (steps [set_depth Suc, print_elements xs, emit 2 ('']'' @ NUL_text) 0, set_depth (\<lambda>d. d - 1)]) N
        (value_written pre (value_text ?f ?d (cJSON_Array xs)) ?d)"
    proof (rule prints_steps_Cons [OF prints_set_depth [OF q(1)]])
      fix r assume r: "r = q\<lparr>pb_depth := Suc (pb_depth q)\<rparr>"
      then have r': "stands r (pre @ ''['')" "pb_depth r = Suc ?d" "pb_format r = ?f" using q by (auto simp: keeps_def)
      show "prints r (steps [print_elements xs, emit 2 ('']'' @ NUL_text) 0, set_depth (\<lambda>d. d - 1)]) N
          (value_written pre (value_text ?f ?d (cJSON_Array xs)) ?d)"
      proof (rule prints_steps_Cons)
        show "prints r (print_elements xs) N (\<lambda>s. stands s ((pre @ ''['') @ ?e) \<and> pb_depth s = Suc ?d)"
          using xs [OF r'(1), of N] r'(2,3) N by simp
        fix s assume "stands s ((pre @ ''['') @ ?e) \<and> pb_depth s = Suc ?d"
        then show "prints s (steps [emit 2 ('']'' @ NUL_text) 0, set_depth (\<lambda>d. d - 1)]) N
            (value_written pre (value_text ?f ?d (cJSON_Array xs)) ?d)"
          using N by (intro prints_conseq [OF prints_close [where d = ?d]]) (auto simp: value_written_def)
      qed
    qed
  qed
qed

text \<open>A step that depends on the buffer only through the fragment it emits.\<close>

lemma prints_as_fragment:
  assumes "f p = emit needed (w @ z) (length w) p" "stands p pre" "length w \<le> needed" "length w + length z \<le> needed + 1"
    "length pre + needed + 1 \<le> N"
  shows "prints p f N (\<lambda>q. stands q (pre @ w) \<and> pb_depth q = pb_depth p)"
  using prints_fragment [OF assms(2-5)] assms(1) unfolding prints_def by simp

lemma open_object_prints:
  assumes st: "stands p pre" and N: "length pre + 4 \<le> N"
  shows "prints p open_object N (\<lambda>q. stands q (pre @ ''{'' @ (if pb_format p then [CHR 0x0A] else [])) \<and> pb_depth q = Suc (pb_depth p))"
proof -
  let ?w = "''{'' @ (if pb_format p then [CHR 0x0A] else [])"
  have "open_object p = steps [emit (length ?w + 1) (?w @ []) (length ?w), set_depth Suc] p"
    by (simp add: open_object_def eval_nat_numeral)
  moreover have "prints p (steps [emit (length ?w + 1) (?w @ []) (length ?w), set_depth Suc]) N
      (\<lambda>q. stands q (pre @ ?w) \<and> pb_depth q = Suc (pb_depth p))"
  proof (rule prints_steps_Cons [OF prints_fragment [OF st]])
    fix q assume "pb_ok q" "stands q (pre @ ?w) \<and> pb_depth q = pb_depth p"
    then show "prints q (steps [set_depth Suc]) N (\<lambda>q. stands q (pre @ ?w) \<and> pb_depth q = Suc (pb_depth p))"
      by (intro prints_steps_Cons [OF prints_set_depth] prints_steps_Nil) auto
  qed (use N in auto)
  ultimately show ?thesis unfolding prints_def by simp
qed

lemma print_members_Cons:
  assumes v: "\<And>p. prints_text (print_value (snd m)) p (value_text (pb_format p) (pb_depth p) (snd m))"
    and ms: "\<And>p pre N. stands p pre \<Longrightarrow> length pre + length (members_text (pb_format p) (pb_depth p) ms) + 2 \<le> N \<Longrightarrow>
      prints p (print_members ms) N (\<lambda>q. stands q (pre @ members_text (pb_format p) (pb_depth p) ms) \<and> pb_depth q = pb_depth p)"
    and ok: "printable (snd m)" and st: "stands p pre"
    and N: "length pre + length (members_text (pb_format p) (pb_depth p) (m # ms)) + 2 \<le> N"
  shows "prints p (print_members (m # ms)) N
    (\<lambda>q. stands q (pre @ members_text (pb_format p) (pb_depth p) (m # ms)) \<and> pb_depth q = pb_depth p)"
proof -
  let ?f = "pb_format p" and ?d = "pb_depth p"
  let ?i = "if ?f then tabs ?d else []" and ?k = "quoted (c_string (fst m))" and ?c = "'':'' @ (if ?f then [CHR 0x09] else [])"
  let ?v = "value_text ?f ?d (snd m)" and ?s = "(if ms = [] then [] else '','') @ (if ?f then [CHR 0x0A] else [])"
  have total: "length pre + length ?i + length ?k + length ?c + length ?v + length ?s + length (members_text ?f ?d ms) + 2 \<le> N"
    using N by simp
  let ?R = "\<lambda>q. stands q (pre @ members_text ?f ?d (m # ms)) \<and> pb_depth q = ?d"
  show ?thesis
    unfolding print_members.simps
  proof (rule prints_steps_Cons)
    show "prints p member_indent N (\<lambda>q. stands q (pre @ ?i) \<and> pb_depth q = ?d)"
    proof (cases ?f)
      case True
      have len: "length (tabs n) = n" for n by (simp add: tabs_def)
      show ?thesis using True prints_as_fragment [of member_indent p "?d" "tabs ?d" "[]", OF _ st] total
        by (simp add: member_indent_def len quoted_def)
    next
      case False
      then show ?thesis using prints_skip [OF st, of N] by (simp add: prints_def member_indent_def)
    qed
    fix q1 assume q1: "pb_ok q1" "keeps p q1" "stands q1 (pre @ ?i) \<and> pb_depth q1 = ?d"
    show "prints q1 (steps [print_string_ptr (Some (fst m)), update_offset, member_colon, print_value (snd m), update_offset,
        member_separator (ms \<noteq> []), print_members ms]) N ?R"
    proof (rule prints_value_offset [OF print_string_ptr_prints conjunct1 [OF q1(3)] _ quoted_c_string_no_NUL])
      fix q2 assume q2: "keeps q1 q2" "stands q2 ((pre @ ?i) @ ?k)" "pb_depth q2 = pb_depth q1"
      then have f2: "pb_format q2 = ?f" "pb_depth q2 = ?d" using q1 by (auto simp: keeps_def)
      show "prints q2 (steps [member_colon, print_value (snd m), update_offset, member_separator (ms \<noteq> []), print_members ms]) N ?R"
      proof (rule prints_steps_Cons)
        show "prints q2 member_colon N (\<lambda>q. stands q (((pre @ ?i) @ ?k) @ ?c) \<and> pb_depth q = pb_depth q2)"
          using total by (intro prints_as_fragment [where needed = "length ?c" and z = "[]", OF _ q2(2)])
            (simp_all add: member_colon_def f2 eval_nat_numeral)
        fix q3 assume q3: "keeps q2 q3" "stands q3 (((pre @ ?i) @ ?k) @ ?c) \<and> pb_depth q3 = pb_depth q2"
        then have f3: "pb_format q3 = ?f" "pb_depth q3 = ?d" using f2 by (auto simp: keeps_def)
        have v3: "prints_text (print_value (snd m)) q3 ?v" using v [of q3] f3 by simp
        show "prints q3 (steps [print_value (snd m), update_offset, member_separator (ms \<noteq> []), print_members ms]) N ?R"
        proof (rule prints_value_offset [OF v3 conjunct1 [OF q3(2)] _ text_no_NUL(1) [OF ok]])
          fix q4 assume q4: "keeps q3 q4" "stands q4 ((((pre @ ?i) @ ?k) @ ?c) @ ?v)" "pb_depth q4 = pb_depth q3"
          then have f4: "pb_format q4 = ?f" "pb_depth q4 = ?d" using f3 by (auto simp: keeps_def)
          show "prints q4 (steps [member_separator (ms \<noteq> []), print_members ms]) N ?R"
          proof (rule prints_steps_Cons)
            show "prints q4 (member_separator (ms \<noteq> [])) N
                (\<lambda>q. stands q (((((pre @ ?i) @ ?k) @ ?c) @ ?v) @ ?s) \<and> pb_depth q = pb_depth q4)"
              using total by (intro prints_as_fragment [where needed = "length ?s + 1" and z = NUL_text, OF _ q4(2)])
                (simp_all add: member_separator_def f4 NUL_text_def)
            fix q5 assume q5: "keeps q4 q5" "stands q5 (((((pre @ ?i) @ ?k) @ ?c) @ ?v) @ ?s) \<and> pb_depth q5 = pb_depth q4"
            then have f5: "pb_format q5 = ?f" "pb_depth q5 = ?d" using f4 by (auto simp: keeps_def)
            have "prints q5 (print_members ms) N (\<lambda>q. stands q ((((((pre @ ?i) @ ?k) @ ?c) @ ?v) @ ?s) @ members_text ?f ?d ms) \<and>
                pb_depth q = pb_depth q5)"
              using ms [OF conjunct1 [OF q5(2)], of N] total f5 by simp
            then show "prints q5 (steps [print_members ms]) N ?R"
              by (rule prints_steps_Cons) (use f5 in \<open>auto intro!: prints_steps_Nil\<close>)
          qed
        qed (use total in simp)
      qed
    qed (use total in simp)
  qed
qed

lemma print_object_prints:
  assumes ms: "\<And>p pre N. stands p pre \<Longrightarrow> length pre + length (members_text (pb_format p) (pb_depth p) ms) + 2 \<le> N \<Longrightarrow>
      prints p (print_members ms) N (\<lambda>q. stands q (pre @ members_text (pb_format p) (pb_depth p) ms) \<and> pb_depth q = pb_depth p)"
  shows "prints_text (print_value (cJSON_Object ms)) p (value_text (pb_format p) (pb_depth p) (cJSON_Object ms))"
  unfolding prints_text_def print_value.simps print_object_def
proof (intro allI impI)
  fix pre N
  let ?f = "pb_format p" and ?d = "pb_depth p"
  let ?o = "''{'' @ (if ?f then [CHR 0x0A] else [])" and ?m = "members_text ?f (Suc ?d) ms"
  let ?c = "(if ?f then tabs ?d else []) @ ''}''"
  let ?Q = "value_written pre (value_text ?f ?d (cJSON_Object ms)) ?d"
  have t: "value_text ?f ?d (cJSON_Object ms) = ?o @ ?m @ ?c" by simp
  assume st: "stands p pre" and N: "length pre + length (value_text ?f ?d (cJSON_Object ms)) + 2 \<le> N"
  show "prints p (steps [open_object, print_members ms, close_object]) N ?Q"
  proof (rule prints_steps_Cons)
    show "prints p open_object N (\<lambda>q. stands q (pre @ ?o) \<and> pb_depth q = Suc ?d)"
      using N t by (intro open_object_prints [OF st]) simp
    fix q assume q: "keeps p q" "stands q (pre @ ?o) \<and> pb_depth q = Suc ?d"
    then have f: "pb_format q = ?f" by (simp add: keeps_def)
    show "prints q (steps [print_members ms, close_object]) N ?Q"
    proof (rule prints_steps_Cons)
      show "prints q (print_members ms) N (\<lambda>r. stands r ((pre @ ?o) @ ?m) \<and> pb_depth r = Suc ?d)"
        using ms [OF conjunct1 [OF q(2)], of N] q(2) f N t by simp
      fix r assume r: "pb_ok r" "keeps q r" "stands r ((pre @ ?o) @ ?m) \<and> pb_depth r = Suc ?d"
      then have f': "pb_format r = ?f" using f by (simp add: keeps_def)
      have len: "length (tabs n) = n" for n by (simp add: tabs_def)
      have e: "close_object r = steps [emit (length ?c + 1) (?c @ NUL_text) 0, set_depth (\<lambda>d. d - 1)] r"
        using r(3) f' by (simp add: close_object_def len eval_nat_numeral)
      have "prints r (steps [emit (length ?c + 1) (?c @ NUL_text) 0, set_depth (\<lambda>d. d - 1)]) N ?Q"
        using r(3) N t by (intro prints_conseq [OF prints_close [where d = ?d]]) (auto simp: value_written_def)
      then have "prints r close_object N ?Q" unfolding prints_def e .
      then show "prints r (steps [close_object]) N ?Q"
        by (rule prints_steps_Cons) (auto intro!: prints_steps_Nil)
    qed
  qed
qed

text \<open>The contract of every print function, by induction over the value.\<close>

lemma print_value_prints:
  "printable x \<Longrightarrow> prints_text (print_value x) p (value_text (pb_format p) (pb_depth p) x)"
  "\<forall>x\<in>set xs. printable x \<Longrightarrow> stands p pre \<Longrightarrow> length pre + length (elements_text (pb_format p) (pb_depth p) xs) + 2 \<le> N \<Longrightarrow>
    prints p (print_elements xs) N (\<lambda>q. stands q (pre @ elements_text (pb_format p) (pb_depth p) xs) \<and> pb_depth q = pb_depth p)"
  "\<forall>m\<in>set ms. printable (snd m) \<Longrightarrow> stands p pre \<Longrightarrow> length pre + length (members_text (pb_format p) (pb_depth p) ms) + 2 \<le> N \<Longrightarrow>
    prints p (print_members ms) N (\<lambda>q. stands q (pre @ members_text (pb_format p) (pb_depth p) ms) \<and> pb_depth q = pb_depth p)"
proof (induction x and xs and ms arbitrary: p and p pre N and p pre N rule: print_value_print_elements_print_members.induct)
  case 1
  then show ?case using prints_literal [of "''null''"] by (simp add: eval_nat_numeral)
next
  case 2
  then show ?case using prints_literal [of "''false''"] by (simp add: eval_nat_numeral)
next
  case 3
  then show ?case using prints_literal [of "''true''"] by (simp add: eval_nat_numeral)
next
  case (4 d i)
  then show ?case using print_number_prints [of d p] by (auto split: double.splits)
next
  case (5 s)
  then show ?case using prints_literal [of "c_string s"] by simp
next
  case (6 s)
  then show ?case using print_string_ptr_prints [of s p] by (simp add: print_string_def)
next
  case (7 xs)
  then show ?case by (intro print_array_prints) simp
next
  case (8 ms)
  then show ?case by (intro print_object_prints) simp
next
  case 9
  then show ?case using prints_skip by simp
next
  case (10 x xs)
  then show ?case by (intro print_elements_Cons) simp_all
next
  case 11
  then show ?case using prints_skip by simp
next
  case (12 m ms)
  then show ?case by (intro print_members_Cons) simp_all
qed

section \<open>The entry points\<close>

definition generous :: "internal_hooks \<Rightarrow> bool" where
  "generous h \<longleftrightarrow> (\<forall>k n. hk_allocate h k n) \<and> (\<forall>f k n. hk_reallocate h = Some f \<longrightarrow> f k n)"

lemma stands_empty:
  "nat len \<le> length b \<Longrightarrow> noalloc \<or> nat len = length b \<and> (hk_reallocate h \<noteq> None \<or> 0 < len) \<Longrightarrow>
   stands \<lparr>pb_buffer = Some b, pb_length = nat len, pb_offset = 0, pb_depth = 0, pb_noalloc = noalloc,
     pb_format = f, pb_hooks = h, pb_requests = k\<rparr> []"
  by (auto simp: stands_def pb_ok_def wrote_def)

lemma print_memory:
  assumes x: "printable x"
  shows "print x f h = Some None \<or> print x f h = Some (Some (map Some (value_text f 0 x @ NUL_text)))"
    "generous h \<Longrightarrow> int (length (value_text f 0 x)) + 2 \<le> INT_MAX \<Longrightarrow>
      print x f h = Some (Some (map Some (value_text f 0 x @ NUL_text)))"
proof -
  let ?p = "\<lparr>pb_buffer = Some (replicate 256 None), pb_length = 256, pb_offset = 0, pb_depth = 0,
    pb_noalloc = False, pb_format = f, pb_hooks = h, pb_requests = 1\<rparr>"
  let ?t = "value_text f 0 x"
  have st: "stands ?p []" using stands_empty [of 256 "replicate 256 None" False h f] by simp
  have "prints ?p (steps [print_value x, update_offset]) (length ?t + 2) (\<lambda>q. stands q ([] @ ?t) \<and>
      length ?t + 2 \<le> pb_length q \<and> wrote q (?t @ NUL_text))"
  proof (rule prints_steps_Cons)
    show "prints ?p (print_value x) (length ?t + 2) (value_written [] ?t 0)"
      using print_value_prints(1) [OF x, of ?p] st by (simp add: prints_text_def)
    fix q assume q: "pb_ok q" "value_written [] ?t 0 q"
    have u: "prints q update_offset (length ?t + 2) (\<lambda>r. stands r ([] @ ?t) \<and> pb_depth r = pb_depth q \<and> wrote r ([] @ ?t @ NUL_text))"
      using q text_no_NUL(1) [OF x, of f 0] by (intro prints_update_offset_NUL) (simp_all add: value_written_def)
    show "prints q (steps [update_offset]) (length ?t + 2) (\<lambda>r. stands r ([] @ ?t) \<and> length ?t + 2 \<le> pb_length r \<and>
        wrote r (?t @ NUL_text))"
      using q(2) by (intro prints_steps_Cons [OF u] prints_steps_Nil) (auto simp: value_written_def)
  qed
  then obtain ok q where q: "steps [print_value x, update_offset] ?p = Some (ok, q)" "pb_ok q" "keeps ?p q"
    "ok \<Longrightarrow> stands q ?t \<and> length ?t + 2 \<le> pb_length q \<and> wrote q (?t @ NUL_text)" "roomy ?p (length ?t + 2) \<Longrightarrow> ok"
    by (auto simp: prints_def)
  have res: "print x f h = Some None \<or> print x f h = Some (Some (map Some (?t @ NUL_text)))"
    "generous h \<Longrightarrow> ok \<Longrightarrow> print x f h = Some (Some (map Some (?t @ NUL_text)))"
  proof -
    show "print x f h = Some None \<or> print x f h = Some (Some (map Some (?t @ NUL_text)))" and
      "generous h \<Longrightarrow> ok \<Longrightarrow> print x f h = Some (Some (map Some (?t @ NUL_text)))"
    proof (atomize (full), cases ok)
      case False
      then show "(print x f h = Some None \<or> print x f h = Some (Some (map Some (?t @ NUL_text)))) \<and>
          (generous h \<longrightarrow> ok \<longrightarrow> print x f h = Some (Some (map Some (?t @ NUL_text))))"
        using q(1) by (auto simp: print_def split: option.splits)
    next
      case True
      then obtain b where b: "pb_buffer q = Some b" "length ?t + 1 \<le> length b" "take (length ?t + 1) b = map Some (?t @ NUL_text)"
        and l: "pb_offset q = length ?t" "length ?t + 2 \<le> pb_length q" "pb_length q \<le> length b"
        using q(2,4) by (auto simp: wrote_def NUL_text_def stands_def pb_ok_def)
      have fin: "(map Some (?t @ NUL_text))[length ?t := Some CHR 0x00] = map Some (?t @ NUL_text)"
        by (simp add: NUL_text_def list_update_append)
      have "print x f h = (if \<not> hk_allocate h 0 256 then Some None else
          case hk_reallocate h of
            Some re \<Rightarrow> if \<not> re (pb_requests q) (length ?t + 1) then Some None else Some (Some (map Some (?t @ NUL_text)))
          | None \<Rightarrow> if \<not> hk_allocate h (pb_requests q) (length ?t + 1) then Some None else Some (Some (map Some (?t @ NUL_text))))"
        using q(1) True b l fin by (auto simp: print_def min_def split: option.splits)
      then show "(print x f h = Some None \<or> print x f h = Some (Some (map Some (?t @ NUL_text)))) \<and>
          (generous h \<longrightarrow> ok \<longrightarrow> print x f h = Some (Some (map Some (?t @ NUL_text))))"
        by (auto simp: generous_def split: option.splits)
    qed
  qed
  show "print x f h = Some None \<or> print x f h = Some (Some (map Some (?t @ NUL_text)))" by (rule res(1))
  show "print x f h = Some (Some (map Some (?t @ NUL_text)))"
    if "generous h" "int (length ?t) + 2 \<le> INT_MAX"
    using res(2) q(5) that by (auto simp: roomy_def generous_def)
qed

lemma print_value_start:
  assumes "printable x" "stands p []" "pb_depth p = 0"
  shows "\<exists>ok q. print_value x p = Some (ok, q) \<and> pb_ok q \<and> keeps p q \<and>
    (ok \<longrightarrow> wrote q (value_text (pb_format p) 0 x @ NUL_text) \<and> length (value_text (pb_format p) 0 x) + 2 \<le> pb_length q) \<and>
    (roomy p (length (value_text (pb_format p) 0 x) + 2) \<longrightarrow> ok)"
proof -
  let ?t = "value_text (pb_format p) 0 x"
  have "prints p (print_value x) (length ?t + 2) (value_written [] ?t 0)"
    using print_value_prints(1) [OF assms(1), of p] assms(2,3) by (simp add: prints_text_def)
  then show ?thesis by (fastforce simp: prints_def value_written_def)
qed

text \<open>
  C9: printing into the caller's memory. For a buffer of at least \<open>len\<close> bytes,
  \<open>cJSON_PrintPreallocated\<close> never touches memory outside its first \<open>len\<close> bytes, whatever the
  value; it reports success exactly when the text, its NUL and one byte more fit, and then the
  memory starts with the text and a NUL. (The header asks for five bytes more.)
\<close>

theorem cJSON_PrintPreallocated_exact:
  assumes "printable x" "0 \<le> len" "len \<le> INT_MAX" "nat len \<le> length b"
  shows "\<exists>ok b'. cJSON_PrintPreallocated h x (Some b) len fmt = Some (ok, Some b') \<and> length b' = length b \<and>
    drop (nat len) b' = drop (nat len) b \<and> (ok \<longleftrightarrow> int (length (value_text fmt 0 x)) + 2 \<le> len) \<and>
    (ok \<longrightarrow> take (length (value_text fmt 0 x) + 1) b' = map Some (value_text fmt 0 x @ NUL_text))"
proof -
  let ?p = "\<lparr>pb_buffer = Some b, pb_length = nat len, pb_offset = 0, pb_depth = 0, pb_noalloc = True,
    pb_format = fmt, pb_hooks = h, pb_requests = 0\<rparr>"
  let ?t = "value_text fmt 0 x"
  have st: "stands ?p []" using stands_empty [OF assms(4), of True h fmt] by simp
  obtain ok q where q: "print_value x ?p = Some (ok, q)" "pb_ok q" "keeps ?p q"
    "ok \<Longrightarrow> wrote q (?t @ NUL_text) \<and> length ?t + 2 \<le> pb_length q" "roomy ?p (length ?t + 2) \<Longrightarrow> ok"
    using print_value_start [OF assms(1) st] by auto
  have k: "pb_length q = nat len" "outside (nat len) (pb_buffer q) = outside (nat len) (Some b)"
    using q(3) by (simp_all add: keeps_def)
  then obtain b' where b': "pb_buffer q = Some b'" "length b' = length b" "drop (nat len) b' = drop (nat len) b"
    by (auto simp: outside_def)
  have "ok \<longleftrightarrow> int (length ?t) + 2 \<le> len"
    using q(4,5) k(1) assms(2,3) by (auto simp: roomy_def)
  moreover have "cJSON_PrintPreallocated h x (Some b) len fmt = Some (ok, Some b')"
    using assms(2) q(1) b'(1) by (simp add: cJSON_PrintPreallocated_def)
  moreover have "ok \<longrightarrow> take (length ?t + 1) b' = map Some (?t @ NUL_text)"
    using q(4) b'(1) by (auto simp: wrote_def NUL_text_def)
  ultimately show ?thesis using b'(2,3) by blast
qed

theorem cJSON_PrintPreallocated_exact_witness:
  "\<exists>b'. cJSON_PrintPreallocated \<lparr>hk_allocate = (\<lambda>_ _. False), hk_reallocate = None\<rparr> (cJSON_Array [cJSON_True, cJSON_NULL]) (Some (replicate 20 None)) 13 False = Some (True, Some b') \<and>
    take (length ''[true,null]'' + 1) b' = map Some (''[true,null]'' @ NUL_text)"
proof -
  let ?h = "\<lparr>hk_allocate = (\<lambda>_ _. False), hk_reallocate = None\<rparr> :: internal_hooks"
  let ?x = "cJSON_Array [cJSON_True, cJSON_NULL]"
  have t: "value_text False 0 ?x = ''[true,null]''" by simp
  have l: "13 \<le> INT_MAX" "printable ?x" "nat 13 \<le> length (replicate 20 None)" by (simp_all add: INT_MAX_def)
  obtain ok b' where "cJSON_PrintPreallocated ?h ?x (Some (replicate 20 None)) 13 False = Some (ok, Some b')"
    "ok \<longleftrightarrow> int (length (value_text False 0 ?x)) + 2 \<le> 13"
    "ok \<longrightarrow> take (length (value_text False 0 ?x) + 1) b' = map Some (value_text False 0 ?x @ NUL_text)"
    using cJSON_PrintPreallocated_exact [OF l(2) _ l(1) l(3), of ?h False] by auto
  then show ?thesis unfolding t by auto
qed

text \<open>
  C11: printing into a growing buffer. Whichever of its requests the allocator grants or refuses,
  \<open>cJSON_Print\<close> and \<open>cJSON_PrintUnformatted\<close> return a null pointer or exactly the text with its
  NUL; when no request is refused each of them returns its text, as long as that text is at least
  two bytes shorter than \<open>INT_MAX\<close>.
\<close>

theorem cJSON_Print_outcome:
  assumes "printable x"
  shows "cJSON_Print h x \<in> {Some None, Some (Some (map Some (value_text True 0 x @ NUL_text)))} \<and>
    cJSON_PrintUnformatted h x \<in> {Some None, Some (Some (map Some (value_text False 0 x @ NUL_text)))} \<and>
    (generous h \<and> int (length (value_text True 0 x)) + 2 \<le> INT_MAX \<longrightarrow> cJSON_Print h x \<noteq> Some None) \<and>
    (generous h \<and> int (length (value_text False 0 x)) + 2 \<le> INT_MAX \<longrightarrow> cJSON_PrintUnformatted h x \<noteq> Some None)"
  using print_memory [OF assms, where f = True and h = h] print_memory [OF assms, where f = False and h = h]
  by (auto simp: cJSON_Print_def cJSON_PrintUnformatted_def)

theorem cJSON_Print_outcome_witness:
  "cJSON_Print \<lparr>hk_allocate = (\<lambda>_ _. True), hk_reallocate = None\<rparr> (cJSON_Object [(''up'', cJSON_True)]) =
    Some (Some (map Some (value_text True 0 (cJSON_Object [(''up'', cJSON_True)]) @ NUL_text))) \<and>
   cJSON_PrintUnformatted \<lparr>hk_allocate = (\<lambda>_ _. True), hk_reallocate = None\<rparr> (cJSON_Object [(''up'', cJSON_True)]) =
    Some (Some (map Some (value_text False 0 (cJSON_Object [(''up'', cJSON_True)]) @ NUL_text)))"
proof -
  let ?x = "cJSON_Object [(''up'', cJSON_True)]" and ?h = "\<lparr>hk_allocate = (\<lambda>_ _. True), hk_reallocate = None\<rparr>"
  have l: "int (length (value_text f 0 ?x)) + 2 \<le> INT_MAX" for f
    by (simp add: c_string_def quoted_def escape_def tabs_def quote_char_def backslash_def INT_MAX_def)
  have "printable ?x" "generous ?h" by (simp_all add: generous_def)
  with cJSON_Print_outcome [OF this(1), of ?h] l show ?thesis by blast
qed

text \<open>
  \<open>cJSON_PrintBuffered\<close> with a buffer to start from is as safe: a null pointer or memory that
  starts with the text and its NUL. With an initial size of zero and an allocator without
  \<open>realloc\<close> it copies a byte from the empty buffer.
\<close>

lemma cJSON_PrintBuffered_empty:
  assumes "hk_reallocate h = None" "\<And>k n. hk_allocate h k n"
  shows "cJSON_PrintBuffered h (cJSON_Array xs) 0 fmt = None"
  using assms
  by (simp add: cJSON_PrintBuffered_def print_array_def emit_def ensure_def grow_buffer_def INT_MAX_def Let_def)

lemma cJSON_PrintBuffered_memory:
  assumes "printable x" "0 < prebuffer \<or> hk_reallocate h \<noteq> None"
  shows "\<exists>r. cJSON_PrintBuffered h x prebuffer fmt = Some r \<and>
    (case r of None \<Rightarrow> True | Some b \<Rightarrow> take (length (value_text fmt 0 x) + 1) b = map Some (value_text fmt 0 x @ NUL_text))"
proof -
  let ?b = "replicate (nat prebuffer) None"
  let ?p = "\<lparr>pb_buffer = Some ?b, pb_length = nat prebuffer, pb_offset = 0, pb_depth = 0, pb_noalloc = False,
    pb_format = fmt, pb_hooks = h, pb_requests = 1\<rparr>"
  have "nat prebuffer \<le> length ?b" "False \<or> nat prebuffer = length ?b \<and> (hk_reallocate h \<noteq> None \<or> 0 < prebuffer)"
    using assms(2) by auto
  from stands_empty [OF this, of fmt] have st: "stands ?p []" .
  obtain ok q where q: "print_value x ?p = Some (ok, q)" "ok \<Longrightarrow> wrote q (value_text fmt 0 x @ NUL_text)"
    using print_value_start [OF assms(1) st] by auto
  then show ?thesis
    by (auto simp: cJSON_PrintBuffered_def wrote_def NUL_text_def split: option.splits)
qed

theorem cJSON_PrintBuffered_outcome:
  assumes "printable x"
  shows "(0 < prebuffer \<or> hk_reallocate h \<noteq> None \<longrightarrow> (\<exists>r. cJSON_PrintBuffered h x prebuffer fmt = Some r \<and>
      (case r of None \<Rightarrow> True | Some b \<Rightarrow> take (length (value_text fmt 0 x) + 1) b = map Some (value_text fmt 0 x @ NUL_text)))) \<and>
    (hk_reallocate h = None \<and> (\<forall>k n. hk_allocate h k n) \<longrightarrow> cJSON_PrintBuffered h (cJSON_Array xs) 0 fmt = None)"
  using cJSON_PrintBuffered_memory [OF assms] cJSON_PrintBuffered_empty by blast

theorem cJSON_PrintBuffered_outcome_witness:
  "(\<exists>r. cJSON_PrintBuffered \<lparr>hk_allocate = (\<lambda>_ _. True), hk_reallocate = None\<rparr> cJSON_True 1 False = Some r) \<and>
   cJSON_PrintBuffered \<lparr>hk_allocate = (\<lambda>_ _. True), hk_reallocate = None\<rparr> (cJSON_Array []) 0 False = None"
  using cJSON_PrintBuffered_outcome [of cJSON_True 1 "\<lparr>hk_allocate = (\<lambda>_ _. True), hk_reallocate = None\<rparr>" False "[]"]
  by auto

section \<open>Round trip\<close>

text \<open>Without formatting the text of a value is the compact text the parser inverts.\<close>

lemma value_text_compact:
  "plain_json k x \<Longrightarrow> value_text False d x = json_text x \<and> printable x"
proof (induction arbitrary: d rule: plain_json.induct)
  case (5 s)
  then show ?case by (simp add: c_string_plain)
next
  case (6 xs k)
  have "elements_text False d ys = sep_by (map json_text ys)" if "set ys \<subseteq> set xs" for ys d
    using that by (induction ys) (auto simp: 6 split: list.splits)
  then show ?case using 6 by auto
next
  case (7 ms k)
  have "members_text False d ys = sep_by (map member_text ys)" if "set ys \<subseteq> set ms" for ys d
    using that
  proof (induction ys)
    case (Cons m ys)
    obtain key v where m: "m = (key, v)" by fastforce
    have "plain_string key" "value_text False d v = json_text v" using 7 [of key v] Cons.prems m by auto
    then show ?case using Cons by (auto simp: m member_text_def c_string_plain split: list.splits)
  qed simp
  moreover have "\<forall>m\<in>set ms. printable (snd m)" using 7 by (metis prod.collapse)
  ultimately show ?case by (simp only: value_text.simps json_text_object printable_object) simp
qed simp_all

text \<open>
  What a reader makes of a value: an infinity is written as \<open>null\<close> and comes back as one, and the
  \<open>valueint\<close> of a number, which is not written, is computed again from its \<open>valuedouble\<close>.
\<close>

fun as_parsed :: "cJSON \<Rightarrow> cJSON" where
  "as_parsed (cJSON_Number (Infinite neg) i) = cJSON_NULL"
| "as_parsed (cJSON_Number (Finite x) i) = cJSON_Number (Finite x) (valueint_of (Finite x))"
| "as_parsed (cJSON_Array xs) = cJSON_Array (map as_parsed xs)"
| "as_parsed (cJSON_Object ms) = cJSON_Object (map (\<lambda>m. (fst m, as_parsed (snd m))) ms)"
| "as_parsed x = x"

lemma value_text_as_parsed:
  "value_text f d (as_parsed x) = value_text f d x"
  "elements_text f d (map as_parsed xs) = elements_text f d xs"
  "members_text f d (map (\<lambda>m. (fst m, as_parsed (snd m))) ms) = members_text f d ms"
proof (induction f d x and f d xs and f d ms rule: value_text_elements_text_members_text.induct)
  case (4 f d x i)
  then show ?case by (cases x) (simp_all add: number_text_def)
qed simp_all

lemma printable_as_parsed: "printable (as_parsed x) = printable x"
  by (induction x rule: as_parsed.induct) auto

lemma as_parsed_plain: "plain_json k x \<Longrightarrow> as_parsed x = x"
proof (induction rule: plain_json.induct)
  case (7 ms d)
  then have "(fst m, as_parsed (snd m)) = m" if "m \<in> set ms" for m using that by (cases m) auto
  then show ?case by (simp add: map_idI)
qed (simp_all add: map_idI)

text \<open>
  C8: what is printed parses back. Take a value made of literals, doubles, finite or infinite, C
  strings, arrays and objects, within the parser's nesting limit, a text at least two bytes shorter
  than \<open>INT_MAX\<close> and an allocator that refuses nothing. Then the memory
  \<open>cJSON_PrintUnformatted\<close> returns is a text from which \<open>cJSON_Parse\<close> builds the value
  again, with \<open>null\<close> in the place of an infinity and every \<open>valueint\<close> that of its \<open>valuedouble\<close>; it is
  the very value if all its numbers are finite and have that \<open>valueint\<close>.
\<close>

theorem cJSON_print_parse:
  assumes "plain_json CJSON_NESTING_LIMIT (as_parsed x)" "generous h" "int (length (value_text False 0 x)) + 2 \<le> INT_MAX"
  shows "(\<exists>m. cJSON_PrintUnformatted h x = Some (Some (map Some m)) \<and> cJSON_Parse m = Some (Inr (as_parsed x))) \<and>
    (plain_json CJSON_NESTING_LIMIT x \<longrightarrow> as_parsed x = x)"
proof -
  let ?y = "as_parsed x"
  have t: "value_text False 0 x = json_text ?y" "printable x"
    using value_text_compact [OF assms(1), of 0] value_text_as_parsed(1) [of False 0 x] printable_as_parsed [of x] by simp_all
  have "c_string (json_text ?y @ NUL_text) = json_text ?y"
    using json_text_no_NUL [OF assms(1)] by (auto simp: c_string_def NUL_text_def takeWhile_append)
  moreover have "c_string (json_text ?y) = json_text ?y"
    using json_text_no_NUL [OF assms(1)] by (auto simp: c_string_def takeWhile_eq_all_conv)
  ultimately have "cJSON_Parse (json_text ?y @ NUL_text) = Some (Inr ?y)"
    using cJSON_Parse_plain [OF assms(1)] by (simp add: cJSON_Parse_def cJSON_ParseWithOpts_def)
  moreover have "cJSON_PrintUnformatted h x = Some (Some (map Some (json_text ?y @ NUL_text)))"
    using print_memory(2) [OF t(2) assms(2), of False] assms(3) t(1) by (simp add: cJSON_PrintUnformatted_def)
  ultimately show ?thesis using as_parsed_plain by blast
qed

theorem cJSON_print_parse_witness:
  "\<exists>m. cJSON_PrintUnformatted \<lparr>hk_allocate = (\<lambda>_ _. True), hk_reallocate = Some (\<lambda>_ _. True)\<rparr>
      (cJSON_Object [(''ip'', json_nat 7), (''up'', cJSON_Array [cJSON_Number (Infinite True) 0, cJSON_String [CHR 0x22, CHR 0x07]])]) = Some (Some (map Some m)) \<and>
    cJSON_Parse m = Some (Inr (cJSON_Object [(''ip'', json_nat 7), (''up'', cJSON_Array [cJSON_NULL, cJSON_String [CHR 0x22, CHR 0x07]])]))"
proof -
  let ?h = "\<lparr>hk_allocate = (\<lambda>_ _. True), hk_reallocate = Some (\<lambda>_ _. True)\<rparr>"
  let ?x = "cJSON_Object [(''ip'', json_nat 7), (''up'', cJSON_Array [cJSON_Number (Infinite True) 0, cJSON_String [CHR 0x22, CHR 0x07]])]"
  let ?y = "cJSON_Object [(''ip'', json_nat 7), (''up'', cJSON_Array [cJSON_NULL, cJSON_String [CHR 0x22, CHR 0x07]])]"
  have y: "as_parsed ?x = ?y" by (simp add: json_nat_def Let_def)
  have p: "plain_json CJSON_NESTING_LIMIT (as_parsed ?x)"
    unfolding y by (intro plain_json_containers)
      (simp_all add: plain_json.intros plain_json_nat plain_json_containers CJSON_NESTING_LIMIT_def quote_char_def backslash_def)
  have "value_text False 0 ?x = json_text ?y"
    using conjunct1 [OF value_text_compact [OF p, of 0]] unfolding value_text_as_parsed(1) unfolding y .
  then have l: "int (length (value_text False 0 ?x)) + 2 \<le> INT_MAX"
    by (simp del: value_text.simps add: quoted_def escape_def json_text_nat dec.simps quote_char_def backslash_def INT_MAX_def)
  have "generous ?h" by (simp add: generous_def)
  from cJSON_print_parse [OF p this l] show ?thesis unfolding y by (rule conjunct1)
qed

end
