(* ===== verification/Arion_Json_Heap.thy ===== *)
theory Arion_Json_Heap
  imports Arion_Json "HOL-Library.Word"
begin

unbundle bit_operations_syntax

text \<open>
  The items of \<open>src/src/extern/cJSON.c\<close> in memory: the \<open>cJSON\<close> structure with its pointers, the
  hooks it is allocated through, and the operations that build, search, edit, copy and delete
  chains of items. The memory maps the address of a living item to its fields and the address of
  a living text to the C string in it; the null pointer is \<open>None\<close>. An operation returns \<open>None\<close>
  when the C code would follow a null or dangling pointer, free memory that is not allocated, or
  not return; otherwise its result with the new memory.
\<close>

section \<open>Items and memory\<close>

text \<open>The type codes and flags of \<open>cJSON.h\<close>.\<close>

type_synonym type_code = "32 word"

definition type_Invalid :: type_code where "type_Invalid = 0"
definition type_False :: type_code where "type_False = push_bit 0 1"
definition type_True :: type_code where "type_True = push_bit 1 1"
definition type_NULL :: type_code where "type_NULL = push_bit 2 1"
definition type_Number :: type_code where "type_Number = push_bit 3 1"
definition type_String :: type_code where "type_String = push_bit 4 1"
definition type_Array :: type_code where "type_Array = push_bit 5 1"
definition type_Object :: type_code where "type_Object = push_bit 6 1"
definition type_Raw :: type_code where "type_Raw = push_bit 7 1"
definition cJSON_IsReference :: type_code where "cJSON_IsReference = 256"
definition cJSON_StringIsConst :: type_code where "cJSON_StringIsConst = 512"

lemmas type_codes = type_Invalid_def type_False_def type_True_def type_NULL_def type_Number_def
  type_String_def type_Array_def type_Object_def type_Raw_def

text \<open>A pointer to a text is the address of allocated memory or a constant of the program.\<close>

datatype text_ptr = Block nat | Literal string

type_synonym ref = "nat option"

record item =
  i_next :: ref
  i_prev :: ref
  i_child :: ref
  i_type :: type_code
  i_valuestring :: "text_ptr option"
  i_valueint :: int
  i_valuedouble :: double
  i_string :: "text_ptr option"

text \<open>
  Addresses come from the allocator: \<open>h_next\<close> counts its calls, each call that succeeds gets an
  address of its own, and \<open>h_allocate\<close> says which calls succeed, by their number and size.
\<close>

record memory_state =
  h_items :: "nat \<rightharpoonup> item"
  h_strings :: "nat \<rightharpoonup> string"
  h_next :: nat
  h_allocate :: "nat \<Rightarrow> nat \<Rightarrow> bool"

definition allocate :: "nat \<Rightarrow> memory_state \<Rightarrow> ref \<times> memory_state" where
  "allocate n h =
     (if h_allocate h (h_next h) n then Some (h_next h) else None, h\<lparr>h_next := h_next h + 1\<rparr>)"

definition read_text :: "text_ptr \<Rightarrow> memory_state \<Rightarrow> string option" where
  "read_text p h = (case p of Block a \<Rightarrow> h_strings h a | Literal s \<Rightarrow> Some s)"

definition deallocate_text :: "text_ptr \<Rightarrow> memory_state \<Rightarrow> memory_state option" where
  "deallocate_text p h = (case p of
     Block a \<Rightarrow> if a \<in> dom (h_strings h) then Some (h\<lparr>h_strings := (h_strings h)(a := None)\<rparr>) else None
   | Literal s \<Rightarrow> None)"

definition deallocate_item :: "nat \<Rightarrow> memory_state \<Rightarrow> memory_state option" where
  "deallocate_item a h =
     (if a \<in> dom (h_items h) then Some (h\<lparr>h_items := (h_items h)(a := None)\<rparr>) else None)"

definition update_item :: "nat \<Rightarrow> (item \<Rightarrow> item) \<Rightarrow> memory_state \<Rightarrow> memory_state option" where
  "update_item a f h = (case h_items h a of
     None \<Rightarrow> None
   | Some it \<Rightarrow> Some (h\<lparr>h_items := (h_items h)(a \<mapsto> f it)\<rparr>))"

definition is_reference :: "item \<Rightarrow> bool" where
  "is_reference it \<longleftrightarrow> i_type it AND cJSON_IsReference \<noteq> 0"

definition string_is_const :: "item \<Rightarrow> bool" where
  "string_is_const it \<longleftrightarrow> i_type it AND cJSON_StringIsConst \<noteq> 0"

section \<open>The hooks\<close>

text \<open>
  \<open>cJSON_InitHooks\<close> for functions of any type: the C library's \<open>malloc\<close>, \<open>free\<close> and \<open>realloc\<close> are
  parameters, and \<open>cJSON_Hooks\<close> has the functions of the application.
\<close>

record 'f cJSON_Hooks =
  malloc_fn :: "'f option"
  free_fn :: "'f option"

record 'f global_hooks =
  gh_allocate :: 'f
  gh_deallocate :: 'f
  gh_reallocate :: "'f option"

definition cJSON_InitHooks :: "'f \<Rightarrow> 'f \<Rightarrow> 'f \<Rightarrow> 'f cJSON_Hooks option \<Rightarrow> 'f global_hooks" where
  "cJSON_InitHooks malloc free realloc hooks = (case hooks of
     None \<Rightarrow> \<lparr>gh_allocate = malloc, gh_deallocate = free, gh_reallocate = Some realloc\<rparr>
   | Some f \<Rightarrow>
       let allocate = (case malloc_fn f of None \<Rightarrow> malloc | Some g \<Rightarrow> g);
           deallocate = (case free_fn f of None \<Rightarrow> free | Some g \<Rightarrow> g)
       in \<lparr>gh_allocate = allocate, gh_deallocate = deallocate,
           gh_reallocate = (if allocate = malloc \<and> deallocate = free then Some realloc else None)\<rparr>)"

section \<open>Allocation and deletion\<close>

definition sizeof_cJSON :: nat where "sizeof_cJSON = 64"

definition zero_item :: item where
  "zero_item = \<lparr>i_next = None, i_prev = None, i_child = None, i_type = 0, i_valuestring = None,
     i_valueint = 0, i_valuedouble = Finite 0, i_string = None\<rparr>"

definition cJSON_New_Item :: "memory_state \<Rightarrow> ref \<times> memory_state" where
  "cJSON_New_Item h =
     (let (node, h) = allocate sizeof_cJSON h
      in case node of
           None \<Rightarrow> (None, h)
         | Some a \<Rightarrow> (Some a, h\<lparr>h_items := (h_items h)(a \<mapsto> zero_item)\<rparr>))"

definition cJSON_strdup :: "text_ptr option \<Rightarrow> memory_state \<Rightarrow> (text_ptr option \<times> memory_state) option" where
  "cJSON_strdup string h = (case string of
     None \<Rightarrow> Some (None, h)
   | Some p \<Rightarrow> do {
       text \<leftarrow> read_text p h;
       let (copy, h) = allocate (length text + 1) h;
       case copy of
         None \<Rightarrow> Some (None, h)
       | Some a \<Rightarrow> Some (Some (Block a), h\<lparr>h_strings := (h_strings h)(a \<mapsto> text)\<rparr>)
     })"

definition free_text :: "bool \<Rightarrow> text_ptr option \<Rightarrow> memory_state \<Rightarrow> memory_state option" where
  "free_text borrowed p h = (case p of
     None \<Rightarrow> Some h
   | Some s \<Rightarrow> if borrowed then Some h else deallocate_text s h)"

text \<open>One round of the loop of \<open>cJSON_Delete\<close> after the children are gone.\<close>

definition delete_fields :: "nat \<Rightarrow> memory_state \<Rightarrow> memory_state option" where
  "delete_fields a h = do {
     it \<leftarrow> h_items h a;
     h \<leftarrow> free_text (is_reference it) (i_valuestring it) h;
     h \<leftarrow> free_text (string_is_const it) (i_string it) h;
     deallocate_item a h
   }"

partial_function (option) cJSON_Delete :: "ref \<Rightarrow> memory_state \<Rightarrow> memory_state option" where
  "cJSON_Delete item h = (case item of
     None \<Rightarrow> Some h
   | Some a \<Rightarrow> do {
       it \<leftarrow> h_items h a;
       h \<leftarrow> (if \<not> is_reference it \<and> i_child it \<noteq> None then cJSON_Delete (i_child it) h else Some h);
       h \<leftarrow> delete_fields a h;
       cJSON_Delete (i_next it) h
     })"

section \<open>Creating items\<close>

definition created :: "(item \<Rightarrow> item) \<Rightarrow> memory_state \<Rightarrow> (ref \<times> memory_state) option" where
  "created f h =
     (let (item, h) = cJSON_New_Item h
      in case item of
           None \<Rightarrow> Some (None, h)
         | Some a \<Rightarrow> do { h \<leftarrow> update_item a f h; Some (Some a, h) })"

definition cJSON_CreateNull :: "memory_state \<Rightarrow> (ref \<times> memory_state) option" where
  "cJSON_CreateNull = created (i_type_update (\<lambda>_. type_NULL))"

definition cJSON_CreateTrue :: "memory_state \<Rightarrow> (ref \<times> memory_state) option" where
  "cJSON_CreateTrue = created (i_type_update (\<lambda>_. type_True))"

definition cJSON_CreateFalse :: "memory_state \<Rightarrow> (ref \<times> memory_state) option" where
  "cJSON_CreateFalse = created (i_type_update (\<lambda>_. type_False))"

definition cJSON_CreateBool :: "bool \<Rightarrow> memory_state \<Rightarrow> (ref \<times> memory_state) option" where
  "cJSON_CreateBool b = created (i_type_update (\<lambda>_. if b then type_True else type_False))"

definition cJSON_CreateNumber :: "double \<Rightarrow> memory_state \<Rightarrow> (ref \<times> memory_state) option" where
  "cJSON_CreateNumber num = created (\<lambda>it. it\<lparr>i_type := type_Number, i_valuedouble := num,
     i_valueint := valueint_of num\<rparr>)"

text \<open>The common end of \<open>cJSON_CreateString\<close> and \<open>cJSON_CreateRaw\<close>.\<close>

definition create_text :: "type_code \<Rightarrow> text_ptr option \<Rightarrow> memory_state \<Rightarrow> (ref \<times> memory_state) option" where
  "create_text t string h =
     (let (item, h) = cJSON_New_Item h
      in case item of
           None \<Rightarrow> Some (None, h)
         | Some a \<Rightarrow> do {
             h \<leftarrow> update_item a (i_type_update (\<lambda>_. t)) h;
             (copy, h) \<leftarrow> cJSON_strdup string h;
             h \<leftarrow> update_item a (i_valuestring_update (\<lambda>_. copy)) h;
             if copy = None then do { h \<leftarrow> cJSON_Delete (Some a) h; Some (None, h) }
             else Some (Some a, h)
           })"

definition cJSON_CreateString :: "text_ptr option \<Rightarrow> memory_state \<Rightarrow> (ref \<times> memory_state) option" where
  "cJSON_CreateString string = create_text type_String string"

definition cJSON_CreateRaw :: "text_ptr option \<Rightarrow> memory_state \<Rightarrow> (ref \<times> memory_state) option" where
  "cJSON_CreateRaw raw = create_text type_Raw raw"

definition cJSON_CreateStringReference :: "text_ptr option \<Rightarrow> memory_state \<Rightarrow> (ref \<times> memory_state) option" where
  "cJSON_CreateStringReference string =
     created (\<lambda>it. it\<lparr>i_type := type_String OR cJSON_IsReference, i_valuestring := string\<rparr>)"

definition cJSON_CreateObjectReference :: "ref \<Rightarrow> memory_state \<Rightarrow> (ref \<times> memory_state) option" where
  "cJSON_CreateObjectReference child =
     created (\<lambda>it. it\<lparr>i_type := type_Object OR cJSON_IsReference, i_child := child\<rparr>)"

definition cJSON_CreateArrayReference :: "ref \<Rightarrow> memory_state \<Rightarrow> (ref \<times> memory_state) option" where
  "cJSON_CreateArrayReference child =
     created (\<lambda>it. it\<lparr>i_type := type_Array OR cJSON_IsReference, i_child := child\<rparr>)"

definition cJSON_CreateArray :: "memory_state \<Rightarrow> (ref \<times> memory_state) option" where
  "cJSON_CreateArray = created (i_type_update (\<lambda>_. type_Array))"

definition cJSON_CreateObject :: "memory_state \<Rightarrow> (ref \<times> memory_state) option" where
  "cJSON_CreateObject = created (i_type_update (\<lambda>_. type_Object))"

section \<open>Chains of items\<close>

definition suffix_object :: "nat \<Rightarrow> nat \<Rightarrow> memory_state \<Rightarrow> memory_state option" where
  "suffix_object prev item h = do {
     h \<leftarrow> update_item prev (i_next_update (\<lambda>_. Some item)) h;
     update_item item (i_prev_update (\<lambda>_. Some prev)) h
   }"

text \<open>
  The loop of the functions that create an array of \<open>count\<close> items: \<open>create\<close> makes the next one,
  \<open>p\<close> is the last one so far.
\<close>

fun create_loop :: "('a \<Rightarrow> memory_state \<Rightarrow> (ref \<times> memory_state) option) \<Rightarrow> nat \<Rightarrow> 'a list \<Rightarrow> ref \<Rightarrow> memory_state
    \<Rightarrow> (ref \<times> memory_state) option" where
  "create_loop create a [] p h = Some (Some a, h)"
| "create_loop create a (x # xs) p h = do {
     (n, h) \<leftarrow> create x h;
     case n of
       None \<Rightarrow> do { h \<leftarrow> cJSON_Delete (Some a) h; Some (None, h) }
     | Some b \<Rightarrow> do {
         h \<leftarrow> (case p of
           None \<Rightarrow> update_item a (i_child_update (\<lambda>_. Some b)) h
         | Some c \<Rightarrow> suffix_object c b h);
         create_loop create a xs (Some b) h
       }
   }"

text \<open>
  \<open>numbers\<close> is the memory the pointer leads to (\<open>None\<close>: a null pointer); it must hold \<open>count\<close>
  numbers.
\<close>

definition create_items :: "('a \<Rightarrow> memory_state \<Rightarrow> (ref \<times> memory_state) option) \<Rightarrow> 'a list option \<Rightarrow> int \<Rightarrow> memory_state
    \<Rightarrow> (ref \<times> memory_state) option" where
  "create_items create numbers count h = (case numbers of
     None \<Rightarrow> Some (None, h)
   | Some xs \<Rightarrow>
       if count < 0 then Some (None, h)
       else do {
         (a, h) \<leftarrow> cJSON_CreateArray h;
         case a of
           None \<Rightarrow> Some (None, h)
         | Some a \<Rightarrow> if length xs < nat count then None
                     else create_loop create a (take (nat count) xs) None h
       })"

definition cJSON_CreateIntArray :: "int list option \<Rightarrow> int \<Rightarrow> memory_state \<Rightarrow> (ref \<times> memory_state) option" where
  "cJSON_CreateIntArray = create_items (\<lambda>n. cJSON_CreateNumber (Finite (of_int n)))"

text \<open>Every \<open>float\<close> is a \<open>double\<close>, so the two functions for them differ only in the memory they read.\<close>

definition cJSON_CreateFloatArray :: "double list option \<Rightarrow> int \<Rightarrow> memory_state \<Rightarrow> (ref \<times> memory_state) option" where
  "cJSON_CreateFloatArray = create_items cJSON_CreateNumber"

definition cJSON_CreateDoubleArray :: "double list option \<Rightarrow> int \<Rightarrow> memory_state \<Rightarrow> (ref \<times> memory_state) option" where
  "cJSON_CreateDoubleArray = create_items cJSON_CreateNumber"

definition cJSON_CreateStringArray :: "text_ptr option list option \<Rightarrow> int \<Rightarrow> memory_state \<Rightarrow> (ref \<times> memory_state) option" where
  "cJSON_CreateStringArray = create_items cJSON_CreateString"

section \<open>Searching\<close>

partial_function (option) chain_length :: "ref \<Rightarrow> memory_state \<Rightarrow> nat option" where
  "chain_length child h = (case child of
     None \<Rightarrow> Some 0
   | Some a \<Rightarrow> do { it \<leftarrow> h_items h a; n \<leftarrow> chain_length (i_next it) h; Some (n + 1) })"

text \<open>The size is cast to \<open>int\<close>.\<close>

definition array_size :: "ref \<Rightarrow> memory_state \<Rightarrow> int option" where
  "array_size array h = (case array of
     None \<Rightarrow> Some 0
   | Some a \<Rightarrow> do { it \<leftarrow> h_items h a; n \<leftarrow> chain_length (i_child it) h; Some (sint (of_nat n :: 32 word)) })"

primrec nth_item :: "nat \<Rightarrow> ref \<Rightarrow> memory_state \<Rightarrow> ref option" where
  "nth_item 0 current_child h = Some current_child"
| "nth_item (Suc index) current_child h = (case current_child of
     None \<Rightarrow> Some None
   | Some a \<Rightarrow> do { it \<leftarrow> h_items h a; nth_item index (i_next it) h })"

definition get_array_item :: "ref \<Rightarrow> nat \<Rightarrow> memory_state \<Rightarrow> ref option" where
  "get_array_item array index h = (case array of
     None \<Rightarrow> Some None
   | Some a \<Rightarrow> do { it \<leftarrow> h_items h a; nth_item index (i_child it) h })"

definition cJSON_GetArrayItem :: "ref \<Rightarrow> int \<Rightarrow> memory_state \<Rightarrow> ref option" where
  "cJSON_GetArrayItem array index h = (if index < 0 then Some None else get_array_item array (nat index) h)"

text \<open>
  The two loops of \<open>get_object_item\<close>: the case sensitive one stops at an item without a name, the
  other one passes over it. \<open>case_insensitive_strcmp\<close> does not look at two equal pointers.
\<close>

definition names_differ :: "bool \<Rightarrow> text_ptr \<Rightarrow> text_ptr option \<Rightarrow> memory_state \<Rightarrow> bool option" where
  "names_differ case_sensitive name string h = (case string of
     None \<Rightarrow> Some (\<not> case_sensitive)
   | Some p \<Rightarrow>
       if \<not> case_sensitive \<and> name = p then Some False
       else do {
         n \<leftarrow> read_text name h;
         k \<leftarrow> read_text p h;
         Some (if case_sensitive then n \<noteq> k else case_insensitive_strcmp n k \<noteq> 0)
       })"

partial_function (option) search_name :: "bool \<Rightarrow> text_ptr \<Rightarrow> ref \<Rightarrow> memory_state \<Rightarrow> ref option" where
  "search_name case_sensitive name current_element h = (case current_element of
     None \<Rightarrow> Some None
   | Some a \<Rightarrow> do {
       it \<leftarrow> h_items h a;
       differ \<leftarrow> names_differ case_sensitive name (i_string it) h;
       if differ then search_name case_sensitive name (i_next it) h
       else Some (if i_string it = None then None else Some a)
     })"

definition get_object_item :: "ref \<Rightarrow> text_ptr option \<Rightarrow> bool \<Rightarrow> memory_state \<Rightarrow> ref option" where
  "get_object_item object name case_sensitive h = (case (object, name) of
     (Some a, Some n) \<Rightarrow> do { it \<leftarrow> h_items h a; search_name case_sensitive n (i_child it) h }
   | _ \<Rightarrow> Some None)"

definition cJSON_HasObjectItem :: "ref \<Rightarrow> text_ptr option \<Rightarrow> memory_state \<Rightarrow> bool option" where
  "cJSON_HasObjectItem object string h =
     do { item \<leftarrow> get_object_item object string False h; Some (item \<noteq> None) }"

section \<open>Adding\<close>

partial_function (option) last_item :: "nat \<Rightarrow> memory_state \<Rightarrow> nat option" where
  "last_item child h = do {
     it \<leftarrow> h_items h child;
     case i_next it of None \<Rightarrow> Some child | Some b \<Rightarrow> last_item b h
   }"

definition add_item_to_array :: "ref \<Rightarrow> ref \<Rightarrow> memory_state \<Rightarrow> (bool \<times> memory_state) option" where
  "add_item_to_array array item h = (case (array, item) of
     (Some a, Some b) \<Rightarrow> do {
       it \<leftarrow> h_items h a;
       h \<leftarrow> (case i_child it of
         None \<Rightarrow> update_item a (i_child_update (\<lambda>_. Some b)) h
       | Some c \<Rightarrow> do { l \<leftarrow> last_item c h; suffix_object l b h });
       Some (True, h)
     }
   | _ \<Rightarrow> Some (False, h))"

definition create_reference :: "ref \<Rightarrow> memory_state \<Rightarrow> (ref \<times> memory_state) option" where
  "create_reference item h = (case item of
     None \<Rightarrow> Some (None, h)
   | Some a \<Rightarrow>
       let (reference, h) = cJSON_New_Item h
       in case reference of
            None \<Rightarrow> Some (None, h)
          | Some r \<Rightarrow> do {
              it \<leftarrow> h_items h a;
              h \<leftarrow> update_item r (\<lambda>_. it\<lparr>i_string := None, i_type := i_type it OR cJSON_IsReference,
                i_next := None, i_prev := None\<rparr>) h;
              Some (Some r, h)
            })"

definition add_item_to_object :: "ref \<Rightarrow> text_ptr option \<Rightarrow> ref \<Rightarrow> bool \<Rightarrow> memory_state \<Rightarrow> (bool \<times> memory_state) option" where
  "add_item_to_object object string item constant_key h = (case (object, string, item) of
     (Some a, Some s, Some b) \<Rightarrow> do {
       (new_key, h) \<leftarrow> (if constant_key then Some (string, h) else cJSON_strdup string h);
       if new_key = None then Some (False, h)
       else do {
         it \<leftarrow> h_items h b;
         let new_type = (if constant_key then i_type it OR cJSON_StringIsConst
                         else i_type it AND NOT cJSON_StringIsConst);
         h \<leftarrow> free_text (string_is_const it) (i_string it) h;
         h \<leftarrow> update_item b (\<lambda>it. it\<lparr>i_string := new_key, i_type := new_type\<rparr>) h;
         add_item_to_array object item h
       }
     }
   | _ \<Rightarrow> Some (False, h))"

definition cJSON_AddItemToArray :: "ref \<Rightarrow> ref \<Rightarrow> memory_state \<Rightarrow> memory_state option" where
  "cJSON_AddItemToArray array item h = do { (ok, h) \<leftarrow> add_item_to_array array item h; Some h }"

definition cJSON_AddItemToObject :: "ref \<Rightarrow> text_ptr option \<Rightarrow> ref \<Rightarrow> memory_state \<Rightarrow> memory_state option" where
  "cJSON_AddItemToObject object string item h =
     do { (ok, h) \<leftarrow> add_item_to_object object string item False h; Some h }"

definition cJSON_AddItemToObjectCS :: "ref \<Rightarrow> text_ptr option \<Rightarrow> ref \<Rightarrow> memory_state \<Rightarrow> memory_state option" where
  "cJSON_AddItemToObjectCS object string item h =
     do { (ok, h) \<leftarrow> add_item_to_object object string item True h; Some h }"

definition cJSON_AddItemReferenceToArray :: "ref \<Rightarrow> ref \<Rightarrow> memory_state \<Rightarrow> memory_state option" where
  "cJSON_AddItemReferenceToArray array item h =
     (if array = None then Some h
      else do {
        (reference, h) \<leftarrow> create_reference item h;
        (ok, h) \<leftarrow> add_item_to_array array reference h;
        Some h
      })"

definition cJSON_AddItemReferenceToObject :: "ref \<Rightarrow> text_ptr option \<Rightarrow> ref \<Rightarrow> memory_state \<Rightarrow> memory_state option" where
  "cJSON_AddItemReferenceToObject object string item h =
     (if object = None \<or> string = None then Some h
      else do {
        (reference, h) \<leftarrow> create_reference item h;
        (ok, h) \<leftarrow> add_item_to_object object string reference False h;
        Some h
      })"

text \<open>The functions that create an item and add it to an object, deleting it when that fails.\<close>

definition add_created :: "(memory_state \<Rightarrow> (ref \<times> memory_state) option) \<Rightarrow> ref \<Rightarrow> text_ptr option \<Rightarrow> memory_state
    \<Rightarrow> (ref \<times> memory_state) option" where
  "add_created create object name h = do {
     (item, h) \<leftarrow> create h;
     (ok, h) \<leftarrow> add_item_to_object object name item False h;
     if ok then Some (item, h)
     else do { h \<leftarrow> cJSON_Delete item h; Some (None, h) }
   }"

definition cJSON_AddNullToObject :: "ref \<Rightarrow> text_ptr option \<Rightarrow> memory_state \<Rightarrow> (ref \<times> memory_state) option" where
  "cJSON_AddNullToObject = add_created cJSON_CreateNull"

definition cJSON_AddTrueToObject :: "ref \<Rightarrow> text_ptr option \<Rightarrow> memory_state \<Rightarrow> (ref \<times> memory_state) option" where
  "cJSON_AddTrueToObject = add_created cJSON_CreateTrue"

definition cJSON_AddFalseToObject :: "ref \<Rightarrow> text_ptr option \<Rightarrow> memory_state \<Rightarrow> (ref \<times> memory_state) option" where
  "cJSON_AddFalseToObject = add_created cJSON_CreateFalse"

definition cJSON_AddBoolToObject :: "ref \<Rightarrow> text_ptr option \<Rightarrow> bool \<Rightarrow> memory_state \<Rightarrow> (ref \<times> memory_state) option" where
  "cJSON_AddBoolToObject object name b = add_created (cJSON_CreateBool b) object name"

definition cJSON_AddNumberToObject :: "ref \<Rightarrow> text_ptr option \<Rightarrow> double \<Rightarrow> memory_state \<Rightarrow> (ref \<times> memory_state) option" where
  "cJSON_AddNumberToObject object name number = add_created (cJSON_CreateNumber number) object name"

definition cJSON_AddStringToObject :: "ref \<Rightarrow> text_ptr option \<Rightarrow> text_ptr option \<Rightarrow> memory_state \<Rightarrow> (ref \<times> memory_state) option" where
  "cJSON_AddStringToObject object name string = add_created (cJSON_CreateString string) object name"

definition cJSON_AddRawToObject :: "ref \<Rightarrow> text_ptr option \<Rightarrow> text_ptr option \<Rightarrow> memory_state \<Rightarrow> (ref \<times> memory_state) option" where
  "cJSON_AddRawToObject object name raw = add_created (cJSON_CreateRaw raw) object name"

definition cJSON_AddObjectToObject :: "ref \<Rightarrow> text_ptr option \<Rightarrow> memory_state \<Rightarrow> (ref \<times> memory_state) option" where
  "cJSON_AddObjectToObject = add_created cJSON_CreateObject"

definition cJSON_AddArrayToObject :: "ref \<Rightarrow> text_ptr option \<Rightarrow> memory_state \<Rightarrow> (ref \<times> memory_state) option" where
  "cJSON_AddArrayToObject = add_created cJSON_CreateArray"

section \<open>Removing, inserting, replacing\<close>

text \<open>\<open>p->next = q\<close> and \<open>p->prev = q\<close> behind a test for a null pointer.\<close>

definition set_next :: "ref \<Rightarrow> ref \<Rightarrow> memory_state \<Rightarrow> memory_state option" where
  "set_next p q h = (case p of None \<Rightarrow> Some h | Some a \<Rightarrow> update_item a (i_next_update (\<lambda>_. q)) h)"

definition set_prev :: "ref \<Rightarrow> ref \<Rightarrow> memory_state \<Rightarrow> memory_state option" where
  "set_prev p q h = (case p of None \<Rightarrow> Some h | Some a \<Rightarrow> update_item a (i_prev_update (\<lambda>_. q)) h)"

definition cJSON_DetachItemViaPointer :: "ref \<Rightarrow> ref \<Rightarrow> memory_state \<Rightarrow> (ref \<times> memory_state) option" where
  "cJSON_DetachItemViaPointer parent item h = (case (parent, item) of
     (Some p, Some a) \<Rightarrow> do {
       it \<leftarrow> h_items h a;
       h \<leftarrow> set_next (i_prev it) (i_next it) h;
       it \<leftarrow> h_items h a;
       h \<leftarrow> set_prev (i_next it) (i_prev it) h;
       pt \<leftarrow> h_items h p;
       h \<leftarrow> (if i_child pt = item
         then do { it \<leftarrow> h_items h a; update_item p (i_child_update (\<lambda>_. i_next it)) h }
         else Some h);
       h \<leftarrow> update_item a (\<lambda>it. it\<lparr>i_next := None, i_prev := None\<rparr>) h;
       Some (item, h)
     }
   | _ \<Rightarrow> Some (None, h))"

definition cJSON_DetachItemFromArray :: "ref \<Rightarrow> int \<Rightarrow> memory_state \<Rightarrow> (ref \<times> memory_state) option" where
  "cJSON_DetachItemFromArray array which h =
     (if which < 0 then Some (None, h)
      else do { item \<leftarrow> get_array_item array (nat which) h; cJSON_DetachItemViaPointer array item h })"

definition cJSON_DeleteItemFromArray :: "ref \<Rightarrow> int \<Rightarrow> memory_state \<Rightarrow> memory_state option" where
  "cJSON_DeleteItemFromArray array which h =
     do { (item, h) \<leftarrow> cJSON_DetachItemFromArray array which h; cJSON_Delete item h }"

text \<open>The case sensitive functions and the others, by a flag.\<close>

definition cJSON_DetachItemFromObject :: "bool \<Rightarrow> ref \<Rightarrow> text_ptr option \<Rightarrow> memory_state \<Rightarrow> (ref \<times> memory_state) option" where
  "cJSON_DetachItemFromObject case_sensitive object string h =
     do { to_detach \<leftarrow> get_object_item object string case_sensitive h; cJSON_DetachItemViaPointer object to_detach h }"

definition cJSON_DeleteItemFromObject :: "bool \<Rightarrow> ref \<Rightarrow> text_ptr option \<Rightarrow> memory_state \<Rightarrow> memory_state option" where
  "cJSON_DeleteItemFromObject case_sensitive object string h =
     do { (item, h) \<leftarrow> cJSON_DetachItemFromObject case_sensitive object string h; cJSON_Delete item h }"

definition cJSON_InsertItemInArray :: "ref \<Rightarrow> int \<Rightarrow> ref \<Rightarrow> memory_state \<Rightarrow> memory_state option" where
  "cJSON_InsertItemInArray array which newitem h =
     (if which < 0 then Some h
      else do {
        after_inserted \<leftarrow> get_array_item array (nat which) h;
        case after_inserted of
          None \<Rightarrow> do { (ok, h) \<leftarrow> add_item_to_array array newitem h; Some h }
        | Some b \<Rightarrow> do {
            n \<leftarrow> newitem;
            a \<leftarrow> array;
            h \<leftarrow> update_item n (i_next_update (\<lambda>_. Some b)) h;
            bt \<leftarrow> h_items h b;
            h \<leftarrow> update_item n (i_prev_update (\<lambda>_. i_prev bt)) h;
            h \<leftarrow> update_item b (i_prev_update (\<lambda>_. Some n)) h;
            arr \<leftarrow> h_items h a;
            if i_child arr = Some b then update_item a (i_child_update (\<lambda>_. Some n)) h
            else do {
              nt \<leftarrow> h_items h n;
              p \<leftarrow> i_prev nt;
              update_item p (i_next_update (\<lambda>_. Some n)) h
            }
          }
      })"

definition cJSON_ReplaceItemViaPointer :: "ref \<Rightarrow> ref \<Rightarrow> ref \<Rightarrow> memory_state \<Rightarrow> (bool \<times> memory_state) option" where
  "cJSON_ReplaceItemViaPointer parent item replacement h = (case (parent, item, replacement) of
     (Some p, Some a, Some r) \<Rightarrow>
       if r = a then Some (True, h)
       else do {
         it \<leftarrow> h_items h a;
         h \<leftarrow> update_item r (\<lambda>rt. rt\<lparr>i_next := i_next it, i_prev := i_prev it\<rparr>) h;
         h \<leftarrow> set_prev (i_next it) replacement h;
         rt \<leftarrow> h_items h r;
         h \<leftarrow> set_next (i_prev rt) replacement h;
         pt \<leftarrow> h_items h p;
         h \<leftarrow> (if i_child pt = item then update_item p (i_child_update (\<lambda>_. replacement)) h else Some h);
         h \<leftarrow> update_item a (\<lambda>it. it\<lparr>i_next := None, i_prev := None\<rparr>) h;
         h \<leftarrow> cJSON_Delete item h;
         Some (True, h)
       }
   | _ \<Rightarrow> Some (False, h))"

definition cJSON_ReplaceItemInArray :: "ref \<Rightarrow> int \<Rightarrow> ref \<Rightarrow> memory_state \<Rightarrow> memory_state option" where
  "cJSON_ReplaceItemInArray array which newitem h =
     (if which < 0 then Some h
      else do {
        item \<leftarrow> get_array_item array (nat which) h;
        (ok, h) \<leftarrow> cJSON_ReplaceItemViaPointer array item newitem h;
        Some h
      })"

definition replace_item_in_object :: "ref \<Rightarrow> text_ptr option \<Rightarrow> ref \<Rightarrow> bool \<Rightarrow> memory_state \<Rightarrow> (bool \<times> memory_state) option" where
  "replace_item_in_object object string replacement case_sensitive h = (case (replacement, string) of
     (Some r, Some s) \<Rightarrow> do {
       rt \<leftarrow> h_items h r;
       h \<leftarrow> free_text (string_is_const rt) (i_string rt) h;
       (copy, h) \<leftarrow> cJSON_strdup string h;
       h \<leftarrow> update_item r (\<lambda>rt. rt\<lparr>i_string := copy, i_type := i_type rt AND NOT cJSON_StringIsConst\<rparr>) h;
       item \<leftarrow> get_object_item object string case_sensitive h;
       (ok, h) \<leftarrow> cJSON_ReplaceItemViaPointer object item replacement h;
       Some (True, h)
     }
   | _ \<Rightarrow> Some (False, h))"

definition cJSON_ReplaceItemInObject :: "bool \<Rightarrow> ref \<Rightarrow> text_ptr option \<Rightarrow> ref \<Rightarrow> memory_state \<Rightarrow> memory_state option" where
  "cJSON_ReplaceItemInObject case_sensitive object string newitem h =
     do { (ok, h) \<leftarrow> replace_item_in_object object string newitem case_sensitive h; Some h }"

section \<open>Copying and comparing\<close>

text \<open>
  \<open>cJSON_Duplicate\<close> with a bound on the calls and rounds of its loop in one another. The loop has
  the new item \<open>n\<close>, the item to copy next and the last copy made; it says whether it came to the
  end.
\<close>

definition duplicate_fields :: "nat \<Rightarrow> nat \<Rightarrow> memory_state \<Rightarrow> (bool \<times> memory_state) option" where
  "duplicate_fields a n h = do {
     it \<leftarrow> h_items h a;
     h \<leftarrow> update_item n (\<lambda>nt. nt\<lparr>i_type := i_type it AND NOT cJSON_IsReference, i_valueint := i_valueint it,
       i_valuedouble := i_valuedouble it\<rparr>) h;
     (value, h) \<leftarrow> cJSON_strdup (i_valuestring it) h;
     h \<leftarrow> update_item n (i_valuestring_update (\<lambda>_. value)) h;
     if i_valuestring it \<noteq> None \<and> value = None then Some (False, h)
     else do {
       (key, h) \<leftarrow> (if string_is_const it then Some (i_string it, h) else cJSON_strdup (i_string it) h);
       h \<leftarrow> update_item n (i_string_update (\<lambda>_. key)) h;
       Some (i_string it = None \<or> key \<noteq> None, h)
     }
   }"

fun cJSON_Duplicate :: "nat \<Rightarrow> ref \<Rightarrow> bool \<Rightarrow> memory_state \<Rightarrow> (ref \<times> memory_state) option"
  and duplicate_children :: "nat \<Rightarrow> nat \<Rightarrow> ref \<Rightarrow> ref \<Rightarrow> memory_state \<Rightarrow> (bool \<times> memory_state) option" where
  "cJSON_Duplicate 0 item recurse h = None"
| "cJSON_Duplicate (Suc fuel) item recurse h = (case item of
     None \<Rightarrow> Some (None, h)
   | Some a \<Rightarrow>
       let (newitem, h) = cJSON_New_Item h
       in case newitem of
            None \<Rightarrow> Some (None, h)
          | Some n \<Rightarrow> do {
              (ok, h) \<leftarrow> duplicate_fields a n h;
              it \<leftarrow> h_items h a;
              (ok, h) \<leftarrow> (if ok \<and> recurse then duplicate_children fuel n (i_child it) None h else Some (ok, h));
              if ok then Some (newitem, h)
              else do { h \<leftarrow> cJSON_Delete newitem h; Some (None, h) }
            })"
| "duplicate_children 0 n child latest h = None"
| "duplicate_children (Suc fuel) n child latest h = (case child of
     None \<Rightarrow> Some (True, h)
   | Some c \<Rightarrow> do {
       (newchild, h) \<leftarrow> cJSON_Duplicate fuel child True h;
       case newchild of
         None \<Rightarrow> Some (False, h)
       | Some m \<Rightarrow> do {
           h \<leftarrow> (case latest of
             None \<Rightarrow> update_item n (i_child_update (\<lambda>_. newchild)) h
           | Some l \<Rightarrow> suffix_object l m h);
           ct \<leftarrow> h_items h c;
           duplicate_children fuel n (i_next ct) newchild h
         }
     })"

section \<open>Predicates\<close>

definition item_type :: "ref \<Rightarrow> memory_state \<Rightarrow> type_code option option" where
  "item_type item h = (case item of None \<Rightarrow> Some None | Some a \<Rightarrow> do { it \<leftarrow> h_items h a; Some (Some (i_type it)) })"

definition has_type :: "type_code \<Rightarrow> ref \<Rightarrow> memory_state \<Rightarrow> bool option" where
  "has_type t item h = do {
     ty \<leftarrow> item_type item h;
     Some (case ty of None \<Rightarrow> False | Some ty \<Rightarrow> ty AND 0xFF = t)
   }"

definition item_IsInvalid :: "ref \<Rightarrow> memory_state \<Rightarrow> bool option" where "item_IsInvalid = has_type type_Invalid"
definition item_IsFalse :: "ref \<Rightarrow> memory_state \<Rightarrow> bool option" where "item_IsFalse = has_type type_False"
definition item_IsTrue :: "ref \<Rightarrow> memory_state \<Rightarrow> bool option" where "item_IsTrue = has_type type_True"
definition item_IsNull :: "ref \<Rightarrow> memory_state \<Rightarrow> bool option" where "item_IsNull = has_type type_NULL"
definition item_IsNumber :: "ref \<Rightarrow> memory_state \<Rightarrow> bool option" where "item_IsNumber = has_type type_Number"
definition item_IsString :: "ref \<Rightarrow> memory_state \<Rightarrow> bool option" where "item_IsString = has_type type_String"
definition item_IsArray :: "ref \<Rightarrow> memory_state \<Rightarrow> bool option" where "item_IsArray = has_type type_Array"
definition item_IsObject :: "ref \<Rightarrow> memory_state \<Rightarrow> bool option" where "item_IsObject = has_type type_Object"
definition item_IsRaw :: "ref \<Rightarrow> memory_state \<Rightarrow> bool option" where "item_IsRaw = has_type type_Raw"

definition item_IsBool :: "ref \<Rightarrow> memory_state \<Rightarrow> bool option" where
  "item_IsBool item h = do {
     ty \<leftarrow> item_type item h;
     Some (case ty of None \<Rightarrow> False | Some ty \<Rightarrow> ty AND (type_True OR type_False) \<noteq> 0)
   }"

definition cJSON_GetStringValue :: "ref \<Rightarrow> memory_state \<Rightarrow> text_ptr option option" where
  "cJSON_GetStringValue item h = do {
     b \<leftarrow> item_IsString item h;
     if \<not> b then Some None else do { a \<leftarrow> item; it \<leftarrow> h_items h a; Some (i_valuestring it) }
   }"

text \<open>\<open>cJSON_SetNumberHelper\<close>, called through \<open>cJSON_SetNumberValue\<close> with an item.\<close>

definition cJSON_SetNumberHelper :: "ref \<Rightarrow> double \<Rightarrow> memory_state \<Rightarrow> memory_state option" where
  "cJSON_SetNumberHelper object number h = do {
     a \<leftarrow> object;
     update_item a (\<lambda>it. it\<lparr>i_valueint := valueint_of number, i_valuedouble := number\<rparr>) h
   }"

text \<open>
  \<open>cJSON_Compare\<close>, with a bound on the calls and rounds of its loops in one another. The loop over
  an object looks up the name of each item in the other object and compares the item with what it
  finds.
\<close>

definition valid_types :: "type_code list" where
  "valid_types = [type_False, type_True, type_NULL, type_Number, type_String, type_Raw, type_Array, type_Object]"

definition compare_texts :: "text_ptr option \<Rightarrow> text_ptr option \<Rightarrow> memory_state \<Rightarrow> bool option" where
  "compare_texts p q h = (case (p, q) of
     (Some p, Some q) \<Rightarrow> do { s \<leftarrow> read_text p h; t \<leftarrow> read_text q h; Some (s = t) }
   | _ \<Rightarrow> Some False)"

datatype comparison = Decided bool | Elements | Members

definition compare_kind :: "nat \<Rightarrow> nat \<Rightarrow> item \<Rightarrow> item \<Rightarrow> memory_state \<Rightarrow> comparison option" where
  "compare_kind p q ai bi h =
     (let ty = i_type ai AND 0xFF
      in if ty \<noteq> i_type bi AND 0xFF \<or> ty = type_Invalid then Some (Decided False)
         else if ty \<notin> set valid_types then Some (Decided False)
         else if p = q then Some (Decided True)
         else if ty \<in> {type_False, type_True, type_NULL} then Some (Decided True)
         else if ty = type_Number then Some (Decided (i_valuedouble ai = i_valuedouble bi))
         else if ty \<in> {type_String, type_Raw}
         then do { same \<leftarrow> compare_texts (i_valuestring ai) (i_valuestring bi) h; Some (Decided same) }
         else if ty = type_Array then Some Elements
         else Some Members)"

primrec compare_arrays :: "(ref \<Rightarrow> ref \<Rightarrow> bool option) \<Rightarrow> nat \<Rightarrow> ref \<Rightarrow> ref \<Rightarrow> memory_state \<Rightarrow> bool option" where
  "compare_arrays compare 0 a_element b_element h = None"
| "compare_arrays compare (Suc fuel) a_element b_element h = (case (a_element, b_element) of
     (Some p, Some q) \<Rightarrow> do {
       same \<leftarrow> compare a_element b_element;
       if \<not> same then Some False
       else do {
         ai \<leftarrow> h_items h p;
         bi \<leftarrow> h_items h q;
         compare_arrays compare fuel (i_next ai) (i_next bi) h
       }
     }
   | _ \<Rightarrow> Some (a_element = b_element))"

primrec compare_members :: "(ref \<Rightarrow> ref \<Rightarrow> bool option) \<Rightarrow> bool \<Rightarrow> nat \<Rightarrow> ref \<Rightarrow> ref \<Rightarrow> memory_state \<Rightarrow> bool option" where
  "compare_members compare case_sensitive 0 element other h = None"
| "compare_members compare case_sensitive (Suc fuel) element other h = (case element of
     None \<Rightarrow> Some True
   | Some p \<Rightarrow> do {
       it \<leftarrow> h_items h p;
       found \<leftarrow> get_object_item other (i_string it) case_sensitive h;
       if found = None then Some False
       else do {
         same \<leftarrow> compare element found;
         if \<not> same then Some False else compare_members compare case_sensitive fuel (i_next it) other h
       }
     })"

primrec compare_items :: "nat \<Rightarrow> bool \<Rightarrow> memory_state \<Rightarrow> ref \<Rightarrow> ref \<Rightarrow> bool option" where
  "compare_items 0 case_sensitive h a b = None"
| "compare_items (Suc fuel) case_sensitive h a b = (case (a, b) of
     (Some p, Some q) \<Rightarrow> do {
       ai \<leftarrow> h_items h p;
       bi \<leftarrow> h_items h q;
       kind \<leftarrow> compare_kind p q ai bi h;
       case kind of
         Decided same \<Rightarrow> Some same
       | Elements \<Rightarrow> compare_arrays (compare_items fuel case_sensitive h) fuel (i_child ai) (i_child bi) h
       | Members \<Rightarrow> do {
           same \<leftarrow> compare_members (compare_items fuel case_sensitive h) case_sensitive fuel (i_child ai) b h;
           if \<not> same then Some False
           else compare_members (compare_items fuel case_sensitive h) case_sensitive fuel (i_child bi) a h
         }
     }
   | _ \<Rightarrow> Some False)"

end
