(* ===== verification/Arion_Json_Heap_Props.thy ===== *)
theory Arion_Json_Heap_Props
  imports Arion_Json_Heap
begin

text \<open>
  Trees of items in memory. A tree has the address and the fields of each item; \<open>seg\<close> says that
  the memory holds a chain of such trees, with the links between them, and \<open>owned\<close> that the chain
  may be deleted. The operations on chains are operations on the list of trees.
\<close>

section \<open>Trees in memory\<close>

datatype node = Node (n_addr: nat) (n_item: item) (n_kids: "node list")

primrec first_of :: "ref \<Rightarrow> node list \<Rightarrow> ref" where
  "first_of e [] = e"
| "first_of e (t # ts) = Some (n_addr t)"

primrec last_of :: "ref \<Rightarrow> node list \<Rightarrow> ref" where
  "last_of q [] = q"
| "last_of q (t # ts) = last_of (Some (n_addr t)) ts"

text \<open>The fields of an item with its links; a reference keeps the child it was made with.\<close>

definition cell :: "ref \<Rightarrow> ref \<Rightarrow> item \<Rightarrow> node list \<Rightarrow> item" where
  "cell q e it ks = it\<lparr>i_prev := q, i_next := e,
     i_child := (if is_reference it then i_child it else first_of None ks)\<rparr>"

fun seg :: "(nat \<rightharpoonup> item) \<Rightarrow> ref \<Rightarrow> node list \<Rightarrow> ref \<Rightarrow> bool" where
  "seg H q [] e \<longleftrightarrow> True"
| "seg H q (Node a it ks # ts) e \<longleftrightarrow>
     H a = Some (cell q (first_of e ts) it ks) \<and> (is_reference it \<longrightarrow> ks = []) \<and>
     seg H None ks None \<and> seg H (Some a) ts e"

fun addrs :: "node list \<Rightarrow> nat list" where
  "addrs [] = []"
| "addrs (Node a it ks # ts) = a # addrs ks @ addrs ts"

definition own_text :: "bool \<Rightarrow> text_ptr option \<Rightarrow> nat list" where
  "own_text borrowed p = (case p of Some (Block a) \<Rightarrow> if borrowed then [] else [a] | _ \<Rightarrow> [])"

definition text_ok :: "bool \<Rightarrow> text_ptr option \<Rightarrow> bool" where
  "text_ok borrowed p \<longleftrightarrow> borrowed \<or> (case p of Some (Literal s) \<Rightarrow> False | _ \<Rightarrow> True)"

fun texts :: "node list \<Rightarrow> nat list" where
  "texts [] = []"
| "texts (Node a it ks # ts) =
     own_text (is_reference it) (i_valuestring it) @ own_text (string_is_const it) (i_string it) @ texts ks @ texts ts"

fun texts_ok :: "node list \<Rightarrow> bool" where
  "texts_ok [] \<longleftrightarrow> True"
| "texts_ok (Node a it ks # ts) \<longleftrightarrow> text_ok (is_reference it) (i_valuestring it) \<and>
     text_ok (string_is_const it) (i_string it) \<and> texts_ok ks \<and> texts_ok ts"

definition owned :: "memory_state \<Rightarrow> node list \<Rightarrow> bool" where
  "owned h ts \<longleftrightarrow> distinct (addrs ts) \<and> distinct (texts ts) \<and> set (texts ts) \<subseteq> dom (h_strings h) \<and> texts_ok ts"

lemma addrs_append [simp]: "addrs (xs @ ys) = addrs xs @ addrs ys"
  by (induction xs rule: addrs.induct) auto

lemma texts_append [simp]: "texts (xs @ ys) = texts xs @ texts ys"
  by (induction xs rule: texts.induct) auto

lemma texts_ok_append [simp]: "texts_ok (xs @ ys) \<longleftrightarrow> texts_ok xs \<and> texts_ok ys"
  by (induction xs rule: texts_ok.induct) auto

lemma first_of_append [simp]: "first_of e (xs @ ys) = first_of (first_of e ys) xs"
  by (cases xs) simp_all

lemma last_of_append [simp]: "last_of q (xs @ ys) = last_of (last_of q xs) ys"
  by (induction xs arbitrary: q) simp_all

lemma seg_append [simp]: "seg H q (xs @ ys) e \<longleftrightarrow> seg H q xs (first_of e ys) \<and> seg H (last_of q xs) ys e"
  by (induction H q xs "first_of e ys" rule: seg.induct) auto

lemma seg_cong: "(\<And>a. a \<in> set (addrs ts) \<Longrightarrow> H' a = H a) \<Longrightarrow> seg H' q ts e \<longleftrightarrow> seg H q ts e"
  by (induction H q ts e rule: seg.induct) auto

lemma first_of_addrs: "ts \<noteq> [] \<Longrightarrow> \<exists>a. first_of e ts = Some a \<and> a \<in> set (addrs ts)"
  by (cases ts rule: addrs.cases) auto

lemma seg_in_memory: "seg H q ts e \<Longrightarrow> set (addrs ts) \<subseteq> dom H"
  by (induction H q ts e rule: seg.induct) auto

lemma cell_simps [simp]:
  "is_reference (cell q e it ks) = is_reference it" "string_is_const (cell q e it ks) = string_is_const it"
  "i_type (cell q e it ks) = i_type it" "i_valuestring (cell q e it ks) = i_valuestring it"
  "i_string (cell q e it ks) = i_string it" "i_valueint (cell q e it ks) = i_valueint it"
  "i_valuedouble (cell q e it ks) = i_valuedouble it"
  "i_next (cell q e it ks) = e" "i_prev (cell q e it ks) = q"
  by (simp_all add: cell_def is_reference_def string_is_const_def)

lemma cell_child [simp]: "\<not> is_reference it \<Longrightarrow> i_child (cell q e it ks) = first_of None ks"
  by (simp add: cell_def)

section \<open>Deleting\<close>

definition forget :: "nat set \<Rightarrow> nat set \<Rightarrow> memory_state \<Rightarrow> memory_state" where
  "forget A T h = h\<lparr>h_items := h_items h |` (- A), h_strings := h_strings h |` (- T)\<rparr>"

lemma forget_simps [simp]:
  "h_items (forget A T h) = h_items h |` (- A)" "h_strings (forget A T h) = h_strings h |` (- T)"
  "h_next (forget A T h) = h_next h" "h_allocate (forget A T h) = h_allocate h"
  by (simp_all add: forget_def)

lemma forget_forget: "forget A T (forget B U h) = forget (A \<union> B) (T \<union> U) h"
  by (simp add: forget_def Int_commute)

lemma restrict_map_UNIV [simp]: "m |` UNIV = m"
  by (simp add: restrict_map_def)

lemma restrict_map_delete: "m(a := None) = m |` (- {a})"
  by (auto simp: restrict_map_def)

lemma forget_empty [simp]: "forget {} {} h = h"
  by (simp add: forget_def)

lemma free_text_own:
  assumes "text_ok borrowed p" "set (own_text borrowed p) \<subseteq> dom (h_strings h)"
  shows "free_text borrowed p h = Some (forget {} (set (own_text borrowed p)) h)"
  using assms
  by (auto simp: free_text_def own_text_def text_ok_def deallocate_text_def forget_def restrict_map_delete
      split: option.splits text_ptr.splits)

lemma delete_fields_owned:
  assumes "h_items h a = Some it" "text_ok (is_reference it) (i_valuestring it)" "text_ok (string_is_const it) (i_string it)"
    "set (own_text (is_reference it) (i_valuestring it) @ own_text (string_is_const it) (i_string it)) \<subseteq> dom (h_strings h)"
    "distinct (own_text (is_reference it) (i_valuestring it) @ own_text (string_is_const it) (i_string it))"
  shows "delete_fields a h = Some (forget {a}
    (set (own_text (is_reference it) (i_valuestring it) @ own_text (string_is_const it) (i_string it))) h)"
proof -
  let ?v = "set (own_text (is_reference it) (i_valuestring it))" and ?s = "set (own_text (string_is_const it) (i_string it))"
  have "free_text (is_reference it) (i_valuestring it) h = Some (forget {} ?v h)"
    using free_text_own assms(2,4) by simp
  moreover have "free_text (string_is_const it) (i_string it) (forget {} ?v h) = Some (forget {} (?s \<union> ?v) h)"
    using free_text_own [OF assms(3), of "forget {} ?v h"] assms(4,5) by (auto simp: forget_forget)
  moreover have "deallocate_item a (forget {} (?s \<union> ?v) h) = Some (forget {a} (?v \<union> ?s) h)"
    using assms(1)
    by (auto simp: deallocate_item_def forget_def restrict_map_delete Un_commute)
  ultimately show ?thesis using assms(1) by (simp add: delete_fields_def)
qed

lemma cJSON_Delete_null [simp]: "cJSON_Delete None h = Some h"
  by (subst cJSON_Delete.simps) simp

lemma owned_forget: "owned h ts \<Longrightarrow> set (texts ts) \<inter> T = {} \<Longrightarrow> owned (forget A T h) ts"
  by (auto simp: owned_def)

lemma cJSON_Delete_chain:
  "seg (h_items h) q ts None \<Longrightarrow> owned h ts \<Longrightarrow>
    cJSON_Delete (first_of None ts) h = Some (forget (set (addrs ts)) (set (texts ts)) h)"
proof (induction ts arbitrary: h q rule: addrs.induct)
  case 1
  show ?case by simp
next
  case (2 a it ks ts)
  let ?own = "own_text (is_reference it) (i_valuestring it) @ own_text (string_is_const it) (i_string it)"
  let ?h1 = "forget (set (addrs ks)) (set (texts ks)) h"
  let ?h2 = "forget (insert a (set (addrs ks))) (set ?own \<union> set (texts ks)) h"
  have s: "h_items h a = Some (cell q (first_of None ts) it ks)" "is_reference it \<longrightarrow> ks = []"
    "seg (h_items h) None ks None" "seg (h_items h) (Some a) ts None"
    using "2.prems"(1) by simp_all
  have d: "owned h ks" "owned h ts" "a \<notin> set (addrs ks)" "a \<notin> set (addrs ts)"
    "set (addrs ks) \<inter> set (addrs ts) = {}" "set (texts ks) \<inter> set (texts ts) = {}"
    "set ?own \<inter> set (texts ks) = {}" "set ?own \<inter> set (texts ts) = {}" "distinct ?own"
    "set ?own \<subseteq> dom (h_strings h)"
    "text_ok (is_reference it) (i_valuestring it)" "text_ok (string_is_const it) (i_string it)"
    using "2.prems"(2) by (auto simp: owned_def)
  have kids: "(if \<not> is_reference it \<and> i_child (cell q (first_of None ts) it ks) \<noteq> None
      then cJSON_Delete (i_child (cell q (first_of None ts) it ks)) h else Some h) = Some ?h1"
    using "2.IH"(1) [OF s(3) d(1)] s(2) by (cases ks) auto
  have "delete_fields a ?h1 = Some (forget {a} (set ?own) ?h1)"
    using delete_fields_owned [of ?h1 a "cell q (first_of None ts) it ks"] s(1) d(3,7,9,10,11,12) by auto
  then have fields: "delete_fields a ?h1 = Some ?h2" by (simp add: forget_forget)
  have "seg (h_items ?h2) (Some a) ts None"
    using s(4) by (subst seg_cong) (use d(4,5) in \<open>auto simp: restrict_map_def\<close>)
  moreover have "owned ?h2 ts" using owned_forget [OF d(2)] d(6,8) by (simp add: Int_Un_distrib Int_commute)
  ultimately have "cJSON_Delete (first_of None ts) ?h2 = Some (forget (set (addrs ts)) (set (texts ts)) ?h2)"
    using "2.IH"(2) by blast
  then show ?case using s(1) kids fields
    by (subst cJSON_Delete.simps) (simp add: forget_forget Un_ac)
qed

section \<open>Changing the links of a chain\<close>

text \<open>What an operation leaves alone: everything but the items at \<open>A\<close>.\<close>

definition relinks :: "nat set \<Rightarrow> memory_state \<Rightarrow> memory_state \<Rightarrow> bool" where
  "relinks A h h' \<longleftrightarrow> h_strings h' = h_strings h \<and> h_next h' = h_next h \<and> h_allocate h' = h_allocate h \<and>
     (\<forall>a. a \<notin> A \<longrightarrow> h_items h' a = h_items h a)"

lemma relinks_refl [simp]: "relinks A h h"
  by (simp add: relinks_def)

lemma relinks_trans: "relinks A h h' \<Longrightarrow> relinks B h' h'' \<Longrightarrow> relinks (A \<union> B) h h''"
  by (auto simp: relinks_def)

lemma relinks_mono: "relinks A h h' \<Longrightarrow> A \<subseteq> B \<Longrightarrow> relinks B h h'"
  by (auto simp: relinks_def)

lemma relinks_item: "relinks A h h' \<Longrightarrow> a \<notin> A \<Longrightarrow> h_items h' a = h_items h a"
  by (simp add: relinks_def)

lemma relinks_seg: "relinks A h h' \<Longrightarrow> set (addrs ts) \<inter> A = {} \<Longrightarrow> seg (h_items h') q ts e \<longleftrightarrow> seg (h_items h) q ts e"
  by (rule seg_cong) (auto simp: relinks_def)

lemma relinks_strings: "relinks A h h' \<Longrightarrow> h_strings h' = h_strings h"
  by (simp add: relinks_def)

lemma relinks_owned: "relinks A h h' \<Longrightarrow> owned h' ts = owned h ts"
  by (simp add: owned_def relinks_strings)

lemma update_item_at: "h_items h a = Some it \<Longrightarrow> update_item a f h = Some (h\<lparr>h_items := (h_items h)(a \<mapsto> f it)\<rparr>)"
  by (simp add: update_item_def)

lemma relinks_update [simp]: "a \<in> A \<Longrightarrow> relinks A h (h\<lparr>h_items := (h_items h)(a \<mapsto> it)\<rparr>)"
  by (simp add: relinks_def)

lemma cell_links [simp]:
  "(cell q e it ks)\<lparr>i_next := e'\<rparr> = cell q e' it ks" "(cell q e it ks)\<lparr>i_prev := q'\<rparr> = cell q' e it ks"
  by (simp_all add: cell_def)

lemma seg_Cons:
  "seg H q (t # ts) e \<longleftrightarrow> H (n_addr t) = Some (cell q (first_of e ts) (n_item t) (n_kids t)) \<and>
     (is_reference (n_item t) \<longrightarrow> n_kids t = []) \<and> seg H None (n_kids t) None \<and> seg H (Some (n_addr t)) ts e"
  by (cases t) simp

lemma addrs_Cons: "addrs (t # ts) = n_addr t # addrs (n_kids t) @ addrs ts"
  by (cases t) simp

lemma set_prev_seg:
  assumes "seg (h_items h) q ys e" "distinct (addrs ys)" "ys = [] \<Longrightarrow> e = None"
  shows "\<exists>h'. set_prev (first_of e ys) q' h = Some h' \<and> seg (h_items h') q' ys e \<and> relinks (set (addrs ys)) h h'"
proof (cases ys)
  case Nil
  then show ?thesis using assms(3) by (simp add: set_prev_def)
next
  case (Cons t ts)
  let ?h' = "h\<lparr>h_items := (h_items h)(n_addr t \<mapsto> cell q' (first_of e ts) (n_item t) (n_kids t))\<rparr>"
  have s: "h_items h (n_addr t) = Some (cell q (first_of e ts) (n_item t) (n_kids t))"
    "is_reference (n_item t) \<longrightarrow> n_kids t = []" "seg (h_items h) None (n_kids t) None" "seg (h_items h) (Some (n_addr t)) ts e"
    using assms(1) Cons by (simp_all add: seg_Cons)
  have d: "n_addr t \<notin> set (addrs (n_kids t))" "n_addr t \<notin> set (addrs ts)"
    using assms(2) Cons by (simp_all add: addrs_Cons)
  have r: "relinks {n_addr t} h ?h'" by simp
  have "seg (h_items ?h') q' ys e"
    using s d relinks_seg [OF r, of "n_kids t"] relinks_seg [OF r, of ts] Cons by (simp add: seg_Cons)
  moreover have "relinks (set (addrs ys)) h ?h'" using Cons by (simp add: addrs_Cons)
  moreover have "set_prev (first_of e ys) q' h = Some ?h'"
    using s(1) Cons by (simp add: set_prev_def update_item_at)
  ultimately show ?thesis by blast
qed

lemma set_next_seg:
  assumes "seg (h_items h) q xs e" "distinct (addrs xs)" "xs = [] \<Longrightarrow> q = None"
  shows "\<exists>h'. set_next (last_of q xs) e' h = Some h' \<and> seg (h_items h') q xs e' \<and> relinks (set (addrs xs)) h h'"
proof (cases xs rule: rev_cases)
  case Nil
  then show ?thesis using assms(3) by (simp add: set_next_def)
next
  case (snoc ts t)
  let ?h' = "h\<lparr>h_items := (h_items h)(n_addr t \<mapsto> cell (last_of q ts) e' (n_item t) (n_kids t))\<rparr>"
  have s: "h_items h (n_addr t) = Some (cell (last_of q ts) e (n_item t) (n_kids t))"
    "is_reference (n_item t) \<longrightarrow> n_kids t = []" "seg (h_items h) None (n_kids t) None" "seg (h_items h) q ts (Some (n_addr t))"
    using assms(1) snoc by (simp_all add: seg_Cons)
  have d: "n_addr t \<notin> set (addrs (n_kids t))" "n_addr t \<notin> set (addrs ts)"
    using assms(2) snoc by (simp_all add: addrs_Cons)
  have r: "relinks {n_addr t} h ?h'" by simp
  have "seg (h_items ?h') q xs e'"
    using s d relinks_seg [OF r, of "n_kids t"] relinks_seg [OF r, of ts] snoc by (simp add: seg_Cons)
  moreover have "relinks (set (addrs xs)) h ?h'" using snoc by (simp add: addrs_Cons)
  moreover have "set_next (last_of q xs) e' h = Some ?h'"
    using s(1) snoc by (simp add: set_next_def update_item_at)
  ultimately show ?thesis by blast
qed

section \<open>Arrays and objects\<close>

text \<open>
  \<open>array_at h p ks\<close>: the item at \<open>p\<close> has the chain \<open>ks\<close> of children. \<open>chain_updated\<close> is the outcome of
  an operation on it: the new chain, with the fields of the array and everything outside \<open>A\<close> as
  they were.
\<close>

definition array_at :: "memory_state \<Rightarrow> nat \<Rightarrow> node list \<Rightarrow> bool" where
  "array_at h p ks \<longleftrightarrow> (\<exists>pt. h_items h p = Some pt \<and> i_child pt = first_of None ks) \<and>
     seg (h_items h) None ks None \<and> distinct (p # addrs ks)"

definition chain_updated :: "memory_state \<Rightarrow> nat \<Rightarrow> node list \<Rightarrow> nat set \<Rightarrow> memory_state \<Rightarrow> bool" where
  "chain_updated h p ks A h' \<longleftrightarrow> array_at h' p ks \<and> relinks (insert p A) h h' \<and>
     map_option (i_child_update (\<lambda>_. None)) (h_items h' p) = map_option (i_child_update (\<lambda>_. None)) (h_items h p)"

lemma array_atD:
  assumes "array_at h p ks"
  obtains pt where "h_items h p = Some pt" "i_child pt = first_of None ks"
    "seg (h_items h) None ks None" "p \<notin> set (addrs ks)" "distinct (addrs ks)"
  using assms by (auto simp: array_at_def)

lemma nth_item_seg:
  "seg (h_items h) q ks None \<Longrightarrow> nth_item i (first_of None ks) h = Some (first_of None (drop i ks))"
proof (induction i arbitrary: q ks)
  case (Suc i)
  then show ?case by (cases ks) (auto simp: seg_Cons)
qed simp

lemma get_array_item_seg: "array_at h p ks \<Longrightarrow> get_array_item (Some p) i h = Some (first_of None (drop i ks))"
  by (auto simp: array_at_def get_array_item_def nth_item_seg)

lemma last_item_seg:
  "seg (h_items h) q (t # ks) None \<Longrightarrow> last_item (n_addr t) h = last_of None (t # ks)"
proof (induction ks arbitrary: q t)
  case Nil
  then show ?case by (subst last_item.simps) (simp add: seg_Cons)
next
  case (Cons u ks)
  have "last_item (n_addr u) h = last_of None (u # ks)" using Cons by (auto simp: seg_Cons)
  then show ?case using Cons.prems by (subst last_item.simps) (simp add: seg_Cons)
qed

section \<open>Editing a chain\<close>

lemma set_child_at:
  assumes "h_items h p = Some pt" "seg (h_items h) None ks None" "distinct (p # addrs ks)" "c = first_of None ks"
  shows "\<exists>h'. update_item p (i_child_update (\<lambda>_. c)) h = Some h' \<and> array_at h' p ks \<and> relinks {p} h h' \<and>
    h_items h' p = Some (pt\<lparr>i_child := c\<rparr>)"
proof -
  let ?h' = "h\<lparr>h_items := (h_items h)(p \<mapsto> pt\<lparr>i_child := c\<rparr>)\<rparr>"
  have r: "relinks {p} h ?h'" by simp
  then have "seg (h_items ?h') None ks None" using assms(2,3) by (subst relinks_seg [OF r]) auto
  then show ?thesis using assms r by (simp add: array_at_def update_item_at)
qed

lemma array_at_kept:
  assumes "h_items h p = Some pt" "i_child pt = first_of None ks" "seg (h_items h) None ks None" "distinct (p # addrs ks)"
  shows "array_at h p ks"
  using assms by (simp add: array_at_def)

text \<open>Appending.\<close>

lemma suffix_object_seg:
  assumes "seg (h_items h) None ks None" "ks \<noteq> []" "distinct (addrs (ks @ [t]))" "seg (h_items h) q [t] None"
  shows "\<exists>h'. (\<exists>l. last_of None ks = Some l \<and> suffix_object l (n_addr t) h = Some h') \<and> seg (h_items h') None (ks @ [t]) None \<and>
    relinks (set (addrs (ks @ [t]))) h h'"
proof -
  obtain l where l: "last_of None ks = Some l" using assms(2) by (cases ks rule: rev_cases) auto
  obtain h1 where h1: "set_next (Some l) (Some (n_addr t)) h = Some h1" "seg (h_items h1) None ks (Some (n_addr t))"
    "relinks (set (addrs ks)) h h1"
    using set_next_seg [OF assms(1)] assms(2,3) l by auto
  have "seg (h_items h1) q [t] None" using relinks_seg [OF h1(3)] assms(3,4) by auto
  then obtain h2 where h2: "set_prev (Some (n_addr t)) (Some l) h1 = Some h2" "seg (h_items h2) (Some l) [t] None"
    "relinks (set (addrs [t])) h1 h2"
    using set_prev_seg [of h1 q "[t]" None] assms(3) by auto
  have "seg (h_items h2) None ks (Some (n_addr t))" using relinks_seg [OF h2(3)] h1(2) assms(3) by auto
  moreover have "suffix_object l (n_addr t) h = Some h2"
    using h1(1) h2(1) by (simp add: suffix_object_def set_next_def set_prev_def)
  ultimately show ?thesis using h2(2) l relinks_trans [OF h1(3) h2(3)] by auto
qed

lemma add_item_to_array_appends:
  assumes "array_at h p ks" "seg (h_items h) None [t] None" "distinct (p # addrs (ks @ [t]))"
  shows "\<exists>h'. add_item_to_array (Some p) (Some (n_addr t)) h = Some (True, h') \<and>
    chain_updated h p (ks @ [t]) (set (addrs (ks @ [t]))) h'"
proof -
  obtain pt where p: "h_items h p = Some pt" "i_child pt = first_of None ks" "seg (h_items h) None ks None"
    using array_atD [OF assms(1)] by metis
  show ?thesis
  proof (cases ks)
    case Nil
    then show ?thesis using set_child_at [OF p(1) assms(2), of "Some (n_addr t)"] p assms(3)
      by (auto simp: add_item_to_array_def chain_updated_def intro: relinks_mono)
  next
    case (Cons u us)
    then obtain h' l where h': "last_of None ks = Some l" "suffix_object l (n_addr t) h = Some h'"
      "seg (h_items h') None (ks @ [t]) None" "relinks (set (addrs (ks @ [t]))) h h'"
      using suffix_object_seg [OF p(3) _ _ assms(2)] assms(3) by auto
    have i: "h_items h' p = Some pt" using relinks_item [OF h'(4)] p(1) assms(3) by simp
    then have "array_at h' p (ks @ [t])" using array_at_kept [OF i _ h'(3)] p(2) assms(3) Cons by simp
    then have "chain_updated h p (ks @ [t]) (set (addrs (ks @ [t]))) h'"
      using h'(4) i p(1) by (auto simp: chain_updated_def intro: relinks_mono)
    moreover have "last_item (n_addr u) h = Some l" using last_item_seg p(3) h'(1) Cons by metis
    ultimately show ?thesis using p h'(2) Cons by (simp add: add_item_to_array_def)
  qed
qed

text \<open>Joining two chains, and giving an item the links of a place.\<close>

lemma join_chains:
  assumes "seg (h_items h) None xs e" "seg (h_items h) q ys None" "distinct (addrs (xs @ ys))"
  shows "\<exists>h1 h2. set_next (last_of None xs) (first_of None ys) h = Some h1 \<and> set_prev (first_of None ys) (last_of None xs) h1 = Some h2 \<and>
    seg (h_items h2) None (xs @ ys) None \<and> relinks (set (addrs xs)) h h1 \<and> relinks (set (addrs (xs @ ys))) h h2"
proof -
  obtain h1 where h1: "set_next (last_of None xs) (first_of None ys) h = Some h1" "seg (h_items h1) None xs (first_of None ys)"
    "relinks (set (addrs xs)) h h1"
    using set_next_seg [OF assms(1)] assms(3) by auto
  have "seg (h_items h1) q ys None" using relinks_seg [OF h1(3)] assms(2,3) by auto
  then obtain h2 where h2: "set_prev (first_of None ys) (last_of None xs) h1 = Some h2" "seg (h_items h2) (last_of None xs) ys None"
    "relinks (set (addrs ys)) h1 h2"
    using set_prev_seg [of h1 q ys None] assms(3) by auto
  have "seg (h_items h2) None xs (first_of None ys)" using relinks_seg [OF h2(3)] h1(2) assms(3) by auto
  then show ?thesis using h1 h2 relinks_trans [OF h1(3) h2(3)] by auto
qed

lemma update_links_seg:
  assumes "seg (h_items h) q [t] e" "distinct (addrs [t])"
  shows "\<exists>h'. update_item (n_addr t) (\<lambda>it. it\<lparr>i_next := e', i_prev := q'\<rparr>) h = Some h' \<and> seg (h_items h') q' [t] e' \<and>
    relinks {n_addr t} h h'"
proof -
  let ?h' = "h\<lparr>h_items := (h_items h)(n_addr t \<mapsto> cell q' e' (n_item t) (n_kids t))\<rparr>"
  have r: "relinks {n_addr t} h ?h'" by simp
  then have "seg (h_items ?h') q' [t] e'"
    using assms relinks_seg [OF r, of "n_kids t"] by (auto simp: seg_Cons addrs_Cons)
  moreover have "update_item (n_addr t) (\<lambda>it. it\<lparr>i_next := e', i_prev := q'\<rparr>) h = Some ?h'"
    using assms(1) by (simp add: seg_Cons update_item_at)
  ultimately show ?thesis using r by blast
qed

lemma first_is_middle:
  assumes "distinct (addrs (xs @ t # ys))"
  shows "first_of None (xs @ t # ys) = Some (n_addr t) \<longleftrightarrow> xs = []"
  using assms by (cases xs) (auto simp: addrs_Cons)

lemma detach_seg:
  assumes "array_at h p (xs @ t # ys)"
  shows "\<exists>h'. cJSON_DetachItemViaPointer (Some p) (Some (n_addr t)) h = Some (Some (n_addr t), h') \<and>
    chain_updated h p (xs @ ys) (set (addrs (xs @ t # ys))) h' \<and> seg (h_items h') None [t] None"
proof -
  let ?ks = "xs @ t # ys"
  obtain pt where p: "h_items h p = Some pt" "i_child pt = first_of None ?ks" "seg (h_items h) None ?ks None"
    "p \<notin> set (addrs ?ks)" "distinct (addrs ?ks)"
    using array_atD [OF assms] by metis
  have s: "seg (h_items h) None xs (Some (n_addr t))" "seg (h_items h) (Some (n_addr t)) ys None"
    "seg (h_items h) (last_of None xs) [t] (first_of None ys)"
    using p(3) by (simp_all add: seg_Cons)
  have d: "distinct (addrs (xs @ ys))" "set (addrs [t]) \<inter> set (addrs (xs @ ys)) = {}" "distinct (addrs [t])"
    "n_addr t \<notin> set (addrs (xs @ ys))" "p \<noteq> n_addr t" "p \<notin> set (addrs (xs @ ys))"
    using p(4,5) by (auto simp: addrs_Cons)
  obtain h1 h2 where j: "set_next (last_of None xs) (first_of None ys) h = Some h1"
    "set_prev (first_of None ys) (last_of None xs) h1 = Some h2" "seg (h_items h2) None (xs @ ys) None"
    "relinks (set (addrs xs)) h h1" "relinks (set (addrs (xs @ ys))) h h2"
    using join_chains [OF s(1,2) d(1)] by auto
  have t: "h_items h (n_addr t) = Some (cell (last_of None xs) (first_of None ys) (n_item t) (n_kids t))"
    using s(3) by (simp add: seg_Cons)
  have t1: "h_items h1 (n_addr t) = h_items h (n_addr t)" using relinks_item [OF j(4)] d(4) by simp
  have t2: "h_items h2 (n_addr t) = h_items h (n_addr t)" using relinks_item [OF j(5)] d(4) by simp
  have p2: "h_items h2 p = Some pt" using relinks_item [OF j(5)] p(1) d(6) by simp
  have s2: "seg (h_items h2) (last_of None xs) [t] (first_of None ys)" using relinks_seg [OF j(5) d(2)] s(3) by simp
  have c: "i_child pt = Some (n_addr t) \<longleftrightarrow> xs = []" using first_is_middle [OF p(5)] p(2) by simp
  have "\<exists>h3. (if i_child pt = Some (n_addr t)
      then do { it \<leftarrow> h_items h2 (n_addr t); update_item p (i_child_update (\<lambda>_. i_next it)) h2 }
      else Some h2) = Some h3 \<and> array_at h3 p (xs @ ys) \<and> relinks {p} h2 h3 \<and>
      h_items h3 p = Some (pt\<lparr>i_child := first_of None (xs @ ys)\<rparr>)"
  proof (cases "xs = []")
    case True
    then show ?thesis using set_child_at [OF p2 j(3), of "first_of None ys"] d(1,6) c t t2 by simp
  next
    case False
    then have "i_child pt = first_of None (xs @ ys)" using p(2) by (cases xs) simp_all
    then show ?thesis using array_at_kept [OF p2 _ j(3)] d(1,6) c p2 False by simp
  qed
  then obtain h3 where h3: "(if i_child pt = Some (n_addr t)
      then do { it \<leftarrow> h_items h2 (n_addr t); update_item p (i_child_update (\<lambda>_. i_next it)) h2 }
      else Some h2) = Some h3" "array_at h3 p (xs @ ys)" "relinks {p} h2 h3"
    "h_items h3 p = Some (pt\<lparr>i_child := first_of None (xs @ ys)\<rparr>)"
    by auto
  have "seg (h_items h3) (last_of None xs) [t] (first_of None ys)"
    using relinks_seg [OF h3(3), of "[t]"] s2 p(4) by (auto simp: addrs_Cons)
  then obtain h4 where h4: "update_item (n_addr t) (\<lambda>it. it\<lparr>i_next := None, i_prev := None\<rparr>) h3 = Some h4"
    "seg (h_items h4) None [t] None" "relinks {n_addr t} h3 h4"
    using update_links_seg [of h3 _ t] d(3) by blast
  have "array_at h4 p (xs @ ys)"
    using h3(2) h3(4) relinks_item [OF h4(3), of p] relinks_seg [OF h4(3), of "xs @ ys"] d(4,5)
    by (auto simp: array_at_def)
  moreover have "relinks (insert p (set (addrs ?ks))) h h4"
    by (rule relinks_mono [OF relinks_trans [OF relinks_trans [OF j(5) h3(3)] h4(3)]]) (auto simp: addrs_Cons)
  moreover have "h_items h4 p = Some (pt\<lparr>i_child := first_of None (xs @ ys)\<rparr>)"
    using relinks_item [OF h4(3), of p] d(5) h3(4) by simp
  ultimately have "chain_updated h p (xs @ ys) (set (addrs ?ks)) h4" using p(1) by (simp add: chain_updated_def)
  moreover have "cJSON_DetachItemViaPointer (Some p) (Some (n_addr t)) h = Some (Some (n_addr t), h4)"
    using t t1 j(1,2) p2 h3(1) h4(1) by (simp add: cJSON_DetachItemViaPointer_def)
  ultimately show ?thesis using h4(2) by blast
qed

text \<open>Putting an item between two chains.\<close>

lemma set_next_at: "update_item a (i_next_update (\<lambda>_. e)) h = set_next (Some a) e h"
  by (simp add: set_next_def)

lemma set_prev_at: "update_item a (i_prev_update (\<lambda>_. q)) h = set_prev (Some a) q h"
  by (simp add: set_prev_def)

lemma last_of_Some: "xs \<noteq> [] \<Longrightarrow> \<exists>l. last_of q xs = Some l \<and> l \<in> set (addrs xs)"
  by (cases xs rule: rev_cases) (auto simp: addrs_Cons)

text \<open>The pointer of the parent follows when the first item changes.\<close>

lemma set_child_if:
  assumes "h_items h p = Some pt" "seg (h_items h) None (xs @ t # ys) None" "distinct (p # addrs (xs @ t # ys))"
    "i_child pt = b \<longleftrightarrow> xs = []" "xs \<noteq> [] \<Longrightarrow> i_child pt = first_of None xs"
  shows "\<exists>h'. (if i_child pt = b then update_item p (i_child_update (\<lambda>_. Some (n_addr t))) h else Some h) = Some h' \<and>
    array_at h' p (xs @ t # ys) \<and> relinks {p} h h' \<and>
    h_items h' p = Some (pt\<lparr>i_child := first_of None (xs @ t # ys)\<rparr>)"
proof (cases "xs = []")
  case True
  then show ?thesis using set_child_at [OF assms(1-3), of "Some (n_addr t)"] assms(4) by simp
next
  case False
  then have "i_child pt = first_of None (xs @ t # ys)" using assms(5) by (cases xs) simp_all
  then show ?thesis using array_at_kept [OF assms(1) _ assms(2)] assms(1,3,4) False by simp
qed

lemma insert_seg:
  assumes "array_at h p (xs @ b # ys)" "seg (h_items h) None [t] None" "distinct (p # addrs (xs @ t # b # ys))"
  shows "\<exists>h'. cJSON_InsertItemInArray (Some p) (int (length xs)) (Some (n_addr t)) h = Some h' \<and>
    chain_updated h p (xs @ t # b # ys) (set (addrs (xs @ t # b # ys))) h'"
proof -
  let ?n = "n_addr t" and ?b = "n_addr b"
  obtain pt where p: "h_items h p = Some pt" "i_child pt = first_of None (xs @ b # ys)" "seg (h_items h) None (xs @ b # ys) None"
    using array_atD [OF assms(1)] by metis
  have d: "distinct (addrs xs)" "distinct (addrs (b # ys))" "distinct (addrs [t])"
    "set (addrs [t]) \<inter> set (addrs xs) = {}" "set (addrs [t]) \<inter> set (addrs (b # ys)) = {}" "set (addrs xs) \<inter> set (addrs (b # ys)) = {}"
    "p \<notin> set (addrs (xs @ t # b # ys))" "?b \<notin> set (addrs [t])" "?n \<notin> set (addrs (b # ys))" "?b \<notin> set (addrs xs)"
    using assms(3) by (auto simp: addrs_Cons)
  have get: "get_array_item (Some p) (length xs) h = Some (Some ?b)" using get_array_item_seg [OF assms(1)] by simp
  obtain h1 where h1: "set_next (Some ?n) (Some ?b) h = Some h1" "seg (h_items h1) None [t] (Some ?b)" "relinks (set (addrs [t])) h h1"
    using set_next_seg [OF assms(2) d(3), of "Some ?b"] by auto
  have b: "h_items h ?b = Some (cell (last_of None xs) (first_of None ys) (n_item b) (n_kids b))"
    using p(3) by (simp add: seg_Cons)
  have b1: "h_items h1 ?b = h_items h ?b" using relinks_item [OF h1(3) d(8)] .
  obtain h2 where h2: "set_prev (Some ?n) (last_of None xs) h1 = Some h2" "seg (h_items h2) (last_of None xs) [t] (Some ?b)"
    "relinks (set (addrs [t])) h1 h2"
    using set_prev_seg [OF h1(2) d(3), of "last_of None xs"] by auto
  have r2: "relinks (set (addrs [t])) h h2" using relinks_trans [OF h1(3) h2(3)] by simp
  have "seg (h_items h2) (last_of None xs) (b # ys) None" using relinks_seg [OF r2, of "b # ys"] d(5) p(3) by auto
  then obtain h3 where h3: "set_prev (Some ?b) (Some ?n) h2 = Some h3" "seg (h_items h3) (Some ?n) (b # ys) None"
    "relinks (set (addrs (b # ys))) h2 h3"
    using set_prev_seg [of h2 _ "b # ys" None "Some ?n"] d(2) by auto
  have r3: "relinks (set (addrs [t]) \<union> set (addrs (b # ys))) h h3" by (rule relinks_trans [OF r2 h3(3)])
  have s3: "seg (h_items h3) (last_of None xs) [t] (Some ?b)" "seg (h_items h3) None xs (Some ?b)"
    using relinks_seg [OF h3(3), of "[t]"] relinks_seg [OF r3, of xs] h2(2) d(4,5,6) p(3)
    by (auto simp: Int_Un_distrib Int_commute)
  have p3: "h_items h3 p = Some pt" using relinks_item [OF r3, of p] d(7) p(1) by (auto simp: addrs_Cons)
  have n3: "\<exists>nt. h_items h3 ?n = Some nt \<and> i_prev nt = last_of None xs" using s3(1) by (simp add: seg_Cons)
  have c: "i_child pt = Some ?b \<longleftrightarrow> xs = []" using first_is_middle [of xs b ys] assms(3) p(2) by (auto simp: addrs_Cons)
  have run: "cJSON_InsertItemInArray (Some p) (int (length xs)) (Some ?n) h =
      (if xs = [] then update_item p (i_child_update (\<lambda>_. Some ?n)) h3
       else do { l \<leftarrow> last_of None xs; set_next (Some l) (Some ?n) h3 })"
    using get h1(1) b b1 h2(1) h3(1) p3 n3 c by (auto simp: cJSON_InsertItemInArray_def set_next_at set_prev_at)
  have rest: "seg (h_items h3) (last_of None xs) (t # b # ys) None" using s3(1) h3(2) by (auto simp: seg_Cons)
  show ?thesis
  proof (cases "xs = []")
    case True
    then obtain h4 where h4: "update_item p (i_child_update (\<lambda>_. Some ?n)) h3 = Some h4" "array_at h4 p (t # b # ys)" "relinks {p} h3 h4"
      "h_items h4 p = Some (pt\<lparr>i_child := Some ?n\<rparr>)"
      using set_child_at [OF p3, of "t # b # ys" "Some ?n"] rest assms(3) by auto
    have "relinks (insert p (set (addrs (t # b # ys)))) h h4"
      by (rule relinks_mono [OF relinks_trans [OF r3 h4(3)]]) (auto simp: addrs_Cons)
    then show ?thesis using h4 run True p(1) by (simp add: chain_updated_def)
  next
    case False
    then obtain l where l: "last_of None xs = Some l" "l \<in> set (addrs xs)" using last_of_Some by blast
    obtain h4 where h4: "set_next (Some l) (Some ?n) h3 = Some h4" "seg (h_items h4) None xs (Some ?n)" "relinks (set (addrs xs)) h3 h4"
      using set_next_seg [OF s3(2) d(1), of "Some ?n"] l by auto
    have "seg (h_items h4) (last_of None xs) (t # b # ys) None"
      using relinks_seg [OF h4(3), of "t # b # ys"] rest d(4,6) by (auto simp: addrs_Cons)
    then have s4: "seg (h_items h4) None (xs @ t # b # ys) None" using h4(2) by simp
    have p4: "h_items h4 p = Some pt" using relinks_item [OF h4(3), of p] d(7) p3 by simp
    have r4: "relinks (insert p (set (addrs (xs @ t # b # ys)))) h h4"
      by (rule relinks_mono [OF relinks_trans [OF r3 h4(3)]]) (auto simp: addrs_Cons)
    have "i_child pt = first_of None (xs @ t # b # ys)" using p(2) False by (cases xs) simp_all
    then have "array_at h4 p (xs @ t # b # ys)" using array_at_kept [OF p4 _ s4 assms(3)] by simp
    then show ?thesis using r4 p4 p(1) run False l h4(1) by (auto simp: chain_updated_def)
  qed
qed

text \<open>Replacing. The old item ends up alone, and is deleted.\<close>

lemma seg_forget: "set (addrs ts) \<inter> A = {} \<Longrightarrow> seg (h_items (forget A T h)) q ts e \<longleftrightarrow> seg (h_items h) q ts e"
  by (rule seg_cong) (auto simp: restrict_map_def)

lemma array_at_forget: "array_at h p ks \<Longrightarrow> set (p # addrs ks) \<inter> A = {} \<Longrightarrow> array_at (forget A T h) p ks"
  using seg_forget [of ks A T h] by (auto simp: array_at_def simp del: forget_simps) (auto simp: restrict_map_def)

lemma replace_seg:
  assumes "array_at h p (xs @ t # ys)" "seg (h_items h) None [r] None" "distinct (p # addrs (xs @ t # r # ys))" "owned h [t]"
  shows "\<exists>h'. cJSON_ReplaceItemViaPointer (Some p) (Some (n_addr t)) (Some (n_addr r)) h =
      Some (True, forget (set (addrs [t])) (set (texts [t])) h') \<and>
    chain_updated h p (xs @ r # ys) (set (addrs (xs @ t # r # ys))) h' \<and> seg (h_items h') None [t] None"
proof -
  let ?r = "n_addr r" and ?t = "n_addr t"
  obtain pt where p: "h_items h p = Some pt" "i_child pt = first_of None (xs @ t # ys)" "seg (h_items h) None (xs @ t # ys) None"
    using array_atD [OF assms(1)] by metis
  have d: "distinct (addrs xs)" "distinct (addrs ys)" "distinct (addrs [r])" "distinct (addrs [t])"
    "set (addrs [r]) \<inter> set (addrs xs) = {}" "set (addrs [r]) \<inter> set (addrs ys) = {}" "set (addrs [r]) \<inter> set (addrs [t]) = {}"
    "set (addrs xs) \<inter> set (addrs ys) = {}" "set (addrs [t]) \<inter> set (addrs ys) = {}" "set (addrs [t]) \<inter> set (addrs xs) = {}"
    "p \<notin> set (addrs (xs @ t # r # ys))" "?t \<noteq> ?r" "?t \<notin> set (addrs (xs @ r # ys))" "p \<noteq> ?t" "p \<noteq> ?r"
    "distinct (p # addrs (xs @ r # ys))"
    using assms(3) by (auto simp: addrs_Cons)
  have t: "h_items h ?t = Some (cell (last_of None xs) (first_of None ys) (n_item t) (n_kids t))" using p(3) by (simp add: seg_Cons)
  obtain h1 where h1: "update_item ?r (\<lambda>rt. rt\<lparr>i_next := first_of None ys, i_prev := last_of None xs\<rparr>) h = Some h1"
    "seg (h_items h1) (last_of None xs) [r] (first_of None ys)" "relinks {?r} h h1"
    using update_links_seg [OF assms(2) d(3)] by blast
  have "seg (h_items h1) (Some ?t) ys None" using relinks_seg [OF h1(3), of ys] d(6) p(3) by (auto simp: addrs_Cons seg_Cons)
  then obtain h2 where h2: "set_prev (first_of None ys) (Some ?r) h1 = Some h2" "seg (h_items h2) (Some ?r) ys None"
    "relinks (set (addrs ys)) h1 h2"
    using set_prev_seg [of h1 _ ys None] d(2) by blast
  have r2: "relinks ({?r} \<union> set (addrs ys)) h h2" by (rule relinks_trans [OF h1(3) h2(3)])
  have "seg (h_items h2) None xs (Some ?t)" using relinks_seg [OF r2, of xs] d(5,8) p(3) by (auto simp: addrs_Cons)
  then obtain h3 where h3: "set_next (last_of None xs) (Some ?r) h2 = Some h3" "seg (h_items h3) None xs (Some ?r)"
    "relinks (set (addrs xs)) h2 h3"
    using set_next_seg [of h2 None xs] d(1) by blast
  have r3: "relinks ({?r} \<union> set (addrs ys) \<union> set (addrs xs)) h h3" by (rule relinks_trans [OF r2 h3(3)])
  have r23: "relinks (set (addrs ys) \<union> set (addrs xs)) h1 h3" by (rule relinks_trans [OF h2(3) h3(3)])
  have s3: "seg (h_items h3) (last_of None xs) [r] (first_of None ys)" "seg (h_items h3) (Some ?r) ys None"
    using relinks_seg [OF r23, of "[r]"] relinks_seg [OF h3(3), of ys] h1(2) h2(2) d(5,6,8)
    by (auto simp: Int_Un_distrib Int_commute)
  have all3: "seg (h_items h3) None (xs @ r # ys) None" using h3(2) s3 by (auto simp: seg_Cons)
  have p3: "h_items h3 p = Some pt" using relinks_item [OF r3, of p] d(11) p(1) by (auto simp: addrs_Cons)
  have c: "i_child pt = Some ?t \<longleftrightarrow> xs = []" using first_is_middle [of xs t ys] assms(3) p(2) by (auto simp: addrs_Cons)
  have "xs \<noteq> [] \<Longrightarrow> i_child pt = first_of None xs" using p(2) by (cases xs) simp_all
  then obtain h4 where h4: "(if i_child pt = Some ?t then update_item p (i_child_update (\<lambda>_. Some ?r)) h3 else Some h3) = Some h4"
    "array_at h4 p (xs @ r # ys)" "relinks {p} h3 h4" "h_items h4 p = Some (pt\<lparr>i_child := first_of None (xs @ r # ys)\<rparr>)"
    using set_child_if [OF p3 all3 d(16) c] by blast
  have r4: "relinks (insert p (set (addrs (xs @ r # ys)))) h h4"
    by (rule relinks_mono [OF relinks_trans [OF r3 h4(3)]]) (auto simp: addrs_Cons)
  have "set (addrs [t]) \<inter> insert p (set (addrs (xs @ r # ys))) = {}" using assms(3) by (auto simp: addrs_Cons)
  then have "seg (h_items h4) (last_of None xs) [t] (first_of None ys)"
    using relinks_seg [OF r4, of "[t]"] p(3) by (simp add: seg_Cons)
  then obtain h5 where h5: "update_item ?t (\<lambda>it. it\<lparr>i_next := None, i_prev := None\<rparr>) h4 = Some h5"
    "seg (h_items h5) None [t] None" "relinks {?t} h4 h5"
    using update_links_seg [of h4 _ t] d(4) by blast
  have r5: "relinks (insert p (set (addrs (xs @ t # r # ys)))) h h5"
    by (rule relinks_mono [OF relinks_trans [OF r4 h5(3)]]) (auto simp: addrs_Cons)
  have "array_at h5 p (xs @ r # ys)"
    using h4(2) relinks_item [OF h5(3), of p] relinks_seg [OF h5(3), of "xs @ r # ys"] d(13,14) by (auto simp: array_at_def)
  then have "chain_updated h p (xs @ r # ys) (set (addrs (xs @ t # r # ys))) h5"
    using r5 relinks_item [OF h5(3), of p] d(14) h4(4) p(1) by (simp add: chain_updated_def)
  moreover have "cJSON_Delete (Some ?t) h5 = Some (forget (set (addrs [t])) (set (texts [t])) h5)"
    using cJSON_Delete_chain [OF h5(2)] relinks_owned [OF r5] assms(4) by simp
  moreover have "h_items h1 ?t = h_items h ?t" using relinks_item [OF h1(3)] d(12) by simp
  moreover have "\<exists>rt. h_items h2 ?r = Some rt \<and> i_prev rt = last_of None xs"
    using relinks_item [OF h2(3), of ?r] h1(2) d(6) by (auto simp: seg_Cons addrs_Cons)
  ultimately show ?thesis
    using t h1(1) h2(1) h3(1) p3 h4(1) h5(1,2) d(12) by (auto simp: cJSON_ReplaceItemViaPointer_def)
qed

end
