(* ===== verification/Arion_Json_Edit.thy ===== *)
theory Arion_Json_Edit
  imports Arion_Json_Heap_Props "HOL-Library.Multiset"
begin

text \<open>
  Sequences of edits of an array or object. A client has an array and a pool of items of its own,
  made by the \<open>cJSON_Create\<close> functions or taken out of the array, and calls the functions that
  append, insert, detach, delete and replace. In the abstract these move trees between two
  lists; the theorem is that every sequence of calls on memory does the same, never follows a bad
  pointer, and neither leaks an item nor touches one that is not the client's.
\<close>

section \<open>The client\<close>

datatype edit =
    Append nat
  | Insert int nat
  | Detach int
  | Delete int
  | Replace int nat

definition remove_nth :: "nat \<Rightarrow> 'a list \<Rightarrow> 'a list" where
  "remove_nth i xs = take i xs @ drop (Suc i) xs"

text \<open>A call on memory: the client has the pool of pointers, an item's number in the pool stands for it.\<close>

definition run_edit :: "nat \<Rightarrow> edit \<Rightarrow> nat list \<times> memory_state \<Rightarrow> (nat list \<times> memory_state) option" where
  "run_edit p e s = (case s of (pool, h) \<Rightarrow> (case e of
     Append i \<Rightarrow> do { h \<leftarrow> cJSON_AddItemToArray (Some p) (Some (pool ! i)) h; Some (remove_nth i pool, h) }
   | Insert which i \<Rightarrow> do {
       h \<leftarrow> cJSON_InsertItemInArray (Some p) which (Some (pool ! i)) h;
       Some (if which < 0 then pool else remove_nth i pool, h) }
   | Detach which \<Rightarrow> do {
       (item, h) \<leftarrow> cJSON_DetachItemFromArray (Some p) which h;
       Some (case item of None \<Rightarrow> pool | Some a \<Rightarrow> pool @ [a], h) }
   | Delete which \<Rightarrow> do { h \<leftarrow> cJSON_DeleteItemFromArray (Some p) which h; Some (pool, h) }
   | Replace which i \<Rightarrow> do {
       old \<leftarrow> cJSON_GetArrayItem (Some p) which h;
       h \<leftarrow> cJSON_ReplaceItemInArray (Some p) which (Some (pool ! i)) h;
       Some (if old = None then pool else remove_nth i pool, h) }))"

primrec run_edits :: "nat \<Rightarrow> edit list \<Rightarrow> nat list \<times> memory_state \<Rightarrow> (nat list \<times> memory_state) option" where
  "run_edits p [] s = Some s"
| "run_edits p (e # es) s = do { s \<leftarrow> run_edit p e s; run_edits p es s }"

section \<open>The abstract edits\<close>

definition in_range :: "int \<Rightarrow> 'a list \<Rightarrow> bool" where
  "in_range which ks \<longleftrightarrow> 0 \<le> which \<and> nat which < length ks"

definition list_edit :: "edit \<Rightarrow> 'a list \<times> 'a list \<Rightarrow> 'a list \<times> 'a list" where
  "list_edit e s = (case s of (ks, pool) \<Rightarrow> (case e of
     Append i \<Rightarrow> (ks @ [pool ! i], remove_nth i pool)
   | Insert which i \<Rightarrow> if which < 0 then (ks, pool)
       else (take (nat which) ks @ pool ! i # drop (nat which) ks, remove_nth i pool)
   | Detach which \<Rightarrow> if in_range which ks then (remove_nth (nat which) ks, pool @ [ks ! nat which]) else (ks, pool)
   | Delete which \<Rightarrow> if in_range which ks then (remove_nth (nat which) ks, pool) else (ks, pool)
   | Replace which i \<Rightarrow> if in_range which ks then (ks[nat which := pool ! i], remove_nth i pool) else (ks, pool)))"

primrec list_edits :: "edit list \<Rightarrow> 'a list \<times> 'a list \<Rightarrow> 'a list \<times> 'a list" where
  "list_edits [] s = s"
| "list_edits (e # es) s = list_edits es (list_edit e s)"

text \<open>The client names items of its pool only.\<close>

definition edit_ok :: "edit \<Rightarrow> 'a list \<times> 'a list \<Rightarrow> bool" where
  "edit_ok e s \<longleftrightarrow> (case e of Append i \<Rightarrow> i < length (snd s) | Insert which i \<Rightarrow> i < length (snd s)
     | Replace which i \<Rightarrow> i < length (snd s) | _ \<Rightarrow> True)"

primrec edits_ok :: "edit list \<Rightarrow> 'a list \<times> 'a list \<Rightarrow> bool" where
  "edits_ok [] s \<longleftrightarrow> True"
| "edits_ok (e # es) s \<longleftrightarrow> edit_ok e s \<and> edits_ok es (list_edit e s)"

section \<open>The memory of the client\<close>

text \<open>
  \<open>F\<close> and \<open>S\<close> are the items and texts of everybody else. What is not in the array or the pool is
  not in memory unless it was there before, so an item that was dropped without being deleted
  would break the equation.
\<close>

definition holds :: "nat \<Rightarrow> (nat \<rightharpoonup> item) \<Rightarrow> (nat \<rightharpoonup> string) \<Rightarrow> node list \<times> node list \<Rightarrow> memory_state \<Rightarrow> bool" where
  "holds p F S s h \<longleftrightarrow> (case s of (ks, pool) \<Rightarrow>
     array_at h p ks \<and> (\<forall>t \<in> set pool. seg (h_items h) None [t] None) \<and>
     distinct (p # addrs (ks @ pool)) \<and> owned h (ks @ pool) \<and>
     h_items h |` (- insert p (set (addrs (ks @ pool)))) = F \<and>
     h_strings h |` (- set (texts (ks @ pool))) = S)"

definition tree_addrs :: "node \<Rightarrow> nat list" where
  "tree_addrs t = addrs [t]"

definition tree_texts :: "node \<Rightarrow> nat list" where
  "tree_texts t = texts [t]"

definition tree_texts_ok :: "node \<Rightarrow> bool" where
  "tree_texts_ok t = texts_ok [t]"

lemma trees:
  "addrs (t # ts) = tree_addrs t @ addrs ts" "texts (t # ts) = tree_texts t @ texts ts"
  "texts_ok (t # ts) \<longleftrightarrow> tree_texts_ok t \<and> texts_ok ts"
  using addrs_append [of "[t]" ts] texts_append [of "[t]" ts] texts_ok_append [of "[t]" ts]
  by (simp_all add: tree_addrs_def tree_texts_def tree_texts_ok_def)

lemma seg_pool: "(\<forall>t \<in> set pool. seg (h_items h) None [t] None) \<Longrightarrow> relinks A h h' \<Longrightarrow> set (addrs pool) \<inter> A = {} \<Longrightarrow>
    \<forall>t \<in> set pool. seg (h_items h') None [t] None"
proof (induction pool)
  case (Cons u pool)
  then have "seg (h_items h') None [u] None" using relinks_seg [OF Cons.prems(2), of "[u]"]
    by (simp add: trees Int_Un_distrib2)
  then show ?case using Cons by (simp add: trees Int_Un_distrib2)
qed simp

lemma restrict_cong: "(\<And>a. a \<in> A \<Longrightarrow> m a = m' a) \<Longrightarrow> m |` A = m' |` A"
  by (auto simp: restrict_map_def)

text \<open>Every call that only changes links, or deletes what leaves the two lists, keeps the equations.\<close>

lemma holds_after:
  assumes "holds p F S (ks, pool) h" "relinks (insert p (set (addrs (ks @ pool)))) h h'"
    "array_at h' p ks'" "\<forall>t \<in> set pool'. seg (h_items h') None [t] None"
    "mset (addrs (ks @ pool)) = mset (addrs (ks' @ pool'))" "mset (texts (ks @ pool)) = mset (texts (ks' @ pool'))"
    "texts_ok (ks' @ pool')"
  shows "holds p F S (ks', pool') h'"
proof -
  have m: "set (addrs (ks' @ pool')) = set (addrs (ks @ pool))" "set (texts (ks' @ pool')) = set (texts (ks @ pool))"
    using mset_eq_setD [OF assms(5)] mset_eq_setD [OF assms(6)] by simp_all
  have u: "distinct (addrs (ks' @ pool'))" "distinct (texts (ks' @ pool'))"
    using assms(1) mset_eq_imp_distinct_iff [OF assms(5)] mset_eq_imp_distinct_iff [OF assms(6)]
    by (simp_all add: holds_def owned_def)
  have "h_items h' |` (- insert p (set (addrs (ks @ pool)))) = h_items h |` (- insert p (set (addrs (ks @ pool))))"
    by (rule restrict_cong) (use assms(2) in \<open>auto simp: relinks_def\<close>)
  then show ?thesis using assms(1,3,4,7) m u relinks_strings [OF assms(2)]
    by (simp only: holds_def owned_def prod.case distinct.simps) simp
qed

lemma holdsD:
  assumes "holds p F S (ks, pool) h"
  shows "array_at h p ks" "\<forall>t \<in> set pool. seg (h_items h) None [t] None" "distinct (p # addrs (ks @ pool))" "owned h (ks @ pool)"
  using assms by (simp_all add: holds_def)

lemma holds_append:
  assumes "holds p F S (ks, us @ t # vs) h"
  shows "\<exists>h'. add_item_to_array (Some p) (Some (n_addr t)) h = Some (True, h') \<and> holds p F S (ks @ [t], us @ vs) h'"
proof -
  note d = holdsD [OF assms]
  have u: "distinct (p # addrs (ks @ [t]))" "seg (h_items h) None [t] None" using d(2,3) by (auto simp: trees)
  obtain h' where h': "add_item_to_array (Some p) (Some (n_addr t)) h = Some (True, h')"
    "chain_updated h p (ks @ [t]) (set (addrs (ks @ [t]))) h'"
    using add_item_to_array_appends [OF d(1) u(2,1)] by blast
  then have r: "relinks (insert p (set (addrs (ks @ [t])))) h h'" "array_at h' p (ks @ [t])" by (simp_all add: chain_updated_def)
  have "\<forall>u \<in> set (us @ vs). seg (h_items h') None [u] None"
    by (rule seg_pool [OF _ r(1)]) (use d(2,3) in \<open>auto simp: trees\<close>)
  then have "holds p F S (ks @ [t], us @ vs) h'"
    by (intro holds_after [OF assms relinks_mono [OF r(1)] r(2)])
      (use d(4) in \<open>auto simp: trees owned_def\<close>)
  then show ?thesis using h'(1) by blast
qed

lemma holds_insert:
  assumes "holds p F S (xs @ b # ys, us @ t # vs) h"
  shows "\<exists>h'. cJSON_InsertItemInArray (Some p) (int (length xs)) (Some (n_addr t)) h = Some h' \<and>
    holds p F S (xs @ t # b # ys, us @ vs) h'"
proof -
  note d = holdsD [OF assms]
  have u: "distinct (p # addrs (xs @ t # b # ys))" "seg (h_items h) None [t] None" using d(2,3) by (auto simp: trees)
  obtain h' where h': "cJSON_InsertItemInArray (Some p) (int (length xs)) (Some (n_addr t)) h = Some h'"
    "chain_updated h p (xs @ t # b # ys) (set (addrs (xs @ t # b # ys))) h'"
    using insert_seg [OF d(1) u(2,1)] by blast
  then have r: "relinks (insert p (set (addrs (xs @ t # b # ys)))) h h'" "array_at h' p (xs @ t # b # ys)"
    by (simp_all add: chain_updated_def)
  have "\<forall>u \<in> set (us @ vs). seg (h_items h') None [u] None"
    by (rule seg_pool [OF _ r(1)]) (use d(2,3) in \<open>auto simp: trees\<close>)
  then have "holds p F S (xs @ t # b # ys, us @ vs) h'"
    by (intro holds_after [OF assms relinks_mono [OF r(1)] r(2)])
      (use d(4) in \<open>auto simp: trees owned_def\<close>)
  then show ?thesis using h'(1) by blast
qed

lemma holds_detach:
  assumes "holds p F S (xs @ t # ys, pool) h"
  shows "\<exists>h'. cJSON_DetachItemViaPointer (Some p) (Some (n_addr t)) h = Some (Some (n_addr t), h') \<and>
    holds p F S (xs @ ys, pool @ [t]) h'"
proof -
  note d = holdsD [OF assms]
  obtain h' where h': "cJSON_DetachItemViaPointer (Some p) (Some (n_addr t)) h = Some (Some (n_addr t), h')"
    "chain_updated h p (xs @ ys) (set (addrs (xs @ t # ys))) h'" "seg (h_items h') None [t] None"
    using detach_seg [OF d(1)] by blast
  then have r: "relinks (insert p (set (addrs (xs @ t # ys)))) h h'" "array_at h' p (xs @ ys)" by (simp_all add: chain_updated_def)
  have "\<forall>u \<in> set pool. seg (h_items h') None [u] None"
    by (rule seg_pool [OF d(2) r(1)]) (use d(3) in \<open>auto simp: trees\<close>)
  then have "holds p F S (xs @ ys, pool @ [t]) h'"
    by (intro holds_after [OF assms relinks_mono [OF r(1)] r(2)])
      (use d(4) h'(3) in \<open>auto simp: trees owned_def\<close>)
  then show ?thesis using h'(1) by blast
qed

lemma holds_forget:
  assumes "holds p F S (ks, us @ t # vs) h"
  shows "holds p F S (ks, us @ vs) (forget (set (addrs [t])) (set (texts [t])) h)"
proof -
  note d = holdsD [OF assms]
  have "array_at (forget (set (addrs [t])) (set (texts [t])) h) p ks"
    by (rule array_at_forget [OF d(1)]) (use d(3) in \<open>auto simp: trees\<close>)
  moreover have "\<forall>u \<in> set (us @ vs). seg (h_items (forget (set (addrs [t])) (set (texts [t])) h)) None [u] None"
  proof
    fix u assume u: "u \<in> set (us @ vs)"
    have "set (addrs [u]) \<inter> set (addrs [t]) = {}"
      using u d(3) by (auto dest!: split_list simp: trees)
    then show "seg (h_items (forget (set (addrs [t])) (set (texts [t])) h)) None [u] None"
      using u d(2) by (subst seg_forget) auto
  qed
  ultimately show ?thesis using assms
    by (auto simp: holds_def owned_def trees Int_commute Int_left_commute intro!: arg_cong2 [where f = restrict_map])
qed

lemma holds_delete:
  assumes "holds p F S (ks, us @ t # vs) h"
  shows "\<exists>h'. cJSON_Delete (Some (n_addr t)) h = Some h' \<and> holds p F S (ks, us @ vs) h'"
proof -
  have "seg (h_items h) None [t] None" "owned h [t]"
    using holdsD(2,4) [OF assms] by (auto simp: owned_def trees)
  then show ?thesis using cJSON_Delete_chain [of h None "[t]"] holds_forget [OF assms] by simp
qed

lemma holds_replace:
  assumes "holds p F S (xs @ t # ys, us @ r # vs) h"
  shows "\<exists>h'. cJSON_ReplaceItemViaPointer (Some p) (Some (n_addr t)) (Some (n_addr r)) h = Some (True, h') \<and>
    holds p F S (xs @ r # ys, us @ vs) h'"
proof -
  note d = holdsD [OF assms]
  have u: "distinct (p # addrs (xs @ t # r # ys))" "seg (h_items h) None [r] None" "owned h [t]"
    using d(2,3,4) by (auto simp: trees owned_def)
  obtain h' where h': "cJSON_ReplaceItemViaPointer (Some p) (Some (n_addr t)) (Some (n_addr r)) h =
      Some (True, forget (set (addrs [t])) (set (texts [t])) h')"
    "chain_updated h p (xs @ r # ys) (set (addrs (xs @ t # r # ys))) h'" "seg (h_items h') None [t] None"
    using replace_seg [OF d(1) u(2,1,3)] by blast
  then have r: "relinks (insert p (set (addrs (xs @ t # r # ys)))) h h'" "array_at h' p (xs @ r # ys)" by (simp_all add: chain_updated_def)
  have "\<forall>u \<in> set (us @ vs). seg (h_items h') None [u] None"
    by (rule seg_pool [OF _ r(1)]) (use d(2,3) in \<open>auto simp: trees\<close>)
  then have "\<forall>u \<in> set (us @ t # vs). seg (h_items h') None [u] None" using h'(3) by auto
  then have "holds p F S (xs @ r # ys, us @ t # vs) h'"
    by (intro holds_after [OF assms relinks_mono [OF r(1)] r(2)])
      (use d(4) in \<open>auto simp: trees owned_def\<close>)
  then show ?thesis using h'(1) holds_forget by blast
qed

section \<open>One edit\<close>

lemma split_nth: "i < length xs \<Longrightarrow> xs = take i xs @ xs ! i # drop (Suc i) xs"
  by (rule id_take_nth_drop)

lemma map_remove_nth: "map f (remove_nth i xs) = remove_nth i (map f xs)"
  by (simp add: remove_nth_def take_map drop_map)

lemma get_in_range:
  assumes "array_at h p ks" "0 \<le> which"
  shows "get_array_item (Some p) (nat which) h = Some (if in_range which ks then Some (n_addr (ks ! nat which)) else None)"
  using get_array_item_seg [OF assms(1), of "nat which"] assms(2)
  by (cases "in_range which ks") (auto simp: in_range_def Cons_nth_drop_Suc [symmetric])

lemma add_item_appends_null: "cJSON_DetachItemViaPointer (Some p) None h = Some (None, h)"
  "cJSON_ReplaceItemViaPointer (Some p) None r h = Some (False, h)"
  by (simp_all add: cJSON_DetachItemViaPointer_def cJSON_ReplaceItemViaPointer_def)

lemma in_range_split: "in_range which ks \<Longrightarrow> ks = take (nat which) ks @ ks ! nat which # drop (Suc (nat which)) ks"
  by (simp add: in_range_def split_nth)

lemma run_append:
  assumes "holds p F S (ks, pool) h" "i < length pool"
  shows "\<exists>h'. add_item_to_array (Some p) (Some (n_addr (pool ! i))) h = Some (True, h') \<and>
    holds p F S (ks @ [pool ! i], remove_nth i pool) h'"
  unfolding remove_nth_def by (rule holds_append) (use assms split_nth [OF assms(2)] in simp)

lemma run_insert:
  assumes "holds p F S (ks, pool) h" "i < length pool" "0 \<le> which"
  shows "\<exists>h'. cJSON_InsertItemInArray (Some p) which (Some (n_addr (pool ! i))) h = Some h' \<and>
    holds p F S (take (nat which) ks @ pool ! i # drop (nat which) ks, remove_nth i pool) h'"
proof (cases "in_range which ks")
  case True
  let ?n = "nat which"
  have "holds p F S (take ?n ks @ ks ! ?n # drop (Suc ?n) ks, take i pool @ pool ! i # drop (Suc i) pool) h"
    using assms(1) split_nth [OF assms(2)] in_range_split [OF True] by simp
  moreover have "int (length (take ?n ks)) = which" "drop ?n ks = ks ! ?n # drop (Suc ?n) ks"
    using True by (simp_all add: in_range_def Cons_nth_drop_Suc)
  ultimately show ?thesis using holds_insert [of p F S "take ?n ks"] by (metis remove_nth_def)
next
  case False
  then have "take (nat which) ks = ks" "drop (nat which) ks = []" using assms(3) by (simp_all add: in_range_def)
  moreover have "cJSON_InsertItemInArray (Some p) which (Some (n_addr (pool ! i))) h =
      map_option snd (add_item_to_array (Some p) (Some (n_addr (pool ! i))) h)"
    using get_in_range [OF holdsD(1) [OF assms(1)] assms(3)] False assms(3)
    by (cases "add_item_to_array (Some p) (Some (n_addr (pool ! i))) h") (auto simp: cJSON_InsertItemInArray_def)
  ultimately show ?thesis using run_append [OF assms(1,2)] by auto
qed

lemma run_edit_refines:
  assumes "holds p F S (ks, pool) h" "edit_ok e (ks, pool)"
  shows "\<exists>h'. run_edit p e (map n_addr pool, h) = Some (map n_addr (snd (list_edit e (ks, pool))), h') \<and>
    holds p F S (list_edit e (ks, pool)) h'"
proof (cases e)
  case (Append i)
  then show ?thesis using run_append [OF assms(1), of i] assms(2)
    by (auto simp: run_edit_def list_edit_def edit_ok_def cJSON_AddItemToArray_def map_remove_nth)
next
  case (Insert which i)
  show ?thesis
  proof (cases "which < 0")
    case True
    then show ?thesis using Insert assms
      by (simp add: run_edit_def list_edit_def edit_ok_def cJSON_InsertItemInArray_def)
  next
    case False
    then show ?thesis using run_insert [OF assms(1), of i which] assms(2) Insert
      by (auto simp: run_edit_def list_edit_def edit_ok_def map_remove_nth)
  qed
next
  case (Detach which)
  note get = get_in_range [OF holdsD(1) [OF assms(1)], of which]
  show ?thesis
  proof (cases "in_range which ks")
    case True
    then have "holds p F S (take (nat which) ks @ ks ! nat which # drop (Suc (nat which)) ks, pool) h"
      using assms(1) in_range_split by metis
    from holds_detach [OF this] show ?thesis using get True Detach
      by (auto simp: run_edit_def list_edit_def cJSON_DetachItemFromArray_def in_range_def remove_nth_def)
  next
    case False
    then show ?thesis using get Detach assms(1)
      by (auto simp: run_edit_def list_edit_def cJSON_DetachItemFromArray_def add_item_appends_null)
  qed
next
  case (Delete which)
  note get = get_in_range [OF holdsD(1) [OF assms(1)], of which]
  show ?thesis
  proof (cases "in_range which ks")
    case True
    then have "holds p F S (take (nat which) ks @ ks ! nat which # drop (Suc (nat which)) ks, pool) h"
      using assms(1) in_range_split by metis
    from holds_detach [OF this] obtain h1 where h1: "cJSON_DetachItemViaPointer (Some p) (Some (n_addr (ks ! nat which))) h =
        Some (Some (n_addr (ks ! nat which)), h1)" "holds p F S (remove_nth (nat which) ks, pool @ [ks ! nat which]) h1"
      unfolding remove_nth_def by blast
    then obtain h2 where "cJSON_Delete (Some (n_addr (ks ! nat which))) h1 = Some h2" "holds p F S (remove_nth (nat which) ks, pool) h2"
      using holds_delete [of p F S _ pool "ks ! nat which" "[]" h1] by auto
    then show ?thesis using h1 get True Delete
      by (auto simp: run_edit_def list_edit_def cJSON_DeleteItemFromArray_def cJSON_DetachItemFromArray_def in_range_def)
  next
    case False
    then show ?thesis using get Delete assms(1)
      by (auto simp: run_edit_def list_edit_def cJSON_DeleteItemFromArray_def cJSON_DetachItemFromArray_def add_item_appends_null)
  qed
next
  case (Replace which i)
  note get = get_in_range [OF holdsD(1) [OF assms(1)], of which]
  have i: "i < length pool" using assms(2) Replace by (simp add: edit_ok_def)
  show ?thesis
  proof (cases "in_range which ks")
    case True
    have "ks[nat which := pool ! i] = take (nat which) ks @ pool ! i # drop (Suc (nat which)) ks"
      using True by (simp add: in_range_def upd_conv_take_nth_drop)
    moreover have "holds p F S (take (nat which) ks @ ks ! nat which # drop (Suc (nat which)) ks,
        take i pool @ pool ! i # drop (Suc i) pool) h"
      using assms(1) in_range_split [OF True] split_nth [OF i] by metis
    ultimately show ?thesis using holds_replace get True Replace i
      by (fastforce simp: run_edit_def list_edit_def cJSON_ReplaceItemInArray_def cJSON_GetArrayItem_def in_range_def
          remove_nth_def take_map drop_map)
  next
    case False
    then show ?thesis using get Replace assms(1)
      by (auto simp: run_edit_def list_edit_def cJSON_ReplaceItemInArray_def cJSON_GetArrayItem_def add_item_appends_null)
  qed
qed

lemma run_edits_refine:
  "holds p F S (ks, pool) h \<Longrightarrow> edits_ok es (ks, pool) \<Longrightarrow>
    \<exists>h'. run_edits p es (map n_addr pool, h) = Some (map n_addr (snd (list_edits es (ks, pool))), h') \<and>
      holds p F S (list_edits es (ks, pool)) h'"
proof (induction es arbitrary: ks pool h)
  case (Cons e es)
  obtain ks' pool' where e: "list_edit e (ks, pool) = (ks', pool')" by (cases "list_edit e (ks, pool)")
  then show ?case using run_edit_refines [OF Cons.prems(1), of e] Cons.prems(2) Cons.IH by fastforce
qed simp

text \<open>
  C12: editing an array or object is editing two lists. For every sequence of appends, inserts,
  detaches, deletes and replacements, with any indices, the calls on the memory never follow a
  bad pointer and return, and then the chain and the pool are what the edits make of the lists;
  the deleted and replaced items are gone from memory with their children and texts, no item is
  lost, and the items of everybody else are unchanged.
\<close>

theorem edits_refine_lists:
  assumes "holds p F S (ks, pool) h" "edits_ok es (ks, pool)"
  shows "\<exists>h'. run_edits p es (map n_addr pool, h) = Some (map n_addr (snd (list_edits es (ks, pool))), h') \<and>
    holds p F S (list_edits es (ks, pool)) h'"
  by (rule run_edits_refine [OF assms])

text \<open>An array at 1 with one number at 2, and a string at 3 that is not in it.\<close>

definition demo_number :: item where
  "demo_number = zero_item\<lparr>i_type := type_Number, i_valueint := 7, i_valuedouble := Finite 7\<rparr>"

definition demo_string :: item where
  "demo_string = zero_item\<lparr>i_type := type_String, i_valuestring := Some (Block 4)\<rparr>"

definition demo_memory :: memory_state where
  "demo_memory = \<lparr>h_items = [1 \<mapsto> zero_item\<lparr>i_type := type_Array, i_child := Some 2\<rparr>, 2 \<mapsto> demo_number, 3 \<mapsto> demo_string],
     h_strings = [4 \<mapsto> ''x''], h_next = 5, h_allocate = (\<lambda>_ _. True)\<rparr>"

lemma demo_flags [simp]:
  "\<not> is_reference demo_number" "\<not> is_reference demo_string" "\<not> string_is_const demo_number" "\<not> string_is_const demo_string"
  "\<not> is_reference zero_item"
  by (simp_all add: demo_number_def demo_string_def zero_item_def is_reference_def string_is_const_def type_codes
      cJSON_IsReference_def cJSON_StringIsConst_def)

lemma demo_item_fields [simp]:
  "i_valuestring demo_number = None" "i_string demo_number = None" "i_valuestring demo_string = Some (Block 4)"
  "i_string demo_string = None" "cell None None demo_number [] = demo_number" "cell None None demo_string [] = demo_string"
  by (simp_all add: cell_def) (simp_all add: demo_number_def demo_string_def zero_item_def)

theorem edits_refine_lists_witness:
  "\<exists>h'. run_edits 1 [Insert 0 0, Detach 1, Delete 5, Replace 0 0] ([3], demo_memory) = Some ([], h') \<and>
    h_items h' 3 = None \<and> h_strings h' 4 = None \<and> array_at h' 1 [Node 2 demo_number []]"
proof -
  let ?ks = "[Node 2 demo_number []]" and ?pool = "[Node 3 demo_string []]"
  let ?es = "[Insert 0 0, Detach 1, Delete 5, Replace 0 0]"
  have "holds 1 Map.empty Map.empty (?ks, ?pool) demo_memory"
    by (auto simp: holds_def array_at_def owned_def demo_memory_def own_text_def text_ok_def restrict_map_def)
  moreover have "edits_ok ?es (?ks, ?pool)" "list_edits ?es (?ks, ?pool) = (?ks, [])"
    by (simp_all add: edit_ok_def list_edit_def in_range_def remove_nth_def)
  ultimately obtain h' where h': "run_edits 1 ?es (map n_addr ?pool, demo_memory) = Some ([], h')"
    "holds 1 Map.empty Map.empty (?ks, []) h'"
    using edits_refine_lists by fastforce
  then have "h_items h' |` (- {1, 2}) = Map.empty" "h_strings h' |` UNIV = Map.empty"
    by (auto simp: holds_def own_text_def)
  then have "h_items h' 3 = None" "h_strings h' 4 = None"
    by (auto simp: restrict_map_def fun_eq_iff split: if_splits dest: spec [of _ "3 :: nat"])
  then show ?thesis using h' by (auto simp: holds_def)
qed

end
