(* ===== verification/Arion_Json_Copy.thy ===== *)
theory Arion_Json_Copy
  imports Arion_Json_Heap_Props
begin

text \<open>
  Making and copying items. \<open>grows\<close> says that an operation added exactly the given trees to the
  memory; a failed operation grows it by nothing, so what it had allocated is gone again. The
  copy \<open>cJSON_Duplicate\<close> makes has the content of the original.
\<close>

section \<open>Growing memory\<close>

definition memory_ok :: "memory_state \<Rightarrow> bool" where
  "memory_ok h \<longleftrightarrow> (\<forall>a \<ge> h_next h. h_items h a = None \<and> h_strings h a = None)"

definition grows :: "memory_state \<Rightarrow> node list \<Rightarrow> memory_state \<Rightarrow> bool" where
  "grows h ts h' \<longleftrightarrow> h_items h' |` (- set (addrs ts)) = h_items h \<and> h_strings h' |` (- set (texts ts)) = h_strings h \<and>
     owned h' ts \<and> set (addrs ts) \<union> set (texts ts) \<subseteq> {h_next h ..< h_next h'} \<and>
     h_next h \<le> h_next h' \<and> h_allocate h' = h_allocate h"

text \<open>Memory that never runs out.\<close>

definition plenty :: "memory_state \<Rightarrow> bool" where
  "plenty h \<longleftrightarrow> (\<forall>k n. h_allocate h k n)"

lemma grows_plenty: "grows h ts h' \<Longrightarrow> plenty h' = plenty h"
  by (simp add: grows_def plenty_def)

lemma grows_items: "grows h ts h' \<Longrightarrow> h_items h a = Some it \<Longrightarrow> h_items h' a = Some it"
  by (auto simp: grows_def restrict_map_def fun_eq_iff split: if_splits) (metis option.distinct(1))

lemma grows_texts: "grows h ts h' \<Longrightarrow> read_text p h = Some s \<Longrightarrow> read_text p h' = Some s"
  by (auto simp: grows_def read_text_def restrict_map_def fun_eq_iff split: text_ptr.splits if_splits)
    (metis option.distinct(1))

lemma grows_seg: "grows h ts h' \<Longrightarrow> seg (h_items h) q us e \<Longrightarrow> seg (h_items h') q us e"
  using seg_in_memory [of "h_items h" q us e] grows_items [of h ts h']
  by (subst seg_cong) (auto simp: subset_iff domIff)

lemma grows_ok: "grows h ts h' \<Longrightarrow> memory_ok h \<Longrightarrow> memory_ok h'"
proof -
  assume g: "grows h ts h'" and ok: "memory_ok h"
  have "h_items h' a = None \<and> h_strings h' a = None" if "h_next h' \<le> a" for a
  proof -
    have "h_next h \<le> a" "a \<notin> set (addrs ts)" "a \<notin> set (texts ts)" using g that by (auto simp: grows_def)
    moreover have "(h_items h' |` (- set (addrs ts))) a = h_items h a" "(h_strings h' |` (- set (texts ts))) a = h_strings h a"
      using g by (simp_all add: grows_def)
    ultimately show ?thesis using ok by (simp add: memory_ok_def)
  qed
  then show "memory_ok h'" by (simp add: memory_ok_def)
qed

lemma grows_nothing: "h_items h' = h_items h \<Longrightarrow> h_strings h' = h_strings h \<Longrightarrow> h_next h \<le> h_next h' \<Longrightarrow>
    h_allocate h' = h_allocate h \<Longrightarrow> grows h [] h'"
  by (simp add: grows_def owned_def)

text \<open>What was made can be deleted again.\<close>

lemma grows_delete:
  assumes "grows h ts h'" "seg (h_items h') q ts None"
  shows "\<exists>h''. cJSON_Delete (first_of None ts) h' = Some h'' \<and> grows h [] h''"
proof -
  have "cJSON_Delete (first_of None ts) h' = Some (forget (set (addrs ts)) (set (texts ts)) h')"
    using cJSON_Delete_chain [OF assms(2)] assms(1) by (simp add: grows_def)
  moreover have "grows h [] (forget (set (addrs ts)) (set (texts ts)) h')"
    by (rule grows_nothing) (use assms(1) in \<open>simp_all add: grows_def\<close>)
  ultimately show ?thesis by blast
qed

section \<open>One new item\<close>

definition own_texts :: "item \<Rightarrow> nat list" where
  "own_texts it = own_text (is_reference it) (i_valuestring it) @ own_text (string_is_const it) (i_string it)"

lemma grows_one:
  assumes "memory_ok h" "h_items h' = (h_items h)(n \<mapsto> X)" "n \<in> {h_next h ..< h_next h'}"
    "h_strings h' = h_strings h ++ T" "dom T = set (own_texts it)" "dom T \<subseteq> {h_next h ..< h_next h'}" "distinct (own_texts it)"
    "text_ok (is_reference it) (i_valuestring it)" "text_ok (string_is_const it) (i_string it)" "h_allocate h' = h_allocate h"
  shows "grows h [Node n it []] h'"
proof -
  have "h_items h n = None" using assms(1,3) by (simp add: memory_ok_def)
  then have "h_items h' |` (- {n}) = h_items h" using assms(2) by (auto simp: restrict_map_def fun_eq_iff)
  moreover have "h_strings h a = None" if "a \<in> dom T" for a using that assms(1,6) by (auto simp: memory_ok_def)
  then have "h_strings h' |` (- dom T) = h_strings h"
    using assms(4) by (auto simp: restrict_map_def fun_eq_iff map_add_def domIff split: option.splits)
  moreover have "dom T \<subseteq> dom (h_strings h')" using assms(4) by auto
  ultimately show ?thesis using assms(3,5-10) by (auto simp: grows_def owned_def own_texts_def)
qed

lemma cJSON_New_Item_outcome:
  assumes "memory_ok h"
  shows "(\<exists>h'. cJSON_New_Item h = (None, h') \<and> grows h [] h' \<and> \<not> plenty h) \<or>
    (\<exists>h'. cJSON_New_Item h = (Some (h_next h), h') \<and> h_items h' = (h_items h)(h_next h \<mapsto> zero_item) \<and>
      h_strings h' = h_strings h \<and> h_next h' = h_next h + 1 \<and> h_allocate h' = h_allocate h)"
  by (auto simp: cJSON_New_Item_def allocate_def plenty_def intro!: grows_nothing)

lemma read_text_cong: "h_strings h' = h_strings h \<Longrightarrow> read_text p h' = read_text p h"
  by (simp add: read_text_def split: text_ptr.split)

text \<open>A copy of a text, where there is one.\<close>

definition copied :: "text_ptr option \<Rightarrow> memory_state \<Rightarrow> text_ptr option \<Rightarrow> (nat \<rightharpoonup> string) \<Rightarrow> memory_state \<Rightarrow> bool" where
  "copied p h q T h' \<longleftrightarrow> h_items h' = h_items h \<and> h_strings h' = h_strings h ++ T \<and> h_allocate h' = h_allocate h \<and>
     h_next h \<le> h_next h' \<and> h_next h' \<le> h_next h + 1 \<and>
     (case q of None \<Rightarrow> T = Map.empty \<and> (plenty h \<longrightarrow> p = None)
      | Some r \<Rightarrow> \<exists>a s. r = Block a \<and> a = h_next h \<and> h_next h' = a + 1 \<and> p \<noteq> None \<and> read_text (the p) h = Some s \<and> T = [a \<mapsto> s])"

lemma cJSON_strdup_outcome:
  assumes "\<And>r. p = Some r \<Longrightarrow> read_text r h \<noteq> None"
  shows "\<exists>q T h'. cJSON_strdup p h = Some (q, h') \<and> copied p h q T h'"
proof (cases p)
  case None
  then show ?thesis by (auto simp: cJSON_strdup_def copied_def)
next
  case (Some r)
  then obtain s where s: "read_text r h = Some s" using assms by auto
  show ?thesis
  proof (cases "h_allocate h (h_next h) (length s + 1)")
    case True
    then show ?thesis using s Some
      by (auto simp: cJSON_strdup_def copied_def allocate_def intro!: exI [of _ "[h_next h \<mapsto> s]"])
  next
    case False
    then show ?thesis using s Some by (auto simp: cJSON_strdup_def copied_def allocate_def plenty_def)
  qed
qed

section \<open>The content of a tree\<close>

text \<open>What an item says, without its addresses: whose text it is and where it is linked is left out.\<close>

datatype content = Content (c_type: type_code) (c_int: int) (c_double: double) (c_text: "string option")
  (c_key: "string option") (c_kids: "content list")

fun contents :: "memory_state \<Rightarrow> node list \<Rightarrow> content list" where
  "contents h [] = []"
| "contents h (Node a it ks # ts) =
     Content (i_type it AND NOT cJSON_IsReference) (i_valueint it) (i_valuedouble it)
       (Option.bind (i_valuestring it) (\<lambda>p. read_text p h)) (Option.bind (i_string it) (\<lambda>p. read_text p h)) (contents h ks) #
     contents h ts"

text \<open>The texts of the items can be read, and a reference does not stand for children.\<close>

fun readable :: "memory_state \<Rightarrow> node list \<Rightarrow> bool" where
  "readable h [] \<longleftrightarrow> True"
| "readable h (Node a it ks # ts) \<longleftrightarrow>
     (\<forall>p. i_valuestring it = Some p \<longrightarrow> read_text p h \<noteq> None) \<and> (\<forall>p. i_string it = Some p \<longrightarrow> read_text p h \<noteq> None) \<and>
     (is_reference it \<longrightarrow> i_child it = None) \<and> readable h ks \<and> readable h ts"

lemma contents_append [simp]: "contents h (xs @ ys) = contents h xs @ contents h ys"
  by (induction xs rule: addrs.induct) auto

lemma grows_contents:
  assumes "grows h us h'"
  shows "readable h ts \<Longrightarrow> contents h' ts = contents h ts \<and> readable h' ts"
proof (induction ts rule: addrs.induct)
  case (2 a it ks ts)
  have t: "read_text p h' = read_text p h" if "read_text p h \<noteq> None" for p
    using grows_texts [OF assms, of p] that by auto
  show ?case using 2 t by (cases "i_valuestring it"; cases "i_string it") auto
qed simp

text \<open>The outcome of an operation that makes an item: a new tree with nothing else, or nothing.\<close>

definition makes :: "memory_state \<Rightarrow> (memory_state \<Rightarrow> node \<Rightarrow> bool) \<Rightarrow> (ref \<times> memory_state) option \<Rightarrow> bool" where
  "makes h P res \<longleftrightarrow> (\<exists>r h'. res = Some (r, h') \<and> (case r of
     None \<Rightarrow> grows h [] h' \<and> \<not> plenty h
   | Some a \<Rightarrow> \<exists>t. n_addr t = a \<and> grows h [t] h' \<and> seg (h_items h') None [t] None \<and> P h' t))"

lemma makes_cases:
  assumes "makes h P res"
  obtains (null) h' where "res = Some (None, h')" "grows h [] h'" "\<not> plenty h"
    | (made) t h' where "res = Some (Some (n_addr t), h')" "grows h [t] h'" "seg (h_items h') None [t] None" "P h' t"
proof -
  from assms obtain r h' where r: "res = Some (r, h')" "case r of None \<Rightarrow> grows h [] h' \<and> \<not> plenty h
      | Some a \<Rightarrow> \<exists>t. n_addr t = a \<and> grows h [t] h' \<and> seg (h_items h') None [t] None \<and> P h' t"
    by (auto simp: makes_def)
  then show thesis by (cases r) (auto intro: null made)
qed

lemma makes_null: "res = Some (None, h') \<Longrightarrow> grows h [] h' \<Longrightarrow> \<not> plenty h \<Longrightarrow> makes h P res"
  by (simp add: makes_def)

lemma makes_tree: "res = Some (Some (n_addr t), h') \<Longrightarrow> grows h [t] h' \<Longrightarrow> seg (h_items h') None [t] None \<Longrightarrow> P h' t \<Longrightarrow>
    makes h P res"
  by (auto simp: makes_def)

section \<open>Creating\<close>

lemma created_makes:
  assumes "memory_ok h" "own_texts (f zero_item) = []" "text_ok (is_reference (f zero_item)) (i_valuestring (f zero_item))"
    "text_ok (string_is_const (f zero_item)) (i_string (f zero_item))" "i_next (f zero_item) = None" "i_prev (f zero_item) = None"
    "is_reference (f zero_item) \<or> i_child (f zero_item) = None" "\<And>n h'. P h' (Node n (f zero_item) [])"
  shows "makes h P (created f h)"
  using cJSON_New_Item_outcome [OF assms(1)]
proof
  assume "\<exists>h'. cJSON_New_Item h = (None, h') \<and> grows h [] h' \<and> \<not> plenty h"
  then show ?thesis by (auto simp: created_def intro: makes_null)
next
  let ?n = "h_next h" and ?it = "f zero_item"
  assume "\<exists>h'. cJSON_New_Item h = (Some ?n, h') \<and> h_items h' = (h_items h)(?n \<mapsto> zero_item) \<and> h_strings h' = h_strings h \<and>
    h_next h' = ?n + 1 \<and> h_allocate h' = h_allocate h"
  then obtain h1 where h1: "cJSON_New_Item h = (Some ?n, h1)" "h_items h1 = (h_items h)(?n \<mapsto> zero_item)"
    "h_strings h1 = h_strings h" "h_next h1 = ?n + 1" "h_allocate h1 = h_allocate h" by blast
  let ?h2 = "h1\<lparr>h_items := (h_items h)(?n \<mapsto> ?it)\<rparr>"
  have c: "created f h = Some (Some (n_addr (Node ?n ?it [])), ?h2)" using h1 by (simp add: created_def update_item_def)
  have g: "grows h [Node ?n ?it []] ?h2"
    by (rule grows_one [of _ _ _ ?it Map.empty]) (use assms h1 in simp_all)
  have s: "seg (h_items ?h2) None [Node ?n ?it []] None" using assms(5-7) by (auto simp: cell_def)
  show ?thesis by (rule makes_tree [OF c g s]) (rule assms(8))
qed

lemma zero_item_fields [simp]:
  "i_next zero_item = None" "i_prev zero_item = None" "i_child zero_item = None" "i_type zero_item = 0"
  "i_valuestring zero_item = None" "i_string zero_item = None" "i_valueint zero_item = 0" "i_valuedouble zero_item = Finite 0"
  by (simp_all add: zero_item_def)

lemma flags:
  "(t AND NOT cJSON_IsReference) AND cJSON_IsReference = 0" "(t AND NOT cJSON_StringIsConst) AND cJSON_StringIsConst = 0"
  "(t AND NOT cJSON_IsReference) AND cJSON_StringIsConst = t AND cJSON_StringIsConst"
  "(t AND NOT cJSON_StringIsConst) AND cJSON_IsReference = t AND cJSON_IsReference"
  "(t AND NOT cJSON_IsReference) AND 0xFF = t AND 0xFF" "(t AND NOT cJSON_StringIsConst) AND 0xFF = t AND 0xFF"
  "(t AND NOT cJSON_IsReference) AND NOT cJSON_IsReference = t AND NOT cJSON_IsReference"
proof -
  have c: "NOT (256 :: type_code) AND 256 = 0" "NOT (512 :: type_code) AND 512 = 0" "NOT (256 :: type_code) AND 512 = 512"
    "NOT (512 :: type_code) AND 256 = 256" "NOT (256 :: type_code) AND 0xFF = 0xFF" "NOT (512 :: type_code) AND 0xFF = 0xFF"
    by simp_all
  show "(t AND NOT cJSON_IsReference) AND cJSON_IsReference = 0" "(t AND NOT cJSON_StringIsConst) AND cJSON_StringIsConst = 0"
    "(t AND NOT cJSON_IsReference) AND cJSON_StringIsConst = t AND cJSON_StringIsConst"
    "(t AND NOT cJSON_StringIsConst) AND cJSON_IsReference = t AND cJSON_IsReference"
    "(t AND NOT cJSON_IsReference) AND 0xFF = t AND 0xFF" "(t AND NOT cJSON_StringIsConst) AND 0xFF = t AND 0xFF"
    "(t AND NOT cJSON_IsReference) AND NOT cJSON_IsReference = t AND NOT cJSON_IsReference"
    by (simp_all only: cJSON_IsReference_def cJSON_StringIsConst_def and.assoc c and_zero_eq and.idem)
qed

section \<open>Copying one item\<close>

lemma own_text_block: "own_text b (Some (Block a)) = (if b then [] else [a])" "own_text b None = []"
  by (simp_all add: own_text_def)

lemma duplicate_fields_outcome:
  assumes ok: "memory_ok h0" and a: "h_items h0 a = Some it" and n: "n = h_next h0"
    and h: "h_items h = (h_items h0)(n \<mapsto> zero_item)" "h_strings h = h_strings h0" "h_next h = n + 1" "h_allocate h = h_allocate h0"
    and rv: "\<And>p. i_valuestring it = Some p \<Longrightarrow> read_text p h0 \<noteq> None"
    and rk: "\<And>p. i_string it = Some p \<Longrightarrow> read_text p h0 \<noteq> None"
  shows "\<exists>ok nt h'. duplicate_fields a n h = Some (ok, h') \<and> grows h0 [Node n nt []] h' \<and>
    h_items h' n = Some nt \<and> cell None None nt [] = nt \<and> \<not> is_reference nt \<and> (plenty h0 \<longrightarrow> ok) \<and>
    (ok \<longrightarrow> (\<forall>ks. contents h' [Node n nt ks] = [Content (i_type it AND NOT cJSON_IsReference) (i_valueint it) (i_valuedouble it)
       (Option.bind (i_valuestring it) (\<lambda>p. read_text p h0)) (Option.bind (i_string it) (\<lambda>p. read_text p h0)) (contents h' ks)]) \<and>
      (\<forall>p. i_valuestring nt = Some p \<longrightarrow> read_text p h' \<noteq> None) \<and> (\<forall>p. i_string nt = Some p \<longrightarrow> read_text p h' \<noteq> None))"
proof -
  let ?ty = "i_type it AND NOT cJSON_IsReference"
  define f where "f v k = zero_item\<lparr>i_type := ?ty, i_valueint := i_valueint it, i_valuedouble := i_valuedouble it,
    i_valuestring := v, i_string := k\<rparr>" for v k
  have f: "\<not> is_reference (f v k)" "string_is_const (f v k) = string_is_const it" "cell None None (f v k) [] = f v k"
    "i_valuestring (f v k) = v" "i_string (f v k) = k" "i_type (f v k) = ?ty" for v k
    by (simp_all add: f_def is_reference_def string_is_const_def flags cell_def zero_item_def)
  have an: "a \<noteq> n" using ok a n by (auto simp: memory_ok_def)
  have rt: "read_text p h = read_text p h0" for p using h(2) by (rule read_text_cong)
  let ?h1 = "h\<lparr>h_items := (h_items h0)(n \<mapsto> f None None)\<rparr>"
  have "\<And>p. i_valuestring it = Some p \<Longrightarrow> read_text p ?h1 \<noteq> None"
    using rv h(2) read_text_cong [of ?h1 h0] by simp
  then obtain v T h2 where v: "cJSON_strdup (i_valuestring it) ?h1 = Some (v, h2)" "copied (i_valuestring it) ?h1 v T h2"
    using cJSON_strdup_outcome by blast
  let ?h3 = "h2\<lparr>h_items := (h_items h0)(n \<mapsto> f v None)\<rparr>"
  have h2: "h_items h2 = (h_items h0)(n \<mapsto> f None None)" "h_strings h2 = h_strings h0 ++ T" "h_allocate h2 = h_allocate h0"
    "n + 1 \<le> h_next h2" using v(2) h by (simp_all add: copied_def)
  have pl: "plenty ?h1 = plenty h0" "plenty h2 = plenty h0" using h h2 by (simp_all add: plenty_def)
  have vT: "v = None \<and> T = Map.empty \<and> (plenty h0 \<longrightarrow> i_valuestring it = None) \<or>
      (\<exists>s. v = Some (Block (n + 1)) \<and> T = [n + 1 \<mapsto> s] \<and> h_next h2 = n + 2 \<and> Option.bind (i_valuestring it) (\<lambda>p. read_text p h0) = Some s)"
    using v(2) h pl(1) read_text_cong [of ?h1 h0] by (auto simp: copied_def split: option.splits)
  have start: "duplicate_fields a n h = (if i_valuestring it \<noteq> None \<and> v = None then Some (False, ?h3)
      else do {
        (key, h) \<leftarrow> (if string_is_const it then Some (i_string it, ?h3) else cJSON_strdup (i_string it) ?h3);
        h \<leftarrow> update_item n (i_string_update (\<lambda>_. key)) h;
        Some (i_string it = None \<or> key \<noteq> None, h)
      })"
    using a an h(1) v(1) h2(1) by (simp add: duplicate_fields_def update_item_def f_def zero_item_def)
  have vD: "dom T = set (own_text False v)" "dom T \<subseteq> {n + 1 ..< h_next h2}" "text_ok False v" "distinct (own_text False v)"
    using vT by (auto simp: own_text_def text_ok_def split: if_splits)
  have own: "own_texts (f v k) = own_text False v @ own_text (string_is_const it) k" for v k
    using f by (simp add: own_texts_def)
  have g3: "grows h0 [Node n (f v None) []] ?h3"
    by (rule grows_one [OF ok, where X = "f v None" and T = T])
      (use vD h2 n f own [of v None] in \<open>auto simp: own_text_def text_ok_def\<close>)
  show ?thesis
  proof (cases "i_valuestring it \<noteq> None \<and> v = None")
    case True
    moreover have "\<not> plenty h0" using True vT by auto
    ultimately show ?thesis using start g3 f by (intro exI [of _ False] exI [of _ "f v None"] exI [of _ ?h3]) simp
  next
    case False
    have r3: "read_text p ?h3 = Some s" if "read_text p h0 = Some s" for p s using grows_texts [OF g3 that] .
    then have "\<And>p. i_string it = Some p \<Longrightarrow> read_text p ?h3 \<noteq> None" using rk by fastforce
    then obtain k T' h4 where k: "(if string_is_const it then Some (i_string it, ?h3) else cJSON_strdup (i_string it) ?h3) = Some (k, h4)"
      "if string_is_const it then k = i_string it \<and> T' = Map.empty \<and> h4 = ?h3 else copied (i_string it) ?h3 k T' h4"
      using cJSON_strdup_outcome [of "i_string it" ?h3] by (cases "string_is_const it") auto
    let ?h5 = "h4\<lparr>h_items := (h_items h0)(n \<mapsto> f v k)\<rparr>"
    have h4: "h_items h4 = (h_items h0)(n \<mapsto> f v None)" "h_strings h4 = h_strings h0 ++ (T ++ T')" "h_allocate h4 = h_allocate h0"
      "h_next h2 \<le> h_next h4" using k(2) h2 by (auto simp: copied_def split: if_splits)
    have kT: "string_is_const it \<and> k = i_string it \<and> T' = Map.empty \<or> \<not> string_is_const it \<and> k = None \<and> T' = Map.empty \<and> (plenty h0 \<longrightarrow> i_string it = None) \<or>
      (\<exists>s p. \<not> string_is_const it \<and> k = Some (Block (h_next h2)) \<and> T' = [h_next h2 \<mapsto> s] \<and> h_next h4 = h_next h2 + 1 \<and>
        i_string it = Some p \<and> read_text p ?h3 = Some s)"
      using k(2) pl(2) by (auto simp: copied_def plenty_def split: if_splits option.splits)
    have kD: "dom T' = set (own_text (string_is_const it) k)" "dom T' \<subseteq> {h_next h2 ..< h_next h4}"
      "text_ok (string_is_const it) k" "distinct (own_text (string_is_const it) k)"
      using kT by (auto simp: own_text_def text_ok_def split: if_splits option.splits text_ptr.splits)
    have "set (own_text False v) \<inter> set (own_text (string_is_const it) k) = {}" using vD(1,2) kD(1,2) by fastforce
    then have D: "dom (T ++ T') = set (own_texts (f v k))" "distinct (own_texts (f v k))" using vD kD own by auto
    have I: "dom (T ++ T') \<subseteq> {h_next h0 ..< h_next h4}" using vD(2) kD(2) h2(4) h4(4) n by fastforce
    have g5: "grows h0 [Node n (f v k) []] ?h5"
      by (rule grows_one [OF ok, where X = "f v k" and T = "T ++ T'"])
        (use D I vD(3) kD(3) h2 h4 n f in simp_all)
    have r5: "read_text p ?h5 = Some s" if "read_text p h0 = Some s" for p s using grows_texts [OF g5 that] .
    have run: "duplicate_fields a n h = Some (i_string it = None \<or> k \<noteq> None, ?h5)"
      unfolding start if_not_P [OF False] k(1) using h4(1) by (simp add: update_item_def f_def)
    have vread: "Option.bind v (\<lambda>p. read_text p ?h5) = Option.bind (i_valuestring it) (\<lambda>p. read_text p h0)"
      using vT kT False h4(2) by (auto simp: read_text_def map_add_def)
    have kread: "Option.bind k (\<lambda>p. read_text p ?h5) = Option.bind (i_string it) (\<lambda>p. read_text p h0)"
      if whole: "i_string it = None \<or> k \<noteq> None"
    proof -
      consider "k = i_string it" | s p where "k = Some (Block (h_next h2))" "T' = [h_next h2 \<mapsto> s]" "i_string it = Some p" "read_text p ?h3 = Some s"
        using kT whole by auto
      then show ?thesis
      proof cases
        case 1
        then show ?thesis using rk r5 by (cases "i_string it") fastforce+
      next
        case 2
        then have "read_text p h0 = Some s" using rk r3 by fastforce
        then show ?thesis using 2 h4(2) by (simp add: read_text_def)
      qed
    qed
    have vr: "read_text p ?h5 \<noteq> None" if "v = Some p" for p
      using that vT kT h4(2) by (auto simp: read_text_def map_add_def)
    have kr: "read_text p ?h5 \<noteq> None" if "k = Some p" for p
    proof (cases "string_is_const it")
      case True
      then have "i_string it = Some p" using that kT by auto
      then show ?thesis using rk [of p] r5 by auto
    next
      case False
      then show ?thesis using that kT h4(2) by (auto simp: read_text_def)
    qed
    have pk: "plenty h0 \<longrightarrow> i_string it = None \<or> k \<noteq> None" using kT by auto
    show ?thesis
      using run g5 f vread kread vr kr pk by (intro exI [of _ "i_string it = None \<or> k \<noteq> None"] exI [of _ "f v k"] exI [of _ ?h5])
        (simp add: f_def flags)
  qed
qed

section \<open>Copying a tree\<close>

lemma grows_trans:
  assumes "grows h ts h'" "grows h' us h''"
  shows "grows h (ts @ us) h''"
proof -
  have i: "h_items h' |` (- set (addrs ts)) = h_items h" "h_items h'' |` (- set (addrs us)) = h_items h'"
    "h_strings h' |` (- set (texts ts)) = h_strings h" "h_strings h'' |` (- set (texts us)) = h_strings h'"
    using assms by (simp_all add: grows_def)
  have "h_items h'' |` (- set (addrs (ts @ us))) = h_items h" "h_strings h'' |` (- set (texts (ts @ us))) = h_strings h"
    using i(1) i(3) by (simp_all flip: i(2) i(4) add: Int_commute)
  moreover have "dom (h_strings h') \<subseteq> dom (h_strings h'')" by (subst i(4) [symmetric]) auto
  then have "set (texts ts) \<subseteq> dom (h_strings h'')" using assms(1) unfolding grows_def owned_def by blast
  moreover have "set (addrs ts) \<inter> set (addrs us) = {}" "set (texts ts) \<inter> set (texts us) = {}"
    using assms by (fastforce simp: grows_def)+
  moreover have "set (addrs (ts @ us)) \<union> set (texts (ts @ us)) \<subseteq> {h_next h ..< h_next h''}" "h_next h \<le> h_next h''"
    using assms by (fastforce simp: grows_def)+
  ultimately show ?thesis using assms unfolding grows_def owned_def by simp
qed

lemma grows_same:
  "grows h ts h' \<Longrightarrow> addrs us = addrs ts \<Longrightarrow> texts us = texts ts \<Longrightarrow> texts_ok us = texts_ok ts \<Longrightarrow> grows h us h'"
  by (simp add: grows_def owned_def)

lemma grows_relinks:
  assumes "grows h ts h'" "relinks (set (addrs ts)) h' h''"
  shows "grows h ts h''"
proof -
  have "h_items h'' |` (- set (addrs ts)) = h_items h' |` (- set (addrs ts))"
    using assms(2) by (auto simp: relinks_def restrict_map_def fun_eq_iff)
  then show ?thesis using assms by (simp add: grows_def owned_def relinks_def)
qed

text \<open>Linking a new child behind the others.\<close>

lemma append_child:
  assumes "grows h0 [Node n nt acc] h" "seg (h_items h) None [Node n nt acc] None" "\<not> is_reference nt"
    "grows h [t] h1" "seg (h_items h1) None [t] None"
  shows "\<exists>h2. (case last_of None acc of None \<Rightarrow> update_item n (i_child_update (\<lambda>_. Some (n_addr t))) h1
      | Some l \<Rightarrow> suffix_object l (n_addr t) h1) = Some h2 \<and>
    grows h0 [Node n nt (acc @ [t])] h2 \<and> seg (h_items h2) None [Node n nt (acc @ [t])] None \<and> h_strings h2 = h_strings h1 \<and>
    (\<forall>a. a \<notin> set (addrs ([Node n nt acc] @ [t])) \<longrightarrow> h_items h2 a = h_items h1 a)"
proof -
  have g: "grows h0 [Node n nt (acc @ [t])] h1"
    by (rule grows_same [OF grows_trans [OF assms(1,4)]]) simp_all
  have d: "distinct (n # addrs (acc @ [t]))" using g by (auto simp: grows_def owned_def)
  have s: "h_items h1 n = Some (cell None None nt acc)" "seg (h_items h1) None acc None"
    using grows_seg [OF assms(4,2)] by simp_all
  have "\<exists>h2. (case last_of None acc of None \<Rightarrow> update_item n (i_child_update (\<lambda>_. Some (n_addr t))) h1
      | Some l \<Rightarrow> suffix_object l (n_addr t) h1) = Some h2 \<and> seg (h_items h2) None (acc @ [t]) None \<and>
      h_items h2 n = Some (cell None None nt (acc @ [t])) \<and> relinks (set (n # addrs (acc @ [t]))) h1 h2"
  proof (cases "acc = []")
    case True
    have c: "(cell None None nt [])\<lparr>i_child := Some (n_addr t)\<rparr> = cell None None nt [t]" using assms(3) by (simp add: cell_def)
    let ?h2 = "h1\<lparr>h_items := (h_items h1)(n \<mapsto> cell None None nt [t])\<rparr>"
    have r: "relinks {n} h1 ?h2" by simp
    have "seg (h_items ?h2) None [t] None" using relinks_seg [OF r, of "[t]"] assms(5) d True by auto
    then show ?thesis using True c s(1) relinks_mono [OF r] by (auto simp: update_item_at)
  next
    case False
    obtain l h2 where h2: "last_of None acc = Some l" "suffix_object l (n_addr t) h1 = Some h2"
      "seg (h_items h2) None (acc @ [t]) None" "relinks (set (addrs (acc @ [t]))) h1 h2"
      using suffix_object_seg [OF s(2) False _ assms(5)] d by auto
    have "h_items h2 n = Some (cell None None nt acc)" using relinks_item [OF h2(4), of n] d s(1) by simp
    moreover have "cell None None nt acc = cell None None nt (acc @ [t])" using False by (cases acc) (simp_all add: cell_def)
    moreover have "relinks (set (n # addrs (acc @ [t]))) h1 h2" by (rule relinks_mono [OF h2(4)]) auto
    ultimately show ?thesis using h2(1,2,3) by auto
  qed
  then obtain h2 where h2: "(case last_of None acc of None \<Rightarrow> update_item n (i_child_update (\<lambda>_. Some (n_addr t))) h1
      | Some l \<Rightarrow> suffix_object l (n_addr t) h1) = Some h2" "seg (h_items h2) None (acc @ [t]) None"
      "h_items h2 n = Some (cell None None nt (acc @ [t]))" "relinks (set (n # addrs (acc @ [t]))) h1 h2" by blast
  have "grows h0 [Node n nt (acc @ [t])] h2" by (rule grows_relinks [OF g]) (use h2(4) in simp)
  moreover have "seg (h_items h2) None [Node n nt (acc @ [t])] None" using h2(2,3) assms(3) by simp
  ultimately show ?thesis using h2(1) relinks_strings [OF h2(4)] relinks_item [OF h2(4)] by auto
qed

definition copies :: "memory_state \<Rightarrow> node list \<Rightarrow> memory_state \<Rightarrow> node list \<Rightarrow> bool" where
  "copies h ts h' ts' \<longleftrightarrow> contents h' ts' = contents h ts \<and> readable h' ts'"

text \<open>What the loop over the children \<open>ts\<close> of the original does to the new item \<open>Node n nt acc\<close>.\<close>

definition copies_children :: "node list \<Rightarrow> bool" where
  "copies_children ts \<longleftrightarrow> (\<forall>h0 h q n nt acc fuel.
     memory_ok h0 \<and> grows h0 [Node n nt acc] h \<and> seg (h_items h) None [Node n nt acc] None \<and> \<not> is_reference nt \<and>
     seg (h_items h0) q ts None \<and> readable h0 ts \<and> 2 * length (addrs ts) < fuel \<longrightarrow>
     (\<exists>ok acc' h'. duplicate_children fuel n (first_of None ts) (last_of None acc) h = Some (ok, h') \<and>
        grows h0 [Node n nt (acc @ acc')] h' \<and> seg (h_items h') None [Node n nt (acc @ acc')] None \<and>
        (\<forall>p s. read_text p h = Some s \<longrightarrow> read_text p h' = Some s) \<and> (ok \<longrightarrow> copies h0 ts h' acc') \<and> (plenty h0 \<longrightarrow> ok)))"

lemma duplicate_item:
  assumes kids: "copies_children ks" and ok: "memory_ok h" and s: "h_items h a = Some (cell q e it ks)" "is_reference it \<longrightarrow> ks = []"
    "seg (h_items h) None ks None" and r: "readable h [Node a it ks]" and fuel: "2 * length (addrs ks) + 1 < fuel"
  shows "makes h (\<lambda>h' t. copies h [Node a it ks] h' [t]) (cJSON_Duplicate fuel (Some a) True h)"
proof -
  obtain fuel' where f: "fuel = Suc fuel'" "2 * length (addrs ks) < fuel'" using fuel by (cases fuel) auto
  show ?thesis
    using cJSON_New_Item_outcome [OF ok]
  proof
    assume "\<exists>h'. cJSON_New_Item h = (None, h') \<and> grows h [] h' \<and> \<not> plenty h"
    then show ?thesis using f by (auto intro: makes_null)
  next
    let ?n = "h_next h"
    assume "\<exists>h'. cJSON_New_Item h = (Some ?n, h') \<and> h_items h' = (h_items h)(?n \<mapsto> zero_item) \<and> h_strings h' = h_strings h \<and>
      h_next h' = ?n + 1 \<and> h_allocate h' = h_allocate h"
    then obtain h1 where h1: "cJSON_New_Item h = (Some ?n, h1)" "h_items h1 = (h_items h)(?n \<mapsto> zero_item)"
      "h_strings h1 = h_strings h" "h_next h1 = ?n + 1" "h_allocate h1 = h_allocate h" by blast
    have rd: "\<And>p. i_valuestring (cell q e it ks) = Some p \<Longrightarrow> read_text p h \<noteq> None"
      "\<And>p. i_string (cell q e it ks) = Some p \<Longrightarrow> read_text p h \<noteq> None" using r by auto
    obtain fok nt h2 where d: "duplicate_fields a ?n h1 = Some (fok, h2)" "grows h [Node ?n nt []] h2" "h_items h2 ?n = Some nt"
      "cell None None nt [] = nt" "\<not> is_reference nt" "plenty h \<longrightarrow> fok"
      "fok \<Longrightarrow> contents h2 [Node ?n nt ks'] = [Content (i_type it AND NOT cJSON_IsReference) (i_valueint it) (i_valuedouble it)
         (Option.bind (i_valuestring it) (\<lambda>p. read_text p h)) (Option.bind (i_string it) (\<lambda>p. read_text p h)) (contents h2 ks')]"
      "fok \<Longrightarrow> i_valuestring nt = Some p \<Longrightarrow> read_text p h2 \<noteq> None" "fok \<Longrightarrow> i_string nt = Some p \<Longrightarrow> read_text p h2 \<noteq> None" for ks' p
      using duplicate_fields_outcome [OF ok s(1) refl h1(2-5) rd] unfolding cell_simps by blast
    have a2: "h_items h2 a = Some (cell q e it ks)" using grows_items [OF d(2) s(1)] .
    have s2: "seg (h_items h2) None [Node ?n nt []] None" using d(3,4,5) by simp
    have child: "i_child (cell q e it ks) = first_of None ks" using s(2) r by (auto simp: cell_def)
    show ?thesis
    proof (cases fok)
      case False
      obtain h3 where "cJSON_Delete (Some ?n) h2 = Some h3" "grows h [] h3" using grows_delete [OF d(2) s2] by auto
      then show ?thesis using False h1(1) d(1,6) a2 f by (intro makes_null [of _ h3]) simp_all
    next
      case True
      have rk: "readable h ks" using r by simp
      obtain kok acc h3 where l: "duplicate_children fuel' ?n (first_of None ks) None h2 = Some (kok, h3)"
        "grows h [Node ?n nt acc] h3" "seg (h_items h3) None [Node ?n nt acc] None"
        "\<And>p s. read_text p h2 = Some s \<Longrightarrow> read_text p h3 = Some s" "kok \<Longrightarrow> copies h ks h3 acc" "plenty h \<longrightarrow> kok"
        using kids [unfolded copies_children_def, rule_format, of h ?n nt "[]" h2 None fuel'] ok d(2,5) s2 s(3) rk f(2) by auto
      have run: "cJSON_Duplicate fuel (Some a) True h =
          (if kok then Some (Some ?n, h3) else do { h \<leftarrow> cJSON_Delete (Some ?n) h3; Some (None, h) })"
        using f(1) h1(1) d(1) True a2 child l(1) by simp
      show ?thesis
      proof (cases kok)
        case False
        obtain h4 where "cJSON_Delete (Some ?n) h3 = Some h4" "grows h [] h4" using grows_delete [OF l(2,3)] by auto
        then show ?thesis using run False l(6) by (intro makes_null [of _ h4]) simp_all
      next
        case kok: True
        have "Option.bind (i_valuestring nt) (\<lambda>p. read_text p h3) = Option.bind (i_valuestring nt) (\<lambda>p. read_text p h2)"
          "Option.bind (i_string nt) (\<lambda>p. read_text p h3) = Option.bind (i_string nt) (\<lambda>p. read_text p h2)"
          using d(8,9) True l(4) by (cases "i_valuestring nt"; fastforce) (cases "i_string nt"; use d(9) True l(4) in fastforce)
        then have "contents h3 [Node ?n nt acc] = contents h [Node a it ks]"
          using d(7) [OF True, of "[]"] l(5) [OF kok] by (simp add: copies_def)
        moreover have "readable h3 [Node ?n nt acc]"
          using d(5,8,9) True l(4) l(5) [OF kok] by (fastforce simp: copies_def)
        ultimately show ?thesis using run kok l(2,3) by (intro makes_tree [of _ "Node ?n nt acc" h3]) (simp_all add: copies_def)
      qed
    qed
  qed
qed

lemma copies_frame:
  assumes "copies h ts h' ts'" "\<And>p s. read_text p h' = Some s \<Longrightarrow> read_text p h'' = Some s"
  shows "copies h ts h'' ts'"
proof -
  have "readable h' us \<Longrightarrow> contents h'' us = contents h' us \<and> readable h'' us" for us
  proof (induction us rule: addrs.induct)
    case (2 a it ks ts)
    have t: "read_text p h'' = read_text p h'" if "read_text p h' \<noteq> None" for p using assms(2) that by auto
    show ?case using 2 t by (cases "i_valuestring it"; cases "i_string it") auto
  qed simp
  then show ?thesis using assms(1) by (simp add: copies_def)
qed

lemma duplicate_children_step:
  assumes "copies_children ks" "copies_children ts"
  shows "copies_children (Node a it ks # ts)"
  unfolding copies_children_def
proof (intro allI impI)
  fix h0 h q n nt acc fuel
  assume asm: "memory_ok h0 \<and> grows h0 [Node n nt acc] h \<and> seg (h_items h) None [Node n nt acc] None \<and> \<not> is_reference nt \<and>
     seg (h_items h0) q (Node a it ks # ts) None \<and> readable h0 (Node a it ks # ts) \<and> 2 * length (addrs (Node a it ks # ts)) < fuel"
  then obtain fuel' where f: "fuel = Suc fuel'" "2 * length (addrs ks) + 1 < fuel'" "2 * length (addrs ts) < fuel'"
    by (cases fuel) auto
  have g: "grows h0 [Node n nt acc] h" and sn: "seg (h_items h) None [Node n nt acc] None" and nr: "\<not> is_reference nt"
    and ok: "memory_ok h0" and rd: "readable h0 ts" "readable h0 [Node a it ks]" using asm by simp_all
  have s0: "h_items h0 a = Some (cell q (first_of None ts) it ks)" "is_reference it \<longrightarrow> ks = []" "seg (h_items h0) None ks None"
    "seg (h_items h0) (Some a) ts None" using asm by simp_all
  have rh: "readable h [Node a it ks]" "contents h [Node a it ks] = contents h0 [Node a it ks]"
    using grows_contents [OF g rd(2)] by simp_all
  have "makes h (\<lambda>h' t. copies h [Node a it ks] h' [t]) (cJSON_Duplicate fuel' (Some a) True h)"
    by (rule duplicate_item [OF assms(1) grows_ok [OF g ok] grows_items [OF g s0(1)] s0(2) grows_seg [OF g s0(3)] rh(1) f(2)])
  then show "\<exists>ok acc' h'. duplicate_children fuel n (first_of None (Node a it ks # ts)) (last_of None acc) h = Some (ok, h') \<and>
        grows h0 [Node n nt (acc @ acc')] h' \<and> seg (h_items h') None [Node n nt (acc @ acc')] None \<and>
        (\<forall>p s. read_text p h = Some s \<longrightarrow> read_text p h' = Some s) \<and> (ok \<longrightarrow> copies h0 (Node a it ks # ts) h' acc') \<and> (plenty h0 \<longrightarrow> ok)"
  proof (cases rule: makes_cases)
    case (null h')
    have "grows h0 [Node n nt acc] h'" using grows_trans [OF g null(2)] by simp
    then show ?thesis using null f(1) grows_texts [OF null(2)] grows_plenty [OF g] grows_seg [OF null(2) sn]
      by (intro exI [of _ False] exI [of _ "[]"] exI [of _ h']) simp
  next
    case (made t h1)
    obtain h2 where h2: "(case last_of None acc of None \<Rightarrow> update_item n (i_child_update (\<lambda>_. Some (n_addr t))) h1
        | Some l \<Rightarrow> suffix_object l (n_addr t) h1) = Some h2"
      "grows h0 [Node n nt (acc @ [t])] h2" "seg (h_items h2) None [Node n nt (acc @ [t])] None" "h_strings h2 = h_strings h1"
      using append_child [OF g sn nr made(2,3)] by blast
    have t2: "read_text p h2 = read_text p h1" for p using h2(4) by (rule read_text_cong)
    obtain kok acc' h3 where l: "duplicate_children fuel' n (first_of None ts) (last_of None (acc @ [t])) h2 = Some (kok, h3)"
      "grows h0 [Node n nt ((acc @ [t]) @ acc')] h3" "seg (h_items h3) None [Node n nt ((acc @ [t]) @ acc')] None"
      "\<And>p s. read_text p h2 = Some s \<Longrightarrow> read_text p h3 = Some s" "kok \<Longrightarrow> copies h0 ts h3 acc'" "plenty h0 \<longrightarrow> kok"
      using assms(2) [unfolded copies_children_def, rule_format, of h0 n nt "acc @ [t]" h2 "Some a" fuel'] ok h2(2,3) nr s0(4) rd(1) f(3)
      by blast
    have run: "duplicate_children fuel n (first_of None (Node a it ks # ts)) (last_of None acc) h = Some (kok, h3)"
      using f(1) made(1) h2(1) grows_items [OF h2(2) s0(1)] l(1) by (simp split: option.splits)
    have "copies h [Node a it ks] h3 [t]" by (rule copies_frame [OF made(4)]) (use t2 l(4) in simp)
    then have "kok \<longrightarrow> copies h0 (Node a it ks # ts) h3 (t # acc')"
      using l(5) rh(2) by (cases t) (auto simp: copies_def)
    moreover have "read_text p h3 = Some s" if "read_text p h = Some s" for p s
      using l(4) t2 grows_texts [OF made(2) that] by simp
    ultimately show ?thesis using run l(2,3,6)
      by (intro exI [of _ kok] exI [of _ "t # acc'"] exI [of _ h3]) simp
  qed
qed

lemma duplicate_children_copies: "copies_children ts"
proof (induction ts rule: addrs.induct)
  case 1
  show ?case unfolding copies_children_def
  proof (intro allI impI)
    fix h0 h q n nt acc and fuel :: nat
    assume asm: "memory_ok h0 \<and> grows h0 [Node n nt acc] h \<and> seg (h_items h) None [Node n nt acc] None \<and> \<not> is_reference nt \<and>
      seg (h_items h0) q [] None \<and> readable h0 [] \<and> 2 * length (addrs []) < fuel"
    then obtain fuel' where "fuel = Suc fuel'" by (cases fuel) auto
    then show "\<exists>ok acc' h'. duplicate_children fuel n (first_of None []) (last_of None acc) h = Some (ok, h') \<and>
        grows h0 [Node n nt (acc @ acc')] h' \<and> seg (h_items h') None [Node n nt (acc @ acc')] None \<and>
        (\<forall>p s. read_text p h = Some s \<longrightarrow> read_text p h' = Some s) \<and> (ok \<longrightarrow> copies h0 [] h' acc') \<and> (plenty h0 \<longrightarrow> ok)"
      using asm by (intro exI [of _ True] exI [of _ "[]"] exI [of _ h]) (simp add: copies_def)
  qed
next
  case (2 a it ks ts)
  then show ?case by (rule duplicate_children_step)
qed

section \<open>The contract of the copy\<close>

lemma cJSON_Duplicate_makes:
  assumes "memory_ok h" "seg (h_items h) q [t] e" "readable h [t]" "2 * length (addrs [t]) < fuel"
  shows "makes h (\<lambda>h' t'. copies h [t] h' [t']) (cJSON_Duplicate fuel (Some (n_addr t)) True h)"
proof (cases t)
  case (Node a it ks)
  then show ?thesis using duplicate_item [OF duplicate_children_copies assms(1), of a q e it ks fuel] assms(2-4) by auto
qed

text \<open>
  C13: the copy of a tree. For an item in memory whose texts can be read, however its items and texts
  are shared with others, \<open>cJSON_Duplicate\<close> with enough fuel returns; the original and everything else
  in memory are as they were; and either the result is a new item, detached, that owns all
  memory that was added and has the content of the original with all its descendants, or it is a
  null pointer, an allocation failed, and nothing was added.
\<close>

theorem cJSON_Duplicate_copies:
  assumes "memory_ok h" "seg (h_items h) q [t] e" "readable h [t]" "2 * length (addrs [t]) < fuel"
  shows "\<exists>r h'. cJSON_Duplicate fuel (Some (n_addr t)) True h = Some (r, h') \<and>
    (case r of
       None \<Rightarrow> \<not> plenty h \<and> h_items h' = h_items h \<and> h_strings h' = h_strings h
     | Some a \<Rightarrow> \<exists>t'. n_addr t' = a \<and> seg (h_items h') None [t'] None \<and> contents h' [t'] = contents h [t] \<and> owned h' [t'] \<and>
         h_items h' |` (- set (addrs [t'])) = h_items h \<and> h_strings h' |` (- set (texts [t'])) = h_strings h)"
  using cJSON_Duplicate_makes [OF assms]
proof (cases rule: makes_cases)
  case (null h')
  then show ?thesis by (auto simp: grows_def)
next
  case (made t' h')
  then show ?thesis by (auto simp: grows_def copies_def)
qed

text \<open>An array with a number and a string in it, and a memory for everything.\<close>

definition sample_memory :: memory_state where
  "sample_memory = \<lparr>h_items = [1 \<mapsto> zero_item\<lparr>i_type := type_Array, i_child := Some 2\<rparr>,
       2 \<mapsto> zero_item\<lparr>i_type := type_True, i_next := Some 3\<rparr>,
       3 \<mapsto> zero_item\<lparr>i_type := type_String, i_prev := Some 2, i_valuestring := Some (Block 4)\<rparr>],
     h_strings = [4 \<mapsto> ''x''], h_next = 5, h_allocate = (\<lambda>_ _. True)\<rparr>"

definition sample_tree :: node where
  "sample_tree = Node 1 (zero_item\<lparr>i_type := type_Array\<rparr>)
     [Node 2 (zero_item\<lparr>i_type := type_True\<rparr>) [], Node 3 (zero_item\<lparr>i_type := type_String, i_valuestring := Some (Block 4)\<rparr>) []]"

lemma sample_ok: "memory_ok sample_memory" "seg (h_items sample_memory) None [sample_tree] None" "readable sample_memory [sample_tree]"
  "length (addrs [sample_tree]) = 3" "plenty sample_memory"
  by (simp_all add: sample_memory_def sample_tree_def memory_ok_def cell_def is_reference_def type_codes cJSON_IsReference_def
      read_text_def plenty_def zero_item_def)

theorem cJSON_Duplicate_copies_witness:
  "\<exists>a h'. cJSON_Duplicate 7 (Some 1) True sample_memory = Some (Some a, h') \<and> a \<noteq> 1 \<and> h_items h' 1 = h_items sample_memory 1"
proof -
  have "n_addr sample_tree = 1" by (simp add: sample_tree_def)
  then obtain r h' where r: "cJSON_Duplicate 7 (Some 1) True sample_memory = Some (r, h')"
    "case r of None \<Rightarrow> \<not> plenty sample_memory \<and> h_items h' = h_items sample_memory \<and> h_strings h' = h_strings sample_memory
     | Some a \<Rightarrow> \<exists>t'. n_addr t' = a \<and> seg (h_items h') None [t'] None \<and> contents h' [t'] = contents sample_memory [sample_tree] \<and>
         owned h' [t'] \<and> h_items h' |` (- set (addrs [t'])) = h_items sample_memory \<and>
         h_strings h' |` (- set (texts [t'])) = h_strings sample_memory"
    using cJSON_Duplicate_copies [OF sample_ok(1-3), of 7] sample_ok(4) by auto
  then obtain t' where t': "r = Some (n_addr t')" "h_items h' |` (- set (addrs [t'])) = h_items sample_memory"
    using sample_ok(5) by (cases r) auto
  have one: "h_items sample_memory 1 \<noteq> None" by (simp add: sample_memory_def)
  then have "1 \<notin> set (addrs [t'])" using t'(2) by (metis ComplD restrict_out)
  moreover from this have "h_items h' 1 = h_items sample_memory 1" using t'(2) by (metis ComplI restrict_in)
  ultimately show ?thesis using r(1) t'(1) by (auto simp: addrs_Cons)
qed

end
