(* ===== verification/Arion_Json_Compare.thy ===== *)
theory Arion_Json_Compare
  imports Arion_Json_Copy "HOL-Library.Finite_Map"
begin

text \<open>
  \<open>cJSON_Compare\<close> against what it means for two JSON values to be equal: an array is the list of its
  values, an object the finite map from its names, up to case when the comparison ignores it.
\<close>

section \<open>JSON values\<close>

datatype json =
    JFalse
  | JTrue
  | JNull
  | JNumber double
  | JString string
  | JRaw string
  | JArray "json list"
  | JObject "(string, json) fmap"

definition fold_key :: "bool \<Rightarrow> string \<Rightarrow> string" where
  "fold_key case_sensitive k = (if case_sensitive then k else map tolower k)"

text \<open>The value of an item that is \<open>valid\<close>: of a known type, its texts there, and its names different.\<close>

fun json_of :: "bool \<Rightarrow> content \<Rightarrow> json" where
  "json_of cs (Content ty i d t k ks) =
     (let b = ty AND 0xFF
      in if b = type_False then JFalse
         else if b = type_True then JTrue
         else if b = type_NULL then JNull
         else if b = type_Number then JNumber d
         else if b = type_String then JString (the t)
         else if b = type_Raw then JRaw (the t)
         else if b = type_Array then JArray (map (json_of cs) ks)
         else JObject (fmap_of_list (map (\<lambda>c. (fold_key cs (the (c_key c)), json_of cs c)) ks)))"

fun valid_content :: "bool \<Rightarrow> content \<Rightarrow> bool" where
  "valid_content cs (Content ty i d t k ks) \<longleftrightarrow>
     ty AND 0xFF \<in> set valid_types \<and> (ty AND 0xFF \<in> {type_String, type_Raw} \<longrightarrow> t \<noteq> None) \<and>
     (\<forall>c \<in> set ks. valid_content cs c) \<and>
     (ty AND 0xFF = type_Object \<longrightarrow> distinct (map (\<lambda>c. fold_key cs (the (c_key c))) ks) \<and>
        (\<forall>c \<in> set ks. \<exists>s. c_key c = Some s \<and> CHR 0x00 \<notin> set s))"

section \<open>Searching a name\<close>

lemma tolower_NUL: "tolower c = CHR 0x00 \<Longrightarrow> c = CHR 0x00"
proof (cases "CHR ''A'' \<le> c \<and> c \<le> CHR ''Z''")
  case True
  assume "tolower c = CHR 0x00"
  then have "of_char (char_of (of_char c + 32 :: nat) :: char) = (of_char CHR 0x00 :: nat)"
    by (simp only: tolower_def if_P [OF True])
  moreover have "of_char c \<le> (90 :: nat)" using True by (simp add: less_eq_char_def)
  ultimately show ?thesis by simp
next
  case False
  assume "tolower c = CHR 0x00"
  then show ?thesis by (simp only: tolower_def if_not_P [OF False])
qed

lemma of_char_zero: "of_char c = (0 :: int) \<longleftrightarrow> c = CHR 0x00"
  using of_char_eq_iff [of c "CHR 0x00", where 'a = int] by simp

lemma case_insensitive_strcmp_zero:
  "CHR 0x00 \<notin> set a \<Longrightarrow> CHR 0x00 \<notin> set b \<Longrightarrow> case_insensitive_strcmp a b = 0 \<longleftrightarrow> map tolower a = map tolower b"
  by (induction a b rule: case_insensitive_strcmp.induct) (auto simp: of_char_zero dest: tolower_NUL)

text \<open>The name of an item, where there is one.\<close>

definition key_in :: "memory_state \<Rightarrow> node \<Rightarrow> string" where
  "key_in h t = the (Option.bind (i_string (n_item t)) (\<lambda>p. read_text p h))"

definition named :: "memory_state \<Rightarrow> node \<Rightarrow> bool" where
  "named h t \<longleftrightarrow> (\<exists>p s. i_string (n_item t) = Some p \<and> read_text p h = Some s \<and> CHR 0x00 \<notin> set s)"

lemma names_differ_named:
  assumes "named h t" "read_text n h = Some s" "CHR 0x00 \<notin> set s"
  shows "names_differ cs n (i_string (n_item t)) h = Some (fold_key cs (key_in h t) \<noteq> fold_key cs s)"
  using assms by (auto simp: names_differ_def named_def key_in_def fold_key_def case_insensitive_strcmp_zero)

lemma search_name_seg:
  assumes "read_text n h = Some s" "CHR 0x00 \<notin> set s"
  shows "seg (h_items h) q ks None \<Longrightarrow> \<forall>k \<in> set ks. named h k \<Longrightarrow>
    search_name cs n (first_of None ks) h =
      Some (map_option n_addr (find (\<lambda>k. fold_key cs (key_in h k) = fold_key cs s) ks))"
proof (induction ks arbitrary: q)
  case Nil
  show ?case by (subst search_name.simps) simp
next
  case (Cons k ks)
  have k: "h_items h (n_addr k) = Some (cell q (first_of None ks) (n_item k) (n_kids k))" "seg (h_items h) (Some (n_addr k)) ks None"
    using Cons.prems(1) by (simp_all add: seg_Cons)
  have d: "names_differ cs n (i_string (n_item k)) h = Some (fold_key cs (key_in h k) \<noteq> fold_key cs s)"
    by (rule names_differ_named) (use Cons.prems(2) assms in auto)
  have i: "i_string (n_item k) \<noteq> None" using Cons.prems(2) by (auto simp: named_def)
  show ?case using k(1) d i Cons.IH [OF k(2)] Cons.prems(2) by (subst search_name.simps) auto
qed

lemma get_object_item_seg:
  assumes "h_items h p = Some pt" "i_child pt = first_of None ks" "seg (h_items h) None ks None" "\<forall>k \<in> set ks. named h k" "named h x"
  shows "get_object_item (Some p) (i_string (n_item x)) cs h =
    Some (map_option n_addr (find (\<lambda>k. fold_key cs (key_in h k) = fold_key cs (key_in h x)) ks))"
  using assms(1,2,5) search_name_seg [OF _ _ assms(3,4)]
  by (auto simp: get_object_item_def named_def key_in_def)

section \<open>The loops\<close>

lemma compare_arrays_seg:
  assumes "\<forall>x \<in> set xs. \<forall>y \<in> set ys. compare (Some (n_addr x)) (Some (n_addr y)) = Some (P x y)"
    "seg (h_items h) q xs None" "seg (h_items h) q' ys None" "length xs < fuel"
  shows "compare_arrays compare fuel (first_of None xs) (first_of None ys) h = Some (list_all2 P xs ys)"
  using assms
proof (induction fuel arbitrary: xs ys q q')
  case (Suc fuel)
  show ?case
  proof (cases xs)
    case Nil
    then show ?thesis by (cases ys) simp_all
  next
    case xs: (Cons x xs')
    show ?thesis
    proof (cases ys)
      case Nil
      then show ?thesis using xs by simp
    next
      case ys: (Cons y ys')
      have "compare_arrays compare fuel (first_of None xs') (first_of None ys') h = Some (list_all2 P xs' ys')"
        by (rule Suc.IH [of _ _ "Some (n_addr x)" "Some (n_addr y)"]) (use Suc.prems xs ys in \<open>auto simp: seg_Cons\<close>)
      then show ?thesis using Suc.prems xs ys by (auto simp: seg_Cons)
    qed
  qed
qed simp

lemma compare_members_seg:
  assumes "\<forall>x \<in> set xs. \<forall>y \<in> set ks. compare (Some (n_addr x)) (Some (n_addr y)) = Some (P x y)"
    "h_items h p = Some pt" "i_child pt = first_of None ks" "seg (h_items h) None ks None" "\<forall>k \<in> set ks. named h k"
    "seg (h_items h) q xs None" "\<forall>x \<in> set xs. named h x" "length xs < fuel"
  shows "compare_members compare cs fuel (first_of None xs) (Some p) h =
    Some (\<forall>x \<in> set xs. \<exists>y. find (\<lambda>k. fold_key cs (key_in h k) = fold_key cs (key_in h x)) ks = Some y \<and> P x y)"
  using assms(1,6,7,8)
proof (induction fuel arbitrary: xs q)
  case (Suc fuel)
  show ?case
  proof (cases xs)
    case (Cons x xs')
    have x: "h_items h (n_addr x) = Some (cell q (first_of None xs') (n_item x) (n_kids x))" using Suc.prems(2) Cons by (simp add: seg_Cons)
    have g: "get_object_item (Some p) (i_string (n_item x)) cs h =
        Some (map_option n_addr (find (\<lambda>k. fold_key cs (key_in h k) = fold_key cs (key_in h x)) ks))"
      by (rule get_object_item_seg [OF assms(2-5)]) (use Suc.prems(3) Cons in simp)
    have rest: "compare_members compare cs fuel (first_of None xs') (Some p) h =
        Some (\<forall>x \<in> set xs'. \<exists>y. find (\<lambda>k. fold_key cs (key_in h k) = fold_key cs (key_in h x)) ks = Some y \<and> P x y)"
      by (rule Suc.IH [of _ "Some (n_addr x)"]) (use Suc.prems Cons in \<open>auto simp: seg_Cons\<close>)
    show ?thesis
    proof (cases "find (\<lambda>k. fold_key cs (key_in h k) = fold_key cs (key_in h x)) ks")
      case None
      then show ?thesis using x g Cons by simp
    next
      case (Some y)
      then have "y \<in> set ks" by (auto simp: find_Some_iff)
      then have "compare (Some (n_addr x)) (Some (n_addr y)) = Some (P x y)" using Suc.prems(1) Cons by simp
      then show ?thesis using x g Some rest Cons by simp
    qed
  qed simp
qed simp

section \<open>Comparing trees\<close>

lemma contents_map: "contents h ts = map (\<lambda>t. hd (contents h [t])) ts"
proof (induction ts)
  case (Cons t ts)
  then show ?case by (cases t) simp
qed simp

definition content :: "memory_state \<Rightarrow> node \<Rightarrow> content" where
  "content h t = hd (contents h [t])"

lemma content_Node:
  "content h (Node a it ks) = Content (i_type it AND NOT cJSON_IsReference) (i_valueint it) (i_valuedouble it)
     (Option.bind (i_valuestring it) (\<lambda>p. read_text p h)) (Option.bind (i_string it) (\<lambda>p. read_text p h)) (map (content h) ks)"
  by (simp add: content_def [abs_def] contents_map [of h ks])

lemma key_in_content: "named h t \<Longrightarrow> the (c_key (content h t)) = key_in h t"
  by (cases t) (auto simp: content_Node named_def key_in_def)

lemma find_unique:
  assumes "distinct (map f ks)"
  shows "(\<exists>y. find (\<lambda>k. f k = a) ks = Some y \<and> P y) \<longleftrightarrow> (\<exists>y \<in> set ks. f y = a \<and> P y)"
  using assms
proof (induction ks)
  case (Cons k ks)
  then show ?case by (cases "f k = a") (auto simp: image_iff)
qed simp

lemma members_subset:
  assumes "distinct (map (fold_key cs \<circ> key_in h) ks)"
  shows "(\<forall>x \<in> set xs. \<exists>y. find (\<lambda>k. fold_key cs (key_in h k) = fold_key cs (key_in h x)) ks = Some y \<and> J x = J y) \<longleftrightarrow>
    (\<lambda>t. (fold_key cs (key_in h t), J t)) ` set xs \<subseteq> (\<lambda>t. (fold_key cs (key_in h t), J t)) ` set ks"
proof -
  have "(\<exists>y. find (\<lambda>k. fold_key cs (key_in h k) = fold_key cs (key_in h x)) ks = Some y \<and> J x = J y) \<longleftrightarrow>
      (fold_key cs (key_in h x), J x) \<in> (\<lambda>t. (fold_key cs (key_in h t), J t)) ` set ks" for x
    using find_unique [of "\<lambda>k. fold_key cs (key_in h k)" ks] assms by (simp add: comp_def image_iff) metis
  then show ?thesis by (simp add: image_subset_iff)
qed

lemma fmap_of_list_eq:
  assumes "distinct (map fst xs)" "distinct (map fst ys)"
  shows "fmap_of_list xs = fmap_of_list ys \<longleftrightarrow> set xs = set ys"
proof -
  have "fmap_of_list xs = fmap_of_list ys \<longleftrightarrow> map_of xs = map_of ys"
    by (metis fmap_ext fmlookup_of_list)
  then show ?thesis using map_of_inject_set [OF assms] by simp
qed

definition type_base :: "node \<Rightarrow> type_code" where
  "type_base t = i_type (n_item t) AND 0xFF"

lemma child_of_cell: "seg H q [t] e \<Longrightarrow> readable h [t] \<Longrightarrow> i_child (cell q e (n_item t) (n_kids t)) = first_of None (n_kids t)"
  by (cases t) (auto simp: cell_def)

lemma readable_member: "readable h ts \<Longrightarrow> t \<in> set ts \<Longrightarrow> readable h [t]"
  by (induction ts rule: addrs.induct) auto

lemma seg_member: "seg H q ts e \<Longrightarrow> t \<in> set ts \<Longrightarrow> \<exists>q e. seg H q [t] e"
proof (induction ts arbitrary: q)
  case (Cons u ts)
  show ?case
  proof (cases "t = u")
    case True
    then have "seg H q [t] (first_of e ts)" using Cons.prems(1) by (simp add: seg_Cons)
    then show ?thesis by blast
  next
    case False
    then show ?thesis using Cons by (auto simp: seg_Cons)
  qed
qed simp

lemma addrs_member: "t \<in> set ts \<Longrightarrow> length (addrs [t]) \<le> length (addrs ts)"
  by (induction ts) (auto simp: addrs_Cons)

lemma length_addrs: "length ts \<le> length (addrs ts)"
  by (induction ts) (auto simp: addrs_Cons)

lemma content_json:
  "json_of cs (content h t) = (let b = type_base t
      in if b = type_False then JFalse else if b = type_True then JTrue else if b = type_NULL then JNull
         else if b = type_Number then JNumber (i_valuedouble (n_item t))
         else if b = type_String then JString (the (Option.bind (i_valuestring (n_item t)) (\<lambda>p. read_text p h)))
         else if b = type_Raw then JRaw (the (Option.bind (i_valuestring (n_item t)) (\<lambda>p. read_text p h)))
         else if b = type_Array then JArray (map (\<lambda>k. json_of cs (content h k)) (n_kids t))
         else JObject (fmap_of_list (map (\<lambda>k. (fold_key cs (the (c_key (content h k))), json_of cs (content h k))) (n_kids t))))"
  by (cases t) (simp add: content_Node type_base_def flags comp_def Let_def)

lemma json_object:
  assumes "type_base t = type_Object"
  shows "json_of cs (content h t) = JObject (fmap_of_list (map (\<lambda>k. (fold_key cs (the (c_key (content h k))), json_of cs (content h k))) (n_kids t)))"
  by (subst content_json) (simp add: assms Let_def type_codes)

lemma valid_node:
  assumes "valid_content cs (content h t)"
  shows "type_base t \<in> set valid_types"
    "type_base t \<in> {type_String, type_Raw} \<Longrightarrow> \<exists>p s. i_valuestring (n_item t) = Some p \<and> read_text p h = Some s"
    "k \<in> set (n_kids t) \<Longrightarrow> valid_content cs (content h k)"
    "type_base t = type_Object \<Longrightarrow> distinct (map (\<lambda>k. fold_key cs (key_in h k)) (n_kids t))"
    "type_base t = type_Object \<Longrightarrow> k \<in> set (n_kids t) \<Longrightarrow> named h k"
proof -
  obtain a it ks where t: "t = Node a it ks" by (cases t)
  show "type_base t \<in> set valid_types"
    "type_base t \<in> {type_String, type_Raw} \<Longrightarrow> \<exists>p s. i_valuestring (n_item t) = Some p \<and> read_text p h = Some s"
    "k \<in> set (n_kids t) \<Longrightarrow> valid_content cs (content h k)"
    using assms by (auto simp: t content_Node type_base_def flags bind_eq_Some_conv)
  have o: "distinct (map (\<lambda>k. fold_key cs (the (c_key (content h k)))) ks)" "\<And>k. k \<in> set ks \<Longrightarrow> named h k"
    if "type_base t = type_Object"
  proof -
    show "distinct (map (\<lambda>k. fold_key cs (the (c_key (content h k)))) ks)"
      using assms that by (simp add: t content_Node type_base_def flags comp_def)
    fix k assume "k \<in> set ks"
    then have "\<exists>s. c_key (content h k) = Some s \<and> CHR 0x00 \<notin> set s"
      using assms that by (auto simp: t content_Node type_base_def flags)
    then show "named h k" by (cases k) (auto simp: content_Node named_def bind_eq_Some_conv)
  qed
  show "type_base t = type_Object \<Longrightarrow> k \<in> set (n_kids t) \<Longrightarrow> named h k" using o(2) by (simp add: t)
  show "distinct (map (\<lambda>k. fold_key cs (key_in h k)) (n_kids t))" if "type_base t = type_Object"
    using o(1) [OF that] o(2) [OF that] key_in_content by (simp add: t cong: map_cong)
qed

lemma base_cases:
  assumes "b \<in> set valid_types"
  obtains "b = type_False" | "b = type_True" | "b = type_NULL" | "b = type_Number" | "b = type_String" | "b = type_Raw"
    | "b = type_Array" | "b = type_Object"
  using assms by (auto simp: valid_types_def)

definition same_json :: "bool \<Rightarrow> memory_state \<Rightarrow> node \<Rightarrow> node \<Rightarrow> bool" where
  "same_json cs h t u \<longleftrightarrow> json_of cs (content h t) = json_of cs (content h u)"

lemma compare_kind_valid:
  assumes "valid_content cs (content h t)" "valid_content cs (content h u)"
  shows "compare_kind (n_addr t) (n_addr u) (cell q e (n_item t) ks) (cell q' e' (n_item u) ks') h =
    Some (if type_base t \<noteq> type_base u then Decided False
      else if n_addr t = n_addr u then Decided True
      else if type_base t = type_Array then Elements
      else if type_base t = type_Object then Members
      else Decided (same_json cs h t u))"
proof (cases "type_base t = type_base u")
  case False
  then show ?thesis by (simp add: compare_kind_def type_base_def)
next
  case True
  have b: "i_type (n_item t) AND 0xFF = type_base t" "i_type (n_item u) AND 0xFF = type_base t" using True by (simp_all add: type_base_def)
  note tx = valid_node(2) [OF assms(1)] valid_node(2) [OF assms(2)]
  from valid_node(1) [OF assms(1)] show ?thesis
    by (cases rule: base_cases)
      (use True tx in \<open>auto simp: compare_kind_def b same_json_def content_json Let_def type_codes valid_types_def compare_texts_def\<close>)
qed

lemma cell_eq:
  assumes c: "cell q e it ks = cell q' e' it' ks'" and r: "is_reference it \<longrightarrow> ks = []" "is_reference it' \<longrightarrow> ks' = []"
  shows "i_type it = i_type it'" "i_valuestring it = i_valuestring it'" "i_string it = i_string it'" "i_valueint it = i_valueint it'"
    "i_valuedouble it = i_valuedouble it'" "e = e'" "first_of None ks = first_of None ks'"
proof -
  show "i_type it = i_type it'" "i_valuestring it = i_valuestring it'" "i_string it = i_string it'" "i_valueint it = i_valueint it'"
    "i_valuedouble it = i_valuedouble it'" "e = e'"
    using arg_cong [OF c, of i_type] arg_cong [OF c, of i_valuestring] arg_cong [OF c, of i_string] arg_cong [OF c, of i_valueint]
      arg_cong [OF c, of i_valuedouble] arg_cong [OF c, of i_next] by simp_all
  have "is_reference it = is_reference it'" using arg_cong [OF c, of is_reference] by simp
  then show "first_of None ks = first_of None ks'"
    using arg_cong [OF c, of i_child] r by (cases "is_reference it") (simp_all del: cell_child add: cell_def)
qed

lemma same_address:
  "seg (h_items h) q ts None \<Longrightarrow> seg (h_items h) q' us None \<Longrightarrow> first_of None ts = first_of None us \<Longrightarrow> contents h ts = contents h us"
proof (induction ts arbitrary: q q' us rule: addrs.induct)
  case 1
  then show ?case by (cases us) simp_all
next
  case (2 a it ks ts)
  obtain it' ks' us' where us: "us = Node a it' ks' # us'" using "2.prems"(3) by (cases us rule: addrs.cases) auto
  have f: "cell q (first_of None ts) it ks = cell q' (first_of None us') it' ks'" "is_reference it \<longrightarrow> ks = []" "is_reference it' \<longrightarrow> ks' = []"
    "seg (h_items h) None ks None" "seg (h_items h) None ks' None" "seg (h_items h) (Some a) ts None" "seg (h_items h) (Some a) us' None"
    using "2.prems"(1,2) us by simp_all
  note c = cell_eq [OF f(1-3)]
  show ?case using c "2.IH"(1) [OF f(4,5) c(7)] "2.IH"(2) [OF f(6,7) c(6)] us by simp
qed

lemma same_address_content:
  assumes "seg (h_items h) q [t] e" "seg (h_items h) q' [u] e'" "n_addr t = n_addr u"
  shows "content h t = content h u"
proof -
  obtain a it ks it' ks' where n: "t = Node a it ks" "u = Node a it' ks'" using assms(3) by (cases t; cases u) simp
  have f: "cell q e it ks = cell q' e' it' ks'" "is_reference it \<longrightarrow> ks = []" "is_reference it' \<longrightarrow> ks' = []"
    "seg (h_items h) None ks None" "seg (h_items h) None ks' None"
    using assms n by simp_all
  note c = cell_eq [OF f(1-3)]
  show ?thesis using c same_address [OF f(4,5) c(7)] n by (simp add: content_def)
qed

lemma list_all2_json: "list_all2 (same_json cs h) xs ys \<longleftrightarrow> map (\<lambda>k. json_of cs (content h k)) xs = map (\<lambda>k. json_of cs (content h k)) ys"
  by (induction xs ys rule: list_induct2') (auto simp: same_json_def)

text \<open>The members of an object as the comparison sees them, which is all that its value holds.\<close>

definition members_of :: "bool \<Rightarrow> memory_state \<Rightarrow> node \<Rightarrow> (string \<times> json) set" where
  "members_of cs h t = (\<lambda>k. (fold_key cs (key_in h k), json_of cs (content h k))) ` set (n_kids t)"

lemma same_json_members:
  assumes o: "type_base t = type_Object" "type_base u = type_Object"
    and v: "valid_content cs (content h t)" "valid_content cs (content h u)"
  shows "same_json cs h t u \<longleftrightarrow> members_of cs h t = members_of cs h u"
proof -
  let ?m = "\<lambda>t. map (\<lambda>k. (fold_key cs (key_in h k), json_of cs (content h k))) (n_kids t)"
  have "json_of cs (content h t) = JObject (fmap_of_list (?m t))" if "type_base t = type_Object" "valid_content cs (content h t)" for t
    unfolding json_object [OF that(1)] using valid_node(5) [OF that(2,1)] by (simp add: key_in_content cong: map_cong)
  moreover have "distinct (map fst (?m t))" "distinct (map fst (?m u))"
    using valid_node(4) [OF v(1) o(1)] valid_node(4) [OF v(2) o(2)] by (simp_all add: comp_def)
  ultimately show ?thesis using o v fmap_of_list_eq [of "?m t" "?m u"] by (simp add: same_json_def members_of_def)
qed

text \<open>One direction of the comparison of objects: every member of \<open>t\<close> has its equal in \<open>u\<close>.\<close>

lemma compare_members_included:
  assumes s: "seg (h_items h) q [t] e" "seg (h_items h) q' [u] e'" and r: "readable h [u]"
    and o: "type_base t = type_Object" "type_base u = type_Object"
    and v: "valid_content cs (content h t)" "valid_content cs (content h u)" and n: "length (n_kids t) < fuel"
    and cmp: "\<And>x y. x \<in> set (n_kids t) \<Longrightarrow> y \<in> set (n_kids u) \<Longrightarrow> compare (Some (n_addr x)) (Some (n_addr y)) = Some (same_json cs h x y)"
  shows "compare_members compare cs fuel (first_of None (n_kids t)) (Some (n_addr u)) h = Some (members_of cs h t \<subseteq> members_of cs h u)"
proof -
  have t: "seg (h_items h) None (n_kids t) None" and u: "h_items h (n_addr u) = Some (cell q' e' (n_item u) (n_kids u))"
    "seg (h_items h) None (n_kids u) None" using s by (simp_all add: seg_Cons)
  have nk: "\<forall>k \<in> set (n_kids t). named h k" "\<forall>k \<in> set (n_kids u). named h k"
    using valid_node(5) [OF v(1) o(1)] valid_node(5) [OF v(2) o(2)] by blast+
  have dk: "distinct (map (\<lambda>k. fold_key cs (key_in h k)) (n_kids u))" using valid_node(4) [OF v(2) o(2)] .
  show ?thesis
    using compare_members_seg [OF _ u(1) child_of_cell [OF s(2) r] u(2) nk(2) t nk(1) n, of compare "same_json cs h" cs] cmp
      members_subset [of cs h "n_kids u" "n_kids t" "\<lambda>k. json_of cs (content h k)"] dk
    by (simp add: same_json_def members_of_def comp_def)
qed

lemma compare_items_json:
  "seg (h_items h) q [t] e \<Longrightarrow> seg (h_items h) q' [u] e' \<Longrightarrow> readable h [t] \<Longrightarrow> readable h [u] \<Longrightarrow>
    valid_content cs (content h t) \<Longrightarrow> valid_content cs (content h u) \<Longrightarrow> length (addrs [t]) + length (addrs [u]) < fuel \<Longrightarrow>
    compare_items fuel cs h (Some (n_addr t)) (Some (n_addr u)) = Some (same_json cs h t u)"
proof (induction fuel arbitrary: q t e q' u e')
  case (Suc fuel)
  let ?cmp = "compare_items fuel cs h" and ?ks = "n_kids t" and ?us = "n_kids u"
  have t: "h_items h (n_addr t) = Some (cell q e (n_item t) ?ks)" "seg (h_items h) None ?ks None"
    and u: "h_items h (n_addr u) = Some (cell q' e' (n_item u) ?us)" "seg (h_items h) None ?us None"
    using Suc.prems(1,2) by (simp_all add: seg_Cons)
  note ch = child_of_cell [OF Suc.prems(1,3)] child_of_cell [OF Suc.prems(2,4)]
  have r: "readable h ?ks" "readable h ?us" using Suc.prems(3,4) by (cases t; cases u; simp)+
  have l: "length (addrs ?ks) < length (addrs [t])" "length (addrs ?us) < length (addrs [u])" by (simp_all add: addrs_Cons)
  have pair: "?cmp (Some (n_addr x)) (Some (n_addr y)) = Some (same_json cs h x y)"
    if xy: "x \<in> set ?ks \<and> y \<in> set ?us \<or> x \<in> set ?us \<and> y \<in> set ?ks" for x y
  proof -
    obtain p1 e1 p2 e2 where s: "seg (h_items h) p1 [x] e1" "seg (h_items h) p2 [y] e2"
      using xy seg_member [OF t(2)] seg_member [OF u(2)] by blast
    have "readable h [x]" "readable h [y]" using xy readable_member [OF r(1)] readable_member [OF r(2)] by blast+
    moreover have "valid_content cs (content h x)" "valid_content cs (content h y)"
      using xy valid_node(3) [OF Suc.prems(5)] valid_node(3) [OF Suc.prems(6)] by blast+
    moreover have "length (addrs [x]) + length (addrs [y]) < fuel"
      using xy addrs_member [of x ?ks] addrs_member [of y ?us] addrs_member [of x ?us] addrs_member [of y ?ks] l Suc.prems(7) by auto
    ultimately show ?thesis by (rule Suc.IH [OF s])
  qed
  have len: "length ?ks < fuel" "length ?us < fuel" using length_addrs [of ?ks] length_addrs [of ?us] l Suc.prems(7) by simp_all
  note kind = compare_kind_valid [OF Suc.prems(5,6), of q e ?ks q' e' ?us]
  show ?case
  proof (cases "type_base t = type_base u")
    case False
    then have "json_of cs (content h t) \<noteq> json_of cs (content h u)"
      using valid_node(1) [OF Suc.prems(5)] valid_node(1) [OF Suc.prems(6)]
      by (auto simp: content_json Let_def valid_types_def type_codes)
    then show ?thesis using t u kind False by (simp add: same_json_def)
  next
    case base: True
    show ?thesis
    proof (cases "n_addr t = n_addr u")
      case True
      then show ?thesis using t u kind base same_address_content [OF Suc.prems(1,2) True] by (simp add: same_json_def)
    next
      case False
      consider (array) "type_base t = type_Array" | (members) "type_base t = type_Object" | (leaf) "type_base t \<noteq> type_Array" "type_base t \<noteq> type_Object"
        by blast
      then show ?thesis
      proof cases
        case array
        have "compare_arrays ?cmp fuel (first_of None ?ks) (first_of None ?us) h = Some (list_all2 (same_json cs h) ?ks ?us)"
          by (rule compare_arrays_seg [OF _ t(2) u(2) len(1)]) (use pair in blast)
        then show ?thesis using t u kind base False array ch
          by (simp add: list_all2_json) (simp add: same_json_def content_json type_codes)
      next
        case members
        have m: "type_base u = type_Object" using members base by simp
        have "compare_members ?cmp cs fuel (first_of None ?ks) (Some (n_addr u)) h = Some (members_of cs h t \<subseteq> members_of cs h u)"
          by (rule compare_members_included [OF Suc.prems(1,2,4) members m Suc.prems(5,6) len(1)]) (use pair in blast)
        moreover have "compare_members ?cmp cs fuel (first_of None ?us) (Some (n_addr t)) h = Some (members_of cs h u \<subseteq> members_of cs h t)"
          by (rule compare_members_included [OF Suc.prems(2,1,3) m members Suc.prems(6,5) len(2)]) (use pair in blast)
        moreover have "type_Object \<noteq> type_Array" by (simp add: type_codes)
        ultimately have "compare_items (Suc fuel) cs h (Some (n_addr t)) (Some (n_addr u)) =
            Some (members_of cs h t \<subseteq> members_of cs h u \<and> members_of cs h u \<subseteq> members_of cs h t)"
          using t(1) u(1) kind base False members ch by simp
        then show ?thesis using same_json_members [OF members m Suc.prems(5,6)] by auto
      next
        case leaf
        then show ?thesis using t u kind base False by simp
      qed
    qed
  qed
qed simp

text \<open>
  C14: what \<open>cJSON_Compare\<close> decides. For two items in memory, however they share memory, that are
  valid (of known types, the texts there, the names of an object different, up to case when case is
  ignored) and enough fuel, it returns whether the two are the same JSON value: arrays as lists,
  objects as finite maps from names, whatever the order of the members.
\<close>

theorem cJSON_Compare_decides:
  assumes "seg (h_items h) q [t] e" "seg (h_items h) q' [u] e'" "readable h [t]" "readable h [u]"
    "valid_content cs (content h t)" "valid_content cs (content h u)" "length (addrs [t]) + length (addrs [u]) < fuel"
  shows "compare_items fuel cs h (Some (n_addr t)) (Some (n_addr u)) =
    Some (json_of cs (content h t) = json_of cs (content h u))"
  using compare_items_json [OF assms] by (simp add: same_json_def)

section \<open>A copy is equal\<close>

fun content_size :: "content \<Rightarrow> nat" where
  "content_size (Content ty i d t k ks) = Suc (sum_list (map content_size ks))"

lemma length_addrs_contents: "length (addrs ts) = sum_list (map content_size (contents h ts))"
  by (induction ts rule: addrs.induct) simp_all

text \<open>
  C15: copying succeeds, and the copy is equal. When memory does not run out, the copy of a valid item
  is made, and \<open>cJSON_Compare\<close> finds original and copy equal, with and without regard to case.
\<close>

theorem copy_compares_equal:
  assumes "memory_ok h" "plenty h" "seg (h_items h) q [t] e" "readable h [t]" "valid_content cs (content h t)"
    "2 * length (addrs [t]) < fuel"
  shows "\<exists>a h'. cJSON_Duplicate fuel (Some (n_addr t)) True h = Some (Some a, h') \<and>
    compare_items fuel cs h' (Some (n_addr t)) (Some a) = Some True"
  using cJSON_Duplicate_makes [OF assms(1,3,4,6)]
proof (cases rule: makes_cases)
  case (null h')
  then show ?thesis using assms(2) by simp
next
  case (made t' h')
  have c: "contents h' [t] = contents h [t]" "readable h' [t]" using grows_contents [OF made(2) assms(4)] by simp_all
  have c': "contents h' [t'] = contents h [t]" "readable h' [t']" using made(4) by (simp_all add: copies_def)
  have eq: "content h' t = content h t" "content h' t' = content h t" using c c' by (simp_all add: content_def)
  have "length (addrs [t']) = length (addrs [t])"
    using length_addrs_contents [of "[t']" h'] length_addrs_contents [of "[t]" h] c' by simp
  then have "compare_items fuel cs h' (Some (n_addr t)) (Some (n_addr t')) = Some (same_json cs h' t t')"
    using compare_items_json [OF grows_seg [OF made(2) assms(3)] made(3) c(2) c'(2)] eq assms(5,6) by simp
  then show ?thesis using made(1) eq by (auto simp: same_json_def)
qed

lemma sample_valid: "valid_content cs (content sample_memory sample_tree)"
  by (simp add: sample_tree_def content_def sample_memory_def read_text_def type_codes valid_types_def zero_item_def cJSON_IsReference_def)

theorem copy_compares_equal_witness:
  "\<exists>a h'. cJSON_Duplicate 7 (Some 1) True sample_memory = Some (Some a, h') \<and> compare_items 7 True h' (Some 1) (Some a) = Some True"
  using copy_compares_equal [OF sample_ok(1,5,2,3) sample_valid, of 7] sample_ok(4) by (simp add: sample_tree_def)

text \<open>Two objects with the same members in another order and with names in another case.\<close>

definition const_member :: "string \<Rightarrow> type_code \<Rightarrow> item" where
  "const_member k ty = zero_item\<lparr>i_type := ty OR cJSON_StringIsConst, i_string := Some (Literal k)\<rparr>"

definition twin_memory :: memory_state where
  "twin_memory = \<lparr>h_items = [1 \<mapsto> zero_item\<lparr>i_type := type_Object, i_child := Some 2\<rparr>,
       2 \<mapsto> (const_member ''a'' type_True)\<lparr>i_next := Some 3\<rparr>, 3 \<mapsto> (const_member ''B'' type_NULL)\<lparr>i_prev := Some 2\<rparr>,
       4 \<mapsto> zero_item\<lparr>i_type := type_Object, i_child := Some 5\<rparr>,
       5 \<mapsto> (const_member ''b'' type_NULL)\<lparr>i_next := Some 6\<rparr>, 6 \<mapsto> (const_member ''A'' type_True)\<lparr>i_prev := Some 5\<rparr>],
     h_strings = Map.empty, h_next = 7, h_allocate = (\<lambda>_ _. True)\<rparr>"

definition twin_1 :: node where
  "twin_1 = Node 1 (zero_item\<lparr>i_type := type_Object\<rparr>) [Node 2 (const_member ''a'' type_True) [], Node 3 (const_member ''B'' type_NULL) []]"

definition twin_2 :: node where
  "twin_2 = Node 4 (zero_item\<lparr>i_type := type_Object\<rparr>) [Node 5 (const_member ''b'' type_NULL) [], Node 6 (const_member ''A'' type_True) []]"

lemmas twin_defs = twin_memory_def twin_1_def twin_2_def const_member_def zero_item_def cell_def is_reference_def type_codes
  cJSON_IsReference_def cJSON_StringIsConst_def read_text_def

lemma tolower_letters:
  "tolower CHR ''A'' = CHR ''a''" "tolower CHR ''B'' = CHR ''b''" "tolower CHR ''a'' = CHR ''a''" "tolower CHR ''b'' = CHR ''b''"
  by code_simp+

lemma twins: "seg (h_items twin_memory) None [twin_1] None" "seg (h_items twin_memory) None [twin_2] None"
  "readable twin_memory [twin_1]" "readable twin_memory [twin_2]" "length (addrs [twin_1]) = 3" "length (addrs [twin_2]) = 3"
  by (simp_all add: twin_defs)

lemma twin_contents: "valid_content False (content twin_memory twin_1)" "valid_content False (content twin_memory twin_2)"
  by (simp_all add: content_def twin_defs valid_types_def fold_key_def tolower_letters)

theorem cJSON_Compare_decides_witness:
  "compare_items 7 False twin_memory (Some 1) (Some 4) = Some True"
proof -
  have "fmap_of_list [(''a'', JTrue), (''b'', JNull)] = fmap_of_list [(''b'', JNull), (''a'', JTrue)]"
    by (subst fmap_of_list_eq) auto
  then have "json_of False (content twin_memory twin_1) = json_of False (content twin_memory twin_2)"
    by (simp add: content_def twin_defs fold_key_def tolower_letters)
  then show ?thesis
    using cJSON_Compare_decides [OF twins(1-4) twin_contents, of 7] twins(5,6) by (simp add: twin_1_def twin_2_def)
qed

text \<open>
  Two members with the same name make an object different from its copy: the second one is
  compared with the first of the copy. The object is equal to itself all the same.
\<close>

definition doubled_memory :: memory_state where
  "doubled_memory = \<lparr>h_items = [1 \<mapsto> zero_item\<lparr>i_type := type_Object, i_child := Some 2\<rparr>,
       2 \<mapsto> (const_member ''a'' type_True)\<lparr>i_next := Some 3\<rparr>, 3 \<mapsto> (const_member ''a'' type_NULL)\<lparr>i_prev := Some 2\<rparr>],
     h_strings = Map.empty, h_next = 4, h_allocate = (\<lambda>_ _. True)\<rparr>"

definition doubled_copy :: "memory_state" where
  "doubled_copy = doubled_memory\<lparr>h_items := (h_items doubled_memory)(4 \<mapsto> zero_item\<lparr>i_type := type_Object, i_child := Some 5\<rparr>,
       5 \<mapsto> (const_member ''a'' type_True)\<lparr>i_next := Some 6\<rparr>, 6 \<mapsto> (const_member ''a'' type_NULL)\<lparr>i_prev := Some 5\<rparr>), h_next := 7\<rparr>"

lemma search_name_steps:
  "search_name cs n None h = Some None"
  "search_name cs n (Some a) h = do {
     it \<leftarrow> h_items h a;
     differ \<leftarrow> names_differ cs n (i_string it) h;
     if differ then search_name cs n (i_next it) h else Some (if i_string it = None then None else Some a)
   }"
  by (subst search_name.simps; simp)+

lemmas doubled_defs = doubled_memory_def doubled_copy_def const_member_def zero_item_def is_reference_def string_is_const_def type_codes
  cJSON_IsReference_def cJSON_StringIsConst_def read_text_def

lemma nine: "(9 :: nat) = Suc (Suc (Suc (Suc (Suc (Suc (Suc (Suc (Suc 0))))))))"
  by simp

lemma doubled_is_copied:
  "cJSON_Duplicate 9 (Some 1) True doubled_memory = Some (Some 4, doubled_copy)"
  by (simp add: doubled_defs nine cJSON_New_Item_def allocate_def duplicate_fields_def update_item_def cJSON_strdup_def
      suffix_object_def fun_upd_twist)

lemma copy_of_doubled_names_differs:
  "compare_items 9 True doubled_copy (Some 1) (Some 4) = Some False"
  by (simp add: doubled_defs nine compare_kind_def valid_types_def get_object_item_def search_name_steps names_differ_def)

end
