(* ===== verification/Arion_Json_Build.thy ===== *)
theory Arion_Json_Build
  imports Arion_Json_Copy
begin

text \<open>
  Building values: the functions that create items and arrays of items, and those that create an
  item and add it to an object under a name. Each leaves either the value that was asked for or
  the memory as it was.
\<close>

section \<open>Texts\<close>

definition plain_type :: "type_code \<Rightarrow> bool" where
  "plain_type ty \<longleftrightarrow> ty AND cJSON_IsReference = 0 \<and> ty AND cJSON_StringIsConst = 0 \<and> ty AND NOT cJSON_IsReference = ty"

lemma plain_types [simp]:
  "plain_type type_String" "plain_type type_Raw" "plain_type type_Number" "plain_type type_Array" "plain_type type_Object"
  "plain_type type_NULL" "plain_type type_True" "plain_type type_False"
  by (simp_all add: plain_type_def type_codes cJSON_IsReference_def cJSON_StringIsConst_def)

text \<open>A new item without children and without a name.\<close>

definition fresh_item :: "content \<Rightarrow> memory_state \<Rightarrow> node \<Rightarrow> bool" where
  "fresh_item c h t \<longleftrightarrow> contents h [t] = [c] \<and> readable h [t] \<and> n_kids t = [] \<and> i_string (n_item t) = None \<and>
     plain_type (i_type (n_item t)) \<and> i_child (n_item t) = None"

lemma create_text_makes:
  assumes "memory_ok h" "plain_type ty" "read_text p h = Some s"
  shows "makes h (fresh_item (Content ty 0 (Finite 0) (Some s) None [])) (create_text ty (Some p) h)"
  using cJSON_New_Item_outcome [OF assms(1)]
proof
  assume "\<exists>h'. cJSON_New_Item h = (None, h') \<and> grows h [] h' \<and> \<not> plenty h"
  then show ?thesis by (auto simp: create_text_def intro: makes_null)
next
  let ?n = "h_next h"
  define f where "f v = zero_item\<lparr>i_type := ty, i_valuestring := v\<rparr>" for v
  have f: "\<not> is_reference (f v)" "\<not> string_is_const (f v)" "i_valuestring (f v) = v" "i_string (f v) = None" "i_child (f v) = None"
    "i_type (f v) = ty" "cell None None (f v) [] = f v" "i_valueint (f v) = 0" "i_valuedouble (f v) = Finite 0" for v
    using assms(2) by (simp_all add: f_def is_reference_def string_is_const_def plain_type_def cell_def zero_item_def)
  have own: "own_texts (f v) = own_text False v" for v using f by (simp add: own_texts_def own_text_def)
  assume "\<exists>h'. cJSON_New_Item h = (Some ?n, h') \<and> h_items h' = (h_items h)(?n \<mapsto> zero_item) \<and> h_strings h' = h_strings h \<and>
    h_next h' = ?n + 1 \<and> h_allocate h' = h_allocate h"
  then obtain h1 where h1: "cJSON_New_Item h = (Some ?n, h1)" "h_items h1 = (h_items h)(?n \<mapsto> zero_item)"
    "h_strings h1 = h_strings h" "h_next h1 = ?n + 1" "h_allocate h1 = h_allocate h" by blast
  let ?h2 = "h1\<lparr>h_items := (h_items h)(?n \<mapsto> f None)\<rparr>"
  have r2: "read_text p ?h2 = Some s" using read_text_cong [of ?h2 h] h1(3) assms(3) by simp
  then obtain v T h3 where v: "cJSON_strdup (Some p) ?h2 = Some (v, h3)" "copied (Some p) ?h2 v T h3"
    using cJSON_strdup_outcome [of "Some p" ?h2] by auto
  let ?h4 = "h3\<lparr>h_items := (h_items h)(?n \<mapsto> f v)\<rparr>"
  have h3: "h_items h3 = (h_items h)(?n \<mapsto> f None)" "h_strings h3 = h_strings h ++ T" "h_allocate h3 = h_allocate h" "?n + 1 \<le> h_next h3"
    using v(2) h1 by (simp_all add: copied_def)
  have vT: "v = None \<and> T = Map.empty \<and> \<not> plenty h \<or> v = Some (Block (?n + 1)) \<and> T = [?n + 1 \<mapsto> s] \<and> h_next h3 = ?n + 2"
    using v(2) h1 r2 by (auto simp: copied_def plenty_def split: option.splits)
  have g: "grows h [Node ?n (f v) []] ?h4"
    by (rule grows_one [OF assms(1), where X = "f v" and T = T])
      (use vT h3 f own in \<open>auto simp: own_text_def text_ok_def split: if_splits\<close>)
  have s4: "seg (h_items ?h4) None [Node ?n (f v) []] None" using f by simp
  have run: "create_text ty (Some p) h =
      (if v = None then do { h \<leftarrow> cJSON_Delete (Some ?n) ?h4; Some (None, h) } else Some (Some ?n, ?h4))"
    using h1 v(1) h3(1) by (simp add: create_text_def update_item_def f_def zero_item_def)
  show ?thesis
  proof (cases v)
    case None
    then obtain h5 where "cJSON_Delete (Some ?n) ?h4 = Some h5" "grows h [] h5" using grows_delete [OF g s4] by auto
    moreover have "\<not> plenty h" using vT None by auto
    ultimately show ?thesis using run None by (intro makes_null [of _ h5]) simp_all
  next
    case (Some q)
    then have q: "read_text q ?h4 = Some s" using vT h3(2) by (auto simp: read_text_def)
    then have "fresh_item (Content ty 0 (Finite 0) (Some s) None []) ?h4 (Node ?n (f v) [])"
      using f assms(2) Some by (simp add: fresh_item_def plain_type_def)
    then show ?thesis using run Some by (intro makes_tree [OF _ g s4]) simp_all
  qed
qed

lemma created_fresh:
  assumes "memory_ok h" "f zero_item = zero_item\<lparr>i_type := ty, i_valueint := i, i_valuedouble := d\<rparr>" "plain_type ty"
  shows "makes h (fresh_item (Content ty i d None None [])) (created f h)"
  by (rule created_makes [OF assms(1)])
    (use assms(2,3) in \<open>simp_all add: fresh_item_def own_texts_def own_text_def text_ok_def plain_type_def is_reference_def\<close>)

section \<open>Adding to an object\<close>

text \<open>The key of a content.\<close>

definition with_key :: "string \<Rightarrow> content \<Rightarrow> content" where
  "with_key s c = Content (c_type c) (c_int c) (c_double c) (c_text c) (Some s) (c_kids c)"

text \<open>The outcome of adding: a new last child, with nothing else new, or the memory as it was.\<close>

definition added :: "memory_state \<Rightarrow> nat \<Rightarrow> node list \<Rightarrow> content \<Rightarrow> (ref \<times> memory_state) option \<Rightarrow> bool" where
  "added h p ks c res \<longleftrightarrow> (\<exists>r h'. res = Some (r, h') \<and> (case r of
     None \<Rightarrow> \<not> plenty h \<and> h_items h' = h_items h \<and> h_strings h' = h_strings h
   | Some a \<Rightarrow> \<exists>t. n_addr t = a \<and> array_at h' p (ks @ [t]) \<and> contents h' [t] = [c] \<and> owned h' [t] \<and>
       h_strings h' |` (- set (texts [t])) = h_strings h \<and> h_items h a = None \<and>
       (\<forall>b. b \<notin> insert p (set (addrs (ks @ [t]))) \<longrightarrow> h_items h' b = h_items h b)))"

lemma array_at_grows:
  assumes "grows h ts h'" "array_at h p ks"
  shows "array_at h' p ks"
  using assms grows_items [OF assms(1)] grows_seg [OF assms(1)] by (auto simp: array_at_def)

lemma contents_cong: "h_strings h' = h_strings h \<Longrightarrow> contents h' ts = contents h ts"
  by (induction ts rule: addrs.induct) (simp_all add: read_text_cong [of h' h])

lemma and_not_absorb: "t AND m = 0 \<Longrightarrow> t AND NOT m = t" for t m :: type_code
proof (rule bit_word_eqI)
  fix n assume "t AND m = 0" "n < LENGTH(32)"
  then have "\<not> bit (t AND m) n" by simp
  then show "bit (t AND NOT m) n \<longleftrightarrow> bit t n" using \<open>n < LENGTH(32)\<close> by (auto simp: bit_simps)
qed

text \<open>A new item gets its copy of a name.\<close>

lemma named_item:
  assumes ok: "memory_ok h" and g: "grows h [Node a it []] h1" and it: "fresh_item c h1 (Node a it [])"
    and seg: "seg (h_items h1) None [Node a it []] None"
    and h2: "h_items h2 = h_items h1" "h_strings h2 = h_strings h1 ++ [h_next h1 \<mapsto> s]" "h_allocate h2 = h_allocate h1"
      "h_next h2 = h_next h1 + 1"
  shows "let it' = it\<lparr>i_string := Some (Block (h_next h1))\<rparr>; h3 = h2\<lparr>h_items := (h_items h2)(a \<mapsto> cell None None it' [])\<rparr>
    in grows h [Node a it' []] h3 \<and> seg (h_items h3) None [Node a it' []] None \<and> contents h3 [Node a it' []] = [with_key s c]"
proof -
  let ?it = "it\<lparr>i_string := Some (Block (h_next h1))\<rparr>"
  let ?t = "Node a ?it []" and ?h3 = "h2\<lparr>h_items := (h_items h2)(a \<mapsto> cell None None ?it [])\<rparr>"
  have it': "i_string it = None" "plain_type (i_type it)" "contents h1 [Node a it []] = [c]"
    and rd: "\<And>q. i_valuestring it = Some q \<Longrightarrow> read_text q h1 \<noteq> None"
    using it by (auto simp: fresh_item_def)
  have fl: "\<not> is_reference it" "\<not> string_is_const it" "\<not> is_reference ?it" "\<not> string_is_const ?it"
    using it'(2) by (simp_all add: plain_type_def is_reference_def string_is_const_def)
  have tt: "texts [?t] = texts [Node a it []] @ [h_next h1]" "addrs [?t] = addrs [Node a it []]" "texts_ok [?t] = texts_ok [Node a it []]"
    using it'(1) fl by (simp_all add: own_text_def text_ok_def)
  have fresh: "h_next h1 \<notin> set (texts [Node a it []])" "h_strings h1 (h_next h1) = None" "h_strings h (h_next h1) = None"
    using g grows_ok [OF g ok] ok by (auto simp: grows_def memory_ok_def)
  have g1: "h_items h1 |` (- {a}) = h_items h" "h_strings h1 |` (- set (texts [Node a it []])) = h_strings h" "owned h1 [Node a it []]"
    "a \<in> {h_next h ..< h_next h1}" "set (texts [Node a it []]) \<subseteq> {h_next h ..< h_next h1}" "h_allocate h1 = h_allocate h" "h_next h \<le> h_next h1"
    using g by (auto simp: grows_def)
  have e1: "h_strings ?h3 |` (- set (texts [?t])) = h_strings h1 |` (- set (texts [Node a it []]))"
    using h2(2) tt(1) fresh(1,3) g1(2) by (auto simp: restrict_map_def fun_eq_iff split: if_splits)
  have e2: "h_items ?h3 |` (- set (addrs [?t])) = h_items h1 |` (- {a})" using h2(1) by (auto simp: restrict_map_def)
  have e3: "owned ?h3 [?t]" using g1(3) h2(2) tt fresh(1) by (auto simp: owned_def)
  have e4: "set (addrs [?t]) \<union> set (texts [?t]) \<subseteq> {h_next h ..< h_next ?h3}"
    unfolding tt using g1(4,5,7) h2(4) by auto
  have g3: "grows h [?t] ?h3" unfolding grows_def using e1 e2 e3 e4 g1(1,2,6,7) h2(3,4) by simp
  have "read_text q ?h3 = read_text q h1" if "i_valuestring it = Some q" for q
    using rd [OF that] h2(2) fresh(2) by (auto simp: read_text_def split: text_ptr.splits)
  then have "Option.bind (i_valuestring it) (\<lambda>p. read_text p ?h3) = Option.bind (i_valuestring it) (\<lambda>p. read_text p h1)"
    by (cases "i_valuestring it") simp_all
  moreover have "read_text (Block (h_next h1)) ?h3 = Some s" using h2(2) by (simp add: read_text_def)
  ultimately have "contents ?h3 [?t] = [with_key s c]" using it'(3) by (auto simp: with_key_def)
  moreover have "seg (h_items ?h3) None [?t] None" by simp
  ultimately show ?thesis using g3 unfolding Let_def by blast
qed

text \<open>A new item is appended.\<close>

lemma appended_item:
  assumes ok: "memory_ok h" and arr: "array_at h p ks" and g: "grows h [t] h3" and s: "seg (h_items h3) None [t] None"
    and c: "contents h3 [t] = [c]" and t: "n_kids t = []"
  shows "\<exists>h4. add_item_to_array (Some p) (Some (n_addr t)) h3 = Some (True, h4) \<and> added h p ks c (Some (Some (n_addr t), h4))"
proof -
  have at: "addrs [t] = [n_addr t]" using t by (cases t) simp
  have new: "n_addr t \<in> {h_next h ..< h_next h3}" using g at by (simp add: grows_def)
  have "array_at h3 p ks" by (rule array_at_grows [OF g arr])
  moreover have "distinct (p # addrs (ks @ [t]))"
    using array_atD [OF arr] seg_in_memory new ok at by (auto simp: array_at_def memory_ok_def) (metis domD option.distinct(1) subsetD)+
  ultimately obtain h4 where h4: "add_item_to_array (Some p) (Some (n_addr t)) h3 = Some (True, h4)"
    "chain_updated h3 p (ks @ [t]) (set (addrs (ks @ [t]))) h4"
    using add_item_to_array_appends s by blast
  have r4: "relinks (insert p (set (addrs (ks @ [t])))) h3 h4" "array_at h4 p (ks @ [t])" using h4(2) by (simp_all add: chain_updated_def)
  have "contents h4 [t] = [c]" unfolding contents_cong [OF relinks_strings [OF r4(1)]] by (rule c)
  moreover have "owned h4 [t]" using g relinks_owned [OF r4(1)] by (simp add: grows_def)
  moreover have "h_strings h4 |` (- set (texts [t])) = h_strings h" using g relinks_strings [OF r4(1)] by (simp add: grows_def)
  moreover have "h_items h (n_addr t) = None" using new ok by (simp add: memory_ok_def)
  moreover have "h_items h4 b = h_items h b" if "b \<notin> insert p (set (addrs (ks @ [t])))" for b
  proof -
    have "h_items h4 b = (h_items h3 |` (- set (addrs [t]))) b" using relinks_item [OF r4(1) that] that by simp
    then show ?thesis using g by (simp add: grows_def)
  qed
  ultimately show ?thesis using h4(1) r4(2) by (auto simp: added_def)
qed

lemma add_created_outcome:
  assumes ok: "memory_ok h" and arr: "array_at h p ks" and name: "read_text name h = Some s"
    and create: "makes h (fresh_item c) (create h)"
  shows "added h p ks (with_key s c) (add_created create (Some p) (Some name) h)"
  using create
proof (cases rule: makes_cases)
  case (null h1)
  then have "add_created create (Some p) (Some name) h = Some (None, h1)"
    by (simp add: add_created_def add_item_to_object_def)
  then show ?thesis using null by (simp add: added_def grows_def)
next
  case (made t h1)
  obtain a it where t: "t = Node a it []" "i_string it = None" "plain_type (i_type it)"
    using made(4) by (cases t) (auto simp: fresh_item_def)
  have i1: "h_items h1 a = Some (cell None None it [])" using made(3) t(1) by simp
  have r1: "read_text name h1 = Some s" using grows_texts [OF made(2) name] .
  obtain k T h2 where k: "cJSON_strdup (Some name) h1 = Some (k, h2)" "copied (Some name) h1 k T h2"
    using cJSON_strdup_outcome [of "Some name" h1] r1 by auto
  have h2: "h_items h2 = h_items h1" "h_strings h2 = h_strings h1 ++ T" "h_allocate h2 = h_allocate h1" "h_next h1 \<le> h_next h2"
    using k(2) by (simp_all add: copied_def)
  show ?thesis
  proof (cases k)
    case None
    then have T: "T = Map.empty" "\<not> plenty h" using k(2) grows_plenty [OF made(2)] by (auto simp: copied_def)
    then have "grows h1 [] h2" using h2 by (intro grows_nothing) simp_all
    then have g2: "grows h [t] h2" using grows_trans [OF made(2)] by fastforce
    obtain h3 where "cJSON_Delete (Some a) h2 = Some h3" "grows h [] h3"
      using grows_delete [OF g2, of None] made(3) h2(1) t(1) by auto
    then have "add_created create (Some p) (Some name) h = Some (None, h3)" "grows h [] h3"
      using made(1) k(1) None t(1) by (simp_all add: add_created_def add_item_to_object_def)
    then show ?thesis using T(2) by (simp add: added_def grows_def)
  next
    case (Some kp)
    then have kT: "kp = Block (h_next h1)" "T = [h_next h1 \<mapsto> s]" "h_next h2 = h_next h1 + 1"
      using k(2) r1 by (auto simp: copied_def)
    let ?it = "it\<lparr>i_string := k\<rparr>" let ?h3 = "h2\<lparr>h_items := (h_items h2)(a \<mapsto> cell None None ?it [])\<rparr>"
    have g3: "grows h [Node a ?it []] ?h3" "seg (h_items ?h3) None [Node a ?it []] None"
      "contents ?h3 [Node a ?it []] = [with_key s c]"
      using named_item [OF ok _ _ _ h2(1) _ h2(3) kT(3), of a it c s] made(2-4) t(1) h2(2) kT(1,2) Some by (simp_all add: Let_def)
    obtain h4 where h4: "add_item_to_array (Some p) (Some a) ?h3 = Some (True, h4)" "added h p ks (with_key s c) (Some (Some a, h4))"
      using appended_item [OF ok arr g3] by auto
    have fl: "\<not> is_reference it" "\<not> string_is_const it" "\<not> is_reference ?it"
      using t(3) by (simp_all add: plain_type_def is_reference_def string_is_const_def)
    have ty: "i_type it AND NOT cJSON_StringIsConst = i_type it" by (rule and_not_absorb) (use t(3) in \<open>simp add: plain_type_def\<close>)
    have c3: "(cell None None it [])\<lparr>i_string := k, i_type := i_type it\<rparr> = cell None None ?it []" using fl by (simp add: cell_def)
    have "add_created create (Some p) (Some name) h = Some (Some a, h4)"
      using made(1) k(1) Some i1 h2(1) t(1,2) fl(1,2) ty c3 h4(1) by (simp add: add_created_def add_item_to_object_def free_text_def update_item_def)
    then show ?thesis using h4(2) by simp
  qed
qed

text \<open>What the functions that create an item ask for.\<close>

definition plain :: "type_code \<Rightarrow> content" where
  "plain ty = Content ty 0 (Finite 0) None None []"

definition number_content :: "double \<Rightarrow> content" where
  "number_content d = Content type_Number (valueint_of d) d None None []"

definition text_content :: "type_code \<Rightarrow> string \<Rightarrow> content" where
  "text_content ty s = Content ty 0 (Finite 0) (Some s) None []"

lemma create_functions:
  assumes "memory_ok h"
  shows "makes h (fresh_item (plain type_NULL)) (cJSON_CreateNull h)" "makes h (fresh_item (plain type_True)) (cJSON_CreateTrue h)"
    "makes h (fresh_item (plain type_False)) (cJSON_CreateFalse h)"
    "makes h (fresh_item (plain (if b then type_True else type_False))) (cJSON_CreateBool b h)"
    "makes h (fresh_item (number_content d)) (cJSON_CreateNumber d h)"
    "makes h (fresh_item (plain type_Array)) (cJSON_CreateArray h)" "makes h (fresh_item (plain type_Object)) (cJSON_CreateObject h)"
  unfolding cJSON_CreateNull_def cJSON_CreateTrue_def cJSON_CreateFalse_def cJSON_CreateBool_def cJSON_CreateNumber_def
    cJSON_CreateArray_def cJSON_CreateObject_def plain_def number_content_def
  by (rule created_fresh [OF assms]; simp add: zero_item_def)+

text \<open>
  C16: adding a member to an object. For an object in memory with its chain of members and a name that can be
  read, each of the functions that add a new member either returns the new item, which is then the
  last member, has the value that was asked for under its own copy of the name, and owns all
  memory that was added, with everything outside the chain as it was; or an allocation
  failed, it returns a null pointer, and the memory is what it was.
\<close>

theorem add_to_object_outcome:
  assumes "memory_ok h" "array_at h p ks" "read_text name h = Some s" "read_text string h = Some text"
  shows "added h p ks (with_key s (plain type_NULL)) (cJSON_AddNullToObject (Some p) (Some name) h) \<and>
    added h p ks (with_key s (plain type_True)) (cJSON_AddTrueToObject (Some p) (Some name) h) \<and>
    added h p ks (with_key s (plain type_False)) (cJSON_AddFalseToObject (Some p) (Some name) h) \<and>
    added h p ks (with_key s (plain (if b then type_True else type_False))) (cJSON_AddBoolToObject (Some p) (Some name) b h) \<and>
    added h p ks (with_key s (number_content d)) (cJSON_AddNumberToObject (Some p) (Some name) d h) \<and>
    added h p ks (with_key s (text_content type_String text)) (cJSON_AddStringToObject (Some p) (Some name) (Some string) h) \<and>
    added h p ks (with_key s (text_content type_Raw text)) (cJSON_AddRawToObject (Some p) (Some name) (Some string) h) \<and>
    added h p ks (with_key s (plain type_Array)) (cJSON_AddArrayToObject (Some p) (Some name) h) \<and>
    added h p ks (with_key s (plain type_Object)) (cJSON_AddObjectToObject (Some p) (Some name) h)"
proof -
  note add = add_created_outcome [OF assms(1-3)]
  note create = create_functions [OF assms(1)]
  have "makes h (fresh_item (text_content ty text)) (create_text ty (Some string) h)" if "plain_type ty" for ty
    using create_text_makes [OF assms(1) that assms(4)] by (simp add: text_content_def)
  note string = this [of type_String, simplified] this [of type_Raw, simplified]
  show ?thesis
    unfolding cJSON_AddNullToObject_def cJSON_AddTrueToObject_def cJSON_AddFalseToObject_def cJSON_AddBoolToObject_def
      cJSON_AddNumberToObject_def cJSON_AddStringToObject_def cJSON_AddRawToObject_def cJSON_AddArrayToObject_def
      cJSON_AddObjectToObject_def cJSON_CreateString_def cJSON_CreateRaw_def
    by (intro conjI add create string)
qed

section \<open>Arrays of items\<close>

lemma create_loop_makes:
  assumes "memory_ok h0" "\<not> is_reference nt"
  shows "grows h0 [Node a nt acc] h \<Longrightarrow> seg (h_items h) None [Node a nt acc] None \<Longrightarrow> copies h ts h acc \<Longrightarrow>
    (\<And>x h'. x \<in> set xs \<Longrightarrow> (\<exists>us. grows h0 us h') \<Longrightarrow> makes h' (fresh_item (c x)) (create x h')) \<Longrightarrow>
    makes h0 (\<lambda>h' t. \<exists>acc'. t = Node a nt acc' \<and> readable h' acc' \<and> contents h' acc' = contents h acc @ map c xs)
      (create_loop create a xs (last_of None acc) h)"
proof (induction xs arbitrary: acc h ts)
  case Nil
  then show ?case by (intro makes_tree [of _ "Node a nt acc" h]) (auto simp: copies_def)
next
  case (Cons x xs)
  have "makes h (fresh_item (c x)) (create x h)" using Cons.prems(1,4) by auto
  then show ?case
  proof (cases rule: makes_cases)
    case (null h1)
    have "grows h0 [Node a nt acc] h1" using grows_trans [OF Cons.prems(1) null(2)] by simp
    then obtain h2 where "cJSON_Delete (Some a) h1 = Some h2" "grows h0 [] h2"
      using grows_delete grows_seg [OF null(2) Cons.prems(2)] by fastforce
    then show ?thesis using null grows_plenty [OF Cons.prems(1)] by (intro makes_null [of _ h2]) simp_all
  next
    case (made t h1)
    obtain h2 where h2: "(case last_of None acc of None \<Rightarrow> update_item a (i_child_update (\<lambda>_. Some (n_addr t))) h1
        | Some l \<Rightarrow> suffix_object l (n_addr t) h1) = Some h2"
      "grows h0 [Node a nt (acc @ [t])] h2" "seg (h_items h2) None [Node a nt (acc @ [t])] None" "h_strings h2 = h_strings h1"
      using append_child [OF Cons.prems(1,2) assms(2) made(2,3)] by blast
    have rd: "read_text q h2 = read_text q h1" for q using h2(4) by (rule read_text_cong)
    have "copies h acc h acc" using Cons.prems(3) by (simp add: copies_def)
    then have "copies h acc h2 acc" by (rule copies_frame) (use grows_texts [OF made(2)] rd in simp)
    moreover have "copies h1 [t] h1 [t]" using made(4) by (simp add: copies_def fresh_item_def)
    then have "copies h1 [t] h2 [t]" by (rule copies_frame) (use rd in simp)
    moreover have "readable h2 (acc @ [t])" if "readable h2 acc" "readable h2 [t]"
      using that by (induction acc rule: addrs.induct) auto
    ultimately have acc: "contents h2 (acc @ [t]) = contents h acc @ [c x]" "copies h2 (acc @ [t]) h2 (acc @ [t])"
      using made(4) by (simp_all add: copies_def fresh_item_def)
    have "makes h0 (\<lambda>h' t'. \<exists>acc'. t' = Node a nt acc' \<and> readable h' acc' \<and> contents h' acc' = contents h2 (acc @ [t]) @ map c xs)
        (create_loop create a xs (last_of None (acc @ [t])) h2)"
      by (rule Cons.IH [OF h2(2,3) acc(2)]) (use Cons.prems(4) in auto)
    then show ?thesis using made(1) h2(1) unfolding acc(1) by simp
  qed
qed

definition array_content :: "content list \<Rightarrow> content" where
  "array_content cs = Content type_Array 0 (Finite 0) None None cs"

lemma makes_mono:
  assumes "makes h P res" "\<And>h' t. P h' t \<Longrightarrow> Q h' t"
  shows "makes h Q res"
  using assms(1)
proof (cases rule: makes_cases)
  case (null h')
  then show ?thesis by (rule makes_null)
next
  case (made t h')
  then show ?thesis using assms(2) by (intro makes_tree)
qed

lemma create_items_makes:
  assumes ok: "memory_ok h" and n: "0 \<le> count" "nat count \<le> length xs"
    and create: "\<And>x h' us. x \<in> set (take (nat count) xs) \<Longrightarrow> grows h us h' \<Longrightarrow> makes h' (fresh_item (c x)) (create x h')"
  shows "makes h (\<lambda>h' t. contents h' [t] = [array_content (map c (take (nat count) xs))]) (create_items create (Some xs) count h)"
  using create_functions(6) [OF ok]
proof (cases rule: makes_cases)
  case (null h1)
  then show ?thesis using n by (intro makes_null [of _ h1]) (simp_all add: create_items_def)
next
  case (made t h1)
  obtain a it where t: "t = Node a it []" using made(4) by (cases t) (auto simp: fresh_item_def)
  have f: "contents h1 [Node a it []] = [plain type_Array]" "readable h1 [Node a it []]" "i_string it = None" "plain_type (i_type it)"
    using made(4) unfolding t fresh_item_def node.sel by blast+
  then have it: "\<not> is_reference it" "contents h1 [Node a it []] = [plain type_Array]"
    by (simp_all add: plain_type_def is_reference_def)
  have "makes h (\<lambda>h' t. \<exists>acc'. t = Node a it acc' \<and> readable h' acc' \<and> contents h' acc' = contents h1 [] @ map c (take (nat count) xs))
      (create_loop create a (take (nat count) xs) (last_of None []) h1)"
    by (rule create_loop_makes [OF ok it(1), where ts = "[]"]) (use made(2,3) t create in \<open>auto simp: copies_def\<close>)
  moreover have "create_items create (Some xs) count h = create_loop create a (take (nat count) xs) (last_of None []) h1"
    using made(1) t n by (simp add: create_items_def)
  ultimately have loop: "makes h (\<lambda>h' t. \<exists>acc'. t = Node a it acc' \<and> readable h' acc' \<and>
      contents h' acc' = contents h1 [] @ map c (take (nat count) xs)) (create_items create (Some xs) count h)"
    by simp
  have same: "i_valuestring it = None" "i_string it = None"
    using f(1-3) by (cases "i_valuestring it"; auto simp: plain_def)+
  show ?thesis by (rule makes_mono [OF loop]) (use it(2) same in \<open>auto simp: array_content_def plain_def\<close>)
qed

text \<open>
  C17: the functions that create an array of \<open>count\<close> items from memory that has that many. Each
  returns a new array with exactly the items asked for in their order, the numbers with their
  integer value saturated, the strings as copies; or an allocation failed somewhere, it returns a
  null pointer, and everything it had allocated is freed.
\<close>

theorem create_arrays_outcome:
  assumes "memory_ok h" "0 \<le> count" "nat count \<le> length ns" "nat count \<le> length ds" "nat count \<le> length ps"
    "\<forall>p \<in> set (take (nat count) ps). \<exists>q s. p = Some q \<and> read_text q h = Some s"
  shows "makes h (\<lambda>h' t. contents h' [t] = [array_content (map (\<lambda>n. number_content (Finite (of_int n))) (take (nat count) ns))])
      (cJSON_CreateIntArray (Some ns) count h) \<and>
    makes h (\<lambda>h' t. contents h' [t] = [array_content (map number_content (take (nat count) ds))]) (cJSON_CreateDoubleArray (Some ds) count h) \<and>
    makes h (\<lambda>h' t. contents h' [t] = [array_content (map number_content (take (nat count) ds))]) (cJSON_CreateFloatArray (Some ds) count h) \<and>
    makes h (\<lambda>h' t. contents h' [t] = [array_content (map (\<lambda>p. text_content type_String (the (read_text (the p) h))) (take (nat count) ps))])
      (cJSON_CreateStringArray (Some ps) count h)"
proof -
  note ok = grows_ok [OF _ assms(1)]
  have s: "makes h' (fresh_item (text_content type_String (the (read_text (the p) h)))) (cJSON_CreateString p h')"
    if p: "p \<in> set (take (nat count) ps)" and g: "grows h us h'" for p h' us
  proof -
    obtain q t where q: "p = Some q" "read_text q h = Some t" using assms(6) p by blast
    show ?thesis
      using create_text_makes [OF ok [OF g] plain_types(1) grows_texts [OF g q(2)]] q
      by (simp add: cJSON_CreateString_def text_content_def)
  qed
  show ?thesis
    unfolding cJSON_CreateIntArray_def cJSON_CreateDoubleArray_def cJSON_CreateFloatArray_def cJSON_CreateStringArray_def
    by (intro conjI create_items_makes assms(1-5) s create_functions(5) ok)
qed

section \<open>An example\<close>

text \<open>An empty object at 1, the name and a text of the program, and memory for everything.\<close>

definition demo_object :: memory_state where
  "demo_object = \<lparr>h_items = [1 \<mapsto> zero_item\<lparr>i_type := type_Object\<rparr>], h_strings = Map.empty, h_next = 2,
     h_allocate = (\<lambda>_ _. True)\<rparr>"

lemma demo_object_ok: "memory_ok demo_object" "array_at demo_object 1 []" "plenty demo_object"
  by (auto simp: demo_object_def memory_ok_def array_at_def plenty_def)

theorem add_to_object_outcome_witness:
  "\<exists>a h' t. cJSON_AddStringToObject (Some 1) (Some (Literal ''k'')) (Some (Literal ''v'')) demo_object = Some (Some a, h') \<and>
    n_addr t = a \<and> array_at h' 1 [t] \<and> contents h' [t] = [with_key ''k'' (text_content type_String ''v'')]"
proof -
  have r: "read_text (Literal s) demo_object = Some s" for s by (simp add: read_text_def)
  have "added demo_object 1 [] (with_key ''k'' (text_content type_String ''v''))
      (cJSON_AddStringToObject (Some 1) (Some (Literal ''k'')) (Some (Literal ''v'')) demo_object)"
    using add_to_object_outcome [OF demo_object_ok(1,2) r [of "''k''"] r [of "''v''"]] by blast
  then show ?thesis using demo_object_ok(3) unfolding added_def by (fastforce split: option.splits)
qed

theorem create_arrays_outcome_witness:
  "\<exists>a h' t. cJSON_CreateStringArray (Some [Some (Literal ''x''), Some (Literal ''y'')]) 2 demo_object = Some (Some a, h') \<and>
    n_addr t = a \<and> contents h' [t] = [array_content [text_content type_String ''x'', text_content type_String ''y'']]"
proof -
  let ?ps = "[Some (Literal ''x''), Some (Literal ''y'')]"
  have "makes demo_object (\<lambda>h' t. contents h' [t] = [array_content (map (\<lambda>p. text_content type_String (the (read_text (the p) demo_object)))
      (take (nat 2) ?ps))]) (cJSON_CreateStringArray (Some ?ps) 2 demo_object)"
    using create_arrays_outcome [OF demo_object_ok(1), of 2 "[1, 2]" "[Finite 0, Finite 1]" ?ps] by (simp add: read_text_def)
  then show ?thesis
    by (cases rule: makes_cases) (use demo_object_ok(3) in \<open>auto simp: read_text_def\<close>)
qed

end
