(* ===== verification/Arion_Json_Minify.thy ===== *)
theory Arion_Json_Minify
  imports Arion_Json_Print_Props
begin

text \<open>
  \<open>cJSON_Minify\<close> of \<open>src/src/extern/cJSON.c\<close>: it reads and writes the same memory, at the offsets \<open>json\<close>
  and \<open>into\<close>. The memory includes the final NUL; an operation is \<open>None\<close> when it would touch anything
  outside the memory. \<open>minified\<close> is the same as a function from text to text.
\<close>

section \<open>In memory\<close>

definition wrc :: "string \<Rightarrow> nat \<Rightarrow> char \<Rightarrow> string option" where
  "wrc content j c = (if j < length content then Some (content[j := c]) else None)"

function oneline_loop :: "string \<Rightarrow> nat \<Rightarrow> nat option" where
  "oneline_loop content input = do {
     c \<leftarrow> rdc content input;
     if c = CHR 0x00 then Some input
     else if c = CHR 0x0A then Some (input + 1)
     else oneline_loop content (input + 1)
   }"
  by pat_completeness auto
termination by (relation "measure (\<lambda>(content, input). length content - input)") (auto simp: rdc_def split: if_splits)

definition skip_oneline_comment :: "string \<Rightarrow> nat \<Rightarrow> nat option" where
  "skip_oneline_comment content input = oneline_loop content (input + 2)"

function multiline_loop :: "string \<Rightarrow> nat \<Rightarrow> nat option" where
  "multiline_loop content input = do {
     c \<leftarrow> rdc content input;
     if c = CHR 0x00 then Some input
     else do {
       d \<leftarrow> (if c = CHR ''*'' then rdc content (input + 1) else Some c);
       if c = CHR ''*'' \<and> d = CHR ''/'' then Some (input + 2)
       else multiline_loop content (input + 1)
     }
   }"
  by pat_completeness auto
termination by (relation "measure (\<lambda>(content, input). length content - input)") (auto simp: rdc_def split: if_splits)

definition skip_multiline_comment :: "string \<Rightarrow> nat \<Rightarrow> nat option" where
  "skip_multiline_comment content input = multiline_loop content (input + 2)"

function string_loop :: "string \<Rightarrow> nat \<Rightarrow> nat \<Rightarrow> (string \<times> nat \<times> nat) option" where
  "string_loop content input output = do {
     c \<leftarrow> rdc content input;
     if c = CHR 0x00 then Some (content, input, output)
     else do {
       content \<leftarrow> wrc content output c;
       if c = quote_char then do {
         content \<leftarrow> wrc content output quote_char;
         Some (content, input + 1, output + 1)
       }
       else do {
         d \<leftarrow> (if c = backslash then rdc content (input + 1) else Some c);
         if c = backslash \<and> d = quote_char then do {
           content \<leftarrow> wrc content (output + 1) d;
           string_loop content (input + 2) (output + 2)
         }
         else string_loop content (input + 1) (output + 1)
       }
     }
   }"
  by pat_completeness auto
termination
  by (relation "measure (\<lambda>(content, input, output). length content - input)") (auto simp: rdc_def wrc_def split: if_splits)

definition minify_string :: "string \<Rightarrow> nat \<Rightarrow> nat \<Rightarrow> (string \<times> nat \<times> nat) option" where
  "minify_string content input output = do {
     c \<leftarrow> rdc content input;
     content \<leftarrow> wrc content output c;
     string_loop content (input + 1) (output + 1)
   }"

declare oneline_loop.simps [simp del] multiline_loop.simps [simp del] string_loop.simps [simp del]

lemma oneline_loop_forward: "oneline_loop content i = Some i' \<Longrightarrow> i \<le> i'"
proof (induction content i rule: oneline_loop.induct)
  case (1 content i)
  then show ?case by (subst (asm) (2) oneline_loop.simps) (auto split: bind_splits if_splits)
qed

lemma multiline_loop_forward: "multiline_loop content i = Some i' \<Longrightarrow> i \<le> i'"
proof (induction content i rule: multiline_loop.induct)
  case (1 content i)
  note run = "1.prems"
  obtain c where c: "rdc content i = Some c"
    using run by (subst (asm) multiline_loop.simps) (auto split: bind_splits)
  show ?case
  proof (cases "c = CHR 0x00")
    case True
    with run c show ?thesis by (subst (asm) multiline_loop.simps) auto
  next
    case going: False
    obtain d where d: "(if c = CHR ''*'' then rdc content (i + 1) else Some c) = Some d"
      using run c going by (subst (asm) multiline_loop.simps) (auto split: bind_splits)
    show ?thesis
    proof (cases "c = CHR ''*'' \<and> d = CHR ''/''")
      case True
      with run c going d show ?thesis by (subst (asm) multiline_loop.simps) simp
    next
      case False
      then have "multiline_loop content (i + 1) = Some i'"
        using run c going d by (subst (asm) multiline_loop.simps) (simp split: if_splits)
      from "1.IH" [OF c going d False this] show ?thesis by simp
    qed
  qed
qed

lemma wrc_length: "wrc content j c = Some content' \<Longrightarrow> length content' = length content"
  by (auto simp: wrc_def split: if_splits)

lemma string_loop_forward: "string_loop content i j = Some (content', i', j') \<Longrightarrow> i \<le> i' \<and> length content' = length content"
proof (induction content i j rule: string_loop.induct)
  case (1 content i j)
  note run = "1.prems"
  obtain c where c: "rdc content i = Some c"
    using run by (subst (asm) string_loop.simps) (auto split: bind_splits)
  show ?case
  proof (cases "c = CHR 0x00")
    case True
    with run c show ?thesis by (subst (asm) string_loop.simps) auto
  next
    case going: False
    obtain m where m: "wrc content j c = Some m"
      using run c going by (subst (asm) string_loop.simps) (auto split: bind_splits)
    note len = wrc_length [OF m]
    show ?thesis
    proof (cases "c = quote_char")
      case True
      with run c going m show ?thesis
        by (subst (asm) string_loop.simps) (auto simp: len split: bind_splits dest: wrc_length)
    next
      case inside: False
      obtain d where d: "(if c = backslash then rdc m (i + 1) else Some c) = Some d"
        using run c going m inside by (subst (asm) string_loop.simps) (auto split: bind_splits)
      show ?thesis
      proof (cases "c = backslash \<and> d = quote_char")
        case True
        then obtain m' where m': "wrc m (j + 1) d = Some m'" "string_loop m' (i + 2) (j + 2) = Some (content', i', j')"
          using run c going m inside d by (subst (asm) string_loop.simps) (auto split: bind_splits)
        from "1.IH"(1) [OF c going m inside d True m'(1) m'(2)] wrc_length [OF m'(1)] len
        show ?thesis by simp
      next
        case False
        then have "string_loop m (i + 1) (j + 1) = Some (content', i', j')"
          using run c going m inside d by (subst (asm) string_loop.simps) (simp add: if_splits split: if_splits)
        from "1.IH"(2) [OF c going m inside d False this] len show ?thesis by simp
      qed
    qed
  qed
qed

lemma minify_string_forward: "minify_string content i j = Some (content', i', j') \<Longrightarrow> i < i' \<and> length content' = length content"
  by (auto simp: minify_string_def split: bind_splits dest!: string_loop_forward wrc_length)

text \<open>\<open>minify_loop\<close> is the \<open>while\<close> loop with its \<open>switch\<close>; it returns the memory and \<open>into\<close>.\<close>

function minify_loop :: "string \<Rightarrow> nat \<Rightarrow> nat \<Rightarrow> (string \<times> nat) option" where
  "minify_loop content json into = do {
     c \<leftarrow> rdc content json;
     if c = CHR 0x00 then Some (content, into)
     else if c \<in> {CHR '' '', CHR 0x09, CHR 0x0D, CHR 0x0A} then minify_loop content (json + 1) into
     else if c = CHR ''/'' then do {
       d \<leftarrow> rdc content (json + 1);
       if d = CHR ''/'' then do {
         json' \<leftarrow> skip_oneline_comment content json;
         minify_loop content json' into
       }
       else if d = CHR ''*'' then do {
         json' \<leftarrow> skip_multiline_comment content json;
         minify_loop content json' into
       }
       else minify_loop content (json + 1) into
     }
     else if c = quote_char then do {
       (content', json', into') \<leftarrow> minify_string content json into;
       minify_loop content' json' into'
     }
     else do {
       content' \<leftarrow> wrc content into c;
       minify_loop content' (json + 1) (into + 1)
     }
   }"
  by pat_completeness auto
termination
proof (relation "measure (\<lambda>(content, json, into). length content - json)", goal_cases)
  case 1
  then show ?case by simp
next
  case 2
  then show ?case by (auto simp: rdc_def split: if_splits)
next
  case 3
  then show ?case by (auto simp: rdc_def skip_oneline_comment_def dest: oneline_loop_forward split: if_splits)
next
  case 4
  then show ?case by (auto simp: rdc_def skip_multiline_comment_def dest: multiline_loop_forward split: if_splits)
next
  case 5
  then show ?case by (auto simp: rdc_def split: if_splits)
next
  case 6
  then show ?case by (auto simp: rdc_def dest!: minify_string_forward split: if_splits)
next
  case 7
  then show ?case by (auto simp: rdc_def dest!: wrc_length split: if_splits)
qed

declare minify_loop.simps [simp del]

text \<open>The argument is the memory at \<open>json\<close>, or the null pointer.\<close>

definition cJSON_Minify :: "string option \<Rightarrow> string option option" where
  "cJSON_Minify json =
    (case json of
       None \<Rightarrow> Some None
     | Some content \<Rightarrow> do {
         (content, into) \<leftarrow> minify_loop content 0 0;
         content \<leftarrow> wrc content into (CHR 0x00);
         Some (Some content)
       })"


section \<open>From text to text\<close>

fun drop_line :: "string \<Rightarrow> string" where
  "drop_line [] = []"
| "drop_line (c # s) = (if c = CHR 0x0A then s else drop_line s)"

fun drop_comment :: "string \<Rightarrow> string" where
  "drop_comment [] = []"
| "drop_comment (c # s) = (if c = CHR ''*'' \<and> s \<noteq> [] \<and> hd s = CHR ''/'' then tl s else drop_comment s)"

text \<open>What is copied up to the end of the string, and what follows it.\<close>

fun split_string :: "string \<Rightarrow> string \<times> string" where
  "split_string [] = ([], [])"
| "split_string (c # s) =
    (if c = quote_char then ([c], s)
     else if c = backslash \<and> s \<noteq> [] \<and> hd s = quote_char
       then (c # quote_char # fst (split_string (tl s)), snd (split_string (tl s)))
     else (c # fst (split_string s), snd (split_string s)))"

lemma drop_line_length: "length (drop_line s) \<le> length s"
  by (induction s) auto

lemma drop_comment_length: "length (drop_comment s) \<le> length s"
  by (induction s) auto

lemma split_string_length: "length (fst (split_string s)) + length (snd (split_string s)) = length s"
  by (induction s rule: split_string.induct) auto

function minified :: "string \<Rightarrow> string" where
  "minified [] = []"
| "minified (c # s) =
    (if c \<in> {CHR '' '', CHR 0x09, CHR 0x0D, CHR 0x0A} then minified s
     else if c = CHR ''/'' then
       (if s \<noteq> [] \<and> hd s = CHR ''/'' then minified (drop_line (tl s))
        else if s \<noteq> [] \<and> hd s = CHR ''*'' then minified (drop_comment (tl s))
        else minified s)
     else if c = quote_char then c # fst (split_string s) @ minified (snd (split_string s))
     else c # minified s)"
  by pat_completeness auto
termination
proof (relation "measure length", goal_cases)
  case (3 c s)
  then show ?case using drop_line_length [of "tl s"] by (cases s) auto
next
  case (4 c s)
  then show ?case using drop_comment_length [of "tl s"] by (cases s) auto
next
  case (6 c s)
  then show ?case using split_string_length [of s] by auto
qed auto

lemma rdc_at: "rdc (w @ c # r) (length w) = Some c"
  by (simp add: rdc_def)

lemma rdc_at2: "rdc (w @ m @ c # r) (length w + length m) = Some c"
  using rdc_at [of "w @ m" c r] by simp

text \<open>Writing at \<open>into\<close> while \<open>json\<close> is \<open>length mid\<close> further.\<close>

lemma wrc_step: "wrc (w @ mid @ c # r) (length w) d = Some (w @ d # tl (mid @ [c]) @ r)"
  by (cases mid) (simp_all add: wrc_def list_update_append)

lemma oneline_loop_text:
  assumes "CHR 0x00 \<notin> set r"
  shows "\<exists>p. r = p @ drop_line r \<and> oneline_loop (w @ r @ CHR 0x00 # tail) (length w) = Some (length (w @ p))"
  using assms
proof (induction r arbitrary: w)
  case Nil
  show ?case by (subst oneline_loop.simps) (simp add: rdc_at)
next
  case (Cons c r)
  show ?case
  proof (cases "c = CHR 0x0A")
    case True
    with Cons.prems show ?thesis
      by (intro exI [of _ "[c]"]) (subst oneline_loop.simps, simp add: rdc_at)
  next
    case False
    from Cons obtain p where p: "r = p @ drop_line r"
      "oneline_loop ((w @ [c]) @ r @ CHR 0x00 # tail) (length (w @ [c])) = Some (length ((w @ [c]) @ p))"
      by (metis list.set_intros(2))
    with False Cons.prems show ?thesis
      by (intro exI [of _ "c # p"]) (subst oneline_loop.simps, auto simp: rdc_at)
  qed
qed

lemma multiline_loop_text:
  assumes "CHR 0x00 \<notin> set r"
  shows "\<exists>p. r = p @ drop_comment r \<and> multiline_loop (w @ r @ CHR 0x00 # tail) (length w) = Some (length (w @ p))"
  using assms
proof (induction r arbitrary: w)
  case Nil
  show ?case by (subst multiline_loop.simps) (simp add: rdc_at)
next
  case (Cons c r)
  obtain d where d: "rdc (w @ (c # r) @ CHR 0x00 # tail) (length w + 1) = Some d"
    "r \<noteq> [] \<Longrightarrow> d = hd r" "r = [] \<Longrightarrow> d = CHR 0x00"
    by (cases r) (auto simp: rdc_def nth_append)
  show ?case
  proof (cases "c = CHR ''*'' \<and> d = CHR ''/''")
    case True
    with d obtain r' where "r = CHR ''/'' # r'" by (cases r) auto
    with True d Cons.prems show ?thesis
      by (intro exI [of _ "[c, d]"]) (subst multiline_loop.simps, simp add: rdc_at)
  next
    case False
    from Cons obtain p where p: "r = p @ drop_comment r"
      "multiline_loop ((w @ [c]) @ r @ CHR 0x00 # tail) (length (w @ [c])) = Some (length ((w @ [c]) @ p))"
      by (metis list.set_intros(2))
    from False d have "drop_comment (c # r) = drop_comment r" by auto
    with False d p Cons.prems show ?thesis
      by (intro exI [of _ "c # p"]) (subst multiline_loop.simps, auto simp: rdc_at)
  qed
qed

lemma string_loop_text:
  assumes "CHR 0x00 \<notin> set r"
  shows "\<exists>mid'. string_loop (w @ mid @ r @ CHR 0x00 # tail) (length w + length mid) (length w) =
      Some (w @ fst (split_string r) @ mid' @ snd (split_string r) @ CHR 0x00 # tail,
        length w + length (fst (split_string r)) + length mid', length w + length (fst (split_string r)))
    \<and> length mid' = length mid"
  using assms
proof (induction r arbitrary: w mid rule: split_string.induct)
  case 1
  show ?case by (subst string_loop.simps) (simp add: rdc_at2)
next
  case (2 c s)
  define mid' where "mid' = tl (mid @ [c])"
  have len: "length mid' = length mid" by (simp add: mid'_def)
  have c: "c \<noteq> CHR 0x00" and s: "CHR 0x00 \<notin> set s" using "2.prems" by auto
  let ?m = "w @ c # mid' @ s @ CHR 0x00 # tail"
  have here: "rdc (w @ mid @ (c # s) @ CHR 0x00 # tail) (length w + length mid) = Some c"
    "wrc (w @ mid @ (c # s) @ CHR 0x00 # tail) (length w) c = Some ?m"
    by (simp_all add: rdc_at2 wrc_step mid'_def)
  define d where "d = (if s = [] then CHR 0x00 else hd s)"
  have d: "rdc ?m (length w + length mid + 1) = Some d"
    using rdc_at [of "w @ c # mid'" d "tl s @ CHR 0x00 # tail"] rdc_at [of "w @ c # mid'" d tail]
    by (cases s) (auto simp: d_def len)
  consider (close) "c = quote_char" | (escaped) "c \<noteq> quote_char" "c = backslash" "s \<noteq> []" "hd s = quote_char"
    | (other) "c \<noteq> quote_char" "\<not> (c = backslash \<and> s \<noteq> [] \<and> hd s = quote_char)"
    by blast
  then show ?case
  proof cases
    case close
    have "wrc ?m (length w) quote_char = Some ?m"
      using close by (simp add: wrc_def list_update_append)
    with close here c show ?thesis
      by (intro exI [of _ mid']) (subst string_loop.simps, simp add: len)
  next
    case escaped
    then obtain s' where s': "s = quote_char # s'" by (cases s) auto
    define mid2 where "mid2 = tl (mid' @ [quote_char])"
    have two: "wrc ?m (length w + 1) quote_char = Some ((w @ [c, quote_char]) @ mid2 @ s' @ CHR 0x00 # tail)"
      using wrc_step [of "w @ [c]" mid' quote_char "s' @ CHR 0x00 # tail" quote_char] by (simp add: s' mid2_def)
    have "d = quote_char" using escaped by (simp add: d_def)
    from "2.IH"(1) [OF escaped(1), of "w @ [c, quote_char]" mid2] escaped s s' obtain m3 where
      "string_loop ((w @ [c, quote_char]) @ mid2 @ s' @ CHR 0x00 # tail) (length (w @ [c, quote_char]) + length mid2)
        (length (w @ [c, quote_char])) =
      Some ((w @ [c, quote_char]) @ fst (split_string s') @ m3 @ snd (split_string s') @ CHR 0x00 # tail,
        length (w @ [c, quote_char]) + length (fst (split_string s')) + length m3,
        length (w @ [c, quote_char]) + length (fst (split_string s')))" "length m3 = length mid2"
      by auto
    with escaped here c d two \<open>d = quote_char\<close> len show ?thesis
      by (intro exI [of _ m3]) (subst string_loop.simps, simp add: s' mid2_def)
  next
    case other
    then have stay: "\<not> (c = backslash \<and> d = quote_char)"
      by (auto simp: d_def quote_char_def split: if_splits)
    from "2.IH"(3) [OF other s, of "w @ [c]" mid'] obtain m3 where
      "string_loop ((w @ [c]) @ mid' @ s @ CHR 0x00 # tail) (length (w @ [c]) + length mid') (length (w @ [c])) =
      Some ((w @ [c]) @ fst (split_string s) @ m3 @ snd (split_string s) @ CHR 0x00 # tail,
        length (w @ [c]) + length (fst (split_string s)) + length m3, length (w @ [c]) + length (fst (split_string s)))"
      "length m3 = length mid'"
      by auto
    moreover have "split_string (c # s) = (c # fst (split_string s), snd (split_string s))"
      using other by auto
    moreover obtain d' where "(if c = backslash then rdc ?m (length w + length mid + 1) else Some c) = Some d'"
      "\<not> (c = backslash \<and> d' = quote_char)"
      using d stay by (cases "c = backslash") auto
    ultimately show ?thesis
      using other(1) here c len
      by (intro exI [of _ m3]) (subst string_loop.simps, auto simp del: split_string.simps)
  qed
qed

lemma split_string_set: "set (snd (split_string s)) \<subseteq> set s"
  by (induction s rule: split_string.induct) (auto dest: list.set_sel(2))

lemma slash_blank:
  assumes "c = CHR ''/''"
  shows "c \<notin> {CHR '' '', CHR 0x09, CHR 0x0D, CHR 0x0A}" "c \<noteq> quote_char"
  by (simp_all add: assms quote_char_def)

lemma quoted_blank:
  assumes "c = quote_char"
  shows "c \<notin> {CHR '' '', CHR 0x09, CHR 0x0D, CHR 0x0A}" "c \<noteq> CHR ''/''"
  by (simp_all add: assms quote_char_def)

lemma tl_subset: "set (tl s) \<subseteq> set s"
  by (cases s) auto

lemma drop_line_set: "set (drop_line s) \<subseteq> set s"
  by (induction s) auto

lemma drop_comment_set: "set (drop_comment s) \<subseteq> set s"
  by (induction s) (auto dest: list.set_sel(2))

text \<open>
  The loop from a text \<open>r\<close> on, with \<open>w\<close> written so far and \<open>mid\<close> between \<open>into\<close> and \<open>json\<close>: it adds the
  minified text and leaves what is behind the NUL.
\<close>

definition minified_to :: "string \<Rightarrow> string \<Rightarrow> nat \<Rightarrow> string \<Rightarrow> (string \<times> nat) option \<Rightarrow> bool" where
  "minified_to w t n tail res \<longleftrightarrow>
     (\<exists>junk. res = Some (w @ t @ junk @ CHR 0x00 # tail, length w + length t) \<and> length t + length junk = n)"

definition minifies :: "string \<Rightarrow> string \<Rightarrow> bool" where
  "minifies tail r \<longleftrightarrow> (\<forall>w mid. minified_to w (minified r) (length mid + length r) tail
     (minify_loop (w @ mid @ r @ CHR 0x00 # tail) (length w + length mid) (length w)))"

lemma minifies_past:
  assumes "minifies tail r"
  shows "minified_to w (minified r) (length mid + length (p @ r)) tail
    (minify_loop (w @ mid @ (p @ r) @ CHR 0x00 # tail) (length w + length mid + length p) (length w))"
  using assms [unfolded minifies_def, rule_format, of w "mid @ p"] by (simp add: add.assoc)

lemma next_char:
  "\<exists>d. rdc (w @ mid @ (c # s) @ CHR 0x00 # tail) (length w + length mid + 1) = Some d \<and> d = (if s = [] then CHR 0x00 else hd s)"
  using rdc_at [of "w @ mid @ [c]" "hd s" "tl s @ CHR 0x00 # tail"] rdc_at [of "w @ mid @ [c]" "CHR 0x00" tail]
  by (cases s) (auto simp: add.assoc)

lemma minifies_slash:
  assumes c: "c = CHR ''/''" and s: "CHR 0x00 \<notin> set s"
    and line: "s \<noteq> [] \<Longrightarrow> hd s = CHR ''/'' \<Longrightarrow> minifies tail (drop_line (tl s))"
    and block: "s \<noteq> [] \<Longrightarrow> hd s = CHR ''*'' \<Longrightarrow> minifies tail (drop_comment (tl s))"
    and alone: "\<not> (s \<noteq> [] \<and> hd s = CHR ''/'') \<Longrightarrow> \<not> (s \<noteq> [] \<and> hd s = CHR ''*'') \<Longrightarrow> minifies tail s"
  shows "minifies tail (c # s)"
  unfolding minifies_def
proof (intro allI)
  fix w mid
  note no = slash_blank [OF c]
  let ?m = "w @ mid @ (c # s) @ CHR 0x00 # tail"
  have here: "rdc ?m (length w + length mid) = Some c" by (simp add: rdc_at2)
  obtain d where d: "rdc ?m (length w + length mid + 1) = Some d" "d = (if s = [] then CHR 0x00 else hd s)"
    using next_char by blast
  consider (line) s' where "s = CHR ''/'' # s'" | (block) s' where "s = CHR ''*'' # s'"
    | (alone) "\<not> (s \<noteq> [] \<and> hd s = CHR ''/'')" "\<not> (s \<noteq> [] \<and> hd s = CHR ''*'')"
    by (cases s) auto
  then show "minified_to w (minified (c # s)) (length mid + length (c # s)) tail (minify_loop ?m (length w + length mid) (length w))"
  proof cases
    case line
    obtain p where p: "s' = p @ drop_line s'"
      "oneline_loop ((w @ mid @ [c, CHR ''/'']) @ s' @ CHR 0x00 # tail) (length (w @ mid @ [c, CHR ''/''])) =
        Some (length ((w @ mid @ [c, CHR ''/'']) @ p))"
      using oneline_loop_text [of s'] s line by (metis list.set_intros(2))
    have past: "c # s = (c # CHR ''/'' # p) @ drop_line s'" using p(1) line by simp
    show ?thesis
      using minifies_past [of tail "drop_line s'" w mid "c # CHR ''/'' # p", folded past] assms(3) line here d no c p(2)
      by (subst minify_loop.simps) (simp add: skip_oneline_comment_def add.assoc)
  next
    case block
    obtain p where p: "s' = p @ drop_comment s'"
      "multiline_loop ((w @ mid @ [c, CHR ''*'']) @ s' @ CHR 0x00 # tail) (length (w @ mid @ [c, CHR ''*''])) =
        Some (length ((w @ mid @ [c, CHR ''*'']) @ p))"
      using multiline_loop_text [of s'] s block by (metis list.set_intros(2))
    have past: "c # s = (c # CHR ''*'' # p) @ drop_comment s'" using p(1) block by simp
    show ?thesis
      using minifies_past [of tail "drop_comment s'" w mid "c # CHR ''*'' # p", folded past] assms(4) block here d no c p(2)
      by (subst minify_loop.simps) (simp add: skip_multiline_comment_def add.assoc)
  next
    case alone
    then have "d \<noteq> CHR ''/''" "d \<noteq> CHR ''*''" using d(2) by auto
    then show ?thesis
      using minifies_past [of tail s w mid "[c]"] assms(5) alone here d(1) no c by (subst minify_loop.simps) auto
  qed
qed

lemma minifies_quoted:
  assumes c: "c = quote_char" and s: "CHR 0x00 \<notin> set s" and rest: "minifies tail (snd (split_string s))"
  shows "minifies tail (c # s)"
  unfolding minifies_def
proof (intro allI)
  fix w mid
  let ?m = "w @ mid @ (c # s) @ CHR 0x00 # tail" and ?a = "fst (split_string s)" and ?r = "snd (split_string s)"
  have no: "c \<notin> {CHR '' '', CHR 0x09, CHR 0x0D, CHR 0x0A}" "c \<noteq> CHR ''/''" "c \<noteq> CHR 0x00"
    using quoted_blank [OF c] c by (simp_all add: quote_char_def)
  have here: "rdc ?m (length w + length mid) = Some c" by (simp add: rdc_at2)
  define mid' where "mid' = tl (mid @ [c])"
  have len: "length mid' = length mid" by (simp add: mid'_def)
  have open': "wrc ?m (length w) c = Some ((w @ [c]) @ mid' @ s @ CHR 0x00 # tail)" by (simp add: wrc_step mid'_def)
  obtain m3 where m3: "string_loop ((w @ [c]) @ mid' @ s @ CHR 0x00 # tail) (length (w @ [c]) + length mid') (length (w @ [c])) =
      Some ((w @ [c]) @ ?a @ m3 @ ?r @ CHR 0x00 # tail, length (w @ [c]) + length ?a + length m3, length (w @ [c]) + length ?a)"
    "length m3 = length mid'"
    using string_loop_text [OF s] by blast
  have "minified_to (w @ c # ?a) (minified ?r) (length m3 + length ?r) tail
      (minify_loop ((w @ c # ?a) @ m3 @ ?r @ CHR 0x00 # tail) (length (w @ c # ?a) + length m3) (length (w @ c # ?a)))"
    using rest [unfolded minifies_def, rule_format, of "w @ c # ?a" m3] .
  then obtain junk where junk: "minify_loop ((w @ c # ?a) @ m3 @ ?r @ CHR 0x00 # tail) (length (w @ c # ?a) + length m3)
      (length (w @ c # ?a)) = Some ((w @ c # ?a) @ minified ?r @ junk @ CHR 0x00 # tail, length (w @ c # ?a) + length (minified ?r))"
    "length (minified ?r) + length junk = length m3 + length ?r"
    by (auto simp: minified_to_def)
  have "minify_loop ?m (length w + length mid) (length w) =
      Some (w @ minified (c # s) @ junk @ CHR 0x00 # tail, length w + length (minified (c # s)))"
    using here no c open' m3(1) junk(1) by (subst minify_loop.simps) (simp add: minify_string_def len m3(2))
  moreover have "length (minified (c # s)) + length junk = length mid + length (c # s)"
    using junk(2) m3(2) len no c split_string_length [of s] by simp
  ultimately show "minified_to w (minified (c # s)) (length mid + length (c # s)) tail (minify_loop ?m (length w + length mid) (length w))"
    by (auto simp: minified_to_def)
qed

lemma minifies_plain:
  assumes "c \<notin> {CHR '' '', CHR 0x09, CHR 0x0D, CHR 0x0A}" "c \<noteq> CHR ''/''" "c \<noteq> quote_char" "c \<noteq> CHR 0x00" "minifies tail s"
  shows "minifies tail (c # s)"
  unfolding minifies_def
proof (intro allI)
  fix w mid
  have "minified_to (w @ [c]) (minified s) (length (tl (mid @ [c])) + length s) tail
      (minify_loop ((w @ [c]) @ tl (mid @ [c]) @ s @ CHR 0x00 # tail) (length (w @ [c]) + length (tl (mid @ [c]))) (length (w @ [c])))"
    using assms(5) [unfolded minifies_def, rule_format, of "w @ [c]" "tl (mid @ [c])"] .
  then show "minified_to w (minified (c # s)) (length mid + length (c # s)) tail
      (minify_loop (w @ mid @ (c # s) @ CHR 0x00 # tail) (length w + length mid) (length w))"
    using assms(1-4) by (subst minify_loop.simps) (auto simp: minified_to_def rdc_at2 wrc_step)
qed

lemma minify_loop_text: "CHR 0x00 \<notin> set r \<Longrightarrow> minifies tail r"
proof (induction r rule: minified.induct)
  case 1
  show ?case unfolding minifies_def minified_to_def by (subst minify_loop.simps) (simp add: rdc_at2)
next
  case (2 c s)
  have c: "c \<noteq> CHR 0x00" and s: "CHR 0x00 \<notin> set s" using "2.prems" by auto
  consider (blank) "c \<in> {CHR '' '', CHR 0x09, CHR 0x0D, CHR 0x0A}" | (slash) "c = CHR ''/''" | (quoted) "c = quote_char"
    | (plain) "c \<notin> {CHR '' '', CHR 0x09, CHR 0x0D, CHR 0x0A}" "c \<noteq> CHR ''/''" "c \<noteq> quote_char"
    by blast
  then show ?case
  proof cases
    case blank
    have "minified_to w (minified (c # s)) (length mid + length (c # s)) tail
        (minify_loop (w @ mid @ (c # s) @ CHR 0x00 # tail) (length w + length mid) (length w))" for w mid
      using minifies_past [OF "2.IH"(1) [OF blank s], of w mid "[c]"] blank c
      by (subst minify_loop.simps) (simp add: rdc_at2 insert_iff)
    then show ?thesis by (simp add: minifies_def)
  next
    case slash
    note ih = "2.IH"(2-4) [OF slash_blank(1) [OF slash] slash]
    have "CHR 0x00 \<notin> set (drop_line (tl s))" "CHR 0x00 \<notin> set (drop_comment (tl s))"
      using drop_line_set [of "tl s"] drop_comment_set [of "tl s"] tl_subset [of s] s by blast+
    then show ?thesis by (intro minifies_slash [OF slash s]) (use ih s in auto)
  next
    case quoted
    have "CHR 0x00 \<notin> set (snd (split_string s))" using split_string_set s by blast
    from "2.IH"(5) [OF quoted_blank [OF quoted] quoted this] show ?thesis by (rule minifies_quoted [OF quoted s])
  next
    case plain
    from "2.IH"(6) [OF plain s] show ?thesis by (rule minifies_plain [OF plain c])
  qed
qed

lemma minify_memory:
  assumes "CHR 0x00 \<notin> set s"
  shows "\<exists>junk. cJSON_Minify (Some (s @ NUL_text @ tail)) = Some (Some (minified s @ NUL_text @ junk @ tail)) \<and>
    length (minified s) + length junk = length s"
proof -
  obtain junk where j: "minify_loop (s @ NUL_text @ tail) 0 0 = Some (minified s @ junk @ NUL_text @ tail, length (minified s))"
    "length (minified s) + length junk = length s"
    using minify_loop_text [OF assms, of tail, unfolded minifies_def minified_to_def, rule_format, of "[]" "[]"]
    by (auto simp: NUL_text_def)
  let ?junk = "tl (junk @ NUL_text)"
  have "wrc (minified s @ junk @ NUL_text @ tail) (length (minified s)) CHR 0x00 = Some (minified s @ NUL_text @ ?junk @ tail)"
    using wrc_step [of "minified s" "[]" "hd (junk @ NUL_text)" "?junk @ tail" "CHR 0x00"]
    by (cases junk) (simp_all add: NUL_text_def)
  with j show ?thesis by (intro exI [of _ ?junk]) (simp add: cJSON_Minify_def NUL_text_def)
qed

text \<open>
  C18: \<open>cJSON_Minify\<close> works in place. On the memory of a C string it always ends, reads and writes nothing
  behind the string's NUL, and leaves what \<open>minified\<close> makes of it, with a NUL; the string gets no
  longer. A null pointer is left alone.
\<close>

theorem cJSON_Minify_in_place:
  "cJSON_Minify None = Some None \<and>
   (\<exists>junk. cJSON_Minify (Some (c_string s @ NUL_text @ tail)) =
      Some (Some (minified (c_string s) @ NUL_text @ junk @ tail)) \<and>
    length (minified (c_string s)) + length junk = length (c_string s))"
  using minify_memory [OF c_string_no_NUL] by (simp add: cJSON_Minify_def)


section \<open>Printed text\<close>

text \<open>Characters \<open>cJSON_Minify\<close> keeps.\<close>

definition kept :: "char \<Rightarrow> bool" where
  "kept c \<longleftrightarrow> c \<notin> {CHR '' '', CHR 0x09, CHR 0x0D, CHR 0x0A} \<and> c \<noteq> CHR ''/'' \<and> c \<noteq> quote_char"

lemma minified_kept: "\<forall>c\<in>set t. kept c \<Longrightarrow> minified (t @ rest) = t @ minified rest"
  by (induction t) (auto simp: kept_def)

lemma minified_tabs: "minified (tabs n @ rest) = minified rest"
  by (induction n) (auto simp: tabs_def)

lemma kept_number:
  assumes "case d of Finite x \<Rightarrow> double_value x | Infinite _ \<Rightarrow> True"
  shows "\<forall>c\<in>set (number_text d). kept c"
proof (cases d)
  case (Finite x)
  have "kept c" if "number_char c" for c
    using that by (auto simp: number_char_def is_digit_def kept_def quote_char_def less_eq_char_def)
  then show ?thesis using number_text_shape(1) [of x] assms Finite by (auto simp: number_shape_def)
qed (simp add: number_text_def kept_def quote_char_def)

text \<open>
  The escaped text of a string is copied whole, unless its last character is a backslash: then the
  two backslashes and the closing quote are taken for a backslash and an escaped quote.
\<close>

definition ends_open :: "string \<Rightarrow> bool" where
  "ends_open s \<longleftrightarrow> s \<noteq> [] \<and> last s = backslash"

lemma escape_start: "escape c \<noteq> [] \<and> hd (escape c) \<noteq> quote_char"
  by (auto simp: escape_def quote_char_def backslash_def)

lemma split_plain:
  "c \<noteq> quote_char \<Longrightarrow> c \<noteq> backslash \<or> s = [] \<or> hd s \<noteq> quote_char \<Longrightarrow> split_string (c # s) = (c # fst (split_string s), snd (split_string s))"
  by auto

declare split_string.simps(2) [simp del]

lemma split_escape:
  assumes "c \<noteq> backslash \<or> s = [] \<or> hd s \<noteq> quote_char"
  shows "split_string (escape c @ s) = (escape c @ fst (split_string s), snd (split_string s))"
proof (cases rule: escape_cases [of c])
  case 1
  then show ?thesis by (simp add: split_plain)
next
  case (2 e)
  have qb: "quote_char \<noteq> backslash" by (simp add: quote_char_def backslash_def)
  show ?thesis
  proof (cases "e = quote_char")
    case True
    then show ?thesis using qb 2 by (simp add: split_string.simps(2))
  next
    case False
    moreover have "e = backslash \<Longrightarrow> c = backslash" using 2(2) by (simp add: escape_char_def backslash_def quote_char_def)
    ultimately show ?thesis using qb 2 assms by (auto simp: split_plain)
  qed
next
  case (3 n)
  have "n div 16 < 16" "n mod 16 < 16" using 3(2) by auto
  note h = hex_digit_facts(2,3) [OF this(1)] hex_digit_facts(2,3) [OF this(2)]
  have z: "CHR ''0'' \<noteq> quote_char" "CHR ''0'' \<noteq> backslash" "CHR ''u'' \<noteq> quote_char" "CHR ''u'' \<noteq> backslash" "quote_char \<noteq> backslash"
    by (simp_all add: quote_char_def backslash_def)
  show ?thesis unfolding 3(1) using h z by (simp add: split_plain)
qed

lemma split_escaped: "\<not> ends_open s \<Longrightarrow> split_string (concat (map escape s) @ quote_char # rest) = (concat (map escape s) @ [quote_char], rest)"
proof (induction s)
  case (Cons c s)
  have "\<not> ends_open s" using Cons.prems by (auto simp: ends_open_def split: if_splits)
  moreover have "c \<noteq> backslash \<or> hd (concat (map escape s) @ quote_char # rest) \<noteq> quote_char"
    using Cons.prems escape_start by (cases s) (auto simp: ends_open_def)
  ultimately show ?case using Cons.IH split_escape [of c "concat (map escape s) @ quote_char # rest"] by auto
qed (simp add: split_string.simps(2))

lemma minified_quoted: "\<not> ends_open s \<Longrightarrow> minified (quoted s @ rest) = quoted s @ minified rest"
  by (simp add: quoted_def split_escaped) (simp add: quote_char_def)

text \<open>Values whose names and strings \<open>cJSON_Minify\<close> recognises.\<close>

fun minifiable :: "cJSON \<Rightarrow> bool" where
  "minifiable (cJSON_Raw s) = False"
| "minifiable (cJSON_String s) = (\<not> ends_open (c_string s))"
| "minifiable (cJSON_Array xs) = (\<forall>x\<in>set xs. minifiable x)"
| "minifiable (cJSON_Object ms) = (\<forall>(k, v)\<in>set ms. \<not> ends_open (c_string k) \<and> minifiable v)"
| "minifiable _ = True"

lemma minifiable_object: "minifiable (cJSON_Object ms) \<longleftrightarrow> (\<forall>m\<in>set ms. \<not> ends_open (c_string (fst m)) \<and> minifiable (snd m))"
  by auto

declare minifiable.simps(4) [simp del] minifiable_object [simp]

lemma minified_punctuation [simp]:
  "minified (CHR ''['' # s) = CHR ''['' # minified s" "minified (CHR '']'' # s) = CHR '']'' # minified s"
  "minified (CHR ''{'' # s) = CHR ''{'' # minified s" "minified (CHR ''}'' # s) = CHR ''}'' # minified s"
  "minified (CHR '','' # s) = CHR '','' # minified s" "minified (CHR '':'' # s) = CHR '':'' # minified s"
  "minified (CHR '' '' # s) = minified s" "minified (CHR 0x09 # s) = minified s" "minified (CHR 0x0A # s) = minified s"
  by (simp_all add: quote_char_def)

declare minified.simps(2) [simp del]

lemma kept_literals: "\<forall>c\<in>set ''null''. kept c" "\<forall>c\<in>set ''true''. kept c" "\<forall>c\<in>set ''false''. kept c"
  by (simp_all add: kept_def quote_char_def)

lemma compact_depth:
  "f = False \<Longrightarrow> value_text f d x = value_text False e x"
  "f = False \<Longrightarrow> elements_text f d xs = elements_text False e xs"
  "f = False \<Longrightarrow> members_text f d ms = members_text False e ms"
proof (induction f d x and f d xs and f d ms arbitrary: e and e and e rule: value_text_elements_text_members_text.induct)
  case (10 f d x xs)
  then show ?case by simp metis
next
  case (12 f d m ms)
  then show ?case by simp metis
qed simp_all

lemma minified_text:
  "printable x \<Longrightarrow> minifiable x \<Longrightarrow> minified (value_text f d x @ rest) = value_text False 0 x @ minified rest"
  "\<forall>x\<in>set xs. printable x \<and> minifiable x \<Longrightarrow> minified (elements_text f d xs @ rest) = elements_text False 0 xs @ minified rest"
  "\<forall>m\<in>set ms. printable (snd m) \<and> \<not> ends_open (c_string (fst m)) \<and> minifiable (snd m) \<Longrightarrow>
    minified (members_text f d ms @ rest) = members_text False 0 ms @ minified rest"
proof (induction f d x and f d xs and f d ms arbitrary: rest and rest and rest rule: value_text_elements_text_members_text.induct)
  case (1 f d)
  then show ?case using minified_kept [OF kept_literals(1)] by simp
next
  case (2 f d)
  then show ?case using minified_kept [OF kept_literals(3)] by simp
next
  case (3 f d)
  then show ?case using minified_kept [OF kept_literals(2)] by simp
next
  case (4 f d x i)
  then show ?case using minified_kept [OF kept_number] by simp
qed (auto simp: minified_quoted minified_tabs compact_depth [OF refl, of "Suc 0" _ 0])

lemma minified_length: "CHR 0x00 \<notin> set s \<Longrightarrow> length (minified s) \<le> length s"
  using minify_memory [of s "[]"] by auto

text \<open>
  C19: minifying the formatted text of a value gives its unformatted text. For values without raw items in
  which no name and no string ends in a backslash, \<open>cJSON_Minify\<close> turns the memory \<open>cJSON_Print\<close>
  returns into memory that starts with what \<open>cJSON_PrintUnformatted\<close> returns, NUL included.
\<close>

theorem cJSON_Minify_printed:
  assumes "printable x" "minifiable x" "generous h" "int (length (value_text True 0 x)) + 2 \<le> INT_MAX"
  shows "\<exists>m m' junk. cJSON_Print h x = Some (Some (map Some m)) \<and> cJSON_PrintUnformatted h x = Some (Some (map Some m')) \<and>
    cJSON_Minify (Some m) = Some (Some (m' @ junk))"
proof -
  let ?t = "value_text True 0 x" and ?u = "value_text False 0 x"
  have no: "CHR 0x00 \<notin> set ?t" by (rule text_no_NUL(1) [OF assms(1)])
  have m: "minified ?t = ?u" using minified_text(1) [OF assms(1,2), of True 0 "[]"] by simp
  have "cJSON_Print h x = Some (Some (map Some (?t @ NUL_text)))"
    using print_memory(2) [OF assms(1,3,4)] by (simp add: cJSON_Print_def)
  moreover have "cJSON_PrintUnformatted h x = Some (Some (map Some (?u @ NUL_text)))"
    using print_memory(2) [OF assms(1,3), of False] assms(4) minified_length [OF no] m by (simp add: cJSON_PrintUnformatted_def)
  moreover obtain junk where "cJSON_Minify (Some (?t @ NUL_text)) = Some (Some ((?u @ NUL_text) @ junk))"
    using minify_memory [OF no, of "[]"] m by auto
  ultimately show ?thesis by blast
qed

theorem cJSON_Minify_printed_witness:
  "\<exists>m m' junk. cJSON_Print \<lparr>hk_allocate = (\<lambda>_ _. True), hk_reallocate = None\<rparr>
      (cJSON_Object [(''up'', cJSON_Array [cJSON_True, cJSON_String [backslash, CHR '' '']])]) = Some (Some (map Some m)) \<and>
    cJSON_PrintUnformatted \<lparr>hk_allocate = (\<lambda>_ _. True), hk_reallocate = None\<rparr>
      (cJSON_Object [(''up'', cJSON_Array [cJSON_True, cJSON_String [backslash, CHR '' '']])]) = Some (Some (map Some m')) \<and>
    cJSON_Minify (Some m) = Some (Some (m' @ junk))"
proof (rule cJSON_Minify_printed)
  show "int (length (value_text True 0 (cJSON_Object [(''up'', cJSON_Array [cJSON_True, cJSON_String [backslash, CHR '' '']])]))) + 2
    \<le> INT_MAX"
    by (simp add: c_string_def quoted_def escape_def tabs_def quote_char_def backslash_def INT_MAX_def)
qed (simp_all add: generous_def ends_open_def c_string_def backslash_def)

text \<open>
  A string that ends in a backslash makes \<open>cJSON_Minify\<close> lose count of the quotes: the blanks of
  the string after it are removed, and the text parses to another value than before.
\<close>

lemma cJSON_Minify_changes_strings:
  "let before = cJSON_Array [cJSON_String [backslash], cJSON_String ''a b'']; after = cJSON_Array [cJSON_String [backslash], cJSON_String ''ab'']
   in cJSON_Parse (json_text before) = Some (Inr before) \<and>
     (\<exists>junk. cJSON_Minify (Some (json_text before @ NUL_text)) = Some (Some (json_text after @ NUL_text @ junk))) \<and>
     cJSON_Parse (json_text after) = Some (Inr after)"
proof -
  let ?before = "cJSON_Array [cJSON_String [backslash], cJSON_String ''a b'']"
  let ?after = "cJSON_Array [cJSON_String [backslash], cJSON_String ''ab'']"
  have "plain_json CJSON_NESTING_LIMIT ?before" "plain_json CJSON_NESTING_LIMIT ?after"
    by (rule plain_json_containers; simp add: plain_json.intros CJSON_NESTING_LIMIT_def backslash_def)+
  note p = cJSON_Parse_plain [OF this(1)] cJSON_Parse_plain [OF this(2)] json_text_no_NUL [OF this(1)]
  have "minified (json_text ?before) = json_text ?after"
    by (simp add: quoted_def escape_def quote_char_def backslash_def minified.simps(2) split_string.simps(2))
  with minify_memory [OF p(3), of "[]"] p(1,2) show ?thesis unfolding Let_def by auto
qed

end
