(* ===== verification/Arion_Json_Read.thy ===== *)
theory Arion_Json_Read
  imports Arion_Json_Build Arion_Json_Props Arion_Json_Text
begin

text \<open>
  The parser of \<open>src/src/extern/cJSON.c\<close> with its memory: it allocates items and texts, links the items
  while it reads, and on a malformed text or a refused allocation deletes what it made. The
  functions of \<open>Arion_Json_Parse\<close> say which value a text has; here they are refined to operations
  that fill the item they are given.
\<close>

section \<open>The parser\<close>

text \<open>The \<open>cJSON_bool\<close> of the C function, the offset of the input buffer and the memory.\<close>

type_synonym step_result = "(bool \<times> nat \<times> memory_state) option"

definition parse_number_into :: "string \<Rightarrow> nat \<Rightarrow> nat \<Rightarrow> memory_state \<Rightarrow> step_result" where
  "parse_number_into content a offset h = do {
     (item, offset) \<leftarrow> parse_number content offset;
     case item of
       Some (cJSON_Number d i) \<Rightarrow> do {
         h \<leftarrow> update_item a (\<lambda>it. it\<lparr>i_valuedouble := d, i_valueint := i, i_type := type_Number\<rparr>) h;
         Some (True, offset, h)
       }
     | _ \<Rightarrow> Some (False, offset, h)
   }"

definition parse_string_into :: "string \<Rightarrow> nat \<Rightarrow> nat \<Rightarrow> memory_state \<Rightarrow> step_result" where
  "parse_string_into content a offset h = do {
     c \<leftarrow> rdc content offset;
     if c \<noteq> quote_char then Some (False, offset + 1, h)
     else case scan_string content (offset + 1) 0 of
       None \<Rightarrow> Some (False, offset + 1, h)
     | Some (input_end, skipped) \<Rightarrow>
         let allocation_length = input_end - offset - skipped; (output, h) = allocate (allocation_length + 1) h
         in case output of
              None \<Rightarrow> Some (False, offset + 1, h)
            | Some p \<Rightarrow> do {
                let h = h\<lparr>h_strings := (h_strings h)(p \<mapsto> [])\<rparr>;
                r \<leftarrow> unescape content input_end allocation_length (offset + 1) [];
                case r of
                  Inl q \<Rightarrow> do { h \<leftarrow> deallocate_text (Block p) h; Some (False, q, h) }
                | Inr text \<Rightarrow> do {
                    h \<leftarrow> update_item a (\<lambda>it. it\<lparr>i_type := type_String, i_valuestring := Some (Block p)\<rparr>)
                      (h\<lparr>h_strings := (h_strings h)(p \<mapsto> c_string text)\<rparr>);
                    Some (True, input_end + 1, h)
                  }
              }
   }"

text \<open>A new item behind the list from \<open>head\<close> to \<open>current\<close>.\<close>

definition attach_item :: "ref \<Rightarrow> ref \<Rightarrow> nat \<Rightarrow> memory_state \<Rightarrow> (ref \<times> memory_state) option" where
  "attach_item head current n h = (case head of
     None \<Rightarrow> Some (Some n, h)
   | Some _ \<Rightarrow> do { c \<leftarrow> current; h \<leftarrow> suffix_object c n h; Some (head, h) })"

text \<open>
  The loops over elements and members: whether the container was closed, the list, the offset and
  the memory. \<open>value\<close> is the recursive call of \<open>parse_value\<close> for an item at an offset.
\<close>

primrec array_loop_into :: "nat \<Rightarrow> (nat \<Rightarrow> nat \<Rightarrow> memory_state \<Rightarrow> step_result) \<Rightarrow> string \<Rightarrow> ref \<Rightarrow> ref \<Rightarrow> nat \<Rightarrow>
    memory_state \<Rightarrow> (bool \<times> ref \<times> nat \<times> memory_state) option" where
  "array_loop_into 0 value content head current offset h = None"
| "array_loop_into (Suc fuel) value content head current offset h =
    (let (new_item, h) = cJSON_New_Item h
     in case new_item of
          None \<Rightarrow> Some (False, head, offset, h)
        | Some n \<Rightarrow> do {
            (head, h) \<leftarrow> attach_item head current n h;
            (ok, offset, h) \<leftarrow> value n (buffer_skip_whitespace content (offset + 1)) h;
            if \<not> ok then Some (False, head, offset, h)
            else let offset = buffer_skip_whitespace content offset
              in if char_at content offset (CHR '','') then array_loop_into fuel value content head (Some n) offset h
                 else Some (char_at content offset (CHR '']''), head, offset, h)
          })"

text \<open>The name is read as the value of the item and moved.\<close>

definition swap_name :: "item \<Rightarrow> item" where
  "swap_name it = it\<lparr>i_string := i_valuestring it, i_valuestring := None\<rparr>"

primrec object_loop_into :: "nat \<Rightarrow> (nat \<Rightarrow> nat \<Rightarrow> memory_state \<Rightarrow> step_result) \<Rightarrow> string \<Rightarrow> ref \<Rightarrow> ref \<Rightarrow> nat \<Rightarrow>
    memory_state \<Rightarrow> (bool \<times> ref \<times> nat \<times> memory_state) option" where
  "object_loop_into 0 value content head current offset h = None"
| "object_loop_into (Suc fuel) value content head current offset h =
    (let (new_item, h) = cJSON_New_Item h
     in case new_item of
          None \<Rightarrow> Some (False, head, offset, h)
        | Some n \<Rightarrow> do {
            (head, h) \<leftarrow> attach_item head current n h;
            (ok, offset, h) \<leftarrow> parse_string_into content n (buffer_skip_whitespace content (offset + 1)) h;
            if \<not> ok then Some (False, head, offset, h)
            else do {
              let offset = buffer_skip_whitespace content offset;
              h \<leftarrow> update_item n swap_name h;
              if \<not> char_at content offset (CHR '':'') then Some (False, head, offset, h)
              else do {
                (ok, offset, h) \<leftarrow> value n (buffer_skip_whitespace content (offset + 1)) h;
                if \<not> ok then Some (False, head, offset, h)
                else let offset = buffer_skip_whitespace content offset
                  in if char_at content offset (CHR '','') then object_loop_into fuel value content head (Some n) offset h
                     else Some (char_at content offset (CHR ''}''), head, offset, h)
              }
            }
          })"

text \<open>The ends of both containers, \<open>success\<close> and \<open>fail\<close>.\<close>

definition close_container :: "type_code \<Rightarrow> nat \<Rightarrow> bool \<times> ref \<times> nat \<times> memory_state \<Rightarrow> step_result" where
  "close_container ty a r = (case r of (ok, head, offset, h) \<Rightarrow>
     if ok then do {
       h \<leftarrow> update_item a (\<lambda>it. it\<lparr>i_type := ty, i_child := head\<rparr>) h;
       Some (True, offset + 1, h)
     }
     else do { h \<leftarrow> cJSON_Delete head h; Some (False, offset, h) })"

definition parse_array_into :: "(nat \<Rightarrow> nat \<Rightarrow> nat \<Rightarrow> memory_state \<Rightarrow> step_result) \<Rightarrow> string \<Rightarrow> nat \<Rightarrow> nat \<Rightarrow> nat \<Rightarrow>
    memory_state \<Rightarrow> step_result" where
  "parse_array_into value content depth a offset h =
     (if CJSON_NESTING_LIMIT \<le> depth then Some (False, offset, h)
      else do {
        c \<leftarrow> rdc content offset;
        if c \<noteq> CHR ''['' then Some (False, offset, h)
        else let offset = buffer_skip_whitespace content (offset + 1)
          in if char_at content offset (CHR '']'') then close_container type_Array a (True, None, offset, h)
             else if length content \<le> offset then Some (False, offset - 1, h)
             else Option.bind (array_loop_into (length content) (value (depth + 1)) content None None (offset - 1) h)
               (close_container type_Array a)
      })"

definition parse_object_into :: "(nat \<Rightarrow> nat \<Rightarrow> nat \<Rightarrow> memory_state \<Rightarrow> step_result) \<Rightarrow> string \<Rightarrow> nat \<Rightarrow> nat \<Rightarrow> nat \<Rightarrow>
    memory_state \<Rightarrow> step_result" where
  "parse_object_into value content depth a offset h =
     (if CJSON_NESTING_LIMIT \<le> depth then Some (False, offset, h)
      else if \<not> char_at content offset (CHR ''{'') then Some (False, offset, h)
      else let offset = buffer_skip_whitespace content (offset + 1)
        in if char_at content offset (CHR ''}'') then close_container type_Object a (True, None, offset, h)
           else if length content \<le> offset then Some (False, offset - 1, h)
           else Option.bind (object_loop_into (length content) (value (depth + 1)) content None None (offset - 1) h)
             (close_container type_Object a))"

definition set_literal :: "(item \<Rightarrow> item) \<Rightarrow> nat \<Rightarrow> nat \<Rightarrow> memory_state \<Rightarrow> step_result" where
  "set_literal f a offset h = do { h \<leftarrow> update_item a f h; Some (True, offset, h) }"

primrec parse_value_into :: "nat \<Rightarrow> string \<Rightarrow> nat \<Rightarrow> nat \<Rightarrow> nat \<Rightarrow> memory_state \<Rightarrow> step_result" where
  "parse_value_into 0 content depth a offset h = None"
| "parse_value_into (Suc fuel) content depth a offset h =
     (if starts content offset ''null'' then set_literal (\<lambda>it. it\<lparr>i_type := type_NULL\<rparr>) a (offset + 4) h
      else if starts content offset ''false'' then set_literal (\<lambda>it. it\<lparr>i_type := type_False\<rparr>) a (offset + 5) h
      else if starts content offset ''true'' then set_literal (\<lambda>it. it\<lparr>i_type := type_True, i_valueint := 1\<rparr>) a (offset + 4) h
      else if char_at content offset quote_char then parse_string_into content a offset h
      else if offset < length content \<and> (content ! offset = CHR ''-'' \<or> is_digit (content ! offset))
      then parse_number_into content a offset h
      else if char_at content offset (CHR ''['') then parse_array_into (parse_value_into fuel content) content depth a offset h
      else if char_at content offset (CHR ''{'') then parse_object_into (parse_value_into fuel content) content depth a offset h
      else Some (False, offset, h))"

text \<open>
  The root item, where the text ended or went wrong (\<open>return_parse_end\<close>, and the position of
  \<open>global_error\<close> if the result is a null pointer), and the memory. A null text is \<open>None\<close>.
\<close>

definition parse_text :: "string option \<Rightarrow> bool \<Rightarrow> memory_state \<Rightarrow> (ref \<times> nat \<times> memory_state) option" where
  "parse_text value require_null_terminated h = (case value of
     None \<Rightarrow> Some (None, 0, h)
   | Some value \<Rightarrow>
       let content = c_string value @ [CHR 0x00];
           failed = (\<lambda>item offset h. do {
             h \<leftarrow> cJSON_Delete item h;
             Some (None, if offset < length content then offset else length content - 1, h)
           });
           (item, h) = cJSON_New_Item h
       in case item of
            None \<Rightarrow> failed None 0 h
          | Some a \<Rightarrow> do {
              (ok, offset, h) \<leftarrow> parse_value_into (CJSON_NESTING_LIMIT + 1) content 0 a
                (buffer_skip_whitespace content (skip_utf8_bom content 0)) h;
              if \<not> ok then failed item offset h
              else if require_null_terminated
              then let offset = buffer_skip_whitespace content offset
                in if length content \<le> offset \<or> content ! offset \<noteq> CHR 0x00 then failed item offset h
                   else Some (item, offset, h)
              else Some (item, offset, h)
            })"


section \<open>The item that is filled\<close>

text \<open>
  While the parser runs, what it has allocated for a container since \<open>h0\<close> is the list \<open>ts\<close> with the
  item \<open>a\<close> at its end, which is being filled.
\<close>

definition filling :: "memory_state \<Rightarrow> node list \<Rightarrow> nat \<Rightarrow> item \<Rightarrow> node list \<Rightarrow> memory_state \<Rightarrow> bool" where
  "filling h0 ts a it ks h \<longleftrightarrow> memory_ok h0 \<and> grows h0 (ts @ [Node a it ks]) h \<and>
     seg (h_items h) None (ts @ [Node a it ks]) None \<and> \<not> is_reference it \<and> \<not> string_is_const it"

text \<open>No text that was there is lost.\<close>

definition keeps_texts :: "memory_state \<Rightarrow> memory_state \<Rightarrow> bool" where
  "keeps_texts h h' \<longleftrightarrow> (\<forall>p s. read_text p h = Some s \<longrightarrow> read_text p h' = Some s)"

lemma keeps_texts_refl [simp]: "keeps_texts h h"
  by (simp add: keeps_texts_def)

lemma keeps_texts_trans: "keeps_texts h h' \<Longrightarrow> keeps_texts h' h'' \<Longrightarrow> keeps_texts h h''"
  by (simp add: keeps_texts_def)

lemma keeps_texts_grows: "grows h ts h' \<Longrightarrow> keeps_texts h h'"
  using grows_texts by (auto simp: keeps_texts_def)

lemma keeps_texts_same: "h_strings h' = h_strings h \<Longrightarrow> keeps_texts h h'"
  by (simp add: keeps_texts_def read_text_cong [of h' h])

text \<open>Setting fields, and hanging in the children \<open>cs\<close> that were made since.\<close>

lemma filling_update:
  assumes f: "filling h0 ts a it [] h" and c: "grows h cs h1" "seg (h_items h1) None cs None"
    and it': "own_texts it' = own_texts it" "text_ok False (i_valuestring it')" "text_ok False (i_string it')"
      "\<not> is_reference it'" "\<not> string_is_const it'"
    and upd: "\<And>q. f (cell q None it []) = cell q None it' cs"
  shows "\<exists>h2. update_item a f h1 = Some h2 \<and> filling h0 ts a it' cs h2 \<and> h_strings h2 = h_strings h1"
proof -
  have f': "memory_ok h0" "grows h0 (ts @ [Node a it []]) h" "seg (h_items h) None (ts @ [Node a it []]) None"
    "\<not> is_reference it" "\<not> string_is_const it" using f by (simp_all add: filling_def)
  have g: "grows h0 (ts @ [Node a it' cs]) h1"
    by (rule grows_same [OF grows_trans [OF f'(2) c(1)]]) (use it' f' in \<open>auto simp: own_texts_def grows_def owned_def\<close>)
  have s1: "seg (h_items h1) None (ts @ [Node a it []]) None" by (rule grows_seg [OF c(1) f'(3)])
  then have a: "h_items h1 a = Some (cell (last_of None ts) None it [])" by simp
  let ?h2 = "h1\<lparr>h_items := (h_items h1)(a \<mapsto> cell (last_of None ts) None it' cs)\<rparr>"
  have r: "relinks {a} h1 ?h2" by simp
  have d: "a \<notin> set (addrs ts)" "a \<notin> set (addrs cs)" using g by (auto simp: grows_def owned_def)
  have "seg (h_items ?h2) None ts (Some a)" using relinks_seg [OF r, of ts] s1 d by simp
  moreover have "seg (h_items ?h2) None cs None" using relinks_seg [OF r, of cs] c(2) d by simp
  ultimately have "seg (h_items ?h2) None (ts @ [Node a it' cs]) None" using it' by simp
  moreover have "grows h0 (ts @ [Node a it' cs]) ?h2" by (rule grows_relinks [OF g]) simp
  ultimately show ?thesis using update_item_at [OF a, of f] upd f'(1) it' by (simp add: filling_def)
qed

text \<open>A new item at the end of the list.\<close>

lemma filling_new:
  assumes ok: "memory_ok h0" and acc: "grows h0 ts h" "seg (h_items h) None ts None"
  shows "(\<exists>h1. cJSON_New_Item h = (None, h1) \<and> grows h0 ts h1 \<and> seg (h_items h1) None ts None \<and> \<not> plenty h0) \<or>
    (\<exists>n h1 h2. cJSON_New_Item h = (Some n, h1) \<and>
      attach_item (first_of None ts) (last_of None ts) n h1 = Some (first_of None (ts @ [Node n zero_item []]), h2) \<and>
      filling h0 ts n zero_item [] h2 \<and> h_strings h2 = h_strings h)"
  using cJSON_New_Item_outcome [OF grows_ok [OF acc(1) ok]]
proof
  assume "\<exists>h'. cJSON_New_Item h = (None, h') \<and> grows h [] h' \<and> \<not> plenty h"
  then obtain h1 where "cJSON_New_Item h = (None, h1)" "grows h [] h1" "\<not> plenty h" by blast
  then show ?thesis using grows_trans [OF acc(1), of "[]" h1] grows_seg [of h "[]" h1] acc grows_plenty [OF acc(1)] by auto
next
  let ?n = "h_next h"
  assume "\<exists>h'. cJSON_New_Item h = (Some ?n, h') \<and> h_items h' = (h_items h)(?n \<mapsto> zero_item) \<and> h_strings h' = h_strings h \<and>
    h_next h' = ?n + 1 \<and> h_allocate h' = h_allocate h"
  then obtain h1 where h1: "cJSON_New_Item h = (Some ?n, h1)" "h_items h1 = (h_items h)(?n \<mapsto> zero_item)"
    "h_strings h1 = h_strings h" "h_next h1 = ?n + 1" "h_allocate h1 = h_allocate h" by blast
  have z: "\<not> is_reference zero_item" "\<not> string_is_const zero_item" "cell q e zero_item [] = zero_item\<lparr>i_prev := q, i_next := e\<rparr>" for q e
    by (simp_all add: is_reference_def string_is_const_def cell_def)
  have one: "grows h [Node ?n zero_item []] h1"
    by (rule grows_one [OF grows_ok [OF acc(1) ok], where T = Map.empty])
      (use h1 in \<open>simp_all add: own_texts_def own_text_def text_ok_def\<close>)
  have sn: "seg (h_items h1) None [Node ?n zero_item []] None" using h1(2) z(1) by (simp add: cell_def)
  have g: "grows h0 (ts @ [Node ?n zero_item []]) h1" by (rule grows_trans [OF acc(1) one])
  have st: "seg (h_items h1) None ts None" by (rule grows_seg [OF one acc(2)])
  show ?thesis
  proof (cases ts)
    case Nil
    then show ?thesis using h1 g sn z ok by (auto simp: attach_item_def filling_def)
  next
    case (Cons t us)
    have d: "distinct (addrs (ts @ [Node ?n zero_item []]))" using g by (simp add: grows_def owned_def)
    obtain l h2 where h2: "last_of None ts = Some l" "suffix_object l ?n h1 = Some h2"
      "seg (h_items h2) None (ts @ [Node ?n zero_item []]) None" "relinks (set (addrs (ts @ [Node ?n zero_item []]))) h1 h2"
      using suffix_object_seg [OF st _ d sn] Cons by auto
    have "grows h0 (ts @ [Node ?n zero_item []]) h2" by (rule grows_relinks [OF g h2(4)])
    then show ?thesis using h1(1,3) h2 z ok Cons relinks_strings [OF h2(4)] by (auto simp: attach_item_def filling_def)
  qed
qed


section \<open>The contract of a function that fills an item\<close>

text \<open>The content the parser gives an item, by the value and the name.\<close>

fun content_of :: "string option \<Rightarrow> cJSON \<Rightarrow> content" where
  "content_of k cJSON_NULL = Content type_NULL 0 (Finite 0) None k []"
| "content_of k cJSON_False = Content type_False 0 (Finite 0) None k []"
| "content_of k cJSON_True = Content type_True 1 (Finite 0) None k []"
| "content_of k (cJSON_Number d i) = Content type_Number i d None k []"
| "content_of k (cJSON_String s) = Content type_String 0 (Finite 0) (Some s) k []"
| "content_of k (cJSON_Raw s) = Content type_Raw 0 (Finite 0) (Some s) k []"
| "content_of k (cJSON_Array xs) = Content type_Array 0 (Finite 0) None k (map (content_of None) xs)"
| "content_of k (cJSON_Object ms) = Content type_Object 0 (Finite 0) None k (map (\<lambda>(n, v). content_of (Some n) v) ms)"

text \<open>An item that has at most its name, a text of its own.\<close>

definition blank :: "memory_state \<Rightarrow> item \<Rightarrow> bool" where
  "blank h it \<longleftrightarrow> i_valuestring it = None \<and> i_valueint it = 0 \<and> i_valuedouble it = Finite 0 \<and>
     (\<forall>p. i_string it = Some p \<longrightarrow> (\<exists>b. p = Block b) \<and> read_text p h \<noteq> None)"

definition filled :: "memory_state \<Rightarrow> node list \<Rightarrow> nat \<Rightarrow> item \<Rightarrow> memory_state \<Rightarrow> cJSON option \<times> nat \<Rightarrow> step_result \<Rightarrow> bool" where
  "filled h0 ts a it h expected res \<longleftrightarrow> (\<exists>ok offset h' it' ks. res = Some (ok, offset, h') \<and>
     filling h0 ts a it' ks h' \<and> keeps_texts h h' \<and>
     (if ok then \<exists>x. expected = (Some x, offset) \<and> readable h' [Node a it' ks] \<and>
        contents h' [Node a it' ks] = [content_of (Option.bind (i_string it) (\<lambda>p. read_text p h)) x]
      else \<not> plenty h0 \<or> expected = (None, offset)))"

lemma blank_name: "blank h it \<Longrightarrow> text_ok b (i_string it)"
  by (cases "i_string it") (auto simp: blank_def text_ok_def)

lemma readable_frame: "readable h ts \<Longrightarrow> keeps_texts h h' \<Longrightarrow> contents h' ts = contents h ts \<and> readable h' ts"
  using copies_frame [of h ts h ts h'] by (simp add: copies_def keeps_texts_def)

lemma grows_same_memory: "grows h [] h"
  by (rule grows_nothing) simp_all

lemma plain_flags: "plain_type (i_type it) \<Longrightarrow> \<not> is_reference it \<and> \<not> string_is_const it"
  by (simp add: plain_type_def is_reference_def string_is_const_def)

text \<open>Setting the fields of a value that has no text.\<close>

lemma filled_update:
  assumes f: "filling h0 ts a it [] h" "blank h it" and c: "grows h cs h1" "seg (h_items h1) None cs None" "readable h1 cs"
    and it': "i_string it' = i_string it" "i_valuestring it' = None" "plain_type (i_type it')"
    and upd: "\<And>q. f (cell q None it []) = cell q None it' cs"
    and x: "\<And>k. content_of k x = Content (i_type it') (i_valueint it') (i_valuedouble it') None k (contents h1 cs)"
  shows "filled h0 ts a it h (Some x, offset) (do { h \<leftarrow> update_item a f h1; Some (True, offset, h) })"
proof -
  have own: "own_texts it' = own_texts it" "text_ok False (i_valuestring it')" "text_ok False (i_string it')"
    using f it' plain_flags [OF it'(3)] blank_name [OF f(2)] by (simp_all add: own_texts_def filling_def blank_def own_text_def) (simp add: text_ok_def)
  obtain h2 where h2: "update_item a f h1 = Some h2" "filling h0 ts a it' cs h2" "h_strings h2 = h_strings h1"
    using filling_update [OF f(1) c(1,2) own _ _ upd] plain_flags [OF it'(3)] by blast
  have k2: "keeps_texts h h2" using keeps_texts_trans [OF keeps_texts_grows [OF c(1)] keeps_texts_same [OF h2(3)]] .
  have cs: "contents h2 cs = contents h1 cs" "readable h2 cs" using readable_frame [OF c(3) keeps_texts_same [OF h2(3)]] by simp_all
  have "Option.bind (i_string it) (\<lambda>p. read_text p h2) = Option.bind (i_string it) (\<lambda>p. read_text p h)"
    "\<forall>p. i_string it = Some p \<longrightarrow> read_text p h2 \<noteq> None"
    using f(2) k2 by (cases "i_string it"; fastforce simp: blank_def keeps_texts_def)+
  then have "contents h2 [Node a it' cs] = [content_of (Option.bind (i_string it) (\<lambda>p. read_text p h)) x]" "readable h2 [Node a it' cs]"
    using it' cs x plain_flags [OF it'(3)] by (simp_all add: plain_type_def)
  with h2 k2 show ?thesis by (auto simp: filled_def)
qed

section \<open>Strings\<close>

lemma filling_text:
  assumes f: "filling h0 ts a it [] h" and b: "blank h it" and p: "p = h_next h"
    and h': "h_items h' = (h_items h)(a \<mapsto> cell (last_of None ts) None it' [])" "h_strings h' = (h_strings h)(p \<mapsto> s)"
      "h_next h' = h_next h + 1" "h_allocate h' = h_allocate h"
    and it': "it' = it\<lparr>i_type := type_String, i_valuestring := Some (Block p)\<rparr>"
  shows "filling h0 ts a it' [] h'"
proof -
  have f': "memory_ok h0" "grows h0 (ts @ [Node a it []]) h" "seg (h_items h) None (ts @ [Node a it []]) None"
    "\<not> is_reference it" "\<not> string_is_const it" using f by (simp_all add: filling_def)
  have fl: "\<not> is_reference it'" "\<not> string_is_const it'" using plain_flags [of it'] by (simp_all add: it')
  have t: "texts (ts @ [Node a it' []]) = texts ts @ p # own_text False (i_string it)"
    "texts (ts @ [Node a it []]) = texts ts @ own_text False (i_string it)"
    using fl f'(4,5) b by (simp_all add: it' own_text_def blank_def)
  have g: "h_items h |` (- set (addrs (ts @ [Node a it []]))) = h_items h0" "h_strings h |` (- set (texts (ts @ [Node a it []]))) = h_strings h0"
    "distinct (addrs (ts @ [Node a it []]))" "distinct (texts (ts @ [Node a it []]))" "set (texts (ts @ [Node a it []])) \<subseteq> dom (h_strings h)"
    "texts_ok (ts @ [Node a it []])" "set (addrs (ts @ [Node a it []])) \<union> set (texts (ts @ [Node a it []])) \<subseteq> {h_next h0 ..< h_next h}"
    "h_next h0 \<le> h_next h" "h_allocate h = h_allocate h0"
    using f'(2) by (simp_all add: grows_def owned_def)
  have p0: "h_strings h0 p = None" using f'(1) g(8) by (simp add: memory_ok_def p)
  have new: "p \<notin> set (texts (ts @ [Node a it []]))" using g(7) by (auto simp: p)
  have "h_items h' |` (- set (addrs (ts @ [Node a it' []]))) = h_items h0"
    unfolding g(1) [symmetric] by (rule ext) (simp add: restrict_map_def h'(1))
  moreover have "h_strings h' |` (- set (texts (ts @ [Node a it' []]))) = h_strings h0"
  proof
    fix q
    show "(h_strings h' |` (- set (texts (ts @ [Node a it' []])))) q = h_strings h0 q"
      using fun_cong [OF g(2), of q] h'(2) p0 unfolding t by (auto simp: restrict_map_def)
  qed
  moreover have "owned h' (ts @ [Node a it' []])"
    unfolding owned_def t using g(3,4,5,6) new h'(2) b fl unfolding t using blank_name [OF b] by (auto simp: it' text_ok_def)
  moreover have "set (addrs (ts @ [Node a it' []])) \<union> set (texts (ts @ [Node a it' []])) \<subseteq> {h_next h0 ..< h_next h'}"
    using g(7,8) unfolding t by (auto simp: h'(3) p)
  ultimately have "grows h0 (ts @ [Node a it' []]) h'" using g(8,9) h'(3,4) by (simp add: grows_def)
  moreover have "seg (h_items h') None ts (Some a)"
    using f'(3) g(3) by (subst seg_cong [of ts "h_items h'" "h_items h"]) (auto simp: h'(1))
  then have "seg (h_items h') None (ts @ [Node a it' []]) None" using fl h'(1) by simp
  ultimately show ?thesis using f'(1) fl by (simp add: filling_def)
qed

lemma parse_string_into_outcome:
  assumes f: "filling h0 ts a it [] h" "blank h it" and r: "parse_string content offset = Some (r, offset1)"
  shows "(\<exists>offset' h'. parse_string_into content a offset h = Some (False, offset', h') \<and> filling h0 ts a it [] h' \<and>
      keeps_texts h h' \<and> (\<not> plenty h0 \<or> r = None \<and> offset' = offset1)) \<or>
    (\<exists>p s h'. parse_string_into content a offset h = Some (True, offset1, h') \<and> r = Some s \<and> keeps_texts h h' \<and>
      filling h0 ts a (it\<lparr>i_type := type_String, i_valuestring := Some (Block p)\<rparr>) [] h' \<and> read_text (Block p) h' = Some s)"
proof -
  have g: "memory_ok h0" "grows h0 (ts @ [Node a it []]) h" using f(1) by (simp_all add: filling_def)
  have ok: "memory_ok h" by (rule grows_ok [OF g(2,1)])
  have at: "h_items h a = Some (cell (last_of None ts) None it [])" using f(1) by (simp add: filling_def)
  have fresh: "h_strings h (h_next h) = None" using ok by (simp add: memory_ok_def)
  have same: "filling h0 ts a it [] (h\<lparr>h_next := h_next h + 1\<rparr>)" "keeps_texts h (h\<lparr>h_next := h_next h + 1\<rparr>)"
  proof -
    have "grows h [] (h\<lparr>h_next := h_next h + 1\<rparr>)" by (rule grows_nothing) simp_all
    from grows_trans [OF g(2) this] keeps_texts_grows [OF this] f(1)
    show "filling h0 ts a it [] (h\<lparr>h_next := h_next h + 1\<rparr>)" "keeps_texts h (h\<lparr>h_next := h_next h + 1\<rparr>)"
      by (simp_all add: filling_def)
  qed
  obtain c where c: "rdc content offset = Some c" using r by (auto simp: parse_string_def split: bind_splits)
  show ?thesis
  proof (cases "c = quote_char \<and> scan_string content (offset + 1) 0 \<noteq> None")
    case False
    then consider "c \<noteq> quote_char" | "c = quote_char" "scan_string content (offset + 1) 0 = None" by blast
    then show ?thesis
    proof cases
      case 1
      then show ?thesis using f(1) r c by (simp add: parse_string_def parse_string_into_def)
    next
      case 2
      then show ?thesis using f(1) r c by (simp add: parse_string_def parse_string_into_def)
    qed
  next
    case True
    then obtain input_end skipped where sc: "c = quote_char" "scan_string content (offset + 1) 0 = Some (input_end, skipped)" by auto
    let ?n = "input_end - offset - skipped"
    obtain u where u: "unescape content input_end ?n (offset + 1) [] = Some u"
      using r c sc by (auto simp: parse_string_def split: bind_splits)
    show ?thesis
    proof (cases "h_allocate h (h_next h) (?n + 1)")
      case False
      then have "\<not> plenty h" by (auto simp: plenty_def)
      then show ?thesis using same c sc False grows_plenty [OF g(2)] by (auto simp: parse_string_into_def allocate_def)
    next
      case True
      let ?p = "h_next h"
      show ?thesis
      proof (cases u)
        case (Inl q)
        have "(h_strings h)(?p \<mapsto> [], ?p := None) = h_strings h" using fresh by auto
        then show ?thesis using same c sc u True Inl r
          by (auto simp: parse_string_into_def parse_string_def allocate_def deallocate_text_def)
      next
        case (Inr w)
        let ?it = "it\<lparr>i_type := type_String, i_valuestring := Some (Block ?p)\<rparr>"
        let ?h = "h\<lparr>h_next := ?p + 1, h_strings := (h_strings h)(?p \<mapsto> c_string w), h_items := (h_items h)(a \<mapsto> cell (last_of None ts) None ?it [])\<rparr>"
        have fl: "\<not> is_reference it" "\<not> is_reference ?it" using f(1) plain_flags [of ?it] by (simp_all add: filling_def)
        have "filling h0 ts a ?it [] ?h" by (rule filling_text [OF f refl]) simp_all
        moreover have "(cell (last_of None ts) None it [])\<lparr>i_type := type_String, i_valuestring := Some (Block ?p)\<rparr> =
            cell (last_of None ts) None ?it []" using fl by (simp add: cell_def)
        then have "parse_string_into content a offset h = Some (True, input_end + 1, ?h)"
          using c sc u True Inr at by (simp add: parse_string_into_def allocate_def update_item_def)
        moreover have "r = Some (c_string w)" "offset1 = input_end + 1" using r c sc u Inr by (auto simp: parse_string_def)
        moreover have "keeps_texts h ?h" using fresh by (auto simp: keeps_texts_def read_text_def split: text_ptr.splits)
        ultimately show ?thesis by (auto simp: read_text_def)
      qed
    qed
  qed
qed


section \<open>Containers\<close>

text \<open>The list a loop has made, closed or not.\<close>

definition listed :: "memory_state \<Rightarrow> (node list \<Rightarrow> memory_state \<Rightarrow> cJSON \<Rightarrow> bool) \<Rightarrow> cJSON option \<times> nat \<Rightarrow>
    (bool \<times> ref \<times> nat \<times> memory_state) option \<Rightarrow> bool" where
  "listed h0 P expected res \<longleftrightarrow> (\<exists>ok acc offset h'. res = Some (ok, first_of None acc, offset, h') \<and>
     grows h0 acc h' \<and> seg (h_items h') None acc None \<and>
     (if ok then \<exists>x. expected = (Some x, offset + 1) \<and> readable h' acc \<and> P acc h' x
      else \<not> plenty h0 \<or> expected = (None, offset)))"

lemma listed_stop: "filling h0 ts a it ks h \<Longrightarrow> \<not> plenty h0 \<or> expected = (None, offset) \<Longrightarrow>
    listed h0 P expected (Some (False, first_of None (ts @ [Node a it' []]), offset, h))"
  unfolding listed_def filling_def
  by (intro exI [of _ False] exI [of _ "ts @ [Node a it ks]"] exI [of _ offset] exI [of _ h]) simp

lemma listed_end:
  assumes "grows h0 us h" "seg (h_items h) None us None" "readable h us" "P us h x"
    "expected = (if c then (Some x, offset + 1) else (None, offset))"
  shows "listed h0 P expected (Some (c, first_of None us, offset, h))"
  unfolding listed_def using assms
  by (intro exI [of _ c] exI [of _ us] exI [of _ offset] exI [of _ h]) auto

lemma blank_zero: "blank h zero_item"
  by (simp add: blank_def)

text \<open>The ends of a container.\<close>

lemma close_container_refines:
  assumes f: "filling h0 ts a it [] h" "blank h it" and l: "listed h P expected res" and ty: "plain_type ty"
    and P: "\<And>acc h' x k. P acc h' x \<Longrightarrow> content_of k x = Content ty 0 (Finite 0) None k (contents h' acc)"
  shows "filled h0 ts a it h expected (Option.bind res (close_container ty a))"
proof -
  have g: "memory_ok h0" "grows h0 (ts @ [Node a it []]) h" "seg (h_items h) None (ts @ [Node a it []]) None" "\<not> is_reference it"
    using f(1) by (simp_all add: filling_def)
  obtain ok acc offset h1 where r: "res = Some (ok, first_of None acc, offset, h1)" "grows h acc h1" "seg (h_items h1) None acc None"
    "if ok then \<exists>x. expected = (Some x, offset + 1) \<and> readable h1 acc \<and> P acc h1 x else \<not> plenty h \<or> expected = (None, offset)"
    using l unfolding listed_def by blast
  show ?thesis
  proof (cases ok)
    case True
    then obtain x where x: "expected = (Some x, offset + 1)" "readable h1 acc" "P acc h1 x" using r(4) by auto
    let ?it = "it\<lparr>i_type := ty\<rparr>"
    have fl: "\<not> is_reference ?it" using plain_flags [of ?it] ty by simp
    have "filled h0 ts a it h (Some x, offset + 1)
        (do { h \<leftarrow> update_item a (\<lambda>it. it\<lparr>i_type := ty, i_child := first_of None acc\<rparr>) h1; Some (True, offset + 1, h) })"
      by (rule filled_update [OF f r(2,3) x(2), of ?it])
        (use f(2) fl g(4) ty P [OF x(3)] in \<open>simp_all add: blank_def cell_def\<close>)
    then show ?thesis using True r(1) x(1) by (simp add: close_container_def)
  next
    case False
    obtain h2 where h2: "cJSON_Delete (first_of None acc) h1 = Some h2" "grows h [] h2" using grows_delete [OF r(2,3)] by blast
    have "filling h0 ts a it [] h2"
      using grows_trans [OF g(2) h2(2)] grows_seg [OF h2(2) g(3)] f(1) by (simp add: filling_def)
    moreover have "keeps_texts h h2" by (rule keeps_texts_grows [OF h2(2)])
    moreover have "\<not> plenty h0 \<or> expected = (None, offset)" using r(4) False grows_plenty [OF g(2)] by simp
    moreover have "Option.bind res (close_container ty a) = Some (False, offset, h2)"
      using False r(1) h2(1) by (simp add: close_container_def)
    ultimately show ?thesis unfolding filled_def by (intro exI [of _ False] exI [of _ offset] exI [of _ h2] exI [of _ it] exI [of _ "[]"]) simp
  qed
qed

lemma empty_container_refines:
  assumes f: "filling h0 ts a it [] h" "blank h it" and ty: "plain_type ty"
    and x: "\<And>k. content_of k x = Content ty 0 (Finite 0) None k []"
  shows "filled h0 ts a it h (Some x, offset + 1) (close_container ty a (True, None, offset, h))"
proof -
  have "listed h (\<lambda>acc h' y. y = x \<and> acc = []) (Some x, offset + 1) (Some (True, None, offset, h))"
    unfolding listed_def using grows_same_memory by (intro exI [of _ True] exI [of _ "[]"] exI [of _ offset] exI [of _ h]) simp
  from close_container_refines [OF f this ty] x show ?thesis by simp
qed

lemma filled_failed: "filling h0 ts a it [] h \<Longrightarrow> filled h0 ts a it h (None, offset) (Some (False, offset, h))"
  unfolding filled_def by (intro exI [of _ False] exI [of _ offset] exI [of _ h]) auto

text \<open>What a container relies on in the function that reads its elements.\<close>

locale item_filler =
  fixes fill :: "nat \<Rightarrow> nat \<Rightarrow> memory_state \<Rightarrow> step_result" and parse :: "nat \<Rightarrow> cJSON parsed"
  assumes fills: "filling h0 ts a it [] h \<Longrightarrow> blank h it \<Longrightarrow> parse offset = Some res \<Longrightarrow> filled h0 ts a it h res (fill a offset h)"
begin

text \<open>Reading one element into the new item at the end of the list.\<close>

lemma element_cases:
  assumes f: "filling h0 ts n it [] h" "blank h it" "Option.bind (i_string it) (\<lambda>p. read_text p h) = k"
    and res: "parse offset = Some res" and ts: "readable g ts" "contents g ts = cs" "keeps_texts g h"
  obtains (failed) offset' h' it' ks where "fill n offset h = Some (False, offset', h')" "filling h0 ts n it' ks h'"
      "\<not> plenty h0 \<or> res = (None, offset')"
    | (element) x offset' h' us where "fill n offset h = Some (True, offset', h')" "res = (Some x, offset')" "grows h0 us h'"
      "seg (h_items h') None us None" "first_of None us = first_of (Some n) ts" "last_of None us = Some n"
      "readable h' us" "contents h' us = cs @ [content_of k x]"
proof -
  obtain fin offset' h' it' ks where r: "fill n offset h = Some (fin, offset', h')" "filling h0 ts n it' ks h'" "keeps_texts h h'"
    "if fin then \<exists>x. res = (Some x, offset') \<and> readable h' [Node n it' ks] \<and> contents h' [Node n it' ks] = [content_of k x]
     else \<not> plenty h0 \<or> res = (None, offset')"
    using fills [OF f(1,2) res] unfolding filled_def f(3) by blast
  show thesis
  proof (cases fin)
    case False
    with r show thesis by (intro failed [of offset' h' it' ks]) simp_all
  next
    case True
    then obtain x where x: "res = (Some x, offset')" "readable h' [Node n it' ks]" "contents h' [Node n it' ks] = [content_of k x]"
      using r(4) by auto
    have t: "contents h' ts = cs" "readable h' ts"
      using readable_frame [OF ts(1) keeps_texts_trans [OF ts(3) r(3)]] ts(2) by simp_all
    have "readable h' us \<Longrightarrow> readable h' (us @ [Node n it' ks])" for us
      using x(2) by (induction us rule: addrs.induct) auto
    with True r(1,2) x(1,3) t show thesis
      by (intro element [of offset' h' x "ts @ [Node n it' ks]"]) (simp_all add: filling_def)
  qed
qed

text \<open>The next item, if memory is left.\<close>

lemma next_item_cases:
  assumes "memory_ok h0" "grows h0 ts h" "seg (h_items h) None ts None"
  obtains (null) h1 where "cJSON_New_Item h = (None, h1)" "grows h0 ts h1" "seg (h_items h1) None ts None" "\<not> plenty h0"
    | (new) n h1 h2 where "cJSON_New_Item h = (Some n, h1)"
      "attach_item (first_of None ts) (last_of None ts) n h1 = Some (first_of (Some n) ts, h2)"
      "filling h0 ts n zero_item [] h2" "keeps_texts h h2"
  using filling_new [OF assms] keeps_texts_same by (auto simp: that)

lemma array_loop_refines:
  assumes ok: "memory_ok h0"
  shows "grows h0 ts h \<Longrightarrow> seg (h_items h) None ts None \<Longrightarrow> readable h ts \<Longrightarrow> contents h ts = map (content_of None) xs \<Longrightarrow>
    array_loop fuel parse content xs offset = Some expected \<Longrightarrow>
    listed h0 (\<lambda>acc h' x. \<exists>ys. x = cJSON_Array ys \<and> contents h' acc = map (content_of None) ys) expected
      (array_loop_into fuel fill content (first_of None ts) (last_of None ts) offset h)"
proof (induction fuel arbitrary: ts h xs offset)
  case (Suc fuel)
  let ?o = "buffer_skip_whitespace content (offset + 1)"
  obtain res where res: "parse ?o = Some res" using Suc.prems(5) by (auto split: bind_splits)
  from ok Suc.prems(1,2) show ?case
  proof (cases rule: next_item_cases)
    case null
    then show ?thesis by (auto simp: listed_def)
  next
    case (new n h1 h2)
    have k: "Option.bind (i_string zero_item) (\<lambda>p. read_text p h2) = None" by simp
    from new(3) blank_zero [of h2] k res Suc.prems(3,4) new(4) show ?thesis
    proof (cases rule: element_cases)
      case (failed offset' h' it' ks)
      then have "\<not> plenty h0 \<or> expected = (None, offset')" using Suc.prems(5) res by auto
      then show ?thesis using new(1,2) failed(1) listed_stop [OF failed(2)] by simp
    next
      case (element x offset' h3 us)
      let ?p = "buffer_skip_whitespace content offset'"
      have c: "contents h3 us = map (content_of None) (xs @ [x])" using element(8) by simp
      have run: "array_loop_into (Suc fuel) fill content (first_of None ts) (last_of None ts) offset h =
          (if char_at content ?p CHR '','' then array_loop_into fuel fill content (first_of None us) (last_of None us) ?p h3
           else Some (char_at content ?p CHR '']'', first_of None us, ?p, h3))"
        using new(1,2) element(1,5,6) by (simp add: Let_def)
      have e: "(if char_at content ?p CHR '','' then array_loop fuel parse content (xs @ [x]) ?p
          else Some (if char_at content ?p CHR '']'' then (Some (cJSON_Array (xs @ [x])), ?p + 1) else (None, ?p))) = Some expected"
        using Suc.prems(5) res element(2) by (simp add: Let_def split: if_splits)
      show ?thesis
      proof (cases "char_at content ?p CHR '',''")
        case True
        show ?thesis unfolding run if_P [OF True] by (rule Suc.IH [OF element(3,4,7) c]) (use e True in simp)
      next
        case False
        show ?thesis unfolding run if_not_P [OF False]
          by (rule listed_end [OF element(3,4,7), where x = "cJSON_Array (xs @ [x])"]) (use e False c in \<open>auto split: if_splits\<close>)
      qed
    qed
  qed
qed simp

text \<open>Reading the name of a member.\<close>

lemma swap_name_filling:
  assumes f: "filling h0 ts n (zero_item\<lparr>i_type := type_String, i_valuestring := Some (Block p)\<rparr>) [] h"
    and s: "read_text (Block p) h = Some s"
  shows "\<exists>h' it. update_item n swap_name h = Some h' \<and> filling h0 ts n it [] h' \<and> blank h' it \<and> h_strings h' = h_strings h \<and>
    Option.bind (i_string it) (\<lambda>p. read_text p h') = Some s"
proof -
  let ?it = "swap_name (zero_item\<lparr>i_type := type_String, i_valuestring := Some (Block p)\<rparr>)"
  have fl: "plain_type (i_type ?it)" by (simp add: swap_name_def)
  have u: "swap_name (cell q None (zero_item\<lparr>i_type := type_String, i_valuestring := Some (Block p)\<rparr>) []) = cell q None ?it []" for q
    by (simp add: swap_name_def cell_def is_reference_def)
  have o: "own_texts ?it = own_texts (zero_item\<lparr>i_type := type_String, i_valuestring := Some (Block p)\<rparr>)"
    "text_ok False (i_valuestring ?it)" "text_ok False (i_string ?it)"
    using plain_flags [OF fl] f by (simp_all add: own_texts_def own_text_def text_ok_def swap_name_def filling_def)
  obtain h' where h': "update_item n swap_name h = Some h'" "filling h0 ts n ?it [] h'" "h_strings h' = h_strings h"
    using filling_update [OF f grows_same_memory _ o _ _ u] plain_flags [OF fl] by auto
  moreover have "read_text (Block p) h' = Some s" using s read_text_cong [OF h'(3)] by simp
  ultimately show ?thesis by (intro exI [of _ h'] exI [of _ ?it]) (simp add: blank_def swap_name_def)
qed

lemma name_cases:
  assumes f: "filling h0 ts n zero_item [] h" and r: "parse_string content offset = Some (name, o1)"
  obtains (failed) o2 h' where "parse_string_into content n offset h = Some (False, o2, h')" "filling h0 ts n zero_item [] h'"
      "\<not> plenty h0 \<or> name = None \<and> o2 = o1"
    | (named) s h' h'' it where "parse_string_into content n offset h = Some (True, o1, h')" "name = Some s"
      "update_item n swap_name h' = Some h''" "filling h0 ts n it [] h''" "blank h'' it"
      "Option.bind (i_string it) (\<lambda>p. read_text p h'') = Some s" "keeps_texts h h''"
proof -
  consider (unnamed) o2 h' where "parse_string_into content n offset h = Some (False, o2, h')" "filling h0 ts n zero_item [] h'"
      "\<not> plenty h0 \<or> name = None \<and> o2 = o1"
    | (read) p s h' where "parse_string_into content n offset h = Some (True, o1, h')" "name = Some s" "keeps_texts h h'"
      "filling h0 ts n (zero_item\<lparr>i_type := type_String, i_valuestring := Some (Block p)\<rparr>) [] h'" "read_text (Block p) h' = Some s"
    using parse_string_into_outcome [OF f blank_zero r] by blast
  then show thesis
  proof cases
    case unnamed
    then show thesis by (rule failed)
  next
    case read
    obtain h'' it where "update_item n swap_name h' = Some h''" "filling h0 ts n it [] h''" "blank h'' it" "h_strings h'' = h_strings h'"
      "Option.bind (i_string it) (\<lambda>p. read_text p h'') = Some s"
      using swap_name_filling [OF read(4,5)] by blast
    then show thesis using read(1-3) keeps_texts_trans [OF read(3) keeps_texts_same] by (intro named) auto
  qed
qed

lemma object_loop_refines:
  assumes ok: "memory_ok h0"
  shows "grows h0 ts h \<Longrightarrow> seg (h_items h) None ts None \<Longrightarrow> readable h ts \<Longrightarrow>
    contents h ts = map (\<lambda>(n, v). content_of (Some n) v) xs \<Longrightarrow> object_loop fuel parse content xs offset = Some expected \<Longrightarrow>
    listed h0 (\<lambda>acc h' x. \<exists>ys. x = cJSON_Object ys \<and> contents h' acc = map (\<lambda>(n, v). content_of (Some n) v) ys) expected
      (object_loop_into fuel fill content (first_of None ts) (last_of None ts) offset h)"
proof (induction fuel arbitrary: ts h xs offset)
  case (Suc fuel)
  let ?o = "buffer_skip_whitespace content (offset + 1)"
  obtain name o1 where name: "parse_string content ?o = Some (name, o1)" using Suc.prems(5) by (auto split: bind_splits)
  from ok Suc.prems(1,2) show ?case
  proof (cases rule: next_item_cases)
    case null
    then show ?thesis by (auto simp: listed_def)
  next
    case (new n h1 h2)
    from new(3) name show ?thesis
    proof (cases rule: name_cases)
      case (failed o2 h3)
      then have "\<not> plenty h0 \<or> expected = (None, o2)" using Suc.prems(5) name by auto
      then show ?thesis using new(1,2) failed(1) listed_stop [OF failed(2)] by simp
    next
      case (named s h3 h4 it)
      let ?c = "buffer_skip_whitespace content o1"
      show ?thesis
      proof (cases "char_at content ?c CHR '':''")
        case False
        then have "expected = (None, ?c)" using Suc.prems(5) name named(2) by (simp add: Let_def)
        then show ?thesis using new(1,2) named(1,3) False listed_stop [OF named(4)] by (simp add: Let_def)
      next
        case colon: True
        obtain res where res: "parse (buffer_skip_whitespace content (?c + 1)) = Some res"
          using Suc.prems(5) name named(2) colon by (auto simp: Let_def split: bind_splits)
        from named(4-6) res Suc.prems(3,4) keeps_texts_trans [OF new(4) named(7)] show ?thesis
        proof (cases rule: element_cases)
          case (failed offset' h' it' ks)
          then have "\<not> plenty h0 \<or> expected = (None, offset')"
            using Suc.prems(5) name named(2) colon res by (auto simp: Let_def)
          then show ?thesis using new(1,2) named(1,3) colon failed(1) listed_stop [OF failed(2)] by (simp add: Let_def)
        next
          case (element x offset' h5 us)
          let ?p = "buffer_skip_whitespace content offset'"
          have c: "contents h5 us = map (\<lambda>(n, v). content_of (Some n) v) (xs @ [(s, x)])" using element(8) by simp
          have run: "object_loop_into (Suc fuel) fill content (first_of None ts) (last_of None ts) offset h =
              (if char_at content ?p CHR '','' then object_loop_into fuel fill content (first_of None us) (last_of None us) ?p h5
               else Some (char_at content ?p CHR ''}'', first_of None us, ?p, h5))"
            using new(1,2) named(1,3) colon element(1,5,6) by (simp add: Let_def)
          have e: "(if char_at content ?p CHR '','' then object_loop fuel parse content (xs @ [(s, x)]) ?p
              else Some (if char_at content ?p CHR ''}'' then (Some (cJSON_Object (xs @ [(s, x)])), ?p + 1) else (None, ?p))) = Some expected"
            using Suc.prems(5) name named(2) colon res element(2) by (simp add: Let_def split: if_splits)
          show ?thesis
          proof (cases "char_at content ?p CHR '',''")
            case True
            show ?thesis unfolding run if_P [OF True] by (rule Suc.IH [OF element(3,4,7) c]) (use e True in simp)
          next
            case False
            show ?thesis unfolding run if_not_P [OF False]
              by (rule listed_end [OF element(3,4,7), where x = "cJSON_Object (xs @ [(s, x)])"]) (use e False c in \<open>auto split: if_splits\<close>)
          qed
        qed
      qed
    qed
  qed
qed simp

lemma parse_array_refines:
  assumes f: "filling h0 ts a it [] h" "blank h it" and r: "parse_array (\<lambda>_. parse) content depth offset = Some res"
  shows "filled h0 ts a it h res (parse_array_into (\<lambda>_. fill) content depth a offset h)"
proof -
  have ok: "memory_ok h" using f(1) grows_ok by (auto simp: filling_def)
  let ?o = "buffer_skip_whitespace content (offset + 1)"
  note failed = filled_failed [OF f(1)] and empty = empty_container_refines [OF f, of type_Array "cJSON_Array []"]
  have loop: "filled h0 ts a it h e (Option.bind (array_loop_into (length content) fill content None None (?o - 1) h) (close_container type_Array a))"
    if "array_loop (length content) parse content [] (?o - 1) = Some e" for e
  proof (rule close_container_refines [OF f])
    show "listed h (\<lambda>acc h' x. \<exists>ys. x = cJSON_Array ys \<and> contents h' acc = map (content_of None) ys) e
        (array_loop_into (length content) fill content None None (?o - 1) h)"
      using array_loop_refines [OF ok grows_same_memory _ _ _ that] by simp
  qed auto
  show ?thesis
    using r failed empty loop
    by (auto simp: parse_array_def parse_array_into_def Let_def split: if_splits bind_splits)
qed

lemma parse_object_refines:
  assumes f: "filling h0 ts a it [] h" "blank h it" and r: "parse_object (\<lambda>_. parse) content depth offset = Some res"
  shows "filled h0 ts a it h res (parse_object_into (\<lambda>_. fill) content depth a offset h)"
proof -
  have ok: "memory_ok h" using f(1) grows_ok by (auto simp: filling_def)
  let ?o = "buffer_skip_whitespace content (offset + 1)"
  note failed = filled_failed [OF f(1)] and empty = empty_container_refines [OF f, of type_Object "cJSON_Object []"]
  have loop: "filled h0 ts a it h e (Option.bind (object_loop_into (length content) fill content None None (?o - 1) h) (close_container type_Object a))"
    if "object_loop (length content) parse content [] (?o - 1) = Some e" for e
  proof (rule close_container_refines [OF f])
    show "listed h (\<lambda>acc h' x. \<exists>ys. x = cJSON_Object ys \<and> contents h' acc = map (\<lambda>(n, v). content_of (Some n) v) ys) e
        (object_loop_into (length content) fill content None None (?o - 1) h)"
      using object_loop_refines [OF ok grows_same_memory _ _ _ that] by simp
  qed auto
  show ?thesis
    using r failed empty loop
    by (auto simp: parse_object_def parse_object_into_def Let_def split: if_splits)
qed

end


section \<open>Values\<close>

lemma set_literal_refines:
  assumes f: "filling h0 ts a it [] h" "blank h it" and ty: "plain_type (i_type (g it))" "i_string (g it) = i_string it"
    "i_valuestring (g it) = None" and upd: "\<And>q. g (cell q None it []) = cell q None (g it) []"
    and x: "\<And>k. content_of k x = Content (i_type (g it)) (i_valueint (g it)) (i_valuedouble (g it)) None k []"
  shows "filled h0 ts a it h (Some x, offset) (set_literal g a offset h)"
  unfolding set_literal_def
  by (rule filled_update [OF f grows_same_memory, where it' = "g it"]) (use ty upd x in simp_all)

lemma parse_number_refines:
  assumes f: "filling h0 ts a it [] h" "blank h it"
  shows "filled h0 ts a it h (number_read content offset) (parse_number_into content a offset h)"
proof (cases "\<exists>d i o1. number_read content offset = (Some (cJSON_Number d i), o1)")
  case True
  then obtain d i o1 where p: "number_read content offset = (Some (cJSON_Number d i), o1)" by blast
  let ?g = "\<lambda>it. it\<lparr>i_valuedouble := d, i_valueint := i, i_type := type_Number\<rparr>"
  have fl: "\<not> is_reference it" "\<not> is_reference (?g it)" using f(1) plain_flags [of "?g it"] by (simp_all add: filling_def)
  have "filled h0 ts a it h (Some (cJSON_Number d i), o1) (do { h \<leftarrow> update_item a ?g h; Some (True, o1, h) })"
    by (rule filled_update [OF f grows_same_memory, where it' = "?g it"]) (use f(2) fl in \<open>simp_all add: blank_def cell_def\<close>)
  then show ?thesis by (simp add: parse_number_into_def parse_number_reads p)
next
  case False
  then obtain o1 where "number_read content offset = (None, o1)"
    by (auto simp: number_read_def Let_def split_beta split: if_splits)
  then show ?thesis using filled_failed [OF f(1)] by (simp add: parse_number_into_def parse_number_reads)
qed

lemma parse_string_refines:
  assumes f: "filling h0 ts a it [] h" "blank h it" and r: "parse_string content offset = Some (r, offset1)"
  shows "filled h0 ts a it h (map_option cJSON_String r, offset1) (parse_string_into content a offset h)"
proof -
  consider (failed) offset' h' where "parse_string_into content a offset h = Some (False, offset', h')" "filling h0 ts a it [] h'"
      "keeps_texts h h'" "\<not> plenty h0 \<or> r = None \<and> offset' = offset1"
    | (read) p s h' where "parse_string_into content a offset h = Some (True, offset1, h')" "r = Some s" "keeps_texts h h'"
      "filling h0 ts a (it\<lparr>i_type := type_String, i_valuestring := Some (Block p)\<rparr>) [] h'" "read_text (Block p) h' = Some s"
    using parse_string_into_outcome [OF assms] by blast
  then show ?thesis
  proof cases
    case failed
    then show ?thesis unfolding filled_def by (intro exI [of _ False] exI [of _ offset'] exI [of _ h']) auto
  next
    case read
    let ?it = "it\<lparr>i_type := type_String, i_valuestring := Some (Block p)\<rparr>"
    have fl: "\<not> is_reference ?it" "i_type ?it AND NOT cJSON_IsReference = type_String"
      using plain_flags [of ?it] plain_types(1) by (simp_all add: plain_type_def)
    have "Option.bind (i_string it) (\<lambda>p. read_text p h') = Option.bind (i_string it) (\<lambda>p. read_text p h)"
      "\<forall>p. i_string it = Some p \<longrightarrow> read_text p h' \<noteq> None"
      using f(2) read(3) by (cases "i_string it"; fastforce simp: blank_def keeps_texts_def)+
    then have "readable h' [Node a ?it []]"
      "contents h' [Node a ?it []] = [content_of (Option.bind (i_string it) (\<lambda>p. read_text p h)) (cJSON_String s)]"
      using fl read(5) f(2) by (simp_all add: blank_def)
    then show ?thesis using read(1-4) unfolding filled_def
      by (intro exI [of _ True] exI [of _ offset1] exI [of _ h'] exI [of _ ?it] exI [of _ "[]"]) simp
  qed
qed

lemma value_filler_levels: "item_filler (parse_value_into fuel content depth) (parse_value fuel content depth)"
proof (induction fuel arbitrary: depth)
  case 0
  show ?case by unfold_locales simp
next
  case (Suc fuel)
  note arr = item_filler.parse_array_refines [OF Suc.IH [of "depth + 1"], where content = content and depth = depth]
    and obj = item_filler.parse_object_refines [OF Suc.IH [of "depth + 1"], where content = content and depth = depth]
  have "parse_array (parse_value fuel content) content depth = parse_array (\<lambda>_. parse_value fuel content (depth + 1)) content depth"
    "parse_object (parse_value fuel content) content depth = parse_object (\<lambda>_. parse_value fuel content (depth + 1)) content depth"
    "parse_array_into (parse_value_into fuel content) content depth = parse_array_into (\<lambda>_. parse_value_into fuel content (depth + 1)) content depth"
    "parse_object_into (parse_value_into fuel content) content depth = parse_object_into (\<lambda>_. parse_value_into fuel content (depth + 1)) content depth"
    by (intro ext, simp only: parse_array_def parse_object_def parse_array_into_def parse_object_into_def)+
  note arr = arr [folded this(1,3)] and obj = obj [folded this(2,4)]
  show ?case
  proof
    fix h0 ts a it h offset res
    assume f: "filling h0 ts a it [] h" "blank h it" and p: "parse_value (Suc fuel) content depth offset = Some res"
    have fl: "\<not> is_reference (it\<lparr>i_type := ty\<rparr>)" "\<not> is_reference (it\<lparr>i_type := ty, i_valueint := n\<rparr>)" if "plain_type ty" for ty n
      using plain_flags [of "it\<lparr>i_type := ty\<rparr>"] plain_flags [of "it\<lparr>i_type := ty, i_valueint := n\<rparr>"] that by simp_all
    have ft: "\<not> is_reference it" using f(1) by (simp add: filling_def)
    note lit = set_literal_refines [OF f]
    consider "starts content offset ''null''" | "\<not> starts content offset ''null''" "starts content offset ''false''"
      | "\<not> starts content offset ''null''" "\<not> starts content offset ''false''" "starts content offset ''true''"
      | (rest) "\<not> starts content offset ''null''" "\<not> starts content offset ''false''" "\<not> starts content offset ''true''"
      by blast
    then show "filled h0 ts a it h res (parse_value_into (Suc fuel) content depth a offset h)"
    proof cases
      case 1
      have "filled h0 ts a it h (Some cJSON_NULL, offset + 4) (set_literal (\<lambda>it. it\<lparr>i_type := type_NULL\<rparr>) a (offset + 4) h)"
        by (rule lit) (use f(2) fl ft in \<open>simp_all add: blank_def cell_def\<close>)
      then show ?thesis using 1 p by simp
    next
      case 2
      have "filled h0 ts a it h (Some cJSON_False, offset + 5) (set_literal (\<lambda>it. it\<lparr>i_type := type_False\<rparr>) a (offset + 5) h)"
        by (rule lit) (use f(2) fl ft in \<open>simp_all add: blank_def cell_def\<close>)
      then show ?thesis using 2 p by simp
    next
      case 3
      have "filled h0 ts a it h (Some cJSON_True, offset + 4) (set_literal (\<lambda>it. it\<lparr>i_type := type_True, i_valueint := 1\<rparr>) a (offset + 4) h)"
        by (rule lit) (use f(2) fl ft in \<open>simp_all add: blank_def cell_def\<close>)
      then show ?thesis using 3 p by simp
    next
      case rest
      then show ?thesis
        using p parse_string_refines [OF f] parse_number_refines [OF f, of content offset] parse_number_reads [of content offset] arr [OF f] obj [OF f] filled_failed [OF f(1)]
        by (auto split: if_splits)
    qed
  qed
qed

interpretation value_into: item_filler "parse_value_into (CJSON_NESTING_LIMIT + 1) content 0"
    "parse_value (CJSON_NESTING_LIMIT + 1) content 0" for content
  by (rule value_filler_levels)


section \<open>The whole text\<close>

declare parse_value.simps [simp del] parse_value_into.simps [simp del]

definition text_read :: "string \<Rightarrow> bool \<Rightarrow> memory_state \<Rightarrow> (ref \<times> nat \<times> memory_state) option \<Rightarrow> bool" where
  "text_read value strict h res \<longleftrightarrow> (\<exists>r e h'. res = Some (r, e, h') \<and> (case r of
     Some a \<Rightarrow> \<exists>x t. cJSON_ParseWithOpts value strict = Some (Inr x) \<and> n_addr t = a \<and> grows h [t] h' \<and>
       seg (h_items h') None [t] None \<and> readable h' [t] \<and> contents h' [t] = [content_of None x] \<and>
       (\<exists>h''. cJSON_Delete r h' = Some h'' \<and> grows h [] h'')
   | None \<Rightarrow> grows h [] h' \<and> (\<not> plenty h \<or> cJSON_ParseWithOpts value strict = Some (Inl e))))"

lemma text_read_null: "res = Some (None, e, h') \<Longrightarrow> grows h [] h' \<Longrightarrow> \<not> plenty h \<or> cJSON_ParseWithOpts value strict = Some (Inl e) \<Longrightarrow>
    text_read value strict h res"
  by (simp add: text_read_def)

lemma text_read_tree:
  assumes "res = Some (Some (n_addr t), e, h')" "cJSON_ParseWithOpts value strict = Some (Inr x)" "grows h [t] h'"
    "seg (h_items h') None [t] None" "readable h' [t]" "contents h' [t] = [content_of None x]"
  shows "text_read value strict h res"
  using assms grows_delete [OF assms(3,4)] by (auto simp: text_read_def)

text \<open>The parts both versions of the function share: the position of an error, and the test for trailing text.\<close>

definition error_at :: "string \<Rightarrow> nat \<Rightarrow> nat" where
  "error_at content offset = (if offset < length content then offset else length content - 1)"

definition trailing :: "bool \<Rightarrow> string \<Rightarrow> nat \<Rightarrow> bool" where
  "trailing strict content offset \<longleftrightarrow> strict \<and>
     (let p = buffer_skip_whitespace content offset in length content \<le> p \<or> content ! p \<noteq> CHR 0x00)"

definition fail_text :: "string \<Rightarrow> ref \<Rightarrow> nat \<Rightarrow> memory_state \<Rightarrow> (ref \<times> nat \<times> memory_state) option" where
  "fail_text content item offset h = do { h \<leftarrow> cJSON_Delete item h; Some (None, error_at content offset, h) }"

lemma parse_opts_by_value:
  assumes "content = c_string value @ [CHR 0x00]"
    "parse_value (CJSON_NESTING_LIMIT + 1) content 0 (buffer_skip_whitespace content (skip_utf8_bom content 0)) = Some (r, o1)"
  shows "cJSON_ParseWithOpts value strict = Some (case r of
      None \<Rightarrow> Inl (error_at content o1)
    | Some x \<Rightarrow> if trailing strict content o1 then Inl (error_at content (buffer_skip_whitespace content o1)) else Inr x)"
  using assms(2) unfolding assms(1)
  by (auto simp: cJSON_ParseWithOpts_def Let_def error_at_def trailing_def split: option.splits)

lemma parse_text_by_value:
  assumes "content = c_string value @ [CHR 0x00]"
  shows "parse_text (Some value) strict h = (case cJSON_New_Item h of
      (None, h) \<Rightarrow> fail_text content None 0 h
    | (Some a, h) \<Rightarrow> do {
        (ok, offset, h) \<leftarrow> parse_value_into (CJSON_NESTING_LIMIT + 1) content 0 a
          (buffer_skip_whitespace content (skip_utf8_bom content 0)) h;
        if \<not> ok then fail_text content (Some a) offset h
        else if trailing strict content offset then fail_text content (Some a) (buffer_skip_whitespace content offset) h
        else Some (Some a, if strict then buffer_skip_whitespace content offset else offset, h)
      })"
  unfolding assms
  by (auto simp: parse_text_def Let_def fail_text_def error_at_def trailing_def split: prod.splits option.splits bind_splits)

lemma value_parsed:
  assumes "content = c_string value @ [CHR 0x00]"
  shows "\<exists>r o1. parse_value (CJSON_NESTING_LIMIT + 1) content 0 (buffer_skip_whitespace content (skip_utf8_bom content 0)) = Some (r, o1)"
proof -
  have t: "Arion_Json_Props.c_text content" by (simp add: Arion_Json_Props.c_text_def assms)
  have "skip_utf8_bom content 0 < length content" by (auto simp: skip_utf8_bom_def assms)
  then have "buffer_skip_whitespace content (skip_utf8_bom content 0) < length content" by (rule skip_whitespace_bounds(2))
  moreover have "safe_parser content (parse_value (CJSON_NESTING_LIMIT + 1) content 0)" by (rule parse_value_safe [OF t]) simp_all
  ultimately show ?thesis by (auto simp: safe_parser_def)
qed

lemma parse_text_reads:
  assumes ok: "memory_ok h"
  shows "text_read value strict h (parse_text (Some value) strict h)"
proof -
  let ?c = "c_string value @ [CHR 0x00]"
  let ?o = "buffer_skip_whitespace ?c (skip_utf8_bom ?c 0)"
  obtain r o1 where pv: "parse_value (CJSON_NESTING_LIMIT + 1) ?c 0 ?o = Some (r, o1)" using value_parsed [OF refl] by blast
  note pure = parse_opts_by_value [OF refl pv] and run = parse_text_by_value [OF refl]
  consider (null) h1 where "cJSON_New_Item h = (None, h1)" "grows h [] h1" "\<not> plenty h"
    | (made) n h1 h2 where "cJSON_New_Item h = (Some n, h1)" "attach_item None None n h1 = Some (Some n, h2)"
      "filling h [] n zero_item [] h2"
    using filling_new [OF ok grows_same_memory] by auto
  then show ?thesis
  proof cases
    case null
    then show ?thesis by (intro text_read_null [of _ "error_at ?c 0" h1]) (simp_all add: run fail_text_def)
  next
    case made
    then have new: "cJSON_New_Item h = (Some n, h2)" "filling h [] n zero_item [] h2" by (simp_all add: attach_item_def)
    obtain done' o2 h3 it ks where f: "parse_value_into (CJSON_NESTING_LIMIT + 1) ?c 0 n ?o h2 = Some (done', o2, h3)"
      "filling h [] n it ks h3"
      "if done' then \<exists>x. (r, o1) = (Some x, o2) \<and> readable h3 [Node n it ks] \<and> contents h3 [Node n it ks] = [content_of None x]
       else \<not> plenty h \<or> (r, o1) = (None, o2)"
      using value_into.fills [OF new(2) blank_zero pv] unfolding filled_def zero_item_fields bind.bind_lzero by blast
    have g: "grows h [Node n it ks] h3" "seg (h_items h3) None [Node n it ks] None" using f(2) by (simp_all add: filling_def)
    obtain h4 where h4: "cJSON_Delete (Some n) h3 = Some h4" "grows h [] h4" using grows_delete [OF g] by auto
    show ?thesis
    proof (cases "done' \<and> \<not> trailing strict ?c o2")
      case True
      then obtain x where x: "r = Some x" "o1 = o2" "readable h3 [Node n it ks]" "contents h3 [Node n it ks] = [content_of None x]"
        using f(3) by auto
      have "cJSON_ParseWithOpts value strict = Some (Inr x)" unfolding pure using True x(1,2) by simp
      moreover have "parse_text (Some value) strict h =
          Some (Some (n_addr (Node n it ks)), if strict then buffer_skip_whitespace ?c o2 else o2, h3)"
        unfolding run using new(1) f(1) True by simp
      ultimately show ?thesis using g x(3,4) by (intro text_read_tree)
    next
      case False
      have "\<exists>e. parse_text (Some value) strict h = Some (None, error_at ?c e, h4) \<and>
          (\<not> plenty h \<or> cJSON_ParseWithOpts value strict = Some (Inl (error_at ?c e)))"
      proof (cases done')
        case True
        then have "parse_text (Some value) strict h = Some (None, error_at ?c (buffer_skip_whitespace ?c o2), h4)"
          unfolding run using new(1) f(1) False h4(1) by (simp add: fail_text_def)
        moreover have "cJSON_ParseWithOpts value strict = Some (Inl (error_at ?c (buffer_skip_whitespace ?c o2)))"
          unfolding pure using f(3) True False by auto
        ultimately show ?thesis by blast
      next
        case failed: False
        then have "parse_text (Some value) strict h = Some (None, error_at ?c o2, h4)"
          unfolding run using new(1) f(1) h4(1) by (simp add: fail_text_def)
        moreover have "\<not> plenty h \<or> cJSON_ParseWithOpts value strict = Some (Inl (error_at ?c o2))"
          unfolding pure using f(3) failed by auto
        ultimately show ?thesis by blast
      qed
      then show ?thesis using h4(2) text_read_null by blast
    qed
  qed
qed

text \<open>
  C7: the parser with its memory refines the parser on values. For every text and every behaviour of the
  allocator it either returns a tree that is exactly what was added to the memory, owns its texts, has the
  content of the value the text stands for, and can be deleted without a trace; or it returns a null
  pointer with the memory as it was, and then the text has no value and went wrong at the position
  that is reported, or an allocation was refused.
\<close>

theorem parse_text_refines:
  assumes "memory_ok h"
  shows "\<exists>r e h'. parse_text (Some value) strict h = Some (r, e, h') \<and> (case r of
     Some a \<Rightarrow> \<exists>x t. cJSON_ParseWithOpts value strict = Some (Inr x) \<and> n_addr t = a \<and> grows h [t] h' \<and>
       seg (h_items h') None [t] None \<and> readable h' [t] \<and> contents h' [t] = [content_of None x] \<and>
       (\<exists>h''. cJSON_Delete r h' = Some h'' \<and> grows h [] h'')
   | None \<Rightarrow> grows h [] h' \<and> (\<not> plenty h \<or> cJSON_ParseWithOpts value strict = Some (Inl e)))"
  using parse_text_reads [OF assms] unfolding text_read_def .

definition empty_memory :: memory_state where
  "empty_memory = \<lparr>h_items = Map.empty, h_strings = Map.empty, h_next = 0, h_allocate = (\<lambda>_ _. True)\<rparr>"

theorem parse_text_refines_witness:
  "\<exists>a e h' t. parse_text (Some (json_text (cJSON_Array [cJSON_True]))) False empty_memory = Some (Some a, e, h') \<and>
    contents h' [t] = [content_of None (cJSON_Array [cJSON_True])]"
proof -
  have "plain_json CJSON_NESTING_LIMIT (cJSON_Array [cJSON_True])"
    by (rule plain_json_containers) (simp_all add: plain_json.intros CJSON_NESTING_LIMIT_def)
  then have "cJSON_ParseWithOpts (json_text (cJSON_Array [cJSON_True])) False = Some (Inr (cJSON_Array [cJSON_True]))"
    by (fold cJSON_Parse_def) (rule cJSON_Parse_plain)
  moreover have "memory_ok empty_memory" "plenty empty_memory" by (simp_all add: memory_ok_def plenty_def empty_memory_def)
  ultimately show ?thesis
    using parse_text_refines [of empty_memory "json_text (cJSON_Array [cJSON_True])" False] by (fastforce split: option.splits)
qed

end
