(* ===== verification/Arion_Transitd.thy ===== *)
theory Arion_Transitd
  imports Arion_Rpc_Props
begin

text \<open>
  The daemon process of \<open>src/src/dmn/trn_transitd.c\<close>: the main thread installs the signal handlers
  and starts the RPC thread, which mounts the BPF file system, registers both transports and serves
  requests. The threads are program counters over a shared state, a step of either is one call, and
  the step relation interleaves them with requests and signals. The results of the system calls
  are the parameter \<open>system\<close>; the code under \<open>turnOn\<close> is not built.
\<close>

section \<open>The process\<close>

datatype signo = SIGINT | SIGTERM

datatype transport = UDP | TCP

text \<open>\<open>Overran\<close> ends a run whose handler leaves its memory; what C does then is not defined.\<close>

datatype ending = Exited int | Killed signo | Overran

text \<open>The next call of a thread.\<close>

datatype main_pc = Log_init | Sigaction signo | Create_rpc | Join_rpc

datatype rpc_pc = Not_started | Umount | Mount | Unset | Create transport | Register transport | Svc_run | Thread_ended

text \<open>
  \<open>ps_mounts\<close> are the file systems mounted at \<open>/sys/fs/bpf\<close>, the top one first; \<open>ps_services\<close> the
  transports whose requests this process dispatches; \<open>ps_portmap\<close> those the port mapper knows for
  the program and version, perhaps from an earlier daemon.
\<close>

record 's process =
  ps_main :: main_pc
  ps_rpc :: rpc_pc
  ps_log :: bool
  ps_handlers :: "signo set"
  ps_mounts :: "string list"
  ps_services :: "transport list"
  ps_portmap :: "transport set"
  ps_end :: "ending option"
  ps_daemon :: "'s daemon"

record system =
  sy_pthread_create :: int
  sy_umount :: int
  sy_mount :: int
  sy_transport :: "transport \<Rightarrow> bool"
  sy_register :: "transport \<Rightarrow> bool"

definition process_init :: "'s \<Rightarrow> string list \<Rightarrow> transport set \<Rightarrow> 's process" where
  "process_init k mounts known = \<lparr>ps_main = Log_init, ps_rpc = Not_started, ps_log = False, ps_handlers = {},
     ps_mounts = mounts, ps_services = [], ps_portmap = known, ps_end = None, ps_daemon = daemon_init k\<rparr>"

definition exit_process :: "int \<Rightarrow> 's process \<Rightarrow> 's process" where
  "exit_process status p = p\<lparr>ps_end := Some (Exited status)\<rparr>"

section \<open>The threads\<close>

text \<open>A thread that waits makes no step.\<close>

definition main_step :: "system \<Rightarrow> 's process \<Rightarrow> 's process option" where
  "main_step y p = (case ps_main p of
     Log_init \<Rightarrow> Some (p\<lparr>ps_log := True, ps_main := Sigaction SIGINT\<rparr>)
   | Sigaction SIGINT \<Rightarrow> Some (p\<lparr>ps_handlers := insert SIGINT (ps_handlers p), ps_main := Sigaction SIGTERM\<rparr>)
   | Sigaction SIGTERM \<Rightarrow> Some (p\<lparr>ps_handlers := insert SIGTERM (ps_handlers p), ps_main := Create_rpc\<rparr>)
   | Create_rpc \<Rightarrow>
       Some (if sy_pthread_create y \<noteq> 0 then exit_process 1 p else p\<lparr>ps_rpc := Umount, ps_main := Join_rpc\<rparr>)
   | Join_rpc \<Rightarrow> if ps_rpc p = Thread_ended then Some (exit_process 1 (p\<lparr>ps_log := False\<rparr>)) else None)"

definition entrance_rpc :: "system \<Rightarrow> 's process \<Rightarrow> 's process option" where
  "entrance_rpc y p = (case ps_rpc p of
     Not_started \<Rightarrow> None
   | Umount \<Rightarrow> Some (p\<lparr>ps_mounts := (if sy_umount y = 0 then tl (ps_mounts p) else ps_mounts p), ps_rpc := Mount\<rparr>)
   | Mount \<Rightarrow> Some (if sy_mount y \<noteq> 0 then exit_process 1 p else p\<lparr>ps_mounts := ''bpf'' # ps_mounts p, ps_rpc := Unset\<rparr>)
   | Unset \<Rightarrow> Some (p\<lparr>ps_portmap := {}, ps_rpc := Create UDP\<rparr>)
   | Create t \<Rightarrow> Some (if \<not> sy_transport y t then exit_process 1 p else p\<lparr>ps_rpc := Register t\<rparr>)
   | Register t \<Rightarrow>
       Some (if \<not> sy_register y t then exit_process 1 p
         else p\<lparr>ps_services := ps_services p @ [t], ps_portmap := insert t (ps_portmap p),
           ps_rpc := (case t of UDP \<Rightarrow> Create TCP | TCP \<Rightarrow> Svc_run)\<rparr>)
   | Svc_run \<Rightarrow> None
   | Thread_ended \<Rightarrow> None)"

definition sighandler :: "'s process \<Rightarrow> 's process" where
  "sighandler p = exit_process 1 (p\<lparr>ps_log := False\<rparr>)"

text \<open>
  A step of the running process: of a thread, of \<open>svc_run\<close> (a request, served or overrunning, or its
  return), or a signal, which without a handler kills the process.
\<close>

inductive startup_step :: "system \<Rightarrow> 's process \<Rightarrow> 's process \<Rightarrow> bool" for y where
  main: "ps_end p = None \<Longrightarrow> main_step y p = Some p' \<Longrightarrow> startup_step y p p'"
| rpc: "ps_end p = None \<Longrightarrow> entrance_rpc y p = Some p' \<Longrightarrow> startup_step y p p'"

inductive process_step :: "system \<Rightarrow> ('s, 'z) kernel_scheme \<Rightarrow> 's process \<Rightarrow> 's process \<Rightarrow> bool" for y K where
  thread: "startup_step y p p' \<Longrightarrow> process_step y K p p'"
| request: "ps_end p = None \<Longrightarrow> ps_rpc p = Svc_run \<Longrightarrow> serve K stack req (ps_daemon p) = Some d \<Longrightarrow>
    process_step y K p (p\<lparr>ps_daemon := d\<rparr>)"
| overrun: "ps_end p = None \<Longrightarrow> ps_rpc p = Svc_run \<Longrightarrow> serve K stack req (ps_daemon p) = None \<Longrightarrow>
    process_step y K p (p\<lparr>ps_end := Some Overran\<rparr>)"
| returned: "ps_end p = None \<Longrightarrow> ps_rpc p = Svc_run \<Longrightarrow> process_step y K p (p\<lparr>ps_rpc := Thread_ended\<rparr>)"
| handled: "ps_end p = None \<Longrightarrow> s \<in> ps_handlers p \<Longrightarrow> process_step y K p (sighandler p)"
| killed: "ps_end p = None \<Longrightarrow> s \<notin> ps_handlers p \<Longrightarrow> process_step y K p (p\<lparr>ps_end := Some (Killed s)\<rparr>)"

inductive process_reachable :: "system \<Rightarrow> ('s, 'z) kernel_scheme \<Rightarrow> 's process \<Rightarrow> bool" for y K where
  begins: "process_reachable y K (process_init k mounts known)"
| step: "process_reachable y K p \<Longrightarrow> process_step y K p p' \<Longrightarrow> process_reachable y K p'"

inductive_cases startup_stepE: "startup_step y p p'"
inductive_cases process_stepE: "process_step y K p p'"

section \<open>What is set up when\<close>

primrec started :: "main_pc \<Rightarrow> signo set" where
  "started Log_init = {}"
| "started (Sigaction s) = (case s of SIGINT \<Rightarrow> {} | SIGTERM \<Rightarrow> {SIGINT})"
| "started Create_rpc = {SIGINT, SIGTERM}"
| "started Join_rpc = {SIGINT, SIGTERM}"

primrec registered :: "rpc_pc \<Rightarrow> transport list" where
  "registered Not_started = []"
| "registered Umount = []"
| "registered Mount = []"
| "registered Unset = []"
| "registered (Create t) = (case t of UDP \<Rightarrow> [] | TCP \<Rightarrow> [UDP])"
| "registered (Register t) = (case t of UDP \<Rightarrow> [] | TCP \<Rightarrow> [UDP])"
| "registered Svc_run = [UDP, TCP]"
| "registered Thread_ended = [UDP, TCP]"

text \<open>The thread is past its mount.\<close>

definition mounted :: "rpc_pc \<Rightarrow> bool" where
  "mounted pc \<longleftrightarrow> pc \<notin> {Not_started, Umount, Mount}"

text \<open>No request has been handled.\<close>

definition untouched :: "'s daemon \<Rightarrow> bool" where
  "untouched d \<longleftrightarrow> (\<exists>k. d = daemon_init k)"

text \<open>How the process may have ended: with status 1, by a signal before its handler, or by an overrun.\<close>

definition ended :: "('s, 'z) kernel_scheme \<Rightarrow> 's process \<Rightarrow> ending \<Rightarrow> bool" where
  "ended K p e \<longleftrightarrow> (case e of
     Exited status \<Rightarrow> status = 1
   | Killed s \<Rightarrow> s \<notin> ps_handlers p
   | Overran \<Rightarrow> ps_rpc p = Svc_run \<and> (\<exists>stack req. serve K stack req (ps_daemon p) = None))"

lemma ended_Exited [simp]: "ended K p (Exited 1)"
  by (simp add: ended_def)

definition process_ok :: "('s, 'z) kernel_scheme \<Rightarrow> 's process \<Rightarrow> bool" where
  "process_ok K p \<longleftrightarrow>
     ps_handlers p = started (ps_main p) \<and>
     (ps_rpc p = Not_started \<longleftrightarrow> ps_main p \<noteq> Join_rpc) \<and>
     ps_services p = registered (ps_rpc p) \<and>
     (mounted (ps_rpc p) \<longrightarrow> ps_mounts p \<noteq> [] \<and> hd (ps_mounts p) = ''bpf'') \<and>
     (mounted (ps_rpc p) \<and> ps_rpc p \<noteq> Unset \<longrightarrow> ps_portmap p = set (ps_services p)) \<and>
     (ps_end p = None \<longrightarrow> ps_log p = (ps_main p \<noteq> Log_init)) \<and>
     reachable K (ps_daemon p) \<and>
     (ps_rpc p \<notin> {Svc_run, Thread_ended} \<longrightarrow> untouched (ps_daemon p)) \<and>
     (\<forall>e. ps_end p = Some e \<longrightarrow> ended K p e)"

lemma main_step_ok:
  assumes "process_ok K p" "ps_end p = None" "main_step y p = Some p'" shows "process_ok K p'"
proof (cases "ps_main p")
  case Log_init
  with assms show ?thesis by (clarsimp simp: main_step_def process_ok_def)
next
  case (Sigaction s)
  with assms show ?thesis by (cases s) (clarsimp simp: main_step_def process_ok_def insert_commute)+
next
  case Create_rpc
  with assms show ?thesis
    by (cases "sy_pthread_create y = 0") (clarsimp simp: main_step_def process_ok_def exit_process_def mounted_def)+
next
  case Join_rpc
  with assms show ?thesis
    by (cases "ps_rpc p = Thread_ended") (clarsimp simp: main_step_def process_ok_def exit_process_def mounted_def)+
qed

lemma entrance_rpc_ok:
  assumes "process_ok K p" "ps_end p = None" "entrance_rpc y p = Some p'" shows "process_ok K p'"
proof (cases "ps_rpc p")
  case (Create t)
  with assms show ?thesis
    by (cases t; cases "sy_transport y t") (clarsimp simp: entrance_rpc_def process_ok_def exit_process_def mounted_def)+
next
  case (Register t)
  with assms show ?thesis
    by (cases t; cases "sy_register y t") (clarsimp simp: entrance_rpc_def process_ok_def exit_process_def mounted_def insert_commute)+
next
  case Mount
  with assms show ?thesis
    by (cases "sy_mount y = 0") (clarsimp simp: entrance_rpc_def process_ok_def exit_process_def mounted_def)+
qed (use assms in \<open>clarsimp simp: entrance_rpc_def process_ok_def exit_process_def mounted_def\<close>)+

lemma startup_step_ok: "process_ok K p \<Longrightarrow> startup_step y p p' \<Longrightarrow> process_ok K p'"
  by (auto elim!: startup_stepE intro: main_step_ok entrance_rpc_ok)

lemma process_step_ok:
  assumes "process_ok K p" "process_step y K p p'" shows "process_ok K p'"
  using assms(2)
proof (cases rule: process_step.cases)
  case thread
  with assms(1) show ?thesis by (rule startup_step_ok)
next
  case (request stack req d)
  then have "reachable K d" using assms(1) reachable.request by (auto simp: process_ok_def)
  with request assms(1) show ?thesis by (simp add: process_ok_def)
next
  case (overrun stack req)
  with assms(1) show ?thesis by (auto simp: process_ok_def ended_def)
next
  case returned
  with assms(1) show ?thesis by (simp add: process_ok_def mounted_def)
next
  case (handled s)
  with assms(1) show ?thesis by (simp add: process_ok_def sighandler_def exit_process_def)
next
  case (killed s)
  with assms(1) show ?thesis by (auto simp: process_ok_def ended_def)
qed

lemma process_reachable_ok: "process_reachable y K p \<Longrightarrow> process_ok K p"
proof (induction rule: process_reachable.induct)
  case (begins k mounts known)
  show ?case by (auto simp: process_ok_def process_init_def mounted_def untouched_def intro: reachable.start)
next
  case (step p p')
  then show ?case using process_step_ok by blast
qed

text \<open>
  C22: the daemon process. However its threads, requests and signals interleave, and whatever the
  system calls return: what the process does to the tables are runs of the daemon; when it serves
  requests, or has handled one, the BPF file system it mounted is on top at \<open>/sys/fs/bpf\<close>, both
  transports are registered, the port mapper knows exactly these, and both signals are
  handled. The process ends with status 1, except that a signal before its handler kills it, and
  then nothing is mounted, registered or served yet, and that a request whose handler leaves its
  memory ends the run.
\<close>

theorem process_invariant:
  assumes "process_reachable y K p"
  shows "reachable K (ps_daemon p) \<and>
    (ps_rpc p = Svc_run \<or> \<not> untouched (ps_daemon p) \<longrightarrow>
      ps_mounts p \<noteq> [] \<and> hd (ps_mounts p) = ''bpf'' \<and> ps_services p = [UDP, TCP] \<and> ps_portmap p = {UDP, TCP} \<and>
      ps_handlers p = {SIGINT, SIGTERM}) \<and>
    (case ps_end p of
       None \<Rightarrow> True
     | Some (Exited status) \<Rightarrow> status = 1
     | Some (Killed s) \<Rightarrow> s \<notin> ps_handlers p \<and> ps_rpc p = Not_started \<and> ps_services p = [] \<and> untouched (ps_daemon p)
     | Some Overran \<Rightarrow> ps_rpc p = Svc_run \<and> (\<exists>stack req. serve K stack req (ps_daemon p) = None))"
proof -
  have ok: "process_ok K p" using process_reachable_ok [OF assms] .
  then have facts: "ps_handlers p = started (ps_main p)" "ps_rpc p = Not_started \<longleftrightarrow> ps_main p \<noteq> Join_rpc"
    "ps_services p = registered (ps_rpc p)" "mounted (ps_rpc p) \<Longrightarrow> ps_mounts p \<noteq> [] \<and> hd (ps_mounts p) = ''bpf''"
    "mounted (ps_rpc p) \<Longrightarrow> ps_rpc p \<noteq> Unset \<Longrightarrow> ps_portmap p = set (ps_services p)" "reachable K (ps_daemon p)"
    "ps_rpc p \<notin> {Svc_run, Thread_ended} \<Longrightarrow> untouched (ps_daemon p)" "\<And>e. ps_end p = Some e \<Longrightarrow> ended K p e"
    unfolding process_ok_def by blast+
  have up: "ps_mounts p \<noteq> [] \<and> hd (ps_mounts p) = ''bpf'' \<and> ps_services p = [UDP, TCP] \<and> ps_portmap p = {UDP, TCP} \<and>
      ps_handlers p = {SIGINT, SIGTERM}" if "ps_rpc p \<in> {Svc_run, Thread_ended}"
  proof -
    have "mounted (ps_rpc p)" "ps_rpc p \<noteq> Unset" "ps_rpc p \<noteq> Not_started" "registered (ps_rpc p) = [UDP, TCP]"
      using that by (auto simp: mounted_def)
    then show ?thesis using facts(1-5) by simp
  qed
  have early: "ps_rpc p = Not_started \<and> ps_services p = [] \<and> untouched (ps_daemon p)" if "s \<notin> ps_handlers p" for s
  proof -
    have "started Join_rpc = UNIV" using signo.exhaust by auto
    then have "ps_main p \<noteq> Join_rpc" using that facts(1) by auto
    then show ?thesis using facts(2,3,7) by simp
  qed
  have "case ps_end p of
       None \<Rightarrow> True
     | Some (Exited status) \<Rightarrow> status = 1
     | Some (Killed s) \<Rightarrow> s \<notin> ps_handlers p \<and> ps_rpc p = Not_started \<and> ps_services p = [] \<and> untouched (ps_daemon p)
     | Some Overran \<Rightarrow> ps_rpc p = Svc_run \<and> (\<exists>stack req. serve K stack req (ps_daemon p) = None)" (is ?ended)
  proof (cases "ps_end p")
    case (Some e)
    from facts(8) [OF Some] Some early show ?thesis by (cases e) (simp_all add: ended_def)
  qed simp
  moreover have "ps_rpc p \<in> {Svc_run, Thread_ended}" if "ps_rpc p = Svc_run \<or> \<not> untouched (ps_daemon p)"
    using that facts(7) by blast
  ultimately show ?thesis using facts(6) up by blast
qed

text \<open>Every request that arrives while the daemon serves is a step: it is handled, or it overruns.\<close>

lemma serving_never_refuses:
  assumes "ps_end p = None" "ps_rpc p = Svc_run"
  shows "\<exists>p'. process_step y K p p' \<and>
    (serve K stack req (ps_daemon p) = Some (ps_daemon p') \<and> ps_end p' = None \<or>
     serve K stack req (ps_daemon p) = None \<and> ps_end p' = Some Overran)"
proof (cases "serve K stack req (ps_daemon p)")
  case None
  from process_step.overrun [OF assms this, of y] None show ?thesis by (intro exI conjI) (assumption, simp)
next
  case (Some d)
  from process_step.request [OF assms this, of y] Some assms(1) show ?thesis by (intro exI conjI) (assumption, simp)
qed

section \<open>Start-up\<close>

text \<open>What has been granted when the RPC thread is at a call.\<close>

primrec passed :: "system \<Rightarrow> rpc_pc \<Rightarrow> bool" where
  "passed y Not_started = True"
| "passed y Umount = (sy_pthread_create y = 0)"
| "passed y Mount = (sy_pthread_create y = 0)"
| "passed y Unset = (sy_pthread_create y = 0 \<and> sy_mount y = 0)"
| "passed y (Create t) = (sy_pthread_create y = 0 \<and> sy_mount y = 0 \<and>
    (t = TCP \<longrightarrow> sy_transport y UDP \<and> sy_register y UDP))"
| "passed y (Register t) = (sy_pthread_create y = 0 \<and> sy_mount y = 0 \<and>
    (t = TCP \<longrightarrow> sy_transport y UDP \<and> sy_register y UDP) \<and> sy_transport y t)"
| "passed y Svc_run = (sy_pthread_create y = 0 \<and> sy_mount y = 0 \<and> (\<forall>t. sy_transport y t \<and> sy_register y t))"
| "passed y Thread_ended = False"

abbreviation granted :: "system \<Rightarrow> bool" where
  "granted y \<equiv> passed y Svc_run"

lemma all_transports: "(\<forall>t. P t) \<longleftrightarrow> P UDP \<and> P TCP"
  by (metis transport.exhaust)

definition startup_ok :: "system \<Rightarrow> ('s, 'z) kernel_scheme \<Rightarrow> 's process \<Rightarrow> bool" where
  "startup_ok y K p \<longleftrightarrow> process_ok K p \<and> passed y (ps_rpc p) \<and>
     (\<forall>e. ps_end p = Some e \<longrightarrow> e = Exited 1 \<and> \<not> granted y \<and> ps_rpc p \<noteq> Svc_run)"

text \<open>The calls left.\<close>

definition remaining :: "'s process \<Rightarrow> nat" where
  "remaining p = (if ps_end p \<noteq> None then 0 else
     (case ps_main p of Log_init \<Rightarrow> 11 | Sigaction SIGINT \<Rightarrow> 10 | Sigaction SIGTERM \<Rightarrow> 9 | Create_rpc \<Rightarrow> 8
      | Join_rpc \<Rightarrow> (case ps_rpc p of Umount \<Rightarrow> 7 | Mount \<Rightarrow> 6 | Unset \<Rightarrow> 5 | Create UDP \<Rightarrow> 4 | Register UDP \<Rightarrow> 3
          | Create TCP \<Rightarrow> 2 | Register TCP \<Rightarrow> 1 | _ \<Rightarrow> 0)))"

lemma main_step_startup:
  assumes "startup_ok y K p" "ps_end p = None" "main_step y p = Some p'"
  shows "startup_ok y K p' \<and> remaining p' < remaining p"
proof -
  have ok: "process_ok K p'" using main_step_ok assms by (auto simp: startup_ok_def)
  have n: "ps_rpc p = Not_started \<longleftrightarrow> ps_main p \<noteq> Join_rpc" "passed y (ps_rpc p)"
    using assms(1) by (auto simp: startup_ok_def process_ok_def)
  show ?thesis
  proof (cases "ps_main p")
    case (Sigaction s)
    with assms ok n show ?thesis by (cases s) (clarsimp simp: startup_ok_def main_step_def remaining_def)+
  next
    case Create_rpc
    with assms ok n show ?thesis
      by (cases "sy_pthread_create y = 0") (clarsimp simp: startup_ok_def main_step_def remaining_def exit_process_def)+
  qed (use assms ok n in \<open>clarsimp simp: startup_ok_def main_step_def remaining_def split: if_splits\<close>)+
qed

lemma entrance_rpc_startup:
  assumes "startup_ok y K p" "ps_end p = None" "entrance_rpc y p = Some p'"
  shows "startup_ok y K p' \<and> remaining p' < remaining p"
proof -
  have ok: "process_ok K p'" using entrance_rpc_ok assms by (auto simp: startup_ok_def)
  have n: "ps_rpc p = Not_started \<longleftrightarrow> ps_main p \<noteq> Join_rpc" "passed y (ps_rpc p)"
    using assms(1) by (auto simp: startup_ok_def process_ok_def)
  show ?thesis
  proof (cases "ps_rpc p")
    case (Create t)
    with assms ok n show ?thesis
      by (cases t; cases "sy_transport y t")
        (clarsimp simp: startup_ok_def entrance_rpc_def remaining_def exit_process_def all_transports)+
  next
    case (Register t)
    with assms ok n show ?thesis
      by (cases t; cases "sy_register y t")
        (clarsimp simp: startup_ok_def entrance_rpc_def remaining_def exit_process_def all_transports)+
  next
    case Mount
    with assms ok n show ?thesis
      by (cases "sy_mount y = 0") (clarsimp simp: startup_ok_def entrance_rpc_def remaining_def exit_process_def)+
  qed (use assms ok n in \<open>clarsimp simp: startup_ok_def entrance_rpc_def remaining_def\<close>)+
qed

lemma startup_step_startup:
  "startup_ok y K p \<Longrightarrow> startup_step y p p' \<Longrightarrow> startup_ok y K p' \<and> remaining p' < remaining p"
  by (auto elim!: startup_stepE dest: main_step_startup entrance_rpc_startup)

lemma startup_run:
  "(startup_step y ^^ n) p q \<Longrightarrow> startup_ok y K p \<Longrightarrow> startup_ok y K q \<and> n + remaining q \<le> remaining p"
proof (induction n arbitrary: q)
  case (Suc n)
  from Suc.prems(1) obtain r where "(startup_step y ^^ n) p r" "startup_step y r q" by auto
  with Suc.IH [of r] Suc.prems(2) startup_step_startup [of y K r q] show ?case by auto
qed simp

lemma startup_stuck:
  assumes "startup_ok y K p"
  shows "(\<forall>q. \<not> startup_step y p q) \<longleftrightarrow> ps_end p \<noteq> None \<or> ps_rpc p = Svc_run"
proof -
  have n: "ps_rpc p = Not_started \<longleftrightarrow> ps_main p \<noteq> Join_rpc" "ps_rpc p \<noteq> Thread_ended"
    using assms by (auto simp: startup_ok_def process_ok_def)
  have "\<exists>q. main_step y p = Some q" if "ps_main p \<noteq> Join_rpc"
    using that by (cases "ps_main p") (auto simp: main_step_def split: signo.splits)
  moreover have "\<exists>q. entrance_rpc y p = Some q" if "ps_rpc p \<notin> {Not_started, Svc_run}"
    using that n(2) by (cases "ps_rpc p") (auto simp: entrance_rpc_def)
  moreover have "main_step y p = None \<and> entrance_rpc y p = None" if "ps_rpc p = Svc_run"
    using that n by (auto simp: main_step_def entrance_rpc_def)
  ultimately have "(\<exists>q. main_step y p = Some q \<or> entrance_rpc y p = Some q) \<longleftrightarrow> ps_rpc p \<noteq> Svc_run" using n by auto
  then show ?thesis by (cases "ps_end p") (auto elim!: startup_stepE intro: startup_step.intros)
qed

lemma process_init_startup: "startup_ok y K (process_init k mounts known)"
  using process_reachable_ok [OF begins] by (simp add: startup_ok_def process_init_def)

text \<open>
  C23: start-up always comes to an end, after at most eleven calls in any interleaving. When every call that is
  tested succeeds (the first unmount is not), the daemon then serves requests on both transports; when one
  fails, it has exited with status 1 and served nothing.
\<close>

theorem start_up_decides:
  assumes "(startup_step y ^^ n) (process_init k mounts known) p"
  shows "n \<le> 11 \<and>
    ((\<forall>q. \<not> startup_step y p q) \<longleftrightarrow> ps_end p \<noteq> None \<or> ps_rpc p = Svc_run) \<and>
    ((\<forall>q. \<not> startup_step y p q) \<longrightarrow>
      (if sy_pthread_create y = 0 \<and> sy_mount y = 0 \<and> (\<forall>t. sy_transport y t \<and> sy_register y t)
       then ps_end p = None \<and> ps_rpc p = Svc_run \<and> ps_services p = [UDP, TCP]
       else ps_end p = Some (Exited 1) \<and> ps_rpc p \<noteq> Svc_run \<and> untouched (ps_daemon p)))"
proof -
  have run: "startup_ok y (K :: ('a, unit) kernel_scheme) p \<and> n + remaining p \<le> remaining (process_init k mounts known)" for K
    using startup_run [OF assms process_init_startup] .
  then have ok: "startup_ok y (K :: ('a, unit) kernel_scheme) p" for K by blast
  have "remaining (process_init k mounts known) = 11" by (simp add: remaining_def process_init_def)
  then have "n \<le> 11" using run [of undefined] by simp
  moreover have "ps_services p = [UDP, TCP]" if "ps_rpc p = Svc_run"
    using ok that by (auto simp: startup_ok_def process_ok_def)
  moreover have "untouched (ps_daemon p)" if "ps_rpc p \<noteq> Svc_run"
    using ok [of undefined] that by (cases "ps_rpc p") (simp_all add: startup_ok_def process_ok_def)
  moreover have "ps_end p = Some e \<Longrightarrow> e = Exited 1 \<and> \<not> granted y \<and> ps_rpc p \<noteq> Svc_run"
      "ps_rpc p = Svc_run \<Longrightarrow> granted y" for e
    using ok [of undefined] by (auto simp: startup_ok_def)
  ultimately show ?thesis
    using startup_stuck [OF ok] by (cases "ps_end p") auto
qed

text \<open>The steps of a run, computed: at most one thread can move.\<close>

primrec advance :: "system \<Rightarrow> nat \<Rightarrow> 's process \<Rightarrow> 's process option" where
  "advance y 0 p = Some p"
| "advance y (Suc n) p =
    (if ps_end p \<noteq> None then None
     else case main_step y p of
       Some q \<Rightarrow> advance y n q
     | None \<Rightarrow> (case entrance_rpc y p of Some q \<Rightarrow> advance y n q | None \<Rightarrow> None))"

lemma advance_run: "advance y n p = Some q \<Longrightarrow> (startup_step y ^^ n) p q"
proof (induction n arbitrary: p)
  case (Suc n)
  then obtain r where "startup_step y p r" "advance y n r = Some q"
    by (auto intro: startup_step.intros split: if_splits option.splits)
  with Suc.IH show ?case by (blast intro: relpowp_Suc_I2)
qed simp

definition demo_system :: "int \<Rightarrow> system" where
  "demo_system r = \<lparr>sy_pthread_create = 0, sy_umount = -1, sy_mount = r, sy_transport = (\<lambda>_. True), sy_register = (\<lambda>_. True)\<rparr>"

lemma eleven: "11 = Suc (Suc (Suc (Suc (Suc (Suc (Suc (Suc (Suc (Suc (Suc 0))))))))))" by simp

theorem start_up_decides_witness:
  "\<exists>p. (startup_step (demo_system 0) ^^ 11) (process_init demo_kern0 [] {TCP}) p \<and> ps_rpc p = Svc_run \<and>
    (\<forall>q. \<not> startup_step (demo_system 0) p q)"
proof -
  obtain p where p: "advance (demo_system 0) 11 (process_init demo_kern0 [] {TCP}) = Some p" "ps_rpc p = Svc_run"
    unfolding eleven by (simp add: main_step_def entrance_rpc_def process_init_def demo_system_def)
  with start_up_decides [OF advance_run [OF p(1)]] advance_run [OF p(1)] show ?thesis by blast
qed

theorem process_invariant_witness:
  "\<exists>p :: demo_kern process. ps_rpc p = Svc_run \<and> hd (ps_mounts p) = ''bpf'' \<and> reachable demo_kernel (ps_daemon p)"
proof -
  obtain p where p: "advance (demo_system 0) 11 (process_init demo_kern0 [] {TCP}) = Some p" "ps_rpc p = Svc_run"
    unfolding eleven by (simp add: main_step_def entrance_rpc_def process_init_def demo_system_def)
  have "process_reachable (demo_system 0) demo_kernel q"
    if "(startup_step (demo_system 0) ^^ n) (process_init demo_kern0 [] {TCP}) q" for n q
    using that by (induction n arbitrary: q) (auto intro: process_reachable.intros process_step.intros)
  from process_invariant [OF this [OF advance_run [OF p(1)]]] p(2) show ?thesis by blast
qed

end
