(* ===== verification/Spec2Isabelle.thy ===== *)
theory Spec2Isabelle
  imports Arion_SecGroup Arion_CnUsr Arion_Csum_Props Arion_Jhash Arion_Json_Props Arion_Cli_Run Arion_MapDefs
    Arion_Json_Print_Props Arion_Json_Edit Arion_Json_Compare Arion_Json_Build Arion_Json_Minify Arion_Json_Read Arion_Transitd
begin

text \<open>
  Arion DP is the data plane of a cloud network gateway. An XDP program on the gateway (ZGC) takes
  VXLAN and Geneve packets of tenant networks, looks up the host of the inner destination and
  sends the packet on; a daemon loads the program and fills its tables over RPC; a command line
  client sends the RPCs; a second XDP program with a user-space assistant on the compute nodes
  picks up the direct-path hints the gateway appends.

  \<^bold>\<open>Theories and sources\<close> (paths under \<open>src/src\<close> unless they start with \<open>cn\<close>).

  \<^item> \<open>Arion_Prelude\<close>: machine words, bytes, packet memory with checked (\<open>rd\<close>, \<open>wr\<close>) and total
    (\<open>get\<close>, \<open>put\<close>) accesses and the collection \<open>mem_simps\<close>, byte order (\<open>extern/bpf_endian.h\<close>).
  \<^item> \<open>Arion_Datamodel\<close>: \<open>include/trn_datamodel.h\<close>, \<open>include/trn_rpc.h\<close>.
  \<^item> \<open>Arion_Csum\<close>, \<open>Arion_Kern\<close>: \<open>xdp/trn_kern.h\<close>; \<open>Arion_Jhash\<close>: \<open>extern/jhash.h\<close>.
  \<^item> \<open>Arion_Transit\<close>: \<open>xdp/trn_transit_xdp.c\<close>, the stage programs
    \<open>trn_transit_{tx,pass,redirect,drop}_proc_xdp.c\<close> and \<open>extern/xdpcap_hook.h\<close>.
    \<open>Arion_Transit_Props\<close>, \<open>Arion_Gateway\<close>, \<open>Arion_SecGroup\<close>, \<open>Arion_Csum_Props\<close> prove its properties.
  \<^item> \<open>Arion_Cn\<close>: \<open>cn/cn_dpnd/cn_dpnd_xdp.c\<close>; \<open>Arion_CnUsr\<close>: \<open>cn/cn_dpnd/cn_dpnd_usr.c\<close>.
  \<^item> \<open>Arion_Maps\<close>, \<open>Arion_Loader\<close>: \<open>dmn/trn_transit_xdp_usr.c\<close> (tables; program loader);
    \<open>Arion_Rpc\<close>: \<open>dmn/trn_rpc_protocol_handlers_1.c\<close> and \<open>rpcgen/trn_rpc_protocol.x\<close>.
    \<open>Arion_Loader_Props\<close>, \<open>Arion_Rpc_Props\<close> prove their properties.
    \<open>Arion_Transitd\<close>: the process around them, \<open>dmn/trn_transitd.c\<close>.
  \<^item> \<open>Arion_MapDefs\<close>: \<open>xdp/trn_transit_xdp_maps.h\<close>, the map declarations of \<open>extern/bpf_helpers.h\<close>.
  \<^item> \<open>extern/cJSON.c\<close>, on values: \<open>Arion_Json\<close>, \<open>Arion_Json_Parse\<close> (accessors, parser), \<open>Arion_Json_Number\<close>
    (the text of doubles), \<open>Arion_Json_Print\<close> (printer and its buffer), \<open>Arion_Json_Minify\<close>, with
    \<open>Arion_Json_Props\<close> (safety), \<open>Arion_Json_Text\<close> and \<open>Arion_Json_Print_Props\<close> (what is printed, round trip).
  \<^item> \<open>extern/cJSON.c\<close>, on items in memory: \<open>Arion_Json_Heap\<close>, with \<open>Arion_Json_Heap_Props\<close> (trees in
    memory), \<open>Arion_Json_Edit\<close>, \<open>Arion_Json_Copy\<close>, \<open>Arion_Json_Compare\<close>, \<open>Arion_Json_Build\<close>, and the parser
    again in \<open>Arion_Json_Read\<close>, with its allocations and error paths.
  \<^item> \<open>Arion_Ketopt\<close>: \<open>extern/ketopt.h\<close>; \<open>Arion_Cli\<close>: \<open>cli\<close>, with \<open>Arion_Cli_Props\<close> (fields and
    batches) and \<open>Arion_Cli_Run\<close> (droplets, options, whole runs).

  \<^bold>\<open>State and effects.\<close> A packet is a byte list, a pointer into it an offset; a step of an XDP
  program is \<open>None\<close> when the C code would leave the packet. The daemon's state is the record
  \<open>daemon\<close> (map registry, metadata of the loaded objects, state of the kernel), passed
  explicitly. Error codes are the integers of the source. In the client \<open>None\<close> is undefined
  behaviour, and a sum tells an early return from a value. The printer's buffer is a list of bytes
  that may be unwritten, and so is the local array a number is copied into before \<open>strtod\<close>;
  the allocator decides each request by its number and its size, so it may refuse any of them; the item memory maps addresses to items and texts, \<open>None\<close> is a bad access or a
  double free, and addresses are not used again. The daemon process interleaves its
  two threads, requests and signals as a step relation, in which a request whose handler leaves its
  memory ends the process (\<open>Overran\<close>).

  \<^bold>\<open>What is a parameter.\<close> The kernel's side of the data path (map lookups, tail calls, redirects:
  \<open>xdp_env\<close>), the BPF system calls and libbpf (\<open>map_kernel\<close>, \<open>kernel\<close>) with their documented laws as
  hypotheses (\<open>map_law\<close>, \<open>attach_law\<close>, \<open>jmp_table_law\<close>, \<open>lpm_law\<close>), the code in \<open>../common\<close> that \<open>cn_dpnd_usr.c\<close>
  includes and the repository does not have (\<open>cn_sys\<close>), and the stubs rpcgen generates
  (\<open>client\<close>). The demonstration instances (\<open>demo_env\<close>, \<open>demo_kernel\<close>, \<open>demo_sys\<close>, \<open>local_client\<close>)
  show that the hypotheses can be met.

  \<^bold>\<open>Interfaces.\<close> \<open>packet_step\<close> is the contract of the data path's functions (memory safety,
  verdicts, when bytes change), interpreted for each; \<open>map_image\<close> says when the bytes of keys and values give
  a table its laws, interpreted for endpoints and rules; \<open>kv_table\<close> is what the handlers rely on in
  the daemon's tables, interpreted for endpoints, rules, security groups and port ranges;
  \<open>value_reader\<close> is what a container parser of cJSON relies on in the parser of its elements,
  interpreted for \<open>parse_value\<close>, and \<open>item_filler\<close> the same for the parser that fills items; \<open>rpc_transport\<close> is what the client relies on in the RPC
  layer.

  \<^bold>\<open>What the lemmas show.\<close> Data path: memory safety for every packet, the exact relation of packets
  to transmitted packets, refinement of an abstract forwarding hop, ARP answers, isolation of
  tenants, IP headers that pass the receiver's check, which \<open>ipv4_csum_ok\<close> states on its own as the
  end-around-carry sum of the ten words on the wire. Security groups: when the check passes, and what it ignores.
  Daemon: batches, round trips and deletes of endpoints, what a load installs when it succeeds and leaves behind when it fails, the sharing of
  maps, an invariant of all reachable states, which interfaces a droplet can
  be on, and how the process starts and ends. Compute node: requests are queued exactly for
  valid trailers, and a packet with the trailer of the gateway makes one that names where it came from. JSON: the parser is total and safe on
  every text and inverts printing; with its memory it returns the tree of the value or leaves nothing
  behind; finite doubles print as numbers of JSON's grammar and survive their text, infinities print as
  \<open>null\<close>; the printer stays in its memory for every
  behaviour of the allocator; minifying the formatted text gives the unformatted one; edits of containers
  in memory are list operations; copies, new members and new arrays are complete or leave nothing
  behind; comparison decides equality of values. Client: requests are what the JSON says, limits hold, and the
  composition of this theory: a command that exits with success is what packets meet.

  \<^bold>\<open>Fuel.\<close> \<open>parse_value\<close> takes the depth of recursion as fuel and is run with
  \<open>CJSON_NESTING_LIMIT + 1\<close>, the loops of its containers with the length of the text: each
  iteration consumes a character (\<open>parse_value_safe\<close>, \<open>array_loop_safe\<close>). \<open>cJSON_Duplicate\<close> needs twice the
  number of items and one, \<open>compare_items\<close> the sum of both and one: the bounds are in
  \<open>cJSON_Duplicate_copies\<close> and \<open>cJSON_Compare_decides\<close>. The other loops are
  structural or have a termination proof; \<open>ketopt_decreases\<close> is the measure of the option loops.

  \<^bold>\<open>Not modelled.\<close> Code that is not compiled (\<open>turnOn\<close>, \<open>connTrack\<close>, \<open>cnOn\<close>, \<open>#if 0\<close>); logging and
  messages; allocation failure in the client; the sign of zero and NaN in cJSON;
  declarations without code (the kernel helpers of \<open>extern/bpf_helpers.h\<close>, prototypes of the headers); the
  tests; and \<open>mgmt\<close>, which is not C.
\<close>

section \<open>From the control plane to the wire\<close>

text \<open>
  The gateway's program and the daemon work on one kernel map: the daemon through the
  descriptor its registry holds, the program through its own \<open>endpoints_map\<close>.
\<close>

definition shares_endpoints :: "('s, 'z) kernel_scheme \<Rightarrow> 's daemon \<Rightarrow> xdp_env \<Rightarrow> bool" where
  "shares_endpoints K st E \<longleftrightarrow> endpoints_map E = endpoint_at K st"

text \<open>
  An IP packet for \<open>ip\<close> in network \<open>vni\<close> that an interface accepts and the security groups let
  through, with its inner frame at \<open>ie\<close>.
\<close>

definition deliverable :: "xdp_env \<Rightarrow> tunnel_iface_t \<Rightarrow> bytes \<Rightarrow> nat \<Rightarrow> endpoint_key_t \<Rightarrow> bool" where
  "deliverable E itf b ie k \<longleftrightarrow> outer_accepted itf b \<and> inner_offset itf b = Some ie \<and>
     get16 b (ie + 12) = bpf_htons ETH_P_IP \<and> ie + 34 \<le> length b \<and>
     sg_passes E (vni_at b 46) b (ie + 14) \<and> k = \<lparr>ek_vni = vni_at b 46, ek_ip = get32 b (ie + 30)\<rparr>"

definition gateway_ready :: "xdp_env \<Rightarrow> xdp_md \<Rightarrow> tunnel_iface_t \<Rightarrow> bool" where
  "gateway_ready E ctx itf \<longleftrightarrow> if_config_map E (ingress_ifindex ctx) = Some itf \<and>
     tunnel_iface_ok itf \<and> stages_ok E \<and> xdpcap_transparent E"

text \<open>The running example: the tenant of the demonstration gateway, programmed over RPC.\<close>

definition demo_key :: endpoint_key_t where
  "demo_key = \<lparr>ek_vni = 7, ek_ip = le32 (le16 192 168) (le16 0 3)\<rparr>"

definition demo_shared_env :: "demo_kern daemon \<Rightarrow> xdp_env" where
  "demo_shared_env st = demo_env\<lparr>endpoints_map := endpoint_at demo_kernel st\<rparr>"

lemma demo_shared:
  "shares_endpoints demo_kernel st (demo_shared_env st)"
  "gateway_ready (demo_shared_env st) (demo_ctx demo_packet) demo_itf"
  "deliverable (demo_shared_env st) demo_itf demo_packet 50 demo_key"
  using demo_env_ok demo_sg demo_outer_accepted demo_inner_offset demo_fields demo_length
  by (simp_all add: shares_endpoints_def demo_shared_env_def gateway_ready_def deliverable_def
      stages_ok_def xdpcap_transparent_def sg_passes_def demo_env_def demo_ctx_def demo_key_def)

lemma demo_program: "\<exists>st'. update_ep_1_svc demo_kernel [rpc_of_xdp_ep demo_key demo_ep] demo_daemon = (0, st')"
  by (simp add: update_ep_1_svc_def demo_daemon_def trn_update_endpoints_get_ctx_def trn_update_endpoint_def
      demo_kernel_def table_ops_def trn_transit_map_get_fd_def trn_xdp_bpfmaps_def)

text \<open>
  What the control plane programs is what the data plane does. After the daemon answered
  an update batch with success, a packet for an endpoint of the batch leaves the gateway for
  the host the batch gave (its last entry for the endpoint), whatever the table held before.
\<close>

theorem programmed_endpoint_is_reached:
  assumes "map_law (k_endpoints K)" "update_ep_1_svc K batch st = (0, st')"
    "batch_map batch k = Some ep" "shares_endpoints K st' E" "gateway_ready E ctx itf"
    "deliverable E itf (ctx_data ctx) ie k"
  shows "\<exists>d. transit E n ctx = Some (XDP_TX, d) \<and>
    vpacket_of d ie = forward_to ep (vpacket_of (ctx_data ctx) ie) \<and> ipv4_csum_ok d 14"
proof -
  have "endpoints_map E k = Some ep"
    using update_ep_ok [OF assms(1,2), of k] assms(3,4) by (simp add: shares_endpoints_def)
  then show ?thesis
    using transit_hop [of E ctx itf ie ep n] assms(5,6)
    by (auto simp: gateway_ready_def deliverable_def)
qed

theorem programmed_endpoint_is_reached_witness:
  "\<exists>st'. update_ep_1_svc demo_kernel [rpc_of_xdp_ep demo_key demo_ep] demo_daemon = (0, st') \<and>
    (\<exists>d. transit (demo_shared_env st') 1 (demo_ctx demo_packet) = Some (XDP_TX, d) \<and>
      vpacket_of d 50 = forward_to demo_ep (vpacket_of demo_packet 50) \<and> ipv4_csum_ok d 14)"
proof -
  obtain st' where u: "update_ep_1_svc demo_kernel [rpc_of_xdp_ep demo_key demo_ep] demo_daemon = (0, st')"
    using demo_program by blast
  have "batch_map [rpc_of_xdp_ep demo_key demo_ep] demo_key = Some demo_ep" by (simp add: batch_map_def)
  from programmed_endpoint_is_reached [OF demo_laws(1) u this demo_shared(1,2), of 50 1] demo_shared(3) u
  show ?thesis by (simp add: demo_ctx_def)
qed

text \<open>
  A deleted endpoint is cut off at once. After the daemon answered a delete with success,
  a packet for the endpoint is not transmitted: it goes unchanged to the control agent's
  socket, or is dropped.
\<close>

theorem deleted_endpoint_is_unreachable:
  assumes "map_law (k_endpoints K)" "delete_ep_1_svc K rk st = (0, st')"
    "shares_endpoints K st' E" "gateway_ready E ctx itf"
    "deliverable E itf (ctx_data ctx) ie (key_of_rpc rk)"
  shows "transit E n ctx =
    Some (if xsks_map E (rx_queue_index ctx) then redirect_xsk E (rx_queue_index ctx) else XDP_DROP,
      ctx_data ctx)"
proof -
  obtain q where d: "trn_delete_endpoint K (key_of_rpc rk) st = (q, st')" "q = 0"
    using assms(2) by (auto simp: delete_ep_1_svc_def split: prod.splits if_splits)
  then have "endpoints_map E (key_of_rpc rk) = None"
    using ep_tab.del_find [OF assms(1), of "key_of_rpc rk" st 0 st' "key_of_rpc rk"] assms(3)
    by (simp add: shares_endpoints_def endpoint_at_def)
  then show ?thesis
    using transit_unknown [of E ctx itf ie n] assms(4,5)
    by (auto simp: gateway_ready_def deliverable_def)
qed

theorem deleted_endpoint_is_unreachable_witness:
  "\<exists>st st'. delete_ep_1_svc demo_kernel \<lparr>rek_vni = 7, rek_ip = le32 (le16 192 168) (le16 0 3)\<rparr> st = (0, st') \<and>
    endpoint_at demo_kernel st demo_key = Some demo_ep \<and>
    transit (demo_shared_env st') 1 (demo_ctx demo_packet) = Some (XDP_DROP, demo_packet)"
proof -
  let ?k = "\<lparr>rek_vni = 7, rek_ip = le32 (le16 192 168) (le16 0 3)\<rparr>"
  obtain st where u: "update_ep_1_svc demo_kernel [rpc_of_xdp_ep demo_key demo_ep] demo_daemon = (0, st)"
    using demo_program by blast
  have b: "batch_map [rpc_of_xdp_ep demo_key demo_ep] demo_key = Some demo_ep" by (simp add: batch_map_def)
  have at: "endpoint_at demo_kernel st demo_key = Some demo_ep"
    using update_ep_ok [OF demo_laws(1) u, of demo_key] b by simp
  have key: "key_of_rpc ?k = demo_key" by (simp add: key_of_rpc_def demo_key_def)
  have ops: "bm_lookup (k_endpoints demo_kernel) fd k s = dk_eps s k"
    "bm_delete (k_endpoints demo_kernel) fd k s =
      (if dk_eps s k = None then (- 2, s) else (0, s\<lparr>dk_eps := (dk_eps s)(k := None)\<rparr>))" for fd k s
    by (simp_all add: demo_kernel_def table_ops_def)
  obtain st' where d: "delete_ep_1_svc demo_kernel ?k st = (0, st')"
    using at by (auto simp: delete_ep_1_svc_def key trn_delete_endpoint_def endpoint_at_def
        trn_get_endpoint_def Let_def ops split: if_splits option.splits)
  have "transit (demo_shared_env st') 1 (demo_ctx demo_packet) = Some (XDP_DROP, demo_packet)"
    using deleted_endpoint_is_unreachable [OF demo_laws(1) d demo_shared(1,2), of 50 1] demo_shared(3) key
    by (simp add: demo_ctx_def demo_shared_env_def demo_env_def)
  with d at show ?thesis by blast
qed

section \<open>From the command line to the wire\<close>

definition local_connection :: "('s, 'z) kernel_scheme \<Rightarrow> tunnel_iface_t \<Rightarrow> string \<Rightarrow> string \<Rightarrow> 's daemon client option" where
  "local_connection K stack server protocol = Some (local_client K stack)"

lemma batch_map_rpc: "batch_map (rpc_of_batch eps) = map_of (rev eps)"
proof -
  have "map xdp_ep_of_rpc (rpc_of_batch eps) = eps" by (induction eps) (auto simp: rpc_of_batch_def)
  then show ?thesis by (simp add: batch_map_def)
qed

text \<open>
  C4: the operator's command reaches the wire. When \<open>update-ep\<close> with the JSON text of a batch
  exits with success, over a transport that delivers, a packet for an endpoint of the batch
  leaves the gateway for the host its last entry names, with only the fields of that hop
  changed and a valid IP checksum, whatever the table held before.
\<close>

theorem operator_update_reaches_wire:
  assumes "map_law (k_endpoints K)" "length eps < 2 ^ 32"
    "cli_main fs (local_connection K stack) [prog, ''update-ep'', ''-j'', json_text (json_of_batch eps)] st = Some (Return 0, st')"
    "map_of (rev eps) k = Some ep" "shares_endpoints K st' E" "gateway_ready E ctx itf"
    "deliverable E itf (ctx_data ctx) ie k"
  shows "\<exists>d. transit E n ctx = Some (XDP_TX, d) \<and>
    vpacket_of d ie = forward_to ep (vpacket_of (ctx_data ctx) ie) \<and> ipv4_csum_ok d 14"
proof -
  have "update_ep_1_svc K (rpc_of_batch eps) st = (0, st')"
    using assms(3) unfolding local_connection_def [abs_def] run_update_ep [OF assms(2)]
    by (auto split: if_splits prod.splits)
  from programmed_endpoint_is_reached [OF assms(1) this _ assms(5-7)] assms(4)
  show ?thesis by (simp add: batch_map_rpc)
qed

definition demo_batch :: "(endpoint_key_t \<times> endpoint_t) list" where
  "demo_batch = [(demo_key, demo_ep)]"

lemma demo_cli_update:
  "\<exists>st'. cli_main Map.empty (local_connection demo_kernel demo_stack)
    [''trn_cli'', ''update-ep'', ''-j'', json_text (json_of_batch demo_batch)] demo_daemon = Some (Return 0, st')"
  using demo_program unfolding local_connection_def [abs_def]
  by (auto simp: run_update_ep demo_batch_def rpc_of_batch_def TRAN_MAX_EP_BATCH_SIZE_def)

theorem operator_update_reaches_wire_witness:
  "\<exists>st' d. cli_main Map.empty (local_connection demo_kernel demo_stack)
      [''trn_cli'', ''update-ep'', ''-j'', json_text (json_of_batch demo_batch)] demo_daemon = Some (Return 0, st') \<and>
    transit (demo_shared_env st') 1 (demo_ctx demo_packet) = Some (XDP_TX, d) \<and>
    vpacket_of d 50 = forward_to demo_ep (vpacket_of demo_packet 50)"
proof -
  obtain st' where c: "cli_main Map.empty (local_connection demo_kernel demo_stack)
      [''trn_cli'', ''update-ep'', ''-j'', json_text (json_of_batch demo_batch)] demo_daemon = Some (Return 0, st')"
    using demo_cli_update by blast
  have "length demo_batch < 2 ^ 32" "map_of (rev demo_batch) demo_key = Some demo_ep" by (simp_all add: demo_batch_def)
  from operator_update_reaches_wire [OF demo_laws(1) this(1) c this(2) demo_shared(1,2), of 50 1] demo_shared(3) c
  show ?thesis by (auto simp: demo_ctx_def)
qed

text \<open>
  C5: the operator's delete reaches the wire. When \<open>delete-ep\<close> with a VNI and a dotted address
  exits with success, packets for that endpoint are no longer transmitted.
\<close>

theorem operator_delete_reaches_wire:
  assumes "map_law (k_endpoints K)"
    "cli_main fs (local_connection K stack) [prog, ''delete-ep'', ''-j'', json_text (json_of_key k)] st = Some (Return 0, st')"
    "shares_endpoints K st' E" "gateway_ready E ctx itf" "deliverable E itf (ctx_data ctx) ie k"
  shows "transit E n ctx =
    Some (if xsks_map E (rx_queue_index ctx) then redirect_xsk E (rx_queue_index ctx) else XDP_DROP,
      ctx_data ctx)"
proof -
  have d: "delete_ep_1_svc K \<lparr>rek_vni = ek_vni k, rek_ip = ek_ip k\<rparr> st = (0, st')"
    using assms(2) unfolding local_connection_def [abs_def] run_delete_ep by (auto split: if_splits prod.splits)
  have "key_of_rpc \<lparr>rek_vni = ek_vni k, rek_ip = ek_ip k\<rparr> = k" by (simp add: key_of_rpc_def)
  with deleted_endpoint_is_unreachable [OF assms(1) d assms(3,4)] assms(5) show ?thesis by metis
qed

theorem operator_delete_reaches_wire_witness:
  "\<exists>st st'. cli_main Map.empty (local_connection demo_kernel demo_stack)
      [''trn_cli'', ''delete-ep'', ''-j'', json_text (json_of_key demo_key)] st = Some (Return 0, st') \<and>
    endpoint_at demo_kernel st demo_key = Some demo_ep \<and>
    transit (demo_shared_env st') 1 (demo_ctx demo_packet) = Some (XDP_DROP, demo_packet)"
proof -
  have k: "\<lparr>rek_vni = 7, rek_ip = le32 (le16 192 168) (le16 0 3)\<rparr> = \<lparr>rek_vni = ek_vni demo_key, rek_ip = ek_ip demo_key\<rparr>"
    by (simp add: demo_key_def)
  obtain st st' where s: "delete_ep_1_svc demo_kernel \<lparr>rek_vni = ek_vni demo_key, rek_ip = ek_ip demo_key\<rparr> st = (0, st')"
    "endpoint_at demo_kernel st demo_key = Some demo_ep"
    using deleted_endpoint_is_unreachable_witness unfolding k by blast
  have c: "cli_main Map.empty (local_connection demo_kernel demo_stack)
      [''trn_cli'', ''delete-ep'', ''-j'', json_text (json_of_key demo_key)] st = Some (Return 0, st')"
    using s(1) unfolding local_connection_def [abs_def] run_delete_ep by simp
  have "transit (demo_shared_env st') 1 (demo_ctx demo_packet) = Some (XDP_DROP, demo_packet)"
    using operator_delete_reaches_wire [OF demo_laws(1) c demo_shared(1,2), of 50 1] demo_shared(3)
    by (simp add: demo_ctx_def demo_shared_env_def demo_env_def)
  with s(2) c show ?thesis by blast
qed

end
